(* ===== verification/Prelude.thy ===== *)
theory Prelude
  imports Main "HOL-Library.Word" "HOL-Library.Multiset"
    "HOL-Library.Char_ord" "HOL-Library.List_Lexorder"
begin

text \<open>
  Shared vocabulary of the development: the Rust result type with its panic outcome, the
  fixed-width integers, the \<^verbatim>\<open>Vec\<close>, \<^verbatim>\<open>slice\<close> and \<^verbatim>\<open>str\<close> operations the sources call, and
  the generic facts about them that the component theories use.

  Integers. \<^verbatim>\<open>u8\<close>, \<^verbatim>\<open>u32\<close> and \<^verbatim>\<open>u64\<close> are words of that width; the arithmetic of the shipped
  builds (the profiles \<^verbatim>\<open>release\<close> and \<^verbatim>\<open>server-release\<close> of \<^verbatim>\<open>src/Cargo.toml\<close>, which do not
  enable overflow checks) wraps around, and so does word arithmetic. \<^verbatim>\<open>usize\<close> only ever
  counts elements of vectors that are in memory and is modelled by \<open>nat\<close>.
\<close>

named_theorems rust_simps \<open>characteristic equations of the Rust library operations\<close>
named_theorems rust_len \<open>lengths of the results of the Rust library operations\<close>

subsection \<open>Types\<close>

type_synonym u8 = "8 word"
type_synonym u32 = "32 word"
type_synonym u64 = "64 word"
type_synonym usize = nat

text \<open>The outcome of a fallible call: a value, an error value, or a panic.\<close>

datatype ('a, 'e) rust_result = Ok 'a | Err 'e | Panic

fun is_ok :: "('a, 'e) rust_result \<Rightarrow> bool" where
  "is_ok (Ok x) = True"
| "is_ok (Err e) = False"
| "is_ok Panic = False"

lemma is_ok_iff: "is_ok r \<longleftrightarrow> (\<exists>x. r = Ok x)"
  by (cases r) auto

subsection \<open>Vectors\<close>

text \<open>\<^verbatim>\<open>Vec::get\<close>: a checked read; an unchecked read panics exactly where this is \<open>None\<close>.\<close>

definition vec_get :: "'a list \<Rightarrow> nat \<Rightarrow> 'a option" where
  "vec_get xs i = (if i < length xs then Some (xs ! i) else None)"

text \<open>\<^verbatim>\<open>Vec::remove\<close> at an index that is in range.\<close>

definition vec_remove :: "nat \<Rightarrow> 'a list \<Rightarrow> 'a list" where
  "vec_remove i xs = take i xs @ drop (Suc i) xs"

text \<open>\<^verbatim>\<open>Vec::resize\<close>.\<close>

definition vec_resize :: "nat \<Rightarrow> 'a \<Rightarrow> 'a list \<Rightarrow> 'a list" where
  "vec_resize n v xs = take n xs @ replicate (n - length xs) v"

text \<open>\<^verbatim>\<open>Vec::pop\<close> on a non-empty vector: the last element and what is left.\<close>

definition vec_pop :: "'a list \<Rightarrow> ('a \<times> 'a list) option" where
  "vec_pop xs = (if xs = [] then None else Some (last xs, butlast xs))"

text \<open>\<^verbatim>\<open>Iterator::position\<close>.\<close>

fun position :: "('a \<Rightarrow> bool) \<Rightarrow> 'a list \<Rightarrow> nat option" where
  "position P [] = None"
| "position P (x # xs) = (if P x then Some 0 else map_option Suc (position P xs))"

text \<open>\<^verbatim>\<open>Iterator::all\<close> with a closure that owns mutable state and may panic (\<open>None\<close>).\<close>

fun all_with_state :: "('s \<Rightarrow> 'a \<Rightarrow> (bool \<times> 's) option) \<Rightarrow> 's \<Rightarrow> 'a list \<Rightarrow> (bool \<times> 's) option" where
  "all_with_state f s [] = Some (True, s)"
| "all_with_state f s (x # xs) =
     (case f s x of
        None \<Rightarrow> None
      | Some (b, s') \<Rightarrow> if b then all_with_state f s' xs else Some (False, s'))"

lemma vec_get_Some [rust_simps]: "vec_get xs i = Some x \<longleftrightarrow> i < length xs \<and> x = xs ! i"
  by (auto simp: vec_get_def)

lemma vec_get_None [rust_simps]: "vec_get xs i = None \<longleftrightarrow> length xs \<le> i"
  by (auto simp: vec_get_def)

lemma vec_get_in_range [simp]: "i < length xs \<Longrightarrow> vec_get xs i = Some (xs ! i)"
  by (simp add: vec_get_def)

lemma length_vec_remove [rust_len]: "i < length xs \<Longrightarrow> length (vec_remove i xs) = length xs - 1"
  by (simp add: vec_remove_def)

lemma length_vec_resize [rust_len]: "length (vec_resize n v xs) = n"
  by (simp add: vec_resize_def)

lemma vec_resize_same [simp]: "length xs = n \<Longrightarrow> vec_resize n v xs = xs"
  by (simp add: vec_resize_def)

lemma mset_vec_remove:
  assumes "i < length xs"
  shows "add_mset (xs ! i) (mset (vec_remove i xs)) = mset xs"
proof -
  have "mset xs = mset (take i xs @ xs ! i # drop (Suc i) xs)"
    using id_take_nth_drop [OF assms] by simp
  then show ?thesis by (simp add: vec_remove_def)
qed

lemma vec_remove_nth_below: "j < i \<Longrightarrow> i < length xs \<Longrightarrow> vec_remove i xs ! j = xs ! j"
  by (simp add: vec_remove_def nth_append)

lemma vec_remove_nths: "i < length xs \<Longrightarrow> vec_remove i xs = nths xs (- {i})"
proof -
  assume i: "i < length xs"
  have "nths xs (- {i}) = nths (take i xs @ xs ! i # drop (Suc i) xs) (- {i})"
    using id_take_nth_drop [OF i] by simp
  also have "\<dots> = nths (take i xs) (- {i}) @ nths (drop (Suc i) xs) UNIV"
    using i by (simp add: nths_append nths_Cons Compl_eq)
  also have "nths (take i xs) (- {i}) = take i xs"
    using i by (intro nths_all) auto
  finally show ?thesis by (simp add: vec_remove_def nths_all)
qed

lemma nths_vec_remove:
  assumes "i < length xs" and "\<forall>j\<in>J. j < i"
  shows "nths (vec_remove i xs) (- J) = nths xs (- insert i J)"
proof -
  have split: "xs = take i xs @ xs ! i # drop (Suc i) xs" using id_take_nth_drop [OF assms(1)] .
  have out: "\<And>j. j + i \<notin> J" "\<And>j. Suc (j + i) \<notin> J" using assms(2) by fastforce+
  have "nths xs (- insert i J) = nths (take i xs @ xs ! i # drop (Suc i) xs) (- insert i J)"
    using split by simp
  also have "\<dots> = nths (take i xs) (- insert i J) @ drop (Suc i) xs"
    using assms out by (simp add: nths_append nths_Cons nths_all)
  also have "nths (take i xs) (- insert i J) = nths (take i xs) (- J)"
    using assms by (auto simp: nths_def intro!: arg_cong [where f = "map fst"] filter_cong dest: set_zip_rightD)
  finally show ?thesis
    using assms out by (simp add: vec_remove_def nths_append nths_all)
qed

lemma vec_pop_Some [rust_simps]: "vec_pop xs = Some (x, ys) \<longleftrightarrow> xs = ys @ [x]"
  by (auto simp: vec_pop_def)

lemma vec_pop_None [rust_simps]: "vec_pop xs = None \<longleftrightarrow> xs = []"
  by (simp add: vec_pop_def)

lemma vec_pop_Nil [simp]: "vec_pop [] = None"
  by (simp add: vec_pop_def)

lemma vec_pop_snoc [simp]: "vec_pop (xs @ [x]) = Some (x, xs)"
  by (simp add: vec_pop_def)

lemma position_Some:
  "position P xs = Some i \<Longrightarrow> i < length xs \<and> P (xs ! i) \<and> (\<forall>j<i. \<not> P (xs ! j))"
proof (induction xs arbitrary: i)
  case Nil
  then show ?case by simp
next
  case (Cons x xs)
  show ?case
  proof (cases "P x")
    case True
    with Cons.prems show ?thesis by simp
  next
    case False
    with Cons.prems obtain k where k: "position P xs = Some k" "i = Suc k" by auto
    from Cons.IH [OF k(1)] False k(2) show ?thesis
      by (auto simp: less_Suc_eq_0_disj)
  qed
qed

lemma position_None [rust_simps]: "position P xs = None \<longleftrightarrow> (\<forall>x\<in>set xs. \<not> P x)"
  by (induction xs) auto

lemma position_Some_least:
  assumes "i < length xs" and "P (xs ! i)" and "\<And>j. j < i \<Longrightarrow> \<not> P (xs ! j)"
  shows "position P xs = Some i"
proof (cases "position P xs")
  case None
  with assms(1,2) show ?thesis by (auto simp: position_None)
next
  case (Some k)
  from position_Some [OF Some] assms have "\<not> k < i" "\<not> i < k" by auto
  with Some show ?thesis by simp
qed

subsection \<open>Multisets of nested vectors\<close>

lemma mset_concat_update:
  assumes "i < length xss"
  shows "mset (concat (xss[i := ys])) + mset (xss ! i) = mset (concat xss) + mset ys"
  using assms
proof (induction xss arbitrary: i)
  case Nil
  then show ?case by simp
next
  case (Cons xs xss)
  then show ?case by (cases i) auto
qed

lemma mset_map_nth_permutation:
  assumes "mset p = mset [0..<length xs]"
  shows "mset (map ((!) xs) p) = mset xs"
proof -
  have "mset (map ((!) xs) p) = image_mset ((!) xs) (mset [0..<length xs])"
    using assms by simp
  also have "\<dots> = mset (map ((!) xs) [0..<length xs])" by simp
  also have "\<dots> = mset xs" by (simp add: map_nth)
  finally show ?thesis .
qed

lemma mset_nths_split: "mset (nths xs C) + mset (nths xs (- C)) = mset xs"
proof (induction xs rule: rev_induct)
  case Nil
  then show ?case by simp
next
  case (snoc x xs)
  then show ?case by (auto simp: nths_append nths_Cons)
qed

lemma nths_sorted_indices: "C \<subseteq> {..<length xs} \<Longrightarrow> map ((!) xs) (sorted_list_of_set C) = nths xs C"
proof (induction xs arbitrary: C rule: rev_induct)
  case Nil
  then show ?case by simp
next
  case (snoc x xs)
  have fin: "finite C" using snoc.prems finite_subset by blast
  let ?D = "C - {length xs}"
  have D: "?D \<subseteq> {..<length xs}" using snoc.prems by (auto simp: less_Suc_eq)
  have "map ((!) (xs @ [x])) (sorted_list_of_set ?D) = map ((!) xs) (sorted_list_of_set ?D)"
    using D fin by (intro map_cong) (auto simp: nth_append)
  with snoc.IH [OF D] have old: "map ((!) (xs @ [x])) (sorted_list_of_set ?D) = nths xs ?D" by simp
  have same: "nths xs ?D = nths xs C"
    by (auto simp: nths_def intro!: arg_cong [where f = "map fst"] filter_cong dest: set_zip_rightD)
  show ?case
  proof (cases "length xs \<in> C")
    case True
    have "sorted_list_of_set C = sorted_list_of_set ?D @ [length xs]"
    proof (rule sorted_distinct_set_unique)
      show "sorted (sorted_list_of_set ?D @ [length xs])" using D fin by (auto simp: sorted_append)
      show "set (sorted_list_of_set C) = set (sorted_list_of_set ?D @ [length xs])" using True fin by auto
    qed (use fin in auto)
    with old same True show ?thesis by (simp add: nths_append nths_Cons)
  next
    case False
    then have "?D = C" by auto
    with old False show ?thesis by (simp add: nths_append nths_Cons)
  qed
qed

subsection \<open>Fixed-width arithmetic\<close>

text \<open>\<^verbatim>\<open>usize as u8\<close>, \<^verbatim>\<open>saturating_sub\<close> and \<^verbatim>\<open>div_ceil\<close> on \<^verbatim>\<open>u8\<close>.\<close>

definition as_u8 :: "nat \<Rightarrow> u8" where
  "as_u8 n = of_nat n"

definition saturating_sub :: "'n::len word \<Rightarrow> 'n word \<Rightarrow> 'n word" where
  "saturating_sub a b = (if b \<le> a then a - b else 0)"

definition div_ceil :: "u8 \<Rightarrow> u8 \<Rightarrow> u8 option" where
  "div_ceil a b = (if b = 0 then None else Some (if a mod b = 0 then a div b else a div b + 1))"

lemma unat_as_u8: "unat (as_u8 n) = n mod 256"
  by (simp add: as_u8_def unat_of_nat)

lemma unat_as_u8_small [simp]: "n < 256 \<Longrightarrow> unat (as_u8 n) = n"
  by (simp add: unat_as_u8)

lemma as_u8_unat [simp]: "as_u8 (unat w) = w"
  by (simp add: as_u8_def)

lemma unat_as_u8_le: "unat (as_u8 n) \<le> n"
  by (simp add: unat_as_u8)

lemma unat_u8_bound [simp]: "unat (w :: u8) < 256"
  using unsigned_less [of w] by simp

lemma less_as_u8_in_range: "w < as_u8 n \<Longrightarrow> unat w < n"
  using unat_as_u8_le [of n] by (simp add: word_less_nat_alt)

lemma unat_saturating_sub: "unat (saturating_sub a b) = unat a - unat b"
  by (auto simp: saturating_sub_def unat_sub word_le_nat_alt)

subsection \<open>Strings\<close>

text \<open>Decimal rendering of \<^verbatim>\<open>format!("{n}")\<close>.\<close>

fun show_nat :: "nat \<Rightarrow> string" where
  "show_nat n = (if n < 10 then [char_of (48 + n)] else show_nat (n div 10) @ [char_of (48 + n mod 10)])"

declare show_nat.simps [simp del]

definition show_u8 :: "u8 \<Rightarrow> string" where
  "show_u8 w = show_nat (unat w)"

text \<open>\<^verbatim>\<open>u8::to_ascii_lowercase\<close> on one byte and \<^verbatim>\<open>str::eq_ignore_ascii_case\<close>.\<close>

definition ascii_lower :: "char \<Rightarrow> char" where
  "ascii_lower c = (let k = (of_char c :: nat) in if 65 \<le> k \<and> k \<le> 90 then char_of (k + 32) else c)"

definition eq_ignore_ascii_case :: "string \<Rightarrow> string \<Rightarrow> bool" where
  "eq_ignore_ascii_case a b \<longleftrightarrow> map ascii_lower a = map ascii_lower b"

text \<open>\<^verbatim>\<open>[String]::join\<close>.\<close>

fun join_with :: "string \<Rightarrow> string list \<Rightarrow> string" where
  "join_with sep [] = []"
| "join_with sep [x] = x"
| "join_with sep (x # y # ys) = x @ sep @ join_with sep (y # ys)"

lemma eq_ignore_ascii_case_refl [simp]: "eq_ignore_ascii_case a a"
  by (simp add: eq_ignore_ascii_case_def)

lemma eq_ignore_ascii_case_sym: "eq_ignore_ascii_case a b \<longleftrightarrow> eq_ignore_ascii_case b a"
  by (auto simp: eq_ignore_ascii_case_def)

lemma eq_ignore_ascii_case_trans:
  "eq_ignore_ascii_case a b \<Longrightarrow> eq_ignore_ascii_case b c \<Longrightarrow> eq_ignore_ascii_case a c"
  by (simp add: eq_ignore_ascii_case_def)

text \<open>Reading the decimal rendering back: it is injective.\<close>

definition digit_value :: "char \<Rightarrow> nat" where
  "digit_value c = of_char c - 48"

definition read_nat :: "string \<Rightarrow> nat" where
  "read_nat s = foldl (\<lambda>n c. 10 * n + digit_value c) 0 s"

lemma digit_value_char_of: "n < 10 \<Longrightarrow> digit_value (char_of (48 + n)) = n"
  by (simp add: digit_value_def)

lemma read_show_nat: "read_nat (show_nat n) = n"
proof (induction n rule: show_nat.induct)
  case (1 n)
  show ?case
  proof (cases "n < 10")
    case True
    then show ?thesis
      by (simp add: show_nat.simps [of n] read_nat_def digit_value_char_of)
  next
    case False
    with "1.IH" have "read_nat (show_nat (n div 10)) = n div 10" by simp
    with False show ?thesis
      by (simp add: show_nat.simps [of n] read_nat_def digit_value_char_of)
  qed
qed

lemma show_nat_inject [simp]: "show_nat m = show_nat n \<longleftrightarrow> m = n"
  by (metis read_show_nat)

lemma show_nat_digits: "c \<in> set (show_nat n) \<Longrightarrow> 48 \<le> (of_char c :: nat) \<and> (of_char c :: nat) \<le> 57"
proof (induction n rule: show_nat.induct)
  case (1 n)
  have digit: "48 \<le> (of_char (char_of (48 + d)) :: nat) \<and> (of_char (char_of (48 + d)) :: nat) \<le> 57"
    if "d < 10" for d :: nat
    using that by simp
  show ?case
  proof (cases "n < 10")
    case True
    with "1.prems" digit [of n] show ?thesis by (auto simp: show_nat.simps [of n])
  next
    case False
    with "1.prems" have "c \<in> set (show_nat (n div 10)) \<or> c = char_of (48 + n mod 10)"
      by (auto simp: show_nat.simps [of n])
    with False "1.IH" digit [of "n mod 10"] show ?thesis by auto
  qed
qed

subsection \<open>Runs of a transition function\<close>

text \<open>Accepted actions one after the other; a refused action ends the run with \<open>None\<close>.\<close>

fun run_steps :: "('s \<Rightarrow> 'a \<Rightarrow> 's option) \<Rightarrow> 's \<Rightarrow> 'a list \<Rightarrow> 's option" where
  "run_steps step s [] = Some s"
| "run_steps step s (a # as) = (case step s a of None \<Rightarrow> None | Some s' \<Rightarrow> run_steps step s' as)"

text \<open>A run in which every action is the one that a policy picks.\<close>

fun driven :: "('s \<Rightarrow> 'a \<Rightarrow> 's option) \<Rightarrow> ('s \<Rightarrow> 'a) \<Rightarrow> 's \<Rightarrow> 'a list \<Rightarrow> bool" where
  "driven step drive s [] = True"
| "driven step drive s (a # as) = (a = drive s \<and> (case step s a of None \<Rightarrow> False | Some s' \<Rightarrow> driven step drive s' as))"

text \<open>
  A turn engine: from every invariant state that is not over some action is accepted, and every
  accepted action keeps the invariant and spends potential. Such an engine cannot run forever and
  cannot get stuck before it is over.
\<close>

locale turn_engine =
  fixes step :: "'s \<Rightarrow> 'a \<Rightarrow> 's option"
    and inv :: "'s \<Rightarrow> bool"
    and over :: "'s \<Rightarrow> bool"
    and potential :: "'s \<Rightarrow> nat"
    and drive :: "'s \<Rightarrow> 'a"
  assumes step_inv: "inv s \<Longrightarrow> step s a = Some s' \<Longrightarrow> inv s'"
    and step_spends: "inv s \<Longrightarrow> step s a = Some s' \<Longrightarrow> potential s' < potential s"
    and drive_accepted: "inv s \<Longrightarrow> \<not> over s \<Longrightarrow> step s (drive s) \<noteq> None"
begin

lemma run_inv: "inv s \<Longrightarrow> run_steps step s as = Some s' \<Longrightarrow> inv s'"
  by (induction "as" arbitrary: s) (auto split: option.splits intro: step_inv)

lemma run_bounded:
  assumes "inv s" and "run_steps step s as = Some s'"
  shows "length as + potential s' \<le> potential s"
  using assms
proof (induction "as" arbitrary: s)
  case Nil
  then show ?case by simp
next
  case (Cons a "as")
  then obtain s1 where s1: "step s a = Some s1" "run_steps step s1 as = Some s'"
    by (auto split: option.splits)
  from Cons.IH [OF step_inv [OF Cons.prems(1) s1(1)] s1(2)] step_spends [OF Cons.prems(1) s1(1)]
  show ?case by simp
qed

lemma run_driven: "inv s \<Longrightarrow> \<exists>as s'. driven step drive s as \<and> run_steps step s as = Some s' \<and> over s'"
proof (induction "potential s" arbitrary: s rule: less_induct)
  case less
  show ?case
  proof (cases "over s")
    case True
    then show ?thesis by (intro exI [of _ "[]"]) simp
  next
    case False
    with drive_accepted less.prems obtain s1 where s1: "step s (drive s) = Some s1" by blast
    from less.hyps [OF step_spends step_inv] s1 less.prems
    obtain "as" s' where "driven step drive s1 as" "run_steps step s1 as = Some s'" "over s'" by blast
    with s1 show ?thesis by (intro exI [of _ "drive s # as"]) simp
  qed
qed

lemma run_completes: "inv s \<Longrightarrow> \<exists>as s'. run_steps step s as = Some s' \<and> over s'"
  using run_driven by blast

end

subsection \<open>Reducers\<close>

text \<open>
  A reducer that validates before it mutates: on invariant states it does not panic, a refused action
  leaves the state as it was, and every action keeps the invariant. Its history is then determined by
  the accepted actions alone.
\<close>

locale validating_reducer =
  fixes reduce :: "'s \<Rightarrow> 'a \<Rightarrow> 's \<times> ('d, 'e) rust_result"
    and rinv :: "'s \<Rightarrow> bool"
  assumes reduce_inv: "rinv s \<Longrightarrow> rinv (fst (reduce s a))"
    and reduce_total: "rinv s \<Longrightarrow> snd (reduce s a) \<noteq> Panic"
    and reduce_refused: "rinv s \<Longrightarrow> \<not> is_ok (snd (reduce s a)) \<Longrightarrow> fst (reduce s a) = s"
begin

definition play :: "'s \<Rightarrow> 'a list \<Rightarrow> 's" where
  "play s as = foldl (\<lambda>t a. fst (reduce t a)) s as"

lemma play_simps [simp]: "play s [] = s" "play s (a # as) = play (fst (reduce s a)) as"
  by (simp_all add: play_def)

lemma play_inv: "rinv s \<Longrightarrow> rinv (play s as)"
  by (induction "as" arbitrary: s) (simp_all add: reduce_inv)

lemma play_total: "rinv s \<Longrightarrow> snd (reduce (play s as) a) \<noteq> Panic"
  by (rule reduce_total [OF play_inv])

lemma replay: "rinv s \<Longrightarrow>
  \<exists>bs. set bs \<subseteq> set as \<and> length bs \<le> length as
    \<and> run_steps (\<lambda>t a. if is_ok (snd (reduce t a)) then Some (fst (reduce t a)) else None) s bs = Some (play s as)"
proof (induction "as" arbitrary: s)
  case Nil
  then show ?case by (intro exI [of _ "[]"]) simp
next
  case (Cons a "as")
  from Cons.IH [OF reduce_inv [OF Cons.prems, of a]] obtain bs where bs: "set bs \<subseteq> set as" "length bs \<le> length as"
    "run_steps (\<lambda>t a. if is_ok (snd (reduce t a)) then Some (fst (reduce t a)) else None) (fst (reduce s a)) bs = Some (play (fst (reduce s a)) as)"
    by blast
  show ?case
  proof (cases "is_ok (snd (reduce s a))")
    case True
    with bs show ?thesis by (intro exI [of _ "a # bs"]) auto
  next
    case False
    with bs reduce_refused [OF Cons.prems] show ?thesis by (intro exI [of _ bs]) auto
  qed
qed

end

text \<open>A reducer that moves a stock around without adding to it or taking from it.\<close>

locale conserving_reducer = validating_reducer reduce rinv
  for reduce :: "'s \<Rightarrow> 'a \<Rightarrow> 's \<times> ('d, 'e) rust_result" and rinv :: "'s \<Rightarrow> bool" +
  fixes stock :: "'s \<Rightarrow> 'q"
  assumes reduce_stock: "rinv s \<Longrightarrow> stock (fst (reduce s a)) = stock s"
begin

lemma play_stock: "rinv s \<Longrightarrow> stock (play s as) = stock s"
  by (induction "as" arbitrary: s) (simp_all add: reduce_inv reduce_stock)

end

end
