(* ===== verification/Mana_Cost.thy ===== *)
theory Mana_Cost
  imports Prelude
begin

text \<open>
  The mana vocabulary of the rules engine (\<^verbatim>\<open>src/crates/engine/src/types/mana.rs\<close>): colours and
  types of mana, the bit sets over them, the mana symbols a cost is made of and the arithmetic
  of mana costs. \<open>flag_set\<close> is the contract of the two bit-set newtypes; both interpret it.
\<close>

unbundle bit_operations_syntax

subsection \<open>Colours, types and sets of types\<close>

datatype mana_color = White | Blue | Black | Red | Green

definition ALL_colors :: "mana_color list" where
  "ALL_colors = [White, Blue, Black, Red, Green]"

fun color_from_str :: "string \<Rightarrow> (mana_color, unit) rust_result" where
  "color_from_str s =
     (if s = ''White'' then Ok White
      else if s = ''Blue'' then Ok Blue
      else if s = ''Black'' then Ok Black
      else if s = ''Red'' then Ok Red
      else if s = ''Green'' then Ok Green
      else Err ())"

datatype mana_type = TyWhite | TyBlue | TyBlack | TyRed | TyGreen | TyColorless

fun mana_type_of_color :: "mana_color \<Rightarrow> mana_type" where
  "mana_type_of_color White = TyWhite"
| "mana_type_of_color Blue = TyBlue"
| "mana_type_of_color Black = TyBlack"
| "mana_type_of_color Red = TyRed"
| "mana_type_of_color Green = TyGreen"

text \<open>The discriminants used by \<^verbatim>\<open>1 << mana_type as u8\<close> and \<^verbatim>\<open>1 << c as u8\<close>.\<close>

fun type_index :: "mana_type \<Rightarrow> nat" where
  "type_index TyWhite = 0"
| "type_index TyBlue = 1"
| "type_index TyBlack = 2"
| "type_index TyRed = 3"
| "type_index TyGreen = 4"
| "type_index TyColorless = 5"

fun color_index :: "mana_color \<Rightarrow> nat" where
  "color_index White = 0"
| "color_index Blue = 1"
| "color_index Black = 2"
| "color_index Red = 3"
| "color_index Green = 4"

datatype mana_type_set = ManaTypeSet (mts_bits: u8)

definition mts_EMPTY :: mana_type_set where
  "mts_EMPTY = ManaTypeSet 0"

definition mts_of :: "mana_type \<Rightarrow> mana_type_set" where
  "mts_of t = ManaTypeSet (push_bit (type_index t) 1)"

definition mts_with :: "mana_type_set \<Rightarrow> mana_type \<Rightarrow> mana_type_set" where
  "mts_with s t = ManaTypeSet (mts_bits s OR push_bit (type_index t) 1)"

definition mts_contains :: "mana_type_set \<Rightarrow> mana_type \<Rightarrow> bool" where
  "mts_contains s t \<longleftrightarrow> mts_bits s AND push_bit (type_index t) 1 \<noteq> 0"

definition mts_is_empty :: "mana_type_set \<Rightarrow> bool" where
  "mts_is_empty s \<longleftrightarrow> mts_bits s = 0"

definition mts_is_subset_of :: "mana_type_set \<Rightarrow> mana_type_set \<Rightarrow> bool" where
  "mts_is_subset_of s t \<longleftrightarrow> mts_bits s AND NOT (mts_bits t) = 0"

definition mts_from_iter :: "mana_type list \<Rightarrow> mana_type_set" where
  "mts_from_iter ts = foldl mts_with mts_EMPTY ts"

datatype life_payment_colors = LifePaymentColors (lpc_bits: u8)

definition lpc_EMPTY :: life_payment_colors where
  "lpc_EMPTY = LifePaymentColors 0"

definition lpc_contains :: "life_payment_colors \<Rightarrow> mana_color \<Rightarrow> bool" where
  "lpc_contains s c \<longleftrightarrow> lpc_bits s AND push_bit (color_index c) 1 \<noteq> 0"

definition lpc_insert :: "life_payment_colors \<Rightarrow> mana_color \<Rightarrow> life_payment_colors" where
  "lpc_insert s c = LifePaymentColors (lpc_bits s OR push_bit (color_index c) 1)"

definition lpc_is_empty :: "life_payment_colors \<Rightarrow> bool" where
  "lpc_is_empty s \<longleftrightarrow> lpc_bits s = 0"

definition lpc_from_iter :: "mana_color list \<Rightarrow> life_payment_colors" where
  "lpc_from_iter cs = foldl lpc_insert lpc_EMPTY cs"

subsection \<open>Mana symbols\<close>

datatype mana_cost_shard =
    ShWhite | ShBlue | ShBlack | ShRed | ShGreen | ShColorless | ShSnow | ShX |
    ShTwoOrMoreColorSource | ShWhiteBlue | ShWhiteBlack | ShBlueBlack | ShBlueRed |
    ShBlackRed | ShBlackGreen | ShRedWhite | ShRedGreen | ShGreenWhite | ShGreenBlue |
    ShTwoWhite | ShTwoBlue | ShTwoBlack | ShTwoRed | ShTwoGreen | ShPhyrexianWhite |
    ShPhyrexianBlue | ShPhyrexianBlack | ShPhyrexianRed | ShPhyrexianGreen |
    ShPhyrexianWhiteBlue | ShPhyrexianWhiteBlack | ShPhyrexianBlueBlack | ShPhyrexianBlueRed |
    ShPhyrexianBlackRed | ShPhyrexianBlackGreen | ShPhyrexianRedWhite | ShPhyrexianRedGreen |
    ShPhyrexianGreenWhite | ShPhyrexianGreenBlue | ShColorlessWhite | ShColorlessBlue |
    ShColorlessBlack | ShColorlessRed | ShColorlessGreen

fun shard_symbol :: "mana_cost_shard \<Rightarrow> string" where
  "shard_symbol ShWhite = ''W''"
| "shard_symbol ShBlue = ''U''"
| "shard_symbol ShBlack = ''B''"
| "shard_symbol ShRed = ''R''"
| "shard_symbol ShGreen = ''G''"
| "shard_symbol ShColorless = ''C''"
| "shard_symbol ShSnow = ''S''"
| "shard_symbol ShX = ''X''"
| "shard_symbol ShTwoOrMoreColorSource = ''Z''"
| "shard_symbol ShWhiteBlue = ''W/U''"
| "shard_symbol ShWhiteBlack = ''W/B''"
| "shard_symbol ShBlueBlack = ''U/B''"
| "shard_symbol ShBlueRed = ''U/R''"
| "shard_symbol ShBlackRed = ''B/R''"
| "shard_symbol ShBlackGreen = ''B/G''"
| "shard_symbol ShRedWhite = ''R/W''"
| "shard_symbol ShRedGreen = ''R/G''"
| "shard_symbol ShGreenWhite = ''G/W''"
| "shard_symbol ShGreenBlue = ''G/U''"
| "shard_symbol ShTwoWhite = ''2/W''"
| "shard_symbol ShTwoBlue = ''2/U''"
| "shard_symbol ShTwoBlack = ''2/B''"
| "shard_symbol ShTwoRed = ''2/R''"
| "shard_symbol ShTwoGreen = ''2/G''"
| "shard_symbol ShPhyrexianWhite = ''W/P''"
| "shard_symbol ShPhyrexianBlue = ''U/P''"
| "shard_symbol ShPhyrexianBlack = ''B/P''"
| "shard_symbol ShPhyrexianRed = ''R/P''"
| "shard_symbol ShPhyrexianGreen = ''G/P''"
| "shard_symbol ShPhyrexianWhiteBlue = ''W/U/P''"
| "shard_symbol ShPhyrexianWhiteBlack = ''W/B/P''"
| "shard_symbol ShPhyrexianBlueBlack = ''U/B/P''"
| "shard_symbol ShPhyrexianBlueRed = ''U/R/P''"
| "shard_symbol ShPhyrexianBlackRed = ''B/R/P''"
| "shard_symbol ShPhyrexianBlackGreen = ''B/G/P''"
| "shard_symbol ShPhyrexianRedWhite = ''R/W/P''"
| "shard_symbol ShPhyrexianRedGreen = ''R/G/P''"
| "shard_symbol ShPhyrexianGreenWhite = ''G/W/P''"
| "shard_symbol ShPhyrexianGreenBlue = ''G/U/P''"
| "shard_symbol ShColorlessWhite = ''C/W''"
| "shard_symbol ShColorlessBlue = ''C/U''"
| "shard_symbol ShColorlessBlack = ''C/B''"
| "shard_symbol ShColorlessRed = ''C/R''"
| "shard_symbol ShColorlessGreen = ''C/G''"

definition shard_from_str_arms :: "(string \<times> mana_cost_shard) list" where
  "shard_from_str_arms =
    [(''W'', ShWhite), (''U'', ShBlue), (''B'', ShBlack), (''R'', ShRed), (''G'', ShGreen),
     (''C'', ShColorless), (''S'', ShSnow), (''X'', ShX), (''Z'', ShTwoOrMoreColorSource),
     (''W/U'', ShWhiteBlue), (''W/B'', ShWhiteBlack), (''U/B'', ShBlueBlack),
     (''U/R'', ShBlueRed), (''B/R'', ShBlackRed), (''B/G'', ShBlackGreen),
     (''R/W'', ShRedWhite), (''R/G'', ShRedGreen), (''G/W'', ShGreenWhite),
     (''G/U'', ShGreenBlue), (''2/W'', ShTwoWhite), (''2/U'', ShTwoBlue),
     (''2/B'', ShTwoBlack), (''2/R'', ShTwoRed), (''2/G'', ShTwoGreen),
     (''W/P'', ShPhyrexianWhite), (''U/P'', ShPhyrexianBlue), (''B/P'', ShPhyrexianBlack),
     (''R/P'', ShPhyrexianRed), (''G/P'', ShPhyrexianGreen),
     (''W/U/P'', ShPhyrexianWhiteBlue), (''W/B/P'', ShPhyrexianWhiteBlack),
     (''U/B/P'', ShPhyrexianBlueBlack), (''U/R/P'', ShPhyrexianBlueRed),
     (''B/R/P'', ShPhyrexianBlackRed), (''B/G/P'', ShPhyrexianBlackGreen),
     (''R/W/P'', ShPhyrexianRedWhite), (''R/G/P'', ShPhyrexianRedGreen),
     (''G/W/P'', ShPhyrexianGreenWhite), (''G/U/P'', ShPhyrexianGreenBlue),
     (''C/W'', ShColorlessWhite), (''C/U'', ShColorlessBlue), (''C/B'', ShColorlessBlack),
     (''C/R'', ShColorlessRed), (''C/G'', ShColorlessGreen)]"

definition shard_from_str :: "string \<Rightarrow> (mana_cost_shard, string) rust_result" where
  "shard_from_str s =
     (case map_of shard_from_str_arms s of
        Some shard \<Rightarrow> Ok shard
      | None \<Rightarrow> Err (''Unknown mana cost shard: '' @ s))"

fun announceable_halves :: "mana_cost_shard \<Rightarrow> (mana_cost_shard \<times> mana_cost_shard) option" where
  "announceable_halves ShWhiteBlue = Some (ShWhite, ShBlue)"
| "announceable_halves ShWhiteBlack = Some (ShWhite, ShBlack)"
| "announceable_halves ShBlueBlack = Some (ShBlue, ShBlack)"
| "announceable_halves ShBlueRed = Some (ShBlue, ShRed)"
| "announceable_halves ShBlackRed = Some (ShBlack, ShRed)"
| "announceable_halves ShBlackGreen = Some (ShBlack, ShGreen)"
| "announceable_halves ShRedWhite = Some (ShRed, ShWhite)"
| "announceable_halves ShRedGreen = Some (ShRed, ShGreen)"
| "announceable_halves ShGreenWhite = Some (ShGreen, ShWhite)"
| "announceable_halves ShGreenBlue = Some (ShGreen, ShBlue)"
| "announceable_halves ShColorlessWhite = Some (ShColorless, ShWhite)"
| "announceable_halves ShColorlessBlue = Some (ShColorless, ShBlue)"
| "announceable_halves ShColorlessBlack = Some (ShColorless, ShBlack)"
| "announceable_halves ShColorlessRed = Some (ShColorless, ShRed)"
| "announceable_halves ShColorlessGreen = Some (ShColorless, ShGreen)"
| "announceable_halves _ = None"

fun single_mana_payment_types :: "mana_cost_shard \<Rightarrow> mana_type_set option" where
  "single_mana_payment_types ShWhite = Some (mts_of TyWhite)"
| "single_mana_payment_types ShBlue = Some (mts_of TyBlue)"
| "single_mana_payment_types ShBlack = Some (mts_of TyBlack)"
| "single_mana_payment_types ShRed = Some (mts_of TyRed)"
| "single_mana_payment_types ShGreen = Some (mts_of TyGreen)"
| "single_mana_payment_types ShColorless = Some (mts_of TyColorless)"
| "single_mana_payment_types ShWhiteBlue = Some (mts_with (mts_of TyWhite) TyBlue)"
| "single_mana_payment_types ShWhiteBlack = Some (mts_with (mts_of TyWhite) TyBlack)"
| "single_mana_payment_types ShBlueBlack = Some (mts_with (mts_of TyBlue) TyBlack)"
| "single_mana_payment_types ShBlueRed = Some (mts_with (mts_of TyBlue) TyRed)"
| "single_mana_payment_types ShBlackRed = Some (mts_with (mts_of TyBlack) TyRed)"
| "single_mana_payment_types ShBlackGreen = Some (mts_with (mts_of TyBlack) TyGreen)"
| "single_mana_payment_types ShRedWhite = Some (mts_with (mts_of TyRed) TyWhite)"
| "single_mana_payment_types ShRedGreen = Some (mts_with (mts_of TyRed) TyGreen)"
| "single_mana_payment_types ShGreenWhite = Some (mts_with (mts_of TyGreen) TyWhite)"
| "single_mana_payment_types ShGreenBlue = Some (mts_with (mts_of TyGreen) TyBlue)"
| "single_mana_payment_types ShColorlessWhite = Some (mts_with (mts_of TyColorless) TyWhite)"
| "single_mana_payment_types ShColorlessBlue = Some (mts_with (mts_of TyColorless) TyBlue)"
| "single_mana_payment_types ShColorlessBlack = Some (mts_with (mts_of TyColorless) TyBlack)"
| "single_mana_payment_types ShColorlessRed = Some (mts_with (mts_of TyColorless) TyRed)"
| "single_mana_payment_types ShColorlessGreen = Some (mts_with (mts_of TyColorless) TyGreen)"
| "single_mana_payment_types _ = None"

fun contributes_to :: "mana_cost_shard \<Rightarrow> mana_color \<Rightarrow> bool" where
  "contributes_to shard White = (shard \<in> set
    [ShWhite, ShWhiteBlue, ShWhiteBlack, ShRedWhite, ShGreenWhite, ShTwoWhite,
     ShPhyrexianWhite, ShPhyrexianWhiteBlue, ShPhyrexianWhiteBlack, ShPhyrexianRedWhite,
     ShPhyrexianGreenWhite, ShColorlessWhite])"
| "contributes_to shard Blue = (shard \<in> set
    [ShBlue, ShWhiteBlue, ShBlueBlack, ShBlueRed, ShGreenBlue, ShTwoBlue, ShPhyrexianBlue,
     ShPhyrexianWhiteBlue, ShPhyrexianBlueBlack, ShPhyrexianBlueRed, ShPhyrexianGreenBlue,
     ShColorlessBlue])"
| "contributes_to shard Black = (shard \<in> set
    [ShBlack, ShWhiteBlack, ShBlueBlack, ShBlackRed, ShBlackGreen, ShTwoBlack,
     ShPhyrexianBlack, ShPhyrexianWhiteBlack, ShPhyrexianBlueBlack, ShPhyrexianBlackRed,
     ShPhyrexianBlackGreen, ShColorlessBlack])"
| "contributes_to shard Red = (shard \<in> set
    [ShRed, ShBlueRed, ShBlackRed, ShRedWhite, ShRedGreen, ShTwoRed, ShPhyrexianRed,
     ShPhyrexianBlueRed, ShPhyrexianBlackRed, ShPhyrexianRedWhite, ShPhyrexianRedGreen,
     ShColorlessRed])"
| "contributes_to shard Green = (shard \<in> set
    [ShGreen, ShBlackGreen, ShRedGreen, ShGreenWhite, ShGreenBlue, ShTwoGreen,
     ShPhyrexianGreen, ShPhyrexianBlackGreen, ShPhyrexianRedGreen, ShPhyrexianGreenWhite,
     ShPhyrexianGreenBlue, ShColorlessGreen])"

definition mana_value_contribution :: "mana_cost_shard \<Rightarrow> u32" where
  "mana_value_contribution shard =
    (if shard \<in> set [ShTwoWhite, ShTwoBlue, ShTwoBlack, ShTwoRed, ShTwoGreen] then 2
     else if shard = ShX then 0 else 1)"

subsection \<open>Mana costs\<close>

datatype mana_cost =
    NoCost
  | Cost "mana_cost_shard list" u32
  | SelfManaCost
  | SelfManaValue
  | SelfManaCostReduced u32

datatype zone = Library | Hand | Battlefield | Graveyard | Stack | Exile | Command

definition cost_zero :: mana_cost where
  "cost_zero = Cost [] 0"

fun is_without_paying_mana :: "mana_cost \<Rightarrow> bool" where
  "is_without_paying_mana NoCost = True"
| "is_without_paying_mana (Cost shards generic) = (shards = [] \<and> generic = 0)"
| "is_without_paying_mana _ = False"

fun reduced_by_generic :: "mana_cost \<Rightarrow> u32 \<Rightarrow> mana_cost" where
  "reduced_by_generic (Cost shards generic) reduction = Cost shards (saturating_sub generic reduction)"
| "reduced_by_generic other reduction = other"

definition cost_generic :: "u32 \<Rightarrow> mana_cost" where
  "cost_generic amount = Cost [] amount"

fun mana_value :: "mana_cost \<Rightarrow> u32" where
  "mana_value (Cost shards generic) = sum_list (map mana_value_contribution shards) + generic"
| "mana_value _ = 0"

fun reduced_generic_by :: "mana_cost \<Rightarrow> mana_cost \<Rightarrow> mana_cost" where
  "reduced_generic_by (Cost shards generic) reduction =
     Cost shards (saturating_sub generic (mana_value reduction))"
| "reduced_generic_by other reduction = other"

fun has_x :: "mana_cost \<Rightarrow> bool" where
  "has_x (Cost shards generic) = list_ex (\<lambda>s. s = ShX) shards"
| "has_x _ = False"

text \<open>\<^verbatim>\<open>i32::try_from(count).unwrap_or(i32::MAX)\<close> is the minimum with \<open>2 ^ 31 - 1\<close>.\<close>

fun count_colored_pips :: "mana_cost \<Rightarrow> mana_color option \<Rightarrow> int" where
  "count_colored_pips (Cost shards generic) color =
     min (2 ^ 31 - 1)
       (int (length (filter
          (\<lambda>shard. case color of
              Some c \<Rightarrow> contributes_to shard c
            | None \<Rightarrow> list_ex (contributes_to shard) ALL_colors) shards)))"
| "count_colored_pips _ color = 0"

definition mana_value_with_x :: "mana_cost \<Rightarrow> zone \<Rightarrow> u32 option \<Rightarrow> u32" where
  "mana_value_with_x cost z cost_x_paid =
     mana_value cost +
       (if z = Stack \<and> has_x cost then (case cost_x_paid of Some x \<Rightarrow> x | None \<Rightarrow> 0) else 0)"

fun cost_parts :: "mana_cost \<Rightarrow> mana_cost_shard list \<times> u32" where
  "cost_parts (Cost shards generic) = (shards, generic)"
| "cost_parts _ = ([], 0)"

definition cost_plus :: "mana_cost \<Rightarrow> mana_cost \<Rightarrow> mana_cost" where
  "cost_plus a b =
     (let (a_shards, a_generic) = cost_parts a; (b_shards, b_generic) = cost_parts b
      in if a_shards = [] \<and> b_shards = [] \<and> a_generic = 0 \<and> b_generic = 0 then cost_zero
         else Cost (a_shards @ b_shards) (a_generic + b_generic))"

fun cost_scaled :: "mana_cost \<Rightarrow> u32 \<Rightarrow> mana_cost" where
  "cost_scaled (Cost shards generic) factor =
     (if factor = 0 then cost_zero
      else Cost (concat (replicate (unat factor) shards)) (generic * factor))"
| "cost_scaled other factor = (if factor = 0 then cost_zero else other)"

fun concretize_x :: "mana_cost \<Rightarrow> u32 \<Rightarrow> mana_cost" where
  "concretize_x (Cost shards generic) value =
     (let x_count = length (filter (\<lambda>s. s = ShX) shards)
      in if x_count = 0 then Cost shards generic
         else Cost (filter (\<lambda>s. s \<noteq> ShX) shards) (generic + value * of_nat x_count))"
| "concretize_x other value = other"

record colored_mana_count =
  cmc_white :: u32
  cmc_blue :: u32
  cmc_black :: u32
  cmc_red :: u32
  cmc_green :: u32

fun cmc_get :: "colored_mana_count \<Rightarrow> mana_color \<Rightarrow> u32" where
  "cmc_get m White = cmc_white m"
| "cmc_get m Blue = cmc_blue m"
| "cmc_get m Black = cmc_black m"
| "cmc_get m Red = cmc_red m"
| "cmc_get m Green = cmc_green m"

fun cmc_add :: "colored_mana_count \<Rightarrow> mana_color \<Rightarrow> u32 \<Rightarrow> colored_mana_count" where
  "cmc_add m White n = m\<lparr>cmc_white := cmc_white m + n\<rparr>"
| "cmc_add m Blue n = m\<lparr>cmc_blue := cmc_blue m + n\<rparr>"
| "cmc_add m Black n = m\<lparr>cmc_black := cmc_black m + n\<rparr>"
| "cmc_add m Red n = m\<lparr>cmc_red := cmc_red m + n\<rparr>"
| "cmc_add m Green n = m\<lparr>cmc_green := cmc_green m + n\<rparr>"

definition cmc_is_empty :: "colored_mana_count \<Rightarrow> bool" where
  "cmc_is_empty m \<longleftrightarrow> cmc_white m = 0 \<and> cmc_blue m = 0 \<and> cmc_black m = 0 \<and> cmc_red m = 0 \<and> cmc_green m = 0"

definition cmc_distinct_colors :: "colored_mana_count \<Rightarrow> nat" where
  "cmc_distinct_colors m = length (filter (\<lambda>c. 0 < cmc_get m c) ALL_colors)"

subsection \<open>The bit-set contract\<close>

text \<open>
  What a caller may rely on of a set of flags: the empty set, insertion and membership. The
  law of collecting an iterator follows once for every provider.
\<close>

locale flag_set =
  fixes empty :: "'s"
    and insert :: "'s \<Rightarrow> 'a \<Rightarrow> 's"
    and contains :: "'s \<Rightarrow> 'a \<Rightarrow> bool"
  assumes contains_empty: "\<not> contains empty x"
    and contains_insert: "contains (insert s x) y \<longleftrightarrow> x = y \<or> contains s y"
begin

lemma contains_foldl: "contains (foldl insert s xs) y \<longleftrightarrow> y \<in> set xs \<or> contains s y"
  by (induction xs arbitrary: s) (auto simp: contains_insert)

lemma contains_collect: "contains (foldl insert empty xs) y \<longleftrightarrow> y \<in> set xs"
  by (simp add: contains_foldl contains_empty)

lemma insert_absorbs: "contains (insert (insert s x) x) y \<longleftrightarrow> contains (insert s x) y"
  by (auto simp: contains_insert)

end

text \<open>Bit facts: membership tests are bit tests.\<close>

lemma and_push_bit_one: "(w AND push_bit n 1 \<noteq> 0) \<longleftrightarrow> bit w n" for w :: u8
proof -
  have "w AND push_bit n 1 = of_bool (bit w n) * push_bit n 1"
    by (rule bit_eqI) (auto simp: bit_simps)
  moreover have "bit w n \<Longrightarrow> push_bit n (1 :: u8) \<noteq> 0"
    using bit_imp_le_length [of w n] by (auto simp: push_bit_eq_0_iff bit_eq_iff bit_simps)
  ultimately show ?thesis by auto
qed

lemma type_index_inject: "type_index a = type_index b \<longleftrightarrow> a = b"
  by (cases a; cases b) simp_all

lemma color_index_inject: "color_index a = color_index b \<longleftrightarrow> a = b"
  by (cases a; cases b) simp_all

lemma type_index_bound: "type_index t < 6"
  by (cases t) simp_all

lemma color_index_bound: "color_index c < 5"
  by (cases c) simp_all

lemma mts_contains_bit: "mts_contains s t \<longleftrightarrow> bit (mts_bits s) (type_index t)"
  unfolding mts_contains_def by (rule and_push_bit_one)

lemma lpc_contains_bit: "lpc_contains s c \<longleftrightarrow> bit (lpc_bits s) (color_index c)"
  unfolding lpc_contains_def by (rule and_push_bit_one)

interpretation mts: flag_set mts_EMPTY mts_with mts_contains
proof unfold_locales
  show "\<not> mts_contains mts_EMPTY x" for x
    by (simp add: mts_contains_bit mts_EMPTY_def)
  show "mts_contains (mts_with s x) y \<longleftrightarrow> x = y \<or> mts_contains s y" for s x y
    using type_index_bound [of y] type_index_inject [of y x]
    by (auto simp: mts_contains_bit mts_with_def bit_simps)
qed

interpretation lpc: flag_set lpc_EMPTY lpc_insert lpc_contains
proof unfold_locales
  show "\<not> lpc_contains lpc_EMPTY x" for x
    by (simp add: lpc_contains_bit lpc_EMPTY_def)
  show "lpc_contains (lpc_insert s x) y \<longleftrightarrow> x = y \<or> lpc_contains s y" for s x y
    using color_index_bound [of y] color_index_inject [of y x]
    by (auto simp: lpc_contains_bit lpc_insert_def bit_simps)
qed

lemma mts_of_with: "mts_of t = mts_with mts_EMPTY t"
  by (simp add: mts_of_def mts_with_def mts_EMPTY_def)

lemma mts_contains_of: "mts_contains (mts_of t) u \<longleftrightarrow> t = u"
  by (simp add: mts_of_with mts.contains_insert mts.contains_empty)

lemma mts_subset_contains:
  assumes "mts_is_subset_of s t" and "mts_contains s u"
  shows "mts_contains t u"
proof -
  from assms(1) have "\<not> bit (mts_bits s AND NOT (mts_bits t)) (type_index u)"
    by (simp add: mts_is_subset_of_def)
  with assms(2) type_index_bound [of u] show ?thesis
    by (auto simp: mts_contains_bit bit_simps)
qed

lemmas mts_membership =
  mts_contains_of mts.contains_insert mts.contains_empty mts_of_with [symmetric]

subsection \<open>Symbols\<close>

lemma shard_from_str_symbol: "shard_from_str (shard_symbol s) = Ok s"
  by (cases s) (simp_all add: shard_from_str_def shard_from_str_arms_def)

lemma shard_arms_symbols: "(t, s) \<in> set shard_from_str_arms \<Longrightarrow> t = shard_symbol s"
  by (auto simp: shard_from_str_arms_def)

lemma shard_from_str_Ok: "shard_from_str t = Ok s \<Longrightarrow> t = shard_symbol s"
  by (auto simp: shard_from_str_def split: option.splits dest!: map_of_SomeD shard_arms_symbols)

lemma announceable_halves_payment:
  assumes "announceable_halves s = Some (a, b)"
  shows "\<exists>S A B. single_mana_payment_types s = Some S
           \<and> single_mana_payment_types a = Some A \<and> single_mana_payment_types b = Some B
           \<and> (\<forall>t. mts_contains S t \<longleftrightarrow> mts_contains A t \<or> mts_contains B t)"
  using assms by (cases s) (auto simp: mts_membership)

lemma contributes_to_payment:
  assumes "single_mana_payment_types s = Some S"
  shows "contributes_to s c \<longleftrightarrow> mts_contains S (mana_type_of_color c)"
  using assms by (cases s; cases c) (auto simp: mts_membership)

lemma single_mana_contributes_one:
  "single_mana_payment_types s = Some S \<Longrightarrow> mana_value_contribution s = 1"
  by (cases s) (simp_all add: mana_value_contribution_def)

subsection \<open>Cost arithmetic\<close>

lemma cost_plus_cost: "cost_plus a b = Cost (fst (cost_parts a) @ fst (cost_parts b)) (snd (cost_parts a) + snd (cost_parts b))"
  by (auto simp: cost_plus_def cost_zero_def Let_def split: prod.splits)

lemma mana_value_parts: "mana_value c = sum_list (map mana_value_contribution (fst (cost_parts c))) + snd (cost_parts c)"
  by (cases c) simp_all

lemma mana_value_plus: "mana_value (cost_plus a b) = mana_value a + mana_value b"
  by (simp add: cost_plus_cost mana_value_parts)

lemma sum_list_concat_replicate:
  "sum_list (map f (concat (replicate n xs))) = of_nat n * sum_list (map f xs)"
  for f :: "'a \<Rightarrow> u32"
  by (induction n) (simp_all add: algebra_simps)

lemma mana_value_scaled: "mana_value (cost_scaled c k) = k * mana_value c"
  by (cases c) (simp_all add: cost_zero_def sum_list_concat_replicate algebra_simps)

lemma sum_contributions_without_x:
  "sum_list (map mana_value_contribution (filter (\<lambda>s. s \<noteq> ShX) xs)) = sum_list (map mana_value_contribution xs)"
  by (induction xs) (auto simp: mana_value_contribution_def)

definition x_count :: "mana_cost \<Rightarrow> nat" where
  "x_count c = length (filter (\<lambda>s. s = ShX) (fst (cost_parts c)))"

lemma mana_value_concretize_x: "mana_value (concretize_x c v) = mana_value c + v * of_nat (x_count c)"
  by (cases c) (auto simp: x_count_def Let_def sum_contributions_without_x)

lemma has_x_x_count: "has_x c \<longleftrightarrow> 0 < x_count c"
  by (cases c) (auto simp: x_count_def list_ex_iff filter_empty_conv)

lemma has_x_concretize_x: "\<not> has_x (concretize_x c v)"
  by (cases c) (auto simp: Let_def list_ex_iff filter_empty_conv)

lemma mana_value_with_x_stack:
  assumes "x_count c \<le> 1"
  shows "mana_value_with_x c Stack (Some v) = mana_value (concretize_x c v)"
proof -
  from assms have "x_count c = 0 \<or> x_count c = 1" by arith
  then show ?thesis
    by (auto simp: mana_value_with_x_def mana_value_concretize_x has_x_x_count)
qed

lemma cmc_get_add: "cmc_get (cmc_add m c n) d = (if c = d then cmc_get m d + n else cmc_get m d)"
  by (cases c; cases d) simp_all

lemma cmc_is_empty_iff: "cmc_is_empty m \<longleftrightarrow> cmc_distinct_colors m = 0"
  by (auto simp: cmc_is_empty_def cmc_distinct_colors_def ALL_colors_def word_gt_0)

subsection \<open>Properties\<close>

text \<open>
  Every mana symbol is read back as the symbol it prints, and only the printed form of a
  symbol is read.
\<close>

theorem mana_symbol_roundtrip: "shard_from_str t = Ok s \<longleftrightarrow> t = shard_symbol s"
  using shard_from_str_symbol shard_from_str_Ok by auto

text \<open>
  Once X is announced, the concretized cost has no X left, and its mana value is the old one
  plus the announced value for every X symbol.
\<close>

theorem concretized_cost_value:
  "\<not> has_x (concretize_x c v) \<and> mana_value (concretize_x c v) = mana_value c + v * of_nat (x_count c)"
  by (simp add: has_x_concretize_x mana_value_concretize_x)

text \<open>
  On the stack \<open>mana_value_with_x\<close> counts the announced X once, however many X symbols the cost
  has: with \<open>k\<close> symbols it falls short of the concretized cost by \<open>k - 1\<close> times the announced value.
\<close>

theorem mana_value_with_x_counts_x_once:
  assumes "has_x c"
  shows "mana_value_with_x c Stack (Some v) + v * of_nat (x_count c - 1) = mana_value (concretize_x c v)"
proof -
  from assms obtain k where k: "x_count c = Suc k" using has_x_x_count gr0_implies_Suc by blast
  with assms show ?thesis by (simp add: mana_value_with_x_def mana_value_concretize_x algebra_simps)
qed

text \<open>
  Adding costs adds their mana values and scaling a cost scales it, modulo \<open>2 ^ 32\<close>; no cost plus
  no cost is the zero cost.
\<close>

theorem cost_arithmetic:
  "mana_value (cost_plus a b) = mana_value a + mana_value b \<and> mana_value (cost_scaled a k) = k * mana_value a
   \<and> cost_plus NoCost NoCost = Cost [] 0"
  by (simp add: mana_value_plus mana_value_scaled) (simp add: cost_plus_def cost_zero_def)

text \<open>
  Collecting mana types or colours into their bit sets keeps exactly the collected ones, whatever
  their number and order.
\<close>

theorem bit_sets_collect:
  "(mts_contains (mts_from_iter ts) t \<longleftrightarrow> t \<in> set ts) \<and> (lpc_contains (lpc_from_iter cs) c \<longleftrightarrow> c \<in> set cs)"
  by (simp add: mts_from_iter_def lpc_from_iter_def mts.contains_collect lpc.contains_collect)

text \<open>
  A hybrid symbol is payable by exactly the mana that pays one of its announceable halves, and each
  half is a symbol that one mana pays.
\<close>

theorem hybrid_halves_cover:
  assumes "announceable_halves s = Some (a, b)"
  shows "\<exists>S A B. single_mana_payment_types s = Some S \<and> single_mana_payment_types a = Some A
    \<and> single_mana_payment_types b = Some B \<and> mana_value_contribution s = 1
    \<and> (\<forall>t. mts_contains S t \<longleftrightarrow> mts_contains A t \<or> mts_contains B t)"
  using announceable_halves_payment [OF assms] single_mana_contributes_one by blast

end
