(* ===== verification/Mana_Match.thy ===== *)
theory Mana_Match
  imports Mana_Cost
begin

text \<open>
  The dominance test between two mana costs, \<^verbatim>\<open>ManaCost::is_payable_whenever\<close> of
  \<^verbatim>\<open>src/crates/engine/src/types/mana.rs\<close>, and the bipartite matching it runs
  (\<^verbatim>\<open>match_shard\<close>, one augmenting step of Kuhn's algorithm). \<open>match_from\<close> is the \<^verbatim>\<open>for\<close> loop of
  \<^verbatim>\<open>match_shard\<close> from a given candidate on; \<open>None\<close> is an out-of-range read, which the lemmas show
  never happens on the lengths \<^verbatim>\<open>is_payable_whenever\<close> passes.
\<close>

subsection \<open>One augmenting step\<close>

definition unvisited :: "bool list \<Rightarrow> nat" where
  "unvisited v = length (filter Not v)"

lemma unvisited_visit: "c < length v \<Longrightarrow> \<not> v ! c \<Longrightarrow> Suc (unvisited (v[c := True])) = unvisited v"
proof (induction v arbitrary: c)
  case Nil
  then show ?case by simp
next
  case (Cons x v)
  then show ?case by (cases c) (auto simp: unvisited_def)
qed

function (domintros) match_from ::
  "nat \<Rightarrow> nat \<Rightarrow> mana_type_set list \<Rightarrow> mana_type_set list \<Rightarrow> nat option list \<Rightarrow> bool list
    \<Rightarrow> (bool \<times> nat option list \<times> bool list) option" where
  "match_from candidate index mine theirs matched visited =
     (if candidate < length theirs then
        (case vec_get visited candidate of
           None \<Rightarrow> None
         | Some seen \<Rightarrow>
             if seen then match_from (Suc candidate) index mine theirs matched visited
             else (case vec_get mine index of
                 None \<Rightarrow> None
               | Some accepts \<Rightarrow>
                   if \<not> mts_is_subset_of (theirs ! candidate) accepts
                   then match_from (Suc candidate) index mine theirs matched visited
                   else (case vec_get matched candidate of
                       None \<Rightarrow> None
                     | Some None \<Rightarrow> Some (True, matched[candidate := Some index], visited[candidate := True])
                     | Some (Some holder) \<Rightarrow>
                         (case match_from 0 holder mine theirs matched (visited[candidate := True]) of
                            None \<Rightarrow> None
                          | Some (free, matched', visited') \<Rightarrow>
                              if free then Some (True, matched'[candidate := Some index], visited')
                              else match_from (Suc candidate) index mine theirs matched' visited'))))
      else Some (False, matched, visited))"
  by pat_completeness auto

lemma match_from_unvisited:
  assumes "match_from_dom (c, i, m, t, mt, v)" and "match_from c i m t mt v = Some (b, mt', v')"
  shows "unvisited v' \<le> unvisited v"
  using assms
proof (induction arbitrary: b mt' v' rule: match_from.pinduct)
  case (1 c i m t mt v)
  show ?case
  proof (cases "c < length t \<and> c < length v \<and> \<not> v ! c \<and> i < length m
      \<and> mts_is_subset_of (t ! c) (m ! i) \<and> c < length mt \<and> mt ! c \<noteq> None")
    case False
    then show ?thesis
      using "1.prems" "1.IH"(1,2) "1.hyps" unvisited_visit [of c v]
      by (auto simp: match_from.psimps vec_get_def split: if_splits option.splits)
  next
    case True
    then obtain h where h: "mt ! c = Some h" by auto
    from True have less: "Suc (unvisited (v[c := True])) = unvisited v"
      by (simp add: unvisited_visit)
    from True h "1.prems" "1.hyps" obtain f mt2 v2
      where rec: "match_from 0 h m t mt (v[c := True]) = Some (f, mt2, v2)"
      by (auto simp: match_from.psimps split: option.splits)
    from True h have gets: "c < length t" "vec_get v c = Some (v ! c)" "\<not> v ! c"
      "vec_get m i = Some (m ! i)" "\<not> \<not> mts_is_subset_of (t ! c) (m ! i)"
      "vec_get mt c = Some (Some h)" by auto
    have le: "unvisited v2 \<le> unvisited (v[c := True])"
      by (rule "1.IH"(3) [OF gets refl rec])
    show ?thesis
    proof (cases f)
      case True': True
      with True h rec "1.prems" "1.hyps" le less show ?thesis
        by (simp add: match_from.psimps)
    next
      case False
      with True h rec "1.prems" "1.hyps" have "match_from (Suc c) i m t mt2 v2 = Some (b, mt', v')"
        by (simp add: match_from.psimps)
      then have "unvisited v' \<le> unvisited v2"
        using "1.IH"(4) [OF gets refl rec] False by simp
      with le less show ?thesis by simp
    qed
  qed
qed

termination match_from
proof (relation "measures [\<lambda>(c, i, m, t, mt, v). unvisited v, \<lambda>(c, i, m, t, mt, v). length t - c]",
    goal_cases)
  case 1
  show ?case by simp
next
  case (2 c i m t mt v)
  then show ?case by simp
next
  case (3 c i m t mt v)
  then show ?case by simp
next
  case (4 c i m t mt v)
  then show ?case
    using unvisited_visit [of c v] by (simp add: vec_get_Some)
next
  case (5 c i m t mt v)
  then show ?case
    using unvisited_visit [of c v]
    by (fastforce simp: vec_get_Some dest: match_from_unvisited)
qed

declare match_from.simps [simp del]

definition match_shard ::
  "nat \<Rightarrow> mana_type_set list \<Rightarrow> mana_type_set list \<Rightarrow> nat option list \<Rightarrow> bool list
    \<Rightarrow> (bool \<times> nat option list \<times> bool list) option" where
  "match_shard index mine theirs matched visited = match_from 0 index mine theirs matched visited"

text \<open>The closure of \<^verbatim>\<open>is_payable_whenever\<close>: a fresh \<^verbatim>\<open>visited\<close> for every shard of \<^verbatim>\<open>self\<close>.\<close>

definition match_index ::
  "mana_type_set list \<Rightarrow> mana_type_set list \<Rightarrow> nat option list \<Rightarrow> nat \<Rightarrow> (bool \<times> nat option list) option" where
  "match_index mine theirs matched index =
     map_option (\<lambda>(b, matched', visited'). (b, matched'))
       (match_shard index mine theirs matched (replicate (length theirs) False))"

fun is_payable_whenever :: "mana_cost \<Rightarrow> mana_cost \<Rightarrow> bool option" where
  "is_payable_whenever (Cost mine_shards mine_generic) (Cost their_shards their_generic) =
     (if mana_value (Cost their_shards their_generic) < mana_value (Cost mine_shards mine_generic)
         \<or> length their_shards < length mine_shards
      then Some False
      else (case those (map single_mana_payment_types mine_shards) of
          None \<Rightarrow> Some False
        | Some mine \<Rightarrow> (case those (map single_mana_payment_types their_shards) of
              None \<Rightarrow> Some False
            | Some theirs \<Rightarrow>
                map_option fst (all_with_state (match_index mine theirs)
                  (replicate (length theirs) None) [0..<length mine]))))"
| "is_payable_whenever _ _ = Some False"

subsection \<open>What it means to pay\<close>

text \<open>
  The reference the test is judged by: a pool, given by the types of its mana, pays a cost when
  the symbols of the cost can be given distinct mana they accept and enough mana is left for the
  generic component.
\<close>

definition shard_accepts :: "mana_cost_shard \<Rightarrow> mana_type \<Rightarrow> bool" where
  "shard_accepts s t \<longleftrightarrow> (case single_mana_payment_types s of Some S \<Rightarrow> mts_contains S t | None \<Rightarrow> False)"

definition can_pay :: "mana_type list \<Rightarrow> mana_cost \<Rightarrow> bool" where
  "can_pay pool c \<longleftrightarrow>
     (\<exists>shards generic. c = Cost shards generic \<and> length shards + unat generic \<le> length pool \<and>
        (\<exists>f. inj_on f {..<length shards} \<and>
           (\<forall>i<length shards. f i < length pool \<and> shard_accepts (shards ! i) (pool ! f i))))"

definition fits_u32 :: "mana_cost \<Rightarrow> bool" where
  "fits_u32 c \<longleftrightarrow> length (fst (cost_parts c)) + unat (snd (cost_parts c)) < 2 ^ 32"

subsection \<open>The contract of a matching step\<close>

text \<open>
  A step tries to give one more index a partner. It always returns, keeps the matching valid and,
  when it succeeds, fills exactly one free place with the new index, whatever it re-routes.
\<close>

locale matching_step =
  fixes step :: "nat option list \<Rightarrow> nat \<Rightarrow> (bool \<times> nat option list) option"
    and valid :: "nat option list \<Rightarrow> bool"
    and n :: nat
  assumes step_returns: "valid mt \<Longrightarrow> i < n \<Longrightarrow> \<exists>b mt'. step mt i = Some (b, mt') \<and> valid mt'"
    and step_grows: "valid mt \<Longrightarrow> i < n \<Longrightarrow> step mt i = Some (True, mt') \<Longrightarrow>
      add_mset None (mset mt') = add_mset (Some i) (mset mt)"
begin

lemma all_returns:
  assumes "valid mt" and "set is \<subseteq> {..<n}"
  shows "\<exists>b mt'. all_with_state step mt is = Some (b, mt') \<and> valid mt'"
  using assms
proof (induction "is" arbitrary: mt)
  case Nil
  then show ?case by auto
next
  case (Cons i "is")
  then obtain b mt' where "step mt i = Some (b, mt')" "valid mt'"
    using step_returns [of mt i] by auto
  with Cons show ?case by (cases b) auto
qed

lemma all_grows:
  assumes "valid mt" and "set is \<subseteq> {..<n}" and "all_with_state step mt is = Some (True, mt')"
  shows "mset mt' + replicate_mset (length is) None = mset mt + mset (map Some is)"
  using assms
proof (induction "is" arbitrary: mt)
  case Nil
  then show ?case by auto
next
  case (Cons i "is")
  then obtain b mt1 where mt1: "step mt i = Some (b, mt1)" "valid mt1"
    using step_returns [of mt i] by auto
  with Cons.prems have True: "b" and rest: "all_with_state step mt1 is = Some (True, mt')"
    by (auto split: if_splits)
  have grow: "add_mset None (mset mt1) = add_mset (Some i) (mset mt)"
    using step_grows [OF Cons.prems(1), of i mt1] mt1 True Cons.prems(2) by simp
  have "mset mt' + replicate_mset (length is) None = mset mt1 + mset (map Some is)"
    using Cons.IH [OF mt1(2) _ rest] Cons.prems(2) by simp
  then have "mset mt' + replicate_mset (length (i # is)) None = add_mset None (mset mt1) + mset (map Some is)"
    by simp
  also have "\<dots> = mset mt + mset (map Some (i # is))"
    by (simp add: grow)
  finally show ?case .
qed

text \<open>From an empty matching, success gives every index exactly one place.\<close>

lemma all_matches:
  assumes "valid (replicate k None)" and "all_with_state step (replicate k None) [0..<n] = Some (True, mt)"
  obtains g where "inj_on g {..<n}" and "\<And>i. i < n \<Longrightarrow> g i < length mt \<and> mt ! g i = Some i"
proof -
  have sub: "set [0..<n] \<subseteq> {..<n}" by auto
  have "mset mt + replicate_mset n None = replicate_mset k None + mset (map Some [0..<n])"
    using all_grows [OF assms(1) sub assms(2)] by simp
  then have "\<exists>j<length mt. mt ! j = Some i" if "i < n" for i
  proof -
    have "Some i \<in># replicate_mset k None + mset (map Some [0..<n])" using that by auto
    then have "Some i \<in># mset mt + replicate_mset n None"
      using \<open>mset mt + replicate_mset n None = _\<close> by simp
    then have "Some i \<in> set mt" by (auto split: if_splits)
    then show ?thesis by (auto simp: in_set_conv_nth)
  qed
  then obtain g where g: "\<And>i. i < n \<Longrightarrow> g i < length mt \<and> mt ! g i = Some i" by metis
  have "inj_on g {..<n}" by (rule inj_onI) (metis g lessThan_iff option.inject)
  with g show thesis using that by blast
qed

end

subsection \<open>The augmenting step meets the contract\<close>

definition valid_matching :: "mana_type_set list \<Rightarrow> mana_type_set list \<Rightarrow> nat option list \<Rightarrow> bool" where
  "valid_matching mine theirs matched \<longleftrightarrow>
     length matched = length theirs \<and>
     (\<forall>j<length theirs. \<forall>i. matched ! j = Some i \<longrightarrow>
        i < length mine \<and> mts_is_subset_of (theirs ! j) (mine ! i))"

lemma valid_matching_update:
  "valid_matching m t mt \<Longrightarrow> i < length m \<Longrightarrow> c < length t \<Longrightarrow> mts_is_subset_of (t ! c) (m ! i) \<Longrightarrow>
    valid_matching m t (mt[c := Some i])"
  by (auto simp: valid_matching_def nth_list_update)

lemma mset_swap_entry:
  assumes "c < length mt" and "mt ! c = y" and "add_mset x (mset mt) = add_mset y (mset mt0)"
  shows "add_mset x (mset (mt[c := z])) = add_mset z (mset mt0)"
proof -
  have "add_mset y (mset (mt[c := z])) = add_mset z (mset mt)"
    using assms(1,2) nth_mem [OF assms(1)] by (simp add: mset_update)
  then have "add_mset y (add_mset x (mset (mt[c := z]))) = add_mset z (add_mset x (mset mt))"
    by (metis add_mset_commute)
  also have "\<dots> = add_mset y (add_mset z (mset mt0))"
    by (simp add: assms(3) add_mset_commute)
  finally show ?thesis by simp
qed

text \<open>
  The outcome of the loop from any candidate: lengths and validity are kept, visited candidates
  are not touched, failure changes nothing, success fills one free place.
\<close>

definition step_outcome ::
  "mana_type_set list \<Rightarrow> mana_type_set list \<Rightarrow> nat \<Rightarrow> nat option list \<Rightarrow> bool list
    \<Rightarrow> bool \<Rightarrow> nat option list \<Rightarrow> bool list \<Rightarrow> bool" where
  "step_outcome m t i mt v b mt' v' \<longleftrightarrow>
     length v' = length v \<and> valid_matching m t mt' \<and>
     (\<forall>j<length v. v ! j \<longrightarrow> v' ! j \<and> mt' ! j = mt ! j) \<and>
     (if b then add_mset None (mset mt') = add_mset (Some i) (mset mt) else mt' = mt)"

lemma match_from_outcome:
  assumes "valid_matching m t mt" and "length v = length t" and "i < length m"
  shows "\<exists>b mt' v'. match_from c i m t mt v = Some (b, mt', v') \<and> step_outcome m t i mt v b mt' v'"
  using assms
proof (induction c i m t mt v rule: match_from.induct)
  case (1 c i m t mt v)
  note valid = "1.prems"(1) and len = "1.prems"(2) and i = "1.prems"(3)
  have lmt: "length mt = length t" using valid by (simp add: valid_matching_def)
  show ?case
  proof (cases "c < length t \<and> \<not> v ! c \<and> mts_is_subset_of (t ! c) (m ! i)")
    case False
    then consider "\<not> c < length t" | "c < length t" "v ! c"
      | "c < length t" "\<not> v ! c" "\<not> mts_is_subset_of (t ! c) (m ! i)" by blast
    then show ?thesis
    proof cases
      case 1
      with valid show ?thesis by (auto simp: match_from.simps step_outcome_def)
    next
      case 2
      with "1.IH"(1) valid len i show ?thesis by (simp add: match_from.simps [of c])
    next
      case 3
      with "1.IH"(2) valid len i show ?thesis by (simp add: match_from.simps [of c])
    qed
  next
    case True
    then have c: "c < length t" "\<not> v ! c" "mts_is_subset_of (t ! c) (m ! i)" by auto
    show ?thesis
    proof (cases "mt ! c")
      case None
      have "add_mset None (mset (mt[c := Some i])) = add_mset (Some i) (mset mt)"
        using mset_swap_entry [of c mt None None mt "Some i"] c lmt None by simp
      moreover have "valid_matching m t (mt[c := Some i])"
        using valid i c by (simp add: valid_matching_update)
      ultimately show ?thesis
        using c len lmt i None
        by (auto simp: match_from.simps [of c] step_outcome_def nth_list_update)
    next
      case (Some h)
      from valid Some c have h: "h < length m" by (simp add: valid_matching_def)
      have gets: "c < length t" "vec_get v c = Some (v ! c)" "\<not> v ! c" "vec_get m i = Some (m ! i)"
        "\<not> \<not> mts_is_subset_of (t ! c) (m ! i)" "vec_get mt c = Some (Some h)"
        using c len lmt i Some by auto
      obtain f mt2 v2 where rec: "match_from 0 h m t mt (v[c := True]) = Some (f, mt2, v2)"
        and out: "step_outcome m t h mt (v[c := True]) f mt2 v2"
        using "1.IH"(3) [OF gets refl valid _ h] len by auto
      have keep: "mt2 ! c = Some h" "v2 ! c" "length v2 = length v" "valid_matching m t mt2"
        using out c len Some by (auto simp: step_outcome_def)
      have old: "v2 ! j \<and> mt2 ! j = mt ! j" if "j < length v" "v ! j" for j
        using out that c len by (auto simp: step_outcome_def nth_list_update)
      show ?thesis
      proof (cases f)
        case True
        have "add_mset None (mset mt2) = add_mset (Some h) (mset mt)"
          using out True by (simp add: step_outcome_def)
        then have "add_mset None (mset (mt2[c := Some i])) = add_mset (Some i) (mset mt)"
          using mset_swap_entry [of c mt2 "Some h" None mt "Some i"] keep c
          by (simp add: valid_matching_def)
        moreover have "valid_matching m t (mt2[c := Some i])"
          using keep i c by (simp add: valid_matching_update)
        moreover have "mt2[c := Some i] ! j = mt ! j" if "j < length v" "v ! j" for j
          using that c(2) old by (cases "j = c") auto
        ultimately have "step_outcome m t i mt v True (mt2[c := Some i]) v2"
          using keep old by (simp add: step_outcome_def)
        moreover have "match_from c i m t mt v = Some (True, mt2[c := Some i], v2)"
          using c len lmt i Some rec True by (simp add: match_from.simps [of c])
        ultimately show ?thesis by blast
      next
        case False
        with out have mt2: "mt2 = mt" by (simp add: step_outcome_def)
        obtain b mt' v' where next': "match_from (Suc c) i m t mt2 v2 = Some (b, mt', v')"
          and out': "step_outcome m t i mt2 v2 b mt' v'"
          using "1.IH"(4) [OF gets refl rec refl refl _ keep(4) _ i] False keep len by auto
        have "match_from c i m t mt v = Some (b, mt', v')"
          using c len lmt i Some rec False next' by (simp add: match_from.simps [of c])
        moreover have "step_outcome m t i mt v b mt' v'"
          using out' old keep mt2 by (auto simp: step_outcome_def)
        ultimately show ?thesis by blast
      qed
    qed
  qed
qed

interpretation kuhn: matching_step "match_index m t" "valid_matching m t" "length m"
  for m t
proof unfold_locales
  fix mt i
  assume *: "valid_matching m t mt" "i < length m"
  then obtain b mt' v' where r: "match_from 0 i m t mt (replicate (length t) False) = Some (b, mt', v')"
    and out: "step_outcome m t i mt (replicate (length t) False) b mt' v'"
    using match_from_outcome [of m t mt "replicate (length t) False" i 0] by auto
  then show "\<exists>b mt'. match_index m t mt i = Some (b, mt') \<and> valid_matching m t mt'"
    by (auto simp: match_index_def match_shard_def step_outcome_def)
  fix mt2
  assume "match_index m t mt i = Some (True, mt2)"
  with r out show "add_mset None (mset mt2) = add_mset (Some i) (mset mt)"
    by (auto simp: match_index_def match_shard_def step_outcome_def)
qed

lemma valid_matching_empty: "valid_matching m t (replicate (length t) None)"
  by (simp add: valid_matching_def)

subsection \<open>Soundness of the dominance test\<close>

lemma those_map_Some:
  "those (map f xs) = Some ys \<Longrightarrow> length ys = length xs \<and> (\<forall>i<length xs. f (xs ! i) = Some (ys ! i))"
proof (induction xs arbitrary: ys)
  case Nil
  then show ?case by simp
next
  case (Cons x xs)
  then obtain y zs where "f x = Some y" "those (map f xs) = Some zs" "ys = y # zs"
    by (auto split: option.splits)
  with Cons.IH show ?case by (auto simp: less_Suc_eq_0_disj)
qed

lemma sum_contributions_single:
  assumes "those (map single_mana_payment_types shards) = Some sets"
  shows "sum_list (map mana_value_contribution shards) = of_nat (length shards)"
proof -
  have "mana_value_contribution s = 1" if "s \<in> set shards" for s
    using that those_map_Some [OF assms]
    by (auto simp: in_set_conv_nth intro: single_mana_contributes_one)
  then have "map mana_value_contribution shards = replicate (length shards) 1"
    by (simp add: map_replicate_const cong: map_cong)
  then show ?thesis by (simp add: sum_list_replicate)
qed

lemma unat_mana_value_single:
  assumes "those (map single_mana_payment_types shards) = Some sets" and "fits_u32 (Cost shards g)"
  shows "unat (mana_value (Cost shards g)) = length shards + unat g"
proof -
  have "unat (of_nat (length shards) + g :: u32) = length shards + unat g"
    using assms(2) by (simp add: fits_u32_def unat_word_ariths unat_of_nat)
  then show ?thesis using sum_contributions_single [OF assms(1)] by simp
qed

lemma is_payable_whenever_matching:
  assumes "is_payable_whenever (Cost ms mg) (Cost ts tg) = Some True"
  obtains mine theirs g where "those (map single_mana_payment_types ms) = Some mine"
    and "those (map single_mana_payment_types ts) = Some theirs"
    and "mana_value (Cost ms mg) \<le> mana_value (Cost ts tg)"
    and "inj_on g {..<length ms}"
    and "\<And>i. i < length ms \<Longrightarrow> g i < length ts \<and> mts_is_subset_of (theirs ! g i) (mine ! i)"
proof -
  from assms obtain mine theirs mt where sets: "those (map single_mana_payment_types ms) = Some mine"
      "those (map single_mana_payment_types ts) = Some theirs"
    and le: "mana_value (Cost ms mg) \<le> mana_value (Cost ts tg)"
    and all: "all_with_state (match_index mine theirs) (replicate (length theirs) None) [0..<length mine]
      = Some (True, mt)"
    by (auto split: if_splits option.splits)
  note len = those_map_Some [OF sets(1), THEN conjunct1] those_map_Some [OF sets(2), THEN conjunct1]
  from kuhn.all_matches [OF valid_matching_empty all] obtain g
    where g: "inj_on g {..<length mine}" "\<And>i. i < length mine \<Longrightarrow> g i < length mt \<and> mt ! g i = Some i" by blast
  have sub: "set [0..<length mine] \<subseteq> {..<length mine}" by auto
  have "valid_matching mine theirs mt"
    using kuhn.all_returns [OF valid_matching_empty sub, of theirs] all by simp
  then have "i < length ms \<Longrightarrow> g i < length ts \<and> mts_is_subset_of (theirs ! g i) (mine ! i)" for i
    using g(2) [of i] len by (simp add: valid_matching_def)
  with that [OF sets le] g(1) len show thesis by simp
qed

lemma is_payable_whenever_returns: "\<exists>b. is_payable_whenever a b' = Some b"
proof -
  have "\<exists>b mt. all_with_state (match_index m t) (replicate (length t) None) [0..<length m] = Some (b, mt)" for m t
    using kuhn.all_returns [OF valid_matching_empty, of "[0..<length m]"] by fastforce
  then show ?thesis
    by (cases "(a, b')" rule: is_payable_whenever.cases) (auto split: option.split)
qed

lemma is_payable_whenever_sound_cost:
  assumes dom: "is_payable_whenever (Cost ms mg) (Cost ts tg) = Some True"
    and fit: "fits_u32 (Cost ms mg)" "fits_u32 (Cost ts tg)"
    and pay: "can_pay pool (Cost ts tg)"
  shows "can_pay pool (Cost ms mg)"
proof -
  from is_payable_whenever_matching [OF dom] obtain mine theirs g
    where sets: "those (map single_mana_payment_types ms) = Some mine"
      "those (map single_mana_payment_types ts) = Some theirs"
    and le: "mana_value (Cost ms mg) \<le> mana_value (Cost ts tg)"
    and inj: "inj_on g {..<length ms}"
    and edge: "\<And>i. i < length ms \<Longrightarrow> g i < length ts \<and> mts_is_subset_of (theirs ! g i) (mine ! i)" by blast
  from pay obtain f where enough: "length ts + unat tg \<le> length pool"
    and f: "inj_on f {..<length ts}"
    and accepts: "\<And>j. j < length ts \<Longrightarrow> f j < length pool \<and> shard_accepts (ts ! j) (pool ! f j)"
    by (auto simp: can_pay_def)
  have "length ms + unat mg \<le> length pool"
    using le enough unat_mana_value_single [OF sets(1) fit(1)] unat_mana_value_single [OF sets(2) fit(2)]
    by (simp add: word_le_nat_alt)
  moreover have "inj_on (f \<circ> g) {..<length ms}"
    using inj f edge by (auto intro!: comp_inj_on inj_on_subset [OF f])
  moreover have "(f \<circ> g) i < length pool \<and> shard_accepts (ms ! i) (pool ! (f \<circ> g) i)" if "i < length ms" for i
    using accepts [of "g i"] edge [OF that] those_map_Some [OF sets(1)] those_map_Some [OF sets(2)] that
    by (auto simp: shard_accepts_def intro: mts_subset_contains)
  ultimately show ?thesis unfolding can_pay_def by blast
qed

subsection \<open>Completeness of the matching\<close>

text \<open>
  A step of Kuhn's algorithm never gives up while a perfect matching exists: the candidates it has
  visited and their holders would otherwise violate Hall's condition. The extended contract says so,
  and the whole loop is then an exact test for a perfect matching.
\<close>

locale complete_matching_step = matching_step +
  fixes k :: nat and feasible :: bool
  assumes step_complete: "feasible \<Longrightarrow> valid mt \<Longrightarrow> i < n \<Longrightarrow>
    mset mt + replicate_mset i None = replicate_mset k None + mset (map Some [0..<i]) \<Longrightarrow>
    \<exists>mt'. step mt i = Some (True, mt')"
begin

lemma all_complete_from:
  assumes "feasible" and "valid mt" and "i \<le> n"
    and "mset mt + replicate_mset i None = replicate_mset k None + mset (map Some [0..<i])"
  shows "\<exists>mt'. all_with_state step mt [i..<n] = Some (True, mt')"
  using assms(2-)
proof (induction "n - i" arbitrary: mt i)
  case 0
  then show ?case by simp
next
  case (Suc d)
  then have i: "i < n" by simp
  then obtain mt1 where mt1: "step mt i = Some (True, mt1)"
    using step_complete [OF assms(1) Suc.prems(1) i Suc.prems(3)] by blast
  then have valid: "valid mt1" using step_returns [OF Suc.prems(1) i] by simp
  have "mset mt1 + replicate_mset (Suc i) None = add_mset None (mset mt1) + replicate_mset i None"
    by simp
  also have "\<dots> = replicate_mset k None + mset (map Some [0..<Suc i])"
    using Suc.prems(3) by (simp add: step_grows [OF Suc.prems(1) i mt1])
  finally have grown: "mset mt1 + replicate_mset (Suc i) None = replicate_mset k None + mset (map Some [0..<Suc i])" .
  have "\<exists>mt'. all_with_state step mt1 [Suc i..<n] = Some (True, mt')"
    using Suc.hyps(1) [OF _ valid _ grown] Suc.hyps(2) i by simp
  moreover have "[i..<n] = i # [Suc i..<n]" using i by (simp add: upt_conv_Cons)
  ultimately show ?case using mt1 by simp
qed

end

definition shard_matching_exists :: "mana_type_set list \<Rightarrow> mana_type_set list \<Rightarrow> bool" where
  "shard_matching_exists m t \<longleftrightarrow>
     (\<exists>g. inj_on g {..<length m} \<and>
        (\<forall>i<length m. g i < length t \<and> mts_is_subset_of (t ! g i) (m ! i)))"

text \<open>What a failed step leaves behind: every candidate it could reach has been visited.\<close>

lemma match_from_failed:
  assumes "match_from c i m t mt v = Some (False, mt', v')"
    and "valid_matching m t mt" and "length v = length t" and "i < length m"
  shows "(\<forall>j. c \<le> j \<and> j < length t \<and> mts_is_subset_of (t ! j) (m ! i) \<longrightarrow> v' ! j) \<and>
    (\<forall>j<length t. \<not> v ! j \<and> v' ! j \<longrightarrow>
      (\<exists>h. mt ! j = Some h \<and> (\<forall>l<length t. mts_is_subset_of (t ! l) (m ! h) \<longrightarrow> v' ! l)))"
  using assms
proof (induction c i m t mt v arbitrary: mt' v' rule: match_from.induct)
  case (1 c i m t mt v)
  note valid = "1.prems"(2) and len = "1.prems"(3) and i = "1.prems"(4)
  have lmt: "length mt = length t" using valid by (simp add: valid_matching_def)
  have mono: "v' ! j" if "v ! j" "j < length t" for j
    using match_from_outcome [OF valid len i, of c] "1.prems"(1) that len
    by (auto simp: step_outcome_def)
  show ?case
  proof (cases "c < length t \<and> \<not> v ! c \<and> mts_is_subset_of (t ! c) (m ! i)")
    case False
    then consider "\<not> c < length t" | "c < length t" "v ! c"
      | "c < length t" "\<not> v ! c" "\<not> mts_is_subset_of (t ! c) (m ! i)" by blast
    then show ?thesis
    proof cases
      case 1
      with "1.prems"(1) show ?thesis by (auto simp: match_from.simps [of c])
    next
      case 2
      then have "match_from (Suc c) i m t mt v = Some (False, mt', v')"
        using "1.prems"(1) len by (simp add: match_from.simps [of c])
      with "1.IH"(1) 2 valid len i mono [of c] show ?thesis
        by (auto simp: le_less_Suc_eq Suc_le_eq dest: le_neq_implies_less)
    next
      case 3
      then have "match_from (Suc c) i m t mt v = Some (False, mt', v')"
        using "1.prems"(1) len i by (simp add: match_from.simps [of c])
      with "1.IH"(2) 3 valid len i show ?thesis
        by (auto simp: Suc_le_eq dest: le_neq_implies_less)
    qed
  next
    case True
    then have c: "c < length t" "\<not> v ! c" "mts_is_subset_of (t ! c) (m ! i)" by auto
    with "1.prems"(1) len lmt i obtain h where h: "mt ! c = Some h"
      by (cases "mt ! c") (simp_all add: match_from.simps [of c])
    from valid h c have hm: "h < length m" by (simp add: valid_matching_def)
    have gets: "c < length t" "vec_get v c = Some (v ! c)" "\<not> v ! c" "vec_get m i = Some (m ! i)"
      "\<not> \<not> mts_is_subset_of (t ! c) (m ! i)" "vec_get mt c = Some (Some h)"
      using c len lmt i h by auto
    have len1: "length (v[c := True]) = length t" using len by simp
    obtain f mt2 v2 where rec: "match_from 0 h m t mt (v[c := True]) = Some (f, mt2, v2)"
      and out: "step_outcome m t h mt (v[c := True]) f mt2 v2"
      using match_from_outcome [OF valid len1 hm] by blast
    with "1.prems"(1) c len lmt i h have f: "\<not> f"
      by (cases f) (simp_all add: match_from.simps [of c])
    with out have mt2: "mt2 = mt" and len2: "length v2 = length t"
      using len by (simp_all add: step_outcome_def)
    from "1.prems"(1) c len lmt i h rec f mt2
    have next': "match_from (Suc c) i m t mt v2 = Some (False, mt', v')"
      by (simp add: match_from.simps [of c])
    have mono2: "v' ! j" if "v2 ! j" "j < length t" for j
      using match_from_outcome [OF valid len2 i, of "Suc c"] next' that len2
      by (auto simp: step_outcome_def)
    have c2: "v2 ! c" using out c len by (simp add: step_outcome_def)
    have nested: "(\<forall>l<length t. mts_is_subset_of (t ! l) (m ! h) \<longrightarrow> v2 ! l) \<and>
        (\<forall>j<length t. \<not> v[c := True] ! j \<and> v2 ! j \<longrightarrow>
          (\<exists>h'. mt ! j = Some h' \<and> (\<forall>l<length t. mts_is_subset_of (t ! l) (m ! h') \<longrightarrow> v2 ! l)))"
      using "1.IH"(3) [OF gets refl _ valid len1 hm] rec f mt2 by auto
    have later: "(\<forall>j. Suc c \<le> j \<and> j < length t \<and> mts_is_subset_of (t ! j) (m ! i) \<longrightarrow> v' ! j) \<and>
        (\<forall>j<length t. \<not> v2 ! j \<and> v' ! j \<longrightarrow>
          (\<exists>h'. mt ! j = Some h' \<and> (\<forall>l<length t. mts_is_subset_of (t ! l) (m ! h') \<longrightarrow> v' ! l)))"
      using "1.IH"(4) [OF gets refl rec refl refl _ _ _ len2 i] next' f mt2 valid by auto
    have "v' ! j" if "c \<le> j" "j < length t" "mts_is_subset_of (t ! j) (m ! i)" for j
      using that later mono2 [of j] c2 by (cases "j = c") auto
    moreover have "\<exists>h'. mt ! j = Some h' \<and> (\<forall>l<length t. mts_is_subset_of (t ! l) (m ! h') \<longrightarrow> v' ! l)"
      if "j < length t" "\<not> v ! j" "v' ! j" for j
    proof -
      consider "\<not> v2 ! j" | "j = c" | "v2 ! j" "j \<noteq> c" by blast
      then show ?thesis
      proof cases
        case 1
        with later that show ?thesis by blast
      next
        case 2
        with h nested mono2 show ?thesis by auto
      next
        case 3
        with nested that mono2 show ?thesis by (metis nth_list_update_neq)
      qed
    qed
    ultimately show ?thesis by blast
  qed
qed

text \<open>
  Hall's condition: an injection cannot map the holders of the visited candidates together with one
  more index into the visited candidates.
\<close>

lemma no_injection_into_visited:
  assumes fin: "finite V" and hold: "inj_on holder V" and fresh: "i \<notin> holder ` V"
    and into: "g ` insert i (holder ` V) \<subseteq> V" and inj: "inj_on g (insert i (holder ` V))"
  shows False
proof -
  have "card (insert i (holder ` V)) = Suc (card V)"
    using fin hold fresh by (simp add: card_image)
  moreover have "card (insert i (holder ` V)) \<le> card V"
    using card_inj_on_le [OF inj into fin] .
  ultimately show False by simp
qed

lemma mset_prefix_matching:
  assumes "mset mt + replicate_mset i None = replicate_mset k None + mset (map Some [0..<i])"
    and "a < length mt" and "b < length mt" and "mt ! a = Some h" and "mt ! b = Some h"
  shows "a = b \<and> h < i"
proof -
  have "count (mset mt) (Some h) = count (mset (map Some [0..<i])) (Some h)"
    using arg_cong [OF assms(1), of "\<lambda>M. count M (Some h)"] by simp
  also have "\<dots> = (if Some h \<in> set (map Some [0..<i]) then 1 else 0)"
    using distinct_count_atmost_1 [of "map Some [0..<i]"] by (simp add: distinct_map)
  also have "\<dots> = (if h < i then 1 else 0)" by auto
  finally have cnt: "count (mset mt) (Some h) = (if h < i then 1 else 0)" .
  have pos: "0 < count (mset mt) (Some h)" using assms(2,4) by (metis count_mset_gt_0 nth_mem)
  with cnt have "h < i" by (simp split: if_splits)
  moreover have "a = b"
  proof (rule ccontr)
    assume "a \<noteq> b"
    then have "2 \<le> card {j. j < length mt \<and> mt ! j = Some h}"
      using card_mono [of "{j. j < length mt \<and> mt ! j = Some h}" "{a, b}"] assms(2-5) by auto
    then have "2 \<le> count (mset mt) (Some h)"
      by (simp add: count_mset count_list_eq_length_filter length_filter_conv_card eq_commute [of "Some h"])
    with cnt show False by (simp split: if_splits)
  qed
  ultimately show ?thesis by simp
qed

lemma match_index_complete:
  assumes exists: "shard_matching_exists m t" and valid: "valid_matching m t mt" and i: "i < length m"
    and prefix: "mset mt + replicate_mset i None = replicate_mset (length t) None + mset (map Some [0..<i])"
  shows "\<exists>mt'. match_index m t mt i = Some (True, mt')"
proof (rule ccontr)
  assume neg: "\<nexists>mt'. match_index m t mt i = Some (True, mt')"
  let ?v = "replicate (length t) False"
  have lmt: "length mt = length t" using valid by (simp add: valid_matching_def)
  obtain b mt' v' where r: "match_from 0 i m t mt ?v = Some (b, mt', v')"
    using match_from_outcome [OF valid, of ?v i 0] i by auto
  with neg have "\<not> b" by (cases b) (auto simp: match_index_def match_shard_def)
  with r have r': "match_from 0 i m t mt ?v = Some (False, mt', v')" by simp
  define V where "V = {j. j < length t \<and> v' ! j}"
  define holder where "holder j = the (mt ! j)" for j
  note closed = match_from_failed [OF r' valid _ i]
  have held: "mt ! j = Some (holder j)" if "j \<in> V" for j
    using closed that by (auto simp: V_def holder_def)
  have nbr: "l \<in> V" if "l < length t" "mts_is_subset_of (t ! l) (m ! h)" "h \<in> insert i (holder ` V)" for l h
    using closed that by (fastforce simp: V_def holder_def)
  from exists obtain g where g: "inj_on g {..<length m}"
      "\<And>i. i < length m \<Longrightarrow> g i < length t \<and> mts_is_subset_of (t ! g i) (m ! i)"
    by (auto simp: shard_matching_exists_def)
  have hb: "holder j < i" if "j \<in> V" for j
    using mset_prefix_matching [OF prefix _ _ held [OF that] held [OF that]] that lmt by (simp add: V_def)
  have sub: "insert i (holder ` V) \<subseteq> {..<length m}" using hb i by force
  have "g ` insert i (holder ` V) \<subseteq> V" using g(2) sub nbr by blast
  moreover have "inj_on g (insert i (holder ` V))" using g(1) sub by (rule inj_on_subset)
  moreover have "inj_on holder V"
  proof (rule inj_onI)
    fix x y
    assume "x \<in> V" "y \<in> V" "holder x = holder y"
    then show "x = y"
      using mset_prefix_matching [OF prefix _ _ held [of x], of y] held [of y] lmt by (simp add: V_def)
  qed
  moreover have "i \<notin> holder ` V" using hb by auto
  ultimately show False using no_injection_into_visited [of V holder i g] by (simp add: V_def)
qed

interpretation kuhn_complete: complete_matching_step
  "match_index m t" "valid_matching m t" "length m" "length t" "shard_matching_exists m t"
  for m t
  by unfold_locales (rule match_index_complete)

lemma match_all_exact:
  "map_option fst (all_with_state (match_index m t) (replicate (length t) None) [0..<length m])
     = Some (shard_matching_exists m t)"
proof (cases "shard_matching_exists m t")
  case True
  then show ?thesis
    using kuhn_complete.all_complete_from [OF True valid_matching_empty, of 0] by auto
next
  case False
  obtain b mt where all: "all_with_state (match_index m t) (replicate (length t) None) [0..<length m] = Some (b, mt)"
    and valid: "valid_matching m t mt"
    using kuhn.all_returns [OF valid_matching_empty, of "[0..<length m]" m t] by (auto simp: lessThan_atLeast0)
  have "\<not> b"
  proof
    assume b
    with all kuhn.all_matches [OF valid_matching_empty, of m t mt] obtain g
      where "inj_on g {..<length m}" "\<And>i. i < length m \<Longrightarrow> g i < length mt \<and> mt ! g i = Some i" by auto
    with valid have "shard_matching_exists m t"
      unfolding shard_matching_exists_def valid_matching_def by metis
    with False show False by simp
  qed
  with all False show ?thesis by simp
qed

lemma shard_matching_length:
  assumes "shard_matching_exists m t"
  shows "length m \<le> length t"
proof -
  from assms obtain g where g: "inj_on g {..<length m}" "g ` {..<length m} \<subseteq> {..<length t}"
    by (auto simp: shard_matching_exists_def)
  from card_inj_on_le [OF g] show ?thesis by simp
qed

lemma is_payable_whenever_iff:
  "is_payable_whenever (Cost ms mg) (Cost ts tg) = Some True \<longleftrightarrow>
     mana_value (Cost ms mg) \<le> mana_value (Cost ts tg) \<and>
     (\<exists>mine theirs. those (map single_mana_payment_types ms) = Some mine \<and>
        those (map single_mana_payment_types ts) = Some theirs \<and> shard_matching_exists mine theirs)"
  (is "?L \<longleftrightarrow> ?R")
proof (cases "those (map single_mana_payment_types ms)")
  case None
  then show ?thesis by simp
next
  case (Some mine)
  note m = Some
  show ?thesis
  proof (cases "those (map single_mana_payment_types ts)")
    case None
    with m show ?thesis by simp
  next
    case (Some theirs)
    have "\<not> length ts < length ms" if "shard_matching_exists mine theirs"
      using shard_matching_length [OF that] those_map_Some [OF m] those_map_Some [OF Some] by simp
    with m Some show ?thesis
      by (auto simp: match_all_exact not_le not_less simp del: mana_value.simps)
  qed
qed

subsection \<open>Properties\<close>

text \<open>
  When the dominance test says that one cost is payable whenever another one is, every pool of
  mana that pays the other pays it too.
\<close>

theorem dominance_sound:
  assumes "is_payable_whenever (Cost ms mg) (Cost ts tg) = Some True"
    and "fits_u32 (Cost ms mg)" "fits_u32 (Cost ts tg)" and "can_pay pool (Cost ts tg)"
  shows "can_pay pool (Cost ms mg)"
  by (rule is_payable_whenever_sound_cost [OF assms])

text \<open>
  C20. The test answers yes exactly when the mana values compare and the symbols of the first cost can
  be matched injectively to symbols of the second that accept no mana they do not accept; re-routing
  along augmenting paths finds such a matching whenever there is one. When it answers yes, every pool of mana that pays
  the second cost pays the first.
\<close>

theorem dominance_exact:
  "(is_payable_whenever (Cost ms mg) (Cost ts tg) = Some True \<longleftrightarrow>
     mana_value (Cost ms mg) \<le> mana_value (Cost ts tg) \<and>
     (\<exists>mine theirs. those (map single_mana_payment_types ms) = Some mine \<and>
        those (map single_mana_payment_types ts) = Some theirs \<and> shard_matching_exists mine theirs))
   \<and> (is_payable_whenever (Cost ms mg) (Cost ts tg) = Some True \<and> fits_u32 (Cost ms mg) \<and> fits_u32 (Cost ts tg) \<and> can_pay pool (Cost ts tg)
       \<longrightarrow> can_pay pool (Cost ms mg))"
  using is_payable_whenever_iff is_payable_whenever_sound_cost by blast

theorem dominance_exact_witness:
  "is_payable_whenever (Cost [ShWhiteBlue] 0) (Cost [ShWhite] 1) = Some True \<and> can_pay [TyWhite, TyRed] (Cost [ShWhiteBlue] 0)"
proof -
  have dom: "is_payable_whenever (Cost [ShWhiteBlue] 0) (Cost [ShWhite] 1) = Some True" by code_simp
  have "can_pay [TyWhite, TyRed] (Cost [ShWhite] 1)"
    unfolding can_pay_def by (intro exI [of _ "[ShWhite]"] exI [of _ 1] conjI exI [of _ id])
      (simp_all add: shard_accepts_def mts_membership)
  with dominance_exact [of "[ShWhiteBlue]" 0 "[ShWhite]" 1 "[TyWhite, TyRed]"] dom show ?thesis by (simp add: fits_u32_def)
qed

text \<open>The test always returns: no vector of the matching is read out of range.\<close>

theorem dominance_returns: "\<exists>b. is_payable_whenever a c = Some b"
  by (rule is_payable_whenever_returns)

end
