(* ===== verification/Mana_Pool.thy ===== *)
theory Mana_Pool
  imports Mana_Cost
begin

text \<open>
  Mana in a pool (\<^verbatim>\<open>src/crates/engine/src/types/mana.rs\<close>): what a unit of mana may be spent on, the pool of a player and
  how units leave it. A restriction names the payments that it permits; a unit may carry several, and all of them must
  permit the payment.

  Keyword kinds are their position in the enumeration, type phrases and qualities are ASCII strings, and grants, which
  payments only carry along, are opaque values \<open>'g\<close>. A pool is the list of its units.
\<close>

subsection \<open>Payments\<close>

datatype comparator = CmpGT | CmpLT | CmpGE | CmpLE | CmpEQ | CmpNE

fun comparator_evaluate :: "comparator \<Rightarrow> 32 word \<Rightarrow> 32 word \<Rightarrow> bool" where
  "comparator_evaluate CmpGT l r = (sint r < sint l)"
| "comparator_evaluate CmpLT l r = (sint l < sint r)"
| "comparator_evaluate CmpGE l r = (sint r \<le> sint l)"
| "comparator_evaluate CmpLE l r = (sint l \<le> sint r)"
| "comparator_evaluate CmpEQ l r = (l = r)"
| "comparator_evaluate CmpNE l r = (l \<noteq> r)"

datatype ability_tag = Boast | Evolve | Exhaust | Outlast | Cycling | Backup | PowerUp | Equip | Augment

datatype special_action = CompanionToHand | UnlockDoor | Plot | TurnFaceUp | RollPlanarDie | EndContinuousEffect

datatype ability_activation_scope = OfSpellType | AnyAbility

datatype zone_spend_polarity = FromZone | NotFromZone

datatype zone_spend = ZoneSpend (zs_zone: zone) (zs_polarity: zone_spend_polarity)

datatype spell_cost_criterion = CritManaValue comparator u32 | HasXInCost

type_synonym keyword_kind = nat

datatype mana_restriction =
    OnlyForSpell
  | OnlyForSpellType string
  | OnlyForCreatureType string
  | OnlyForTypeSpellsOrAbilities string ability_activation_scope
  | OnlyForActivation
  | OnlyForTaggedActivation ability_tag
  | OnlyForXCosts
  | OnlyForSpellWithKeywordKind keyword_kind
  | OnlyForSpellWithKeywordKindFromZone keyword_kind zone
  | OnlyForSpellWithManaValue comparator u32
  | OnlyForSpellMatchingCostCriteria "string option" "spell_cost_criterion list"
  | OnlyForSpellWithColorCount comparator u32
  | OnlyForSpellColor mana_color
  | OnlyForSpellFromZone zone_spend
  | CannotCastSpellFromZone zone
  | OnlyForFaceDownSpell
  | OnlyForAny "mana_restriction list"
  | OnlyForSpecialAction special_action
  | ImpossibleRestriction
  | ConvokePayment

record spell_meta =
  sm_types :: "string list"
  sm_subtypes :: "string list"
  sm_keyword_kinds :: "keyword_kind list"
  sm_cast_from_zone :: "zone option"
  sm_mana_value :: "u32 option"
  sm_color_count :: "u32 option"
  sm_colors :: "mana_color list"
  sm_has_x_in_cost :: bool
  sm_is_face_down :: bool
  sm_cant_spend_mana :: bool
  sm_spend_only_on_x_colors :: "mana_color list option"
  sm_spend_only_on_x_generic_count :: u32

datatype activation_mana_color_constraint = UnrestrictedColor | OnlyColor mana_color | ImpossibleColor

datatype payment_context =
    PaySpell spell_meta
  | PayActivation "string list" "string list" "ability_tag option" activation_mana_color_constraint
  | PayEffect
  | PaySpecialAction special_action

fun constraint_permits :: "activation_mana_color_constraint \<Rightarrow> mana_type \<Rightarrow> bool" where
  "constraint_permits UnrestrictedColor t = True"
| "constraint_permits (OnlyColor c) t = (t = mana_type_of_color c)"
| "constraint_permits ImpossibleColor t = False"

fun permits_actual_mana_type :: "payment_context \<Rightarrow> mana_type \<Rightarrow> bool" where
  "permits_actual_mana_type (PayActivation _ _ _ constraint) t = constraint_permits constraint t"
| "permits_actual_mana_type _ t = True"

subsection \<open>What a restriction permits\<close>

text \<open>\<^verbatim>\<open>str::split\<close> with a non-empty pattern and \<^verbatim>\<open>str::split_whitespace\<close>.\<close>

fun split_on :: "string \<Rightarrow> string \<Rightarrow> string \<Rightarrow> string list" where
  "split_on pat piece [] = [rev piece]"
| "split_on pat piece (c # s) =
     (if take (length pat) (c # s) = pat then rev piece # split_on pat [] (drop (length pat - 1) s)
      else split_on pat (c # piece) s)"

definition is_whitespace :: "char \<Rightarrow> bool" where
  "is_whitespace c = (of_char c = (32 :: nat) \<or> (9 \<le> (of_char c :: nat) \<and> of_char c \<le> (13 :: nat)))"

fun words_of :: "string \<Rightarrow> string \<Rightarrow> string list" where
  "words_of word [] = (if word = [] then [] else [rev word])"
| "words_of word (c # s) =
     (if \<not> is_whitespace c then words_of (c # word) s
      else if word = [] then words_of [] s else rev word # words_of [] s)"

definition split_whitespace :: "string \<Rightarrow> string list" where
  "split_whitespace s = words_of [] s"

text \<open>A phrase lists alternatives; an alternative matches if every word of it is a quality.\<close>

definition matches_required_quality :: "string \<Rightarrow> string list \<Rightarrow> bool" where
  "matches_required_quality required qualities =
     list_ex (\<lambda>alternative. list_all (\<lambda>part. list_ex (\<lambda>quality. eq_ignore_ascii_case quality part) qualities)
                (split_whitespace alternative))
       (concat (map (split_on '' and '' []) (split_on '' or '' [] required)))"

fun criterion_matches :: "spell_cost_criterion \<Rightarrow> spell_meta \<Rightarrow> bool" where
  "criterion_matches (CritManaValue comparator value) meta =
     (case sm_mana_value meta of None \<Rightarrow> False | Some mv \<Rightarrow> comparator_evaluate comparator mv value)"
| "criterion_matches HasXInCost meta = sm_has_x_in_cost meta"

fun allows_spell :: "mana_restriction \<Rightarrow> spell_meta \<Rightarrow> bool" where
  "allows_spell OnlyForSpell meta = True"
| "allows_spell (OnlyForSpellType required) meta = matches_required_quality required (sm_types meta @ sm_subtypes meta)"
| "allows_spell (OnlyForCreatureType required) meta =
     (list_ex (\<lambda>t. eq_ignore_ascii_case t ''Creature'') (sm_types meta)
      \<and> list_ex (\<lambda>t. eq_ignore_ascii_case t required) (sm_subtypes meta))"
| "allows_spell (OnlyForTypeSpellsOrAbilities spell_type _) meta =
     matches_required_quality spell_type (sm_types meta @ sm_subtypes meta)"
| "allows_spell OnlyForActivation meta = False"
| "allows_spell (OnlyForTaggedActivation _) meta = False"
| "allows_spell OnlyForXCosts meta = sm_has_x_in_cost meta"
| "allows_spell (OnlyForSpellWithKeywordKind kind) meta = (kind \<in> set (sm_keyword_kinds meta))"
| "allows_spell (OnlyForSpellWithKeywordKindFromZone kind z) meta =
     (kind \<in> set (sm_keyword_kinds meta) \<and> sm_cast_from_zone meta = Some z)"
| "allows_spell (OnlyForSpellWithManaValue comparator value) meta =
     (case sm_mana_value meta of None \<Rightarrow> False | Some mv \<Rightarrow> comparator_evaluate comparator mv value)"
| "allows_spell (OnlyForSpellMatchingCostCriteria spell_type criteria) meta =
     ((case spell_type of None \<Rightarrow> True | Some required \<Rightarrow> matches_required_quality required (sm_types meta @ sm_subtypes meta))
      \<and> list_ex (\<lambda>c. criterion_matches c meta) criteria)"
| "allows_spell (OnlyForSpellWithColorCount comparator n) meta =
     (case sm_color_count meta of None \<Rightarrow> False | Some cc \<Rightarrow> comparator_evaluate comparator cc n)"
| "allows_spell (OnlyForSpellColor c) meta = (c \<in> set (sm_colors meta))"
| "allows_spell (OnlyForSpellFromZone zs) meta =
     (case zs_polarity zs of
        FromZone \<Rightarrow> sm_cast_from_zone meta = Some (zs_zone zs)
      | NotFromZone \<Rightarrow> (case sm_cast_from_zone meta of None \<Rightarrow> False | Some z \<Rightarrow> z \<noteq> zs_zone zs))"
| "allows_spell (CannotCastSpellFromZone z) meta =
     (case sm_cast_from_zone meta of None \<Rightarrow> False | Some cast_from \<Rightarrow> cast_from \<noteq> z)"
| "allows_spell OnlyForFaceDownSpell meta = sm_is_face_down meta"
| "allows_spell (OnlyForAny subs) meta = list_ex (\<lambda>r. allows_spell r meta) subs"
| "allows_spell (OnlyForSpecialAction _) meta = False"
| "allows_spell ImpossibleRestriction meta = False"
| "allows_spell ConvokePayment meta = True"

fun allows_activation :: "mana_restriction \<Rightarrow> string list \<Rightarrow> string list \<Rightarrow> ability_tag option \<Rightarrow> bool" where
  "allows_activation (CannotCastSpellFromZone _) types subtypes tag = True"
| "allows_activation (OnlyForTypeSpellsOrAbilities spell_type ability) types subtypes tag =
     (case ability of OfSpellType \<Rightarrow> matches_required_quality spell_type (types @ subtypes) | AnyAbility \<Rightarrow> True)"
| "allows_activation OnlyForActivation types subtypes tag = True"
| "allows_activation (OnlyForTaggedActivation required) types subtypes tag = (tag = Some required)"
| "allows_activation (OnlyForAny subs) types subtypes tag = list_ex (\<lambda>r. allows_activation r types subtypes tag) subs"
| "allows_activation _ types subtypes tag = False"

fun allows_effect :: "mana_restriction \<Rightarrow> bool" where
  "allows_effect (CannotCastSpellFromZone _) = True"
| "allows_effect (OnlyForAny subs) = list_ex allows_effect subs"
| "allows_effect _ = False"

fun allows_special_action :: "mana_restriction \<Rightarrow> special_action \<Rightarrow> bool" where
  "allows_special_action (OnlyForSpecialAction allowed) action = (allowed = action)"
| "allows_special_action (CannotCastSpellFromZone _) action = True"
| "allows_special_action (OnlyForAny subs) action = list_ex (\<lambda>r. allows_special_action r action) subs"
| "allows_special_action _ action = False"

fun allows :: "mana_restriction \<Rightarrow> payment_context \<Rightarrow> bool" where
  "allows r (PaySpell meta) = allows_spell r meta"
| "allows r (PayActivation types subtypes tag _) = allows_activation r types subtypes tag"
| "allows r PayEffect = allows_effect r"
| "allows r (PaySpecialAction action) = allows_special_action r action"

subsection \<open>Units\<close>

datatype mana_expiry = EndOfTurn | EndOfCombat | EndOfPhaseGroup

datatype mana_supertype = Snow

record 'g mana_unit =
  mu_color :: mana_type
  mu_source :: u64
  mu_pip :: u64
  mu_supertype :: "mana_supertype option"
  mu_two_or_more_colors :: bool
  mu_restrictions :: "mana_restriction list"
  mu_grants :: "'g list"
  mu_expiry :: "mana_expiry option"

definition mana_unit_eq :: "'g mana_unit \<Rightarrow> 'g mana_unit \<Rightarrow> bool" where
  "mana_unit_eq u v = (mu_color u = mu_color v \<and> mu_source u = mu_source v \<and> mu_supertype u = mu_supertype v
     \<and> mu_two_or_more_colors u = mu_two_or_more_colors v \<and> mu_restrictions u = mu_restrictions v
     \<and> mu_grants u = mu_grants v \<and> mu_expiry u = mu_expiry v)"

definition unit_new :: "mana_type \<Rightarrow> u64 \<Rightarrow> bool \<Rightarrow> mana_restriction list \<Rightarrow> 'g mana_unit" where
  "unit_new color source snow restrictions =
     \<lparr>mu_color = color, mu_source = source, mu_pip = 0, mu_supertype = (if snow then Some Snow else None),
      mu_two_or_more_colors = False, mu_restrictions = restrictions, mu_grants = [], mu_expiry = None\<rparr>"

definition is_snow :: "'g mana_unit \<Rightarrow> bool" where
  "is_snow u = (mu_supertype u = Some Snow)"

definition convoke_payment :: "mana_type \<Rightarrow> u64 \<Rightarrow> 'g mana_unit" where
  "convoke_payment color source =
     \<lparr>mu_color = color, mu_source = source, mu_pip = 0, mu_supertype = None, mu_two_or_more_colors = False,
      mu_restrictions = [ConvokePayment], mu_grants = [], mu_expiry = None\<rparr>"

definition is_convoke_payment :: "'g mana_unit \<Rightarrow> bool" where
  "is_convoke_payment u = (ConvokePayment \<in> set (mu_restrictions u))"

fun tallied_color :: "mana_type \<Rightarrow> mana_color option" where
  "tallied_color TyWhite = Some White"
| "tallied_color TyBlue = Some Blue"
| "tallied_color TyBlack = Some Black"
| "tallied_color TyRed = Some Red"
| "tallied_color TyGreen = Some Green"
| "tallied_color TyColorless = None"

definition cmc_add_unit :: "colored_mana_count \<Rightarrow> 'g mana_unit \<Rightarrow> colored_mana_count" where
  "cmc_add_unit tally u = (case tallied_color (mu_color u) of None \<Rightarrow> tally | Some c \<Rightarrow> cmc_add tally c 1)"

subsection \<open>The pool\<close>

type_synonym 'g mana_pool = "'g mana_unit list"

definition pool_add :: "'g mana_pool \<Rightarrow> 'g mana_unit \<Rightarrow> 'g mana_pool" where
  "pool_add pool u = pool @ [u]"

definition pool_count_color :: "'g mana_pool \<Rightarrow> mana_type \<Rightarrow> nat" where
  "pool_count_color pool color = length (filter (\<lambda>u. mu_color u = color) pool)"

definition pool_total :: "'g mana_pool \<Rightarrow> nat" where
  "pool_total pool = length pool"

definition produced_mana_total :: "'g mana_pool \<Rightarrow> nat" where
  "produced_mana_total pool = length (filter (\<lambda>u. \<not> is_convoke_payment u) pool)"

definition pool_clear :: "'g mana_pool \<Rightarrow> 'g mana_pool" where
  "pool_clear pool = []"

definition remove_from_source :: "'g mana_pool \<Rightarrow> u64 \<Rightarrow> 'g mana_pool \<times> nat" where
  "remove_from_source pool source =
     (let kept = filter (\<lambda>u. mu_source u \<noteq> source) pool in (kept, length pool - length kept))"

fun retain_spending :: "nat \<Rightarrow> 'g mana_pool \<Rightarrow> 'g mana_pool" where
  "retain_spending remaining [] = []"
| "retain_spending remaining (u # us) =
     (if remaining = 0 then u # retain_spending remaining us
      else if mu_restrictions u = [] then retain_spending (remaining - 1) us
      else u # retain_spending remaining us)"

definition spend_generic :: "'g mana_pool \<Rightarrow> nat \<Rightarrow> 'g mana_pool \<times> bool" where
  "spend_generic pool n =
     (if length (filter (\<lambda>u. mu_restrictions u = []) pool) < n then (pool, False) else (retain_spending n pool, True))"

text \<open>\<^verbatim>\<open>Vec::swap_remove\<close>: the last element takes the place of the removed one.\<close>

definition swap_remove :: "nat \<Rightarrow> 'a list \<Rightarrow> 'a list \<times> 'a" where
  "swap_remove i xs = (butlast (xs[i := last xs]), xs ! i)"

definition spend_where :: "('g mana_unit \<Rightarrow> bool) \<Rightarrow> 'g mana_pool \<Rightarrow> ('g mana_pool \<times> 'g mana_unit) option" where
  "spend_where P pool = map_option (\<lambda>i. swap_remove i pool) (position P pool)"

definition spend :: "'g mana_pool \<Rightarrow> mana_type \<Rightarrow> 'g mana_pool \<times> 'g mana_unit option" where
  "spend pool color =
     (case spend_where (\<lambda>u. mu_color u = color) pool of Some (pool', u) \<Rightarrow> (pool', Some u) | None \<Rightarrow> (pool, None))"

definition spend_for :: "'g mana_pool \<Rightarrow> mana_type \<Rightarrow> payment_context \<Rightarrow> 'g mana_pool \<times> 'g mana_unit option" where
  "spend_for pool color ctx =
     (case spend_where (\<lambda>u. mu_color u = color \<and> permits_actual_mana_type ctx (mu_color u) \<and> mu_restrictions u = []) pool of
        Some (pool', u) \<Rightarrow> (pool', Some u)
      | None \<Rightarrow>
          (case spend_where (\<lambda>u. mu_color u = color \<and> permits_actual_mana_type ctx (mu_color u) \<and> mu_restrictions u \<noteq> []
                  \<and> list_all (\<lambda>r. allows r ctx) (mu_restrictions u)) pool of
             Some (pool', u) \<Rightarrow> (pool', Some u)
           | None \<Rightarrow> (pool, None)))"

subsection \<open>Spending\<close>

text \<open>A unit that may be spent as mana of a type in a payment.\<close>

definition payable :: "mana_type \<Rightarrow> payment_context \<Rightarrow> 'g mana_unit \<Rightarrow> bool" where
  "payable color ctx u = (mu_color u = color \<and> permits_actual_mana_type ctx color \<and> list_all (\<lambda>r. allows r ctx) (mu_restrictions u))"

lemma mset_swap_remove: "i < length xs \<Longrightarrow> mset xs = add_mset (snd (swap_remove i xs)) (mset (fst (swap_remove i xs)))"
proof -
  assume i: "i < length xs"
  then obtain ys y where xs: "xs = ys @ [y]" by (cases xs rule: rev_exhaust) auto
  with i consider "i = length ys" | "i < length ys" by fastforce
  then show ?thesis
  proof cases
    case 2
    then have "mset ys = add_mset (ys ! i) (mset ys - {#ys ! i#})" by simp
    with 2 show ?thesis by (simp add: xs swap_remove_def nth_append list_update_append mset_update)
  qed (simp add: xs swap_remove_def nth_append list_update_append)
qed

lemma spend_where_None [simp]: "spend_where P pool = None \<longleftrightarrow> (\<forall>u\<in>set pool. \<not> P u)"
  by (simp add: spend_where_def rust_simps)

lemma spend_where_Some:
  assumes "spend_where P pool = Some (pool', u)"
  shows "P u" "mset pool = add_mset u (mset pool')"
proof -
  obtain i where i: "position P pool = Some i" "swap_remove i pool = (pool', u)"
    using assms by (auto simp: spend_where_def)
  then have "i < length pool" "P (pool ! i)" by (auto dest: position_Some)
  with i show "P u" "mset pool = add_mset u (mset pool')"
    using mset_swap_remove [of i pool] by (auto simp: swap_remove_def)
qed

text \<open>A unit is spent exactly when one is payable, and an unrestricted one as long as there is one.\<close>

lemma spend_for_None: "snd (spend_for pool color ctx) = None \<longleftrightarrow> (\<forall>u\<in>set pool. \<not> payable color ctx u)"
proof -
  have "snd (spend_for pool color ctx) = None \<longleftrightarrow>
      (\<forall>u\<in>set pool. \<not> (mu_color u = color \<and> permits_actual_mana_type ctx (mu_color u) \<and> mu_restrictions u = []))
      \<and> (\<forall>u\<in>set pool. \<not> (mu_color u = color \<and> permits_actual_mana_type ctx (mu_color u) \<and> mu_restrictions u \<noteq> []
            \<and> list_all (\<lambda>r. allows r ctx) (mu_restrictions u)))"
    unfolding spend_for_def spend_where_None [symmetric] by (simp split: option.split del: spend_where_None)
  also have "\<dots> \<longleftrightarrow> (\<forall>u\<in>set pool. \<not> payable color ctx u)"
    unfolding payable_def by (auto; case_tac "mu_restrictions u"; auto)
  finally show ?thesis .
qed

lemma spend_for_Some:
  assumes "spend_for pool color ctx = (pool', Some u)"
  shows "payable color ctx u" "mset pool = add_mset u (mset pool')"
    and "mu_restrictions u \<noteq> [] \<Longrightarrow> payable color ctx v \<Longrightarrow> v \<in> set pool \<Longrightarrow> mu_restrictions v \<noteq> []"
  using assms
  by (auto simp: spend_for_def payable_def split: option.splits prod.splits dest: spend_where_Some)

text \<open>Payments of several symbols in one context.\<close>

fun pay_types :: "payment_context \<Rightarrow> 'g mana_pool \<Rightarrow> mana_type list \<Rightarrow> ('g mana_pool \<times> 'g mana_unit list) option" where
  "pay_types ctx pool [] = Some (pool, [])"
| "pay_types ctx pool (c # cs) =
     (case spend_for pool c ctx of
        (_, None) \<Rightarrow> None
      | (pool', Some u) \<Rightarrow> map_option (apsnd ((#) u)) (pay_types ctx pool' cs))"

text \<open>Spending one symbol at a time never fails while the pool holds enough, and takes nothing that may not be spent.\<close>

lemma pay_types_complete:
  "pay_types ctx pool cs = None \<longleftrightarrow> (\<exists>c. size (filter_mset (payable c ctx) (mset pool)) < count_list cs c)"
proof (induction cs arbitrary: pool)
  case (Cons c cs)
  show ?case
  proof (cases "spend_for pool c ctx")
    case (Pair pool' r)
    show ?thesis
    proof (cases r)
      case None
      then have none: "filter_mset (payable c ctx) (mset pool) = {#}"
        using spend_for_None [of pool c ctx] Pair by simp
      have "size (filter_mset (payable c ctx) (mset pool)) < count_list (c # cs) c" unfolding none by simp
      with None Pair show ?thesis by auto
    next
      case (Some u)
      with Pair have u: "payable c ctx u" "mset pool = add_mset u (mset pool')" using spend_for_Some(1,2) by blast+
      then have "payable d ctx u \<longleftrightarrow> d = c" for d by (auto simp: payable_def)
      with u have "size (filter_mset (payable d ctx) (mset pool)) < count_list (c # cs) d
          \<longleftrightarrow> size (filter_mset (payable d ctx) (mset pool')) < count_list cs d" for d
        by (simp add: u(2))
      then show ?thesis using Cons.IH [of pool'] Pair Some by (simp add: option.map_disc_iff)
    qed
  qed
qed simp

lemma pay_types_sound:
  "pay_types ctx pool cs = Some (pool', us) \<Longrightarrow> mset pool = mset pool' + mset us \<and> list_all2 (\<lambda>c. payable c ctx) cs us"
proof (induction cs arbitrary: pool us)
  case (Cons c cs)
  then obtain pool1 u us1 where "spend_for pool c ctx = (pool1, Some u)" "pay_types ctx pool1 cs = Some (pool', us1)" "us = u # us1"
    by (auto split: prod.splits option.splits)
  with Cons.IH [of pool1 us1] show ?case by (auto dest: spend_for_Some(1,2))
qed simp

text \<open>A restriction that leaves payments of effects alone leaves every payment alone that is not a spell.\<close>

lemma effect_restrictions: "allows_effect r \<Longrightarrow> allows r (PayActivation types subtypes tag con) \<and> allows r (PaySpecialAction action)"
  by (induction r rule: allows_effect.induct) (auto simp: list_ex_iff)

end
