(* ===== verification/Mana_Emptying.thy ===== *)
theory Mana_Emptying
  imports Mana_Pool
begin

text \<open>
  What happens to unspent mana when a step or phase ends (\<^verbatim>\<open>src/crates/engine/src/types/mana.rs\<close> and \<^verbatim>\<open>phase.rs\<close>, and
  \<^verbatim>\<open>game/turns.rs\<close>, \<^verbatim>\<open>game/replacement.rs\<close>): retention markers are set and cleared, every unmarked unit is proposed for
  loss, the handlers of the player claim units in an order the player may choose, the decisions are applied to the pool, and
  the units that were lost cost life under mana burn or a static ability.

  Whether the format burns, whether a static ability makes lost mana cost life, whether a debug toggle keeps the pool full and
  which handlers are active are queries to the rest of the engine and arguments here. The choice of the next handler, by
  the player or by the pipeline where the order makes no difference, is the argument \<open>pick\<close>.
\<close>

subsection \<open>Phases and retention\<close>

datatype phase =
    PhUntap | PhUpkeep | PhDraw | PhPreCombatMain | PhBeginCombat | PhDeclareAttackers | PhDeclareBlockers
  | PhCombatDamage | PhEndCombat | PhPostCombatMain | PhEnd | PhCleanup

datatype phase_group = GrBeginning | GrPrecombatMain | GrCombat | GrPostcombatMain | GrEnding

fun phase_group_of :: "phase \<Rightarrow> phase_group" where
  "phase_group_of PhUntap = GrBeginning"
| "phase_group_of PhUpkeep = GrBeginning"
| "phase_group_of PhDraw = GrBeginning"
| "phase_group_of PhPreCombatMain = GrPrecombatMain"
| "phase_group_of PhBeginCombat = GrCombat"
| "phase_group_of PhDeclareAttackers = GrCombat"
| "phase_group_of PhDeclareBlockers = GrCombat"
| "phase_group_of PhCombatDamage = GrCombat"
| "phase_group_of PhEndCombat = GrCombat"
| "phase_group_of PhPostCombatMain = GrPostcombatMain"
| "phase_group_of PhEnd = GrEnding"
| "phase_group_of PhCleanup = GrEnding"

definition is_combat :: "phase \<Rightarrow> bool" where
  "is_combat ph = (phase_group_of ph = GrCombat)"

definition crosses_groups :: "phase option \<Rightarrow> phase \<Rightarrow> bool" where
  "crosses_groups previous upcoming =
     (case previous of None \<Rightarrow> False | Some ph \<Rightarrow> phase_group_of ph \<noteq> phase_group_of upcoming)"

definition marker_expired :: "phase option \<Rightarrow> phase \<Rightarrow> mana_expiry option \<Rightarrow> bool" where
  "marker_expired previous upcoming marker =
     (case marker of
        Some EndOfCombat \<Rightarrow> \<not> is_combat upcoming
      | Some EndOfPhaseGroup \<Rightarrow> crosses_groups previous upcoming
      | Some EndOfTurn \<Rightarrow> False
      | None \<Rightarrow> False)"

definition clear_expired_retention_markers :: "phase option \<Rightarrow> phase \<Rightarrow> 'g mana_pool \<Rightarrow> 'g mana_pool" where
  "clear_expired_retention_markers previous upcoming pool =
     map (\<lambda>u. if marker_expired previous upcoming (mu_expiry u) then u\<lparr>mu_expiry := None\<rparr> else u) pool"

definition retain_across_phase_group_steps :: "phase option \<Rightarrow> phase \<Rightarrow> 'g mana_pool \<Rightarrow> 'g mana_pool" where
  "retain_across_phase_group_steps previous upcoming pool =
     (if crosses_groups previous upcoming then pool
      else map (\<lambda>u. if mu_expiry u = None then u\<lparr>mu_expiry := Some EndOfPhaseGroup\<rparr> else u) pool)"

definition clear_expired_end_of_turn_retention_markers :: "'g mana_pool \<Rightarrow> 'g mana_pool" where
  "clear_expired_end_of_turn_retention_markers pool =
     map (\<lambda>u. if mu_expiry u = Some EndOfTurn then u\<lparr>mu_expiry := None\<rparr> else u) pool"

subsection \<open>Decisions and handlers\<close>

datatype unit_disposition = DropUnit | KeepUnit | RecolorUnit mana_type

record unit_decision =
  ud_index :: usize
  ud_color :: mana_type
  ud_disposition :: unit_disposition

datatype step_end_mana_action = RetainMana | TransformMana mana_type

record step_end_entry =
  se_source :: u64
  se_controller :: u8
  se_filter :: "mana_color option"
  se_action :: step_end_mana_action
  se_description :: string

definition empty_decisions :: "bool \<Rightarrow> 'g mana_pool \<Rightarrow> unit_decision list" where
  "empty_decisions keep_for_infinite_mana pool =
     map (\<lambda>(idx, u). \<lparr>ud_index = idx, ud_color = mu_color u, ud_disposition = (if keep_for_infinite_mana then KeepUnit else DropUnit)\<rparr>)
       (filter (\<lambda>(_, u). mu_expiry u = None) (enumerate 0 pool))"

definition entry_accepts :: "step_end_entry \<Rightarrow> mana_type \<Rightarrow> bool" where
  "entry_accepts entry t = (case se_filter entry of None \<Rightarrow> True | Some c \<Rightarrow> mana_type_of_color c = t)"

definition claim_unit :: "step_end_entry \<Rightarrow> unit_decision \<Rightarrow> unit_decision" where
  "claim_unit entry d =
     (if ud_disposition d \<noteq> DropUnit \<or> \<not> entry_accepts entry (ud_color d) then d
      else d\<lparr>ud_disposition := (case se_action entry of RetainMana \<Rightarrow> KeepUnit | TransformMana t \<Rightarrow> RecolorUnit t)\<rparr>)"

definition apply_empty_mana_pool_replacement ::
  "step_end_entry list \<Rightarrow> nat \<Rightarrow> unit_decision list \<Rightarrow> nat set \<Rightarrow> unit_decision list \<times> nat set" where
  "apply_empty_mana_pool_replacement handlers i units applied =
     (case vec_get handlers i of
        None \<Rightarrow> (units, applied)
      | Some entry \<Rightarrow> (map (claim_unit entry) units, insert i applied))"

definition step_end_candidates :: "step_end_entry list \<Rightarrow> unit_decision list \<Rightarrow> nat set \<Rightarrow> nat list" where
  "step_end_candidates handlers units applied =
     filter (\<lambda>i. i \<notin> applied \<and> list_ex (\<lambda>d. ud_disposition d = DropUnit \<and> entry_accepts (handlers ! i) (ud_color d)) units)
       [0..<length handlers]"

definition MAX_REPLACEMENT_DEPTH :: nat where
  "MAX_REPLACEMENT_DEPTH = 16"

function pipeline_loop ::
  "step_end_entry list \<Rightarrow> (nat list \<Rightarrow> nat) \<Rightarrow> unit_decision list \<Rightarrow> nat set \<Rightarrow> nat \<Rightarrow> unit_decision list" where
  "pipeline_loop handlers pick units applied depth =
     (if MAX_REPLACEMENT_DEPTH \<le> depth then units
      else (case step_end_candidates handlers units applied of
          [] \<Rightarrow> units
        | [i] \<Rightarrow> (let (units', applied') = apply_empty_mana_pool_replacement handlers i units (insert i applied)
                in pipeline_loop handlers pick units' applied' (Suc depth))
        | candidates \<Rightarrow>
            (let i = pick candidates; (units', applied') = apply_empty_mana_pool_replacement handlers i units (insert i applied)
             in pipeline_loop handlers pick units' applied' (Suc depth))))"
  by pat_completeness auto
termination by (relation "measure (\<lambda>(_, _, _, _, depth). MAX_REPLACEMENT_DEPTH - depth)") auto

declare pipeline_loop.simps [simp del]

subsection \<open>Applying decisions\<close>

datatype mana_pool_event = ManaPoolEmptied u8 u64 mana_type | ManaRecolored u8 mana_type mana_type

record 'g mana_players =
  mp_players :: "(u8 \<times> 'g mana_pool) list"
  mp_layers_dirty :: bool

record 'g emptying =
  em_pool :: "'g mana_pool"
  em_seen :: "nat set"
  em_changed :: bool
  em_removed :: u32
  em_events :: "mana_pool_event list"

definition apply_decision :: "u8 \<Rightarrow> unit_decision \<Rightarrow> 'g emptying \<Rightarrow> 'g emptying" where
  "apply_decision player d e =
     (let i = ud_index d; e1 = e\<lparr>em_seen := insert i (em_seen e)\<rparr>
      in if i \<in> em_seen e then e1
         else (case vec_get (em_pool e) i of
             None \<Rightarrow> e1
           | Some u \<Rightarrow>
               if mu_color u \<noteq> ud_color d then e1
               else (case ud_disposition d of
                   DropUnit \<Rightarrow> e1\<lparr>em_pool := vec_remove i (em_pool e), em_removed := em_removed e + 1, em_changed := True,
                     em_events := em_events e @ [ManaPoolEmptied player (mu_source u) (mu_color u)]\<rparr>
                 | KeepUnit \<Rightarrow> e1
                 | RecolorUnit to \<Rightarrow> e1\<lparr>em_pool := (em_pool e)[i := u\<lparr>mu_color := to\<rparr>], em_changed := True,
                     em_events := em_events e @ [ManaRecolored player (mu_color u) to]\<rparr>)))"

definition run_decisions :: "u8 \<Rightarrow> 'g mana_pool \<Rightarrow> unit_decision list \<Rightarrow> 'g emptying" where
  "run_decisions player pool units =
     foldl (\<lambda>e d. apply_decision player d e)
       \<lparr>em_pool = pool, em_seen = {}, em_changed = False, em_removed = 0, em_events = []\<rparr>
       (sort_key (\<lambda>d. - int (ud_index d)) units)"

definition apply_empty_mana_pool_decisions ::
  "'g mana_players \<Rightarrow> u8 \<Rightarrow> unit_decision list \<Rightarrow> 'g mana_players \<times> mana_pool_event list \<times> u32" where
  "apply_empty_mana_pool_decisions st player units =
     (case position (\<lambda>(p, _). p = player) (mp_players st) of
        None \<Rightarrow> (st, [], 0)
      | Some k \<Rightarrow>
          (let e = run_decisions player (snd (mp_players st ! k)) units
           in (st\<lparr>mp_players := (mp_players st)[k := (player, em_pool e)], mp_layers_dirty := mp_layers_dirty st \<or> em_changed e\<rparr>,
               em_events e, em_removed e)))"

subsection \<open>The end of a step for one player\<close>

datatype life_loss_cause = ManaBurnLoss | UnspentManaStatic

record pending_life_loss =
  pl_player :: u8
  pl_amount :: u32
  pl_cause :: life_loss_cause

definition owed_life_losses :: "u8 \<Rightarrow> bool \<Rightarrow> bool \<Rightarrow> u32 \<Rightarrow> pending_life_loss list" where
  "owed_life_losses player burns causes_life_loss amount =
     (if amount = 0 then []
      else (if burns then [\<lparr>pl_player = player, pl_amount = amount, pl_cause = ManaBurnLoss\<rparr>] else [])
         @ (if causes_life_loss then [\<lparr>pl_player = player, pl_amount = amount, pl_cause = UnspentManaStatic\<rparr>] else []))"

definition mark_pool :: "bool \<Rightarrow> phase option \<Rightarrow> phase \<Rightarrow> 'g mana_pool \<Rightarrow> 'g mana_pool" where
  "mark_pool burns previous upcoming pool =
     clear_expired_retention_markers previous upcoming
       (if burns then retain_across_phase_group_steps previous upcoming pool else pool)"

definition with_pool :: "u8 \<Rightarrow> ('g mana_pool \<Rightarrow> 'g mana_pool) \<Rightarrow> 'g mana_players \<Rightarrow> 'g mana_players" where
  "with_pool player f st =
     (case position (\<lambda>(p, _). p = player) (mp_players st) of
        None \<Rightarrow> st
      | Some k \<Rightarrow> st\<lparr>mp_players := (mp_players st)[k := (player, f (snd (mp_players st ! k)))]\<rparr>)"

definition pool_of :: "'g mana_players \<Rightarrow> u8 \<Rightarrow> 'g mana_pool option" where
  "pool_of st player = map_option (\<lambda>k. snd (mp_players st ! k)) (position (\<lambda>(p, _). p = player) (mp_players st))"

definition drain_player ::
  "bool \<Rightarrow> bool \<Rightarrow> bool \<Rightarrow> step_end_entry list \<Rightarrow> (nat list \<Rightarrow> nat) \<Rightarrow> phase option \<Rightarrow> phase \<Rightarrow> 'g mana_players \<Rightarrow> u8
   \<Rightarrow> 'g mana_players \<times> mana_pool_event list \<times> pending_life_loss list" where
  "drain_player burns causes_life_loss keep_for_infinite_mana handlers pick previous upcoming st player =
     (let st1 = with_pool player (mark_pool burns previous upcoming) st;
          units = (case pool_of st1 player of None \<Rightarrow> [] | Some pool \<Rightarrow> empty_decisions keep_for_infinite_mana pool);
          (st2, events, amount) = apply_empty_mana_pool_decisions st1 player (pipeline_loop handlers pick units {} 0)
      in (st2, events, owed_life_losses player burns causes_life_loss amount))"

subsection \<open>Claims by handlers\<close>

lemma claim_unit_fields [simp]: "ud_index (claim_unit entry d) = ud_index d" "ud_color (claim_unit entry d) = ud_color d"
  by (simp_all add: claim_unit_def)

lemma claim_unit_claimed [simp]: "ud_disposition d \<noteq> DropUnit \<Longrightarrow> claim_unit entry d = d"
  by (simp add: claim_unit_def)

lemma claim_unit_drop: "ud_disposition (claim_unit entry d) = DropUnit \<longleftrightarrow> ud_disposition d = DropUnit \<and> \<not> entry_accepts entry (ud_color d)"
  by (auto simp: claim_unit_def split: step_end_mana_action.splits)

text \<open>What a handler makes of a unit that it claims.\<close>

definition claimed_as :: "step_end_entry \<Rightarrow> unit_disposition" where
  "claimed_as entry = (case se_action entry of RetainMana \<Rightarrow> KeepUnit | TransformMana t \<Rightarrow> RecolorUnit t)"

text \<open>The first handler that accepts a unit decides about it.\<close>

lemma claims_disposition:
  "ud_disposition d = DropUnit \<Longrightarrow> foldl (\<lambda>d entry. claim_unit entry d) d entries =
     (case List.find (\<lambda>entry. entry_accepts entry (ud_color d)) entries of
        None \<Rightarrow> d | Some entry \<Rightarrow> d\<lparr>ud_disposition := claimed_as entry\<rparr>)"
proof (induction entries arbitrary: d)
  case (Cons entry entries)
  have claimed: "ud_disposition d \<noteq> DropUnit \<Longrightarrow> foldl (\<lambda>d entry. claim_unit entry d) d entries = d" for d
    by (induction entries) simp_all
  show ?case
  proof (cases "entry_accepts entry (ud_color d)")
    case True
    then have "claim_unit entry d = d\<lparr>ud_disposition := claimed_as entry\<rparr>"
      using Cons.prems by (simp add: claim_unit_def claimed_as_def)
    moreover have "claimed_as entry \<noteq> DropUnit" by (simp add: claimed_as_def split: step_end_mana_action.split)
    ultimately show ?thesis using True claimed by simp
  next
    case False
    then have "claim_unit entry d = d" by (simp add: claim_unit_def)
    with False Cons show ?thesis by simp
  qed
qed simp

definition choice_in_range :: "(nat list \<Rightarrow> nat) \<Rightarrow> bool" where
  "choice_in_range pick \<longleftrightarrow> (\<forall>xs. xs \<noteq> [] \<longrightarrow> pick xs \<in> set xs)"

text \<open>Types of units that some handler can still claim; every pass of the pipeline removes one, and there are six.\<close>

definition open_types :: "step_end_entry list \<Rightarrow> unit_decision list \<Rightarrow> mana_type set" where
  "open_types handlers units =
     {t. (\<exists>d\<in>set units. ud_disposition d = DropUnit \<and> ud_color d = t) \<and> (\<exists>entry\<in>set handlers. entry_accepts entry t)}"

lemma finite_types [simp]: "finite (A :: mana_type set)"
proof (rule finite_subset)
  show "A \<subseteq> {TyWhite, TyBlue, TyBlack, TyRed, TyGreen, TyColorless}" using mana_type.exhaust by blast
qed simp

lemma card_types: "card (A :: mana_type set) \<le> 6"
proof -
  have "A \<subseteq> {TyWhite, TyBlue, TyBlack, TyRed, TyGreen, TyColorless}" using mana_type.exhaust by blast
  then have "card A \<le> card {TyWhite, TyBlue, TyBlack, TyRed, TyGreen, TyColorless}" by (rule card_mono [rotated]) simp
  then show ?thesis by simp
qed

lemma open_types_shrink:
  assumes "i \<in> set (step_end_candidates handlers units applied)"
  shows "card (open_types handlers (map (claim_unit (handlers ! i)) units)) < card (open_types handlers units)"
proof (rule psubset_card_mono)
  from assms obtain d where d: "i < length handlers" "d \<in> set units" "ud_disposition d = DropUnit" "entry_accepts (handlers ! i) (ud_color d)"
    by (auto simp: step_end_candidates_def list_ex_iff)
  then have "ud_color d \<in> open_types handlers units" by (auto simp: open_types_def)
  moreover have "ud_color d \<notin> open_types handlers (map (claim_unit (handlers ! i)) units)"
    using d(4) by (auto simp: open_types_def claim_unit_drop)
  moreover have "open_types handlers (map (claim_unit (handlers ! i)) units) \<subseteq> open_types handlers units"
    by (auto simp: open_types_def claim_unit_drop)
  ultimately show "open_types handlers (map (claim_unit (handlers ! i)) units) \<subset> open_types handlers units" by blast
qed simp

text \<open>A handler that has been applied has nothing left to claim, so the record of applied handlers never withholds one.\<close>

definition spent_handlers :: "step_end_entry list \<Rightarrow> nat set \<Rightarrow> unit_decision list \<Rightarrow> bool" where
  "spent_handlers handlers applied units \<longleftrightarrow>
     (\<forall>i\<in>applied. i < length handlers \<longrightarrow> (\<forall>d\<in>set units. ud_disposition d = DropUnit \<longrightarrow> \<not> entry_accepts (handlers ! i) (ud_color d)))"

lemma spent_handlers_claim:
  "spent_handlers handlers applied units \<Longrightarrow> spent_handlers handlers (insert i applied) (map (claim_unit (handlers ! i)) units)"
  by (auto simp: spent_handlers_def claim_unit_drop)

lemma no_candidates:
  assumes "step_end_candidates handlers units applied = []" "spent_handlers handlers applied units"
    and "d \<in> set units" "ud_disposition d = DropUnit" "entry \<in> set handlers"
  shows "\<not> entry_accepts entry (ud_color d)"
proof -
  obtain i where "i < length handlers" "entry = handlers ! i" using assms(5) by (auto simp: in_set_conv_nth)
  with assms(1-4) show ?thesis
    by (cases "i \<in> applied") (auto simp: spent_handlers_def step_end_candidates_def filter_empty_conv list_ex_iff)
qed

text \<open>The pipeline applies some handlers one after the other until none is left that accepts a unit.\<close>

lemma pipeline_run:
  assumes "choice_in_range pick" "spent_handlers handlers applied units"
    and "depth + card (open_types handlers units) \<le> MAX_REPLACEMENT_DEPTH"
  shows "\<exists>entries. set entries \<subseteq> set handlers
    \<and> pipeline_loop handlers pick units applied depth = map (\<lambda>d. foldl (\<lambda>d entry. claim_unit entry d) d entries) units
    \<and> (\<forall>d\<in>set (pipeline_loop handlers pick units applied depth). ud_disposition d = DropUnit \<longrightarrow>
          (\<forall>entry\<in>set handlers. \<not> entry_accepts entry (ud_color d)))"
  using assms(2,3)
proof (induction "MAX_REPLACEMENT_DEPTH - depth" arbitrary: depth applied units)
  case 0
  then have "MAX_REPLACEMENT_DEPTH \<le> depth" "card (open_types handlers units) = 0" by linarith+
  then have "open_types handlers units = {}" "MAX_REPLACEMENT_DEPTH \<le> depth" by simp_all
  then show ?case
    by (intro exI [of _ "[]"]) (auto simp: open_types_def pipeline_loop.simps)
next
  case (Suc n)
  show ?case
  proof (cases "step_end_candidates handlers units applied")
    case Nil
    then show ?thesis using no_candidates [OF Nil Suc.prems(1)]
      by (intro exI [of _ "[]"]) (auto simp: pipeline_loop.simps)
  next
    case (Cons c cs)
    define i where "i = (if cs = [] then c else pick (c # cs))"
    have i: "i \<in> set (step_end_candidates handlers units applied)"
      using assms(1) Cons by (auto simp: i_def choice_in_range_def)
    then have range: "i < length handlers" by (simp add: step_end_candidates_def)
    define units' where "units' = map (claim_unit (handlers ! i)) units"
    have eq: "pipeline_loop handlers pick units applied depth = pipeline_loop handlers pick units' (insert i applied) (Suc depth)"
    proof -
      have "\<not> MAX_REPLACEMENT_DEPTH \<le> depth" using Suc.hyps(2) by simp
      moreover have "apply_empty_mana_pool_replacement handlers i units (insert i applied) = (units', insert i applied)"
        using range by (simp add: apply_empty_mana_pool_replacement_def units'_def)
      ultimately show ?thesis
        using Cons by (subst pipeline_loop.simps) (cases cs; simp add: i_def)
    qed
    have spent: "spent_handlers handlers (insert i applied) units'"
      unfolding units'_def by (rule spent_handlers_claim [OF Suc.prems(1)])
    have less: "Suc depth + card (open_types handlers units') \<le> MAX_REPLACEMENT_DEPTH"
      using open_types_shrink [OF i] Suc.prems(2) by (simp add: units'_def)
    have "n = MAX_REPLACEMENT_DEPTH - Suc depth" using Suc.hyps(2) by linarith
    from Suc.hyps(1) [OF this spent less] obtain entries where "set entries \<subseteq> set handlers"
      "pipeline_loop handlers pick units applied depth = map (\<lambda>d. foldl (\<lambda>d entry. claim_unit entry d) d entries) units'"
      "\<forall>d\<in>set (pipeline_loop handlers pick units applied depth). ud_disposition d = DropUnit \<longrightarrow>
          (\<forall>entry\<in>set handlers. \<not> entry_accepts entry (ud_color d))"
      unfolding eq by blast
    then show ?thesis using range by (intro exI [of _ "handlers ! i # entries"]) (simp add: units'_def comp_def)
  qed
qed

text \<open>Whatever is picked, exactly the units that no handler accepts stay proposed for loss; \<open>won\<close> is the handler that comes first for a type.\<close>

definition first_claims :: "step_end_entry list \<Rightarrow> (mana_type \<Rightarrow> step_end_entry) \<Rightarrow> bool" where
  "first_claims handlers won \<longleftrightarrow>
     (\<forall>t. (\<exists>entry\<in>set handlers. entry_accepts entry t) \<longrightarrow> won t \<in> set handlers \<and> entry_accepts (won t) t)"

lemma pipeline_result:
  assumes "choice_in_range pick" and drop: "\<forall>d\<in>set units. ud_disposition d = DropUnit"
  shows "\<exists>won. first_claims handlers won \<and> pipeline_loop handlers pick units {} 0 =
    map (\<lambda>d. if \<exists>entry\<in>set handlers. entry_accepts entry (ud_color d) then d\<lparr>ud_disposition := claimed_as (won (ud_color d))\<rparr> else d) units"
proof -
  have "0 + card (open_types handlers units) \<le> MAX_REPLACEMENT_DEPTH"
    using card_types [of "open_types handlers units"] by (simp add: MAX_REPLACEMENT_DEPTH_def)
  from pipeline_run [OF assms(1) _ this, of "{}"] obtain entries where e: "set entries \<subseteq> set handlers"
    "pipeline_loop handlers pick units {} 0 = map (\<lambda>d. foldl (\<lambda>d entry. claim_unit entry d) d entries) units"
    "\<forall>d\<in>set (pipeline_loop handlers pick units {} 0). ud_disposition d = DropUnit \<longrightarrow>
        (\<forall>entry\<in>set handlers. \<not> entry_accepts entry (ud_color d))"
    by (auto simp: spent_handlers_def)
  define first where "first t = List.find (\<lambda>entry. entry_accepts entry t) entries" for t
  have first: "first t = Some entry \<Longrightarrow> entry \<in> set handlers \<and> entry_accepts entry t" for t entry
    using e(1) by (auto simp: first_def find_Some_iff)
  define won where "won t = (case first t of Some entry \<Rightarrow> entry | None \<Rightarrow> hd (filter (\<lambda>entry. entry_accepts entry t) handlers))" for t
  have "won t \<in> set handlers \<and> entry_accepts (won t) t" if ex: "\<exists>entry\<in>set handlers. entry_accepts entry t" for t
  proof (cases "first t")
    case None
    from ex have "filter (\<lambda>entry. entry_accepts entry t) handlers \<noteq> []" by (auto simp: filter_empty_conv)
    from hd_in_set [OF this] None show ?thesis by (simp add: won_def)
  qed (use first in \<open>simp add: won_def\<close>)
  moreover have "foldl (\<lambda>d entry. claim_unit entry d) d entries =
      (if \<exists>entry\<in>set handlers. entry_accepts entry (ud_color d) then d\<lparr>ud_disposition := claimed_as (won (ud_color d))\<rparr> else d)"
    if d: "d \<in> set units" for d
  proof (cases "first (ud_color d)")
    case None
    with drop d have "foldl (\<lambda>d entry. claim_unit entry d) d entries = d" by (simp add: claims_disposition first_def)
    then show ?thesis using e(2,3) drop d by (metis (no_types, lifting) image_eqI list.set_map)
  next
    case (Some entry)
    then show ?thesis using first [OF Some] drop d by (auto simp: claims_disposition first_def won_def)
  qed
  ultimately show ?thesis
    using e(2) by (intro exI [of _ won]) (simp add: first_claims_def)
qed

subsection \<open>Decisions, whatever their order\<close>

text \<open>The decision that counts for a position is the first one that names it, if it names the type of the unit there.\<close>

definition decision_for :: "unit_decision list \<Rightarrow> nat \<Rightarrow> unit_decision option" where
  "decision_for units i = List.find (\<lambda>d. ud_index d = i) units"

definition fate :: "unit_decision list \<Rightarrow> nat \<times> 'g mana_unit \<Rightarrow> unit_disposition" where
  "fate units = (\<lambda>(i, u). case decision_for units i of
     None \<Rightarrow> KeepUnit | Some d \<Rightarrow> if ud_color d = mu_color u then ud_disposition d else KeepUnit)"

definition settle :: "unit_decision list \<Rightarrow> nat \<times> 'g mana_unit \<Rightarrow> 'g mana_unit list" where
  "settle units x = (case fate units x of DropUnit \<Rightarrow> [] | KeepUnit \<Rightarrow> [snd x] | RecolorUnit t \<Rightarrow> [(snd x)\<lparr>mu_color := t\<rparr>])"

definition settle_events :: "u8 \<Rightarrow> unit_decision list \<Rightarrow> nat \<times> 'g mana_unit \<Rightarrow> mana_pool_event list" where
  "settle_events player units x =
     (case fate units x of
        DropUnit \<Rightarrow> [ManaPoolEmptied player (mu_source (snd x)) (mu_color (snd x))]
      | KeepUnit \<Rightarrow> []
      | RecolorUnit t \<Rightarrow> [ManaRecolored player (mu_color (snd x)) t])"

text \<open>The state of the walk when the positions from \<open>m\<close> on are settled.\<close>

definition settled_from :: "u8 \<Rightarrow> unit_decision list \<Rightarrow> 'g mana_pool \<Rightarrow> nat \<Rightarrow> 'g emptying \<Rightarrow> bool" where
  "settled_from player ds pool m e \<longleftrightarrow> m \<le> length pool
     \<and> em_pool e = take m pool @ concat (map (settle ds) (drop m (enumerate 0 pool)))
     \<and> em_events e = concat (map (settle_events player ds) (rev (drop m (enumerate 0 pool))))
     \<and> em_removed e = of_nat (length (filter (\<lambda>x. fate ds x = DropUnit) (drop m (enumerate 0 pool))))
     \<and> (\<forall>i\<in>em_seen e. m \<le> i)"

lemma drop_enumerate: "k < length pool \<Longrightarrow> drop k (enumerate 0 pool) = (k, pool ! k) # drop (Suc k) (enumerate 0 pool)"
  by (subst Cons_nth_drop_Suc [symmetric]) (simp_all add: nth_enumerate_eq)

lemma settled_gap:
  assumes "settled_from player ds pool m e" "k \<le> m" "\<And>j. k \<le> j \<Longrightarrow> j < m \<Longrightarrow> decision_for ds j = None"
  shows "settled_from player ds pool k e"
  using assms(2,1,3)
proof (induction rule: inc_induct)
  case (step n)
  then have "settled_from player ds pool (Suc n) e" "decision_for ds n = None" "n < length pool"
    by (auto simp: settled_from_def)
  then show ?case
    by (auto simp: settled_from_def drop_enumerate take_Suc_conv_app_nth fate_def settle_def settle_events_def)
qed simp

lemma length_settled: "length (concat (map (settle ds) xs)) \<le> length xs"
  by (induction xs) (auto simp: settle_def split: unit_disposition.split)

lemma decide_position:
  assumes "settled_from player ds pool (Suc i) e" "i \<notin> em_seen e" "decision_for ds i = Some d" "ud_index d = i"
  shows "settled_from player ds pool i (apply_decision player d e)"
proof -
  have i: "i < length pool" and pool: "em_pool e = take i pool @ pool ! i # concat (map (settle ds) (drop (Suc i) (enumerate 0 pool)))"
    using assms(1) by (auto simp: settled_from_def take_Suc_conv_app_nth)
  then have at: "vec_get (em_pool e) i = Some (pool ! i)" by (simp add: vec_get_def nth_append)
  have fate: "fate ds (i, pool ! i) = (if mu_color (pool ! i) = ud_color d then ud_disposition d else KeepUnit)"
    using assms(3) by (simp add: fate_def)
  from assms(1) have rest: "em_events e = concat (map (settle_events player ds) (rev (drop (Suc i) (enumerate 0 pool))))"
    "em_removed e = of_nat (length (filter (\<lambda>x. fate ds x = DropUnit) (drop (Suc i) (enumerate 0 pool))))"
    "\<forall>j\<in>em_seen e. i \<le> j"
    by (auto simp: settled_from_def)
  show ?thesis
    using i at rest assms(2,4) fate
    by (cases "ud_disposition d")
       (auto simp: settled_from_def apply_decision_def Let_def pool drop_enumerate settle_def settle_events_def vec_remove_def
          list_update_append)
qed

lemma decisions_settle:
  assumes "settled_from player ds pool m e" and "sorted_wrt (\<lambda>a b. ud_index b \<le> ud_index a) rest"
    and "\<forall>d\<in>set rest. ud_index d < m \<or> ud_index d \<in> em_seen e \<or> length pool \<le> ud_index d"
    and "\<forall>i<m. decision_for ds i = decision_for rest i"
  shows "settled_from player ds pool 0 (foldl (\<lambda>e d. apply_decision player d e) e rest)"
  using assms
proof (induction rest arbitrary: m e)
  case Nil
  then show ?case by (auto intro: settled_gap [of player ds pool m e 0] simp: decision_for_def)
next
  case (Cons d rest)
  define i where "i = ud_index d"
  show ?case
  proof (cases "i < m \<and> i \<notin> em_seen e")
    case False
    have unchanged: "apply_decision player d e = e\<lparr>em_seen := insert i (em_seen e)\<rparr>"
    proof (cases "i \<in> em_seen e")
      case False
      with Cons.prems(3) \<open>\<not> (i < m \<and> i \<notin> em_seen e)\<close> have "length pool \<le> i" by (auto simp: i_def)
      moreover have "length (em_pool e) \<le> length pool"
        using Cons.prems(1) length_settled [of ds "drop m (enumerate 0 pool)"] by (auto simp: settled_from_def)
      ultimately show ?thesis using False by (simp add: apply_decision_def i_def Let_def vec_get_def)
    qed (simp add: apply_decision_def i_def insert_absorb)
    have above: "m \<le> i"
      using False Cons.prems(1,3) by (auto simp: settled_from_def i_def)
    have "settled_from player ds pool m (apply_decision player d e)"
      using Cons.prems(1) above by (simp add: unchanged settled_from_def)
    then show ?thesis
      using Cons.IH [of m "apply_decision player d e"] Cons.prems(2-4) above
      by (auto simp: unchanged decision_for_def i_def)
  next
    case True
    have gap: "decision_for ds j = None" if "Suc i \<le> j" "j < m" for j
      using Cons.prems(2,4) that by (auto simp: decision_for_def find_None_iff i_def)
    have "settled_from player ds pool (Suc i) e"
      using True gap by (intro settled_gap [OF Cons.prems(1)]) auto
    moreover have "decision_for ds i = Some d" using Cons.prems(4) True by (simp add: decision_for_def i_def)
    ultimately have "settled_from player ds pool i (apply_decision player d e)"
      using decide_position True i_def by blast
    moreover have "em_seen (apply_decision player d e) = insert i (em_seen e)"
      by (auto simp: apply_decision_def Let_def i_def split: option.split unit_disposition.split)
    ultimately show ?thesis
      using Cons.IH [of i "apply_decision player d e"] Cons.prems(2,4) True
      by (auto simp: decision_for_def i_def order.order_iff_strict)
  qed
qed

lemma find_filter: "List.find P xs = (case filter P xs of [] \<Rightarrow> None | x # _ \<Rightarrow> Some x)"
  by (induction xs) auto

text \<open>Duplicate, stale and out-of-range decisions change nothing: the walk does what the effective decisions say.\<close>

lemma run_decisions_exact:
  "em_pool (run_decisions player pool units) = concat (map (settle units) (enumerate 0 pool))"
  "em_events (run_decisions player pool units) = concat (map (settle_events player units) (rev (enumerate 0 pool)))"
  "em_removed (run_decisions player pool units) = of_nat (length (filter (\<lambda>x. fate units x = DropUnit) (enumerate 0 pool)))"
proof -
  define ds where "ds = sort_key (\<lambda>d. - int (ud_index d)) units"
  have same: "decision_for ds i = decision_for units i" for i
  proof -
    have "filter (\<lambda>d. ud_index d = i) ds = filter (\<lambda>d. ud_index d = i) units"
      using sort_key_stable [of "\<lambda>d. - int (ud_index d)" "- int i" units] by (simp add: ds_def)
    then show ?thesis by (simp add: decision_for_def find_filter)
  qed
  then have fates: "fate ds = fate units" "settle ds = settle units" "settle_events player ds = settle_events player units"
    by (simp_all add: fate_def settle_def [abs_def] settle_events_def [abs_def])
  have "sorted (map (\<lambda>d. - int (ud_index d)) ds)" by (simp add: ds_def)
  then have "sorted_wrt (\<lambda>a b. ud_index b \<le> ud_index a) ds" by (simp add: sorted_wrt_map)
  then have "settled_from player ds pool 0 (run_decisions player pool units)"
    unfolding run_decisions_def ds_def [symmetric]
    by (intro decisions_settle [of _ _ _ "length pool"]) (auto simp: settled_from_def)
  then show "em_pool (run_decisions player pool units) = concat (map (settle units) (enumerate 0 pool))"
    "em_events (run_decisions player pool units) = concat (map (settle_events player units) (rev (enumerate 0 pool)))"
    "em_removed (run_decisions player pool units) = of_nat (length (filter (\<lambda>x. fate units x = DropUnit) (enumerate 0 pool)))"
    by (simp_all add: settled_from_def fates)
qed

subsection \<open>The pool of a player\<close>

lemma position_map_of: "map_option (\<lambda>k. snd (xs ! k)) (position (\<lambda>(p, _). p = q) xs) = map_of xs q"
  by (induction xs) (auto split: option.split simp: option.map_comp comp_def)

lemma map_of_update_position:
  "position (\<lambda>(p, _). p = q) xs = Some k \<Longrightarrow> map_of (xs[k := (q, v)]) = (map_of xs)(q \<mapsto> v)"
proof (induction xs arbitrary: k)
  case (Cons x xs)
  then show ?case by (cases x) (auto split: if_splits option.splits)
qed simp

lemma pool_of_map: "pool_of st = map_of (mp_players st)"
  by (rule ext) (simp add: pool_of_def position_map_of)

text \<open>The two updates of a pool.\<close>

lemma pool_of_with_pool: "pool_of (with_pool player f st) = (pool_of st)(player := map_option f (pool_of st player))"
proof (cases "position (\<lambda>(p, _). p = player) (mp_players st)")
  case None
  then have "pool_of st player = None" by (simp add: pool_of_def)
  with None show ?thesis by (simp add: with_pool_def fun_upd_idem)
next
  case (Some k)
  then have "pool_of st player = Some (snd (mp_players st ! k))" by (simp add: pool_of_def)
  moreover have "pool_of (with_pool player f st) = (pool_of st)(player \<mapsto> f (snd (mp_players st ! k)))"
    using map_of_update_position [OF Some] Some by (simp add: with_pool_def pool_of_map)
  ultimately show ?thesis by simp
qed

lemma apply_decisions_pool:
  assumes "pool_of st player = Some pool" and "apply_empty_mana_pool_decisions st player units = (st', events, amount)"
  shows "pool_of st' = (pool_of st)(player \<mapsto> em_pool (run_decisions player pool units))"
    and "events = em_events (run_decisions player pool units)" and "amount = em_removed (run_decisions player pool units)"
proof -
  obtain k where k: "position (\<lambda>(p, _). p = player) (mp_players st) = Some k" "pool = snd (mp_players st ! k)"
    using assms(1) by (auto simp: pool_of_def)
  with assms(2) show "pool_of st' = (pool_of st)(player \<mapsto> em_pool (run_decisions player pool units))"
    "events = em_events (run_decisions player pool units)" "amount = em_removed (run_decisions player pool units)"
    by (auto simp: apply_empty_mana_pool_decisions_def Let_def pool_of_map map_of_update_position)
qed

subsection \<open>What a unit meets at the end of a step\<close>

lemma decision_for_unique:
  assumes "d \<in> set ds" "ud_index d = i" "\<forall>d'\<in>set ds. ud_index d' = i \<longrightarrow> d' = d"
  shows "decision_for ds i = Some d"
proof (cases "decision_for ds i")
  case None
  with assms(1,2) show ?thesis by (auto simp: decision_for_def find_None_iff)
next
  case (Some d')
  then have "d' \<in> set ds \<and> ud_index d' = i" by (auto simp: decision_for_def find_Some_iff)
  with Some assms(3) show ?thesis by simp
qed

text \<open>Every unmarked unit has one decision, with its own position and type; the others have none.\<close>

definition proposed :: "bool \<Rightarrow> nat \<Rightarrow> 'g mana_unit \<Rightarrow> unit_decision" where
  "proposed keep i u = \<lparr>ud_index = i, ud_color = mu_color u, ud_disposition = (if keep then KeepUnit else DropUnit)\<rparr>"

lemma proposed_fields [simp]: "ud_index (proposed keep i u) = i" "ud_color (proposed keep i u) = mu_color u"
    "ud_disposition (proposed keep i u) = (if keep then KeepUnit else DropUnit)"
  by (simp_all add: proposed_def)

lemma set_empty_decisions:
  "set (empty_decisions keep pool) = {proposed keep i (pool ! i) | i. i < length pool \<and> mu_expiry (pool ! i) = None}"
  by (auto simp: empty_decisions_def proposed_def in_set_enumerate_eq image_iff)

lemma decision_for_proposed:
  assumes "i < length pool" and index: "\<And>d. ud_index (f d) = ud_index d"
  shows "decision_for (map f (empty_decisions keep pool)) i =
    (if mu_expiry (pool ! i) = None then Some (f (proposed keep i (pool ! i))) else None)"
proof (cases "mu_expiry (pool ! i) = None")
  case True
  have "decision_for (map f (empty_decisions keep pool)) i = Some (f (proposed keep i (pool ! i)))"
  proof (rule decision_for_unique)
    show "f (proposed keep i (pool ! i)) \<in> set (map f (empty_decisions keep pool))"
      using True assms(1) by (auto simp: set_empty_decisions)
    show "ud_index (f (proposed keep i (pool ! i))) = i" by (simp add: index)
    show "\<forall>d'\<in>set (map f (empty_decisions keep pool)). ud_index d' = i \<longrightarrow> d' = f (proposed keep i (pool ! i))"
      by (auto simp: set_empty_decisions index)
  qed
  with True show ?thesis by simp
next
  case False
  then show ?thesis by (auto simp: decision_for_def find_None_iff set_empty_decisions index)
qed

text \<open>What the end of a step makes of a unit.\<close>

definition step_end_fate :: "step_end_entry list \<Rightarrow> (mana_type \<Rightarrow> step_end_entry) \<Rightarrow> bool \<Rightarrow> 'g mana_unit \<Rightarrow> unit_disposition" where
  "step_end_fate handlers won keep u =
     (if mu_expiry u \<noteq> None \<or> keep then KeepUnit
      else if \<exists>entry\<in>set handlers. entry_accepts entry (mu_color u) then claimed_as (won (mu_color u)) else DropUnit)"

definition left_by :: "unit_disposition \<Rightarrow> 'g mana_unit \<Rightarrow> 'g mana_unit list" where
  "left_by dis u = (case dis of DropUnit \<Rightarrow> [] | KeepUnit \<Rightarrow> [u] | RecolorUnit t \<Rightarrow> [u\<lparr>mu_color := t\<rparr>])"

lemma pipeline_keeps:
  "\<forall>d\<in>set units. ud_disposition d \<noteq> DropUnit \<Longrightarrow> pipeline_loop handlers pick units {} 0 = units"
  by (subst pipeline_loop.simps) (auto simp: step_end_candidates_def list_ex_iff filter_empty_conv split: list.split)

lemma step_end_fates:
  assumes "choice_in_range pick"
  obtains won where "first_claims handlers won"
    and "\<And>i. i < length pool \<Longrightarrow>
      fate (pipeline_loop handlers pick (empty_decisions keep pool) {} 0) (i, pool ! i) = step_end_fate handlers won keep (pool ! i)"
proof -
  define units where "units = empty_decisions keep pool"
  have "\<exists>won. first_claims handlers won \<and> pipeline_loop handlers pick units {} 0 =
      map (\<lambda>d. if \<not> keep \<and> (\<exists>entry\<in>set handlers. entry_accepts entry (ud_color d))
        then d\<lparr>ud_disposition := claimed_as (won (ud_color d))\<rparr> else d) units"
  proof (cases keep)
    case True
    then have "pipeline_loop handlers pick units {} 0 = units"
      by (intro pipeline_keeps) (auto simp: units_def set_empty_decisions)
    moreover have "\<exists>won. first_claims handlers won" using pipeline_result [OF assms, of "[]" handlers] by auto
    ultimately show ?thesis using True by simp
  next
    case False
    then have "\<forall>d\<in>set units. ud_disposition d = DropUnit" by (auto simp: units_def set_empty_decisions)
    from pipeline_result [OF assms this] False show ?thesis by simp
  qed
  then obtain won where won: "first_claims handlers won" "pipeline_loop handlers pick units {} 0 =
      map (\<lambda>d. if \<not> keep \<and> (\<exists>entry\<in>set handlers. entry_accepts entry (ud_color d))
        then d\<lparr>ud_disposition := claimed_as (won (ud_color d))\<rparr> else d) units"
    by blast
  have "fate (pipeline_loop handlers pick units {} 0) (i, pool ! i) = step_end_fate handlers won keep (pool ! i)"
    if "i < length pool" for i
    using that unfolding won(2) by (simp add: units_def fate_def decision_for_proposed step_end_fate_def)
  then show thesis using that [of won] won(1) by (simp add: units_def)
qed

lemma concat_enumerate:
  "(\<And>i. i < length pool \<Longrightarrow> g (i, pool ! i) = h (pool ! i)) \<Longrightarrow> map g (enumerate 0 pool) = map h pool"
  by (rule nth_equalityI) (simp_all add: nth_enumerate_eq)

text \<open>The marks of mana burn hold everything within a phase.\<close>

lemma marked_unit:
  "mark_pool burns previous upcoming pool = map (\<lambda>u. u\<lparr>mu_expiry :=
     (let marker = if burns \<and> \<not> crosses_groups previous upcoming \<and> mu_expiry u = None then Some EndOfPhaseGroup else mu_expiry u
      in if marker_expired previous upcoming marker then None else marker)\<rparr>) pool"
  by (auto simp: mark_pool_def clear_expired_retention_markers_def retain_across_phase_group_steps_def marker_expired_def)

lemma marks_hold:
  assumes "burns" "\<not> crosses_groups previous upcoming" "is_combat upcoming \<or> (\<forall>u\<in>set pool. mu_expiry u \<noteq> Some EndOfCombat)"
    and "u \<in> set (mark_pool burns previous upcoming pool)"
  shows "mu_expiry u \<noteq> None"
  using assms by (auto simp: marked_unit marker_expired_def Let_def split: option.splits mana_expiry.splits if_splits)

subsection \<open>Unspent mana\<close>

fun is_emptied :: "mana_pool_event \<Rightarrow> bool" where
  "is_emptied (ManaPoolEmptied _ _ _) = True"
| "is_emptied (ManaRecolored _ _ _) = False"

lemma step_end_fate_drop:
  "step_end_fate handlers won keep u = DropUnit \<longleftrightarrow>
     mu_expiry u = None \<and> \<not> keep \<and> \<not> (\<exists>entry\<in>set handlers. entry_accepts entry (mu_color u))"
  by (simp add: step_end_fate_def claimed_as_def split: step_end_mana_action.split)

text \<open>The walk over the decisions of the pipeline, unit by unit.\<close>

lemma drained_pool:
  fixes pool :: "'g mana_pool"
  assumes "choice_in_range pick"
  obtains won where "first_claims handlers won"
    and "em_pool (run_decisions player pool (pipeline_loop handlers pick (empty_decisions keep pool) {} 0))
      = concat (map (\<lambda>u. left_by (step_end_fate handlers won keep u) u) pool)"
    and "em_removed (run_decisions player pool (pipeline_loop handlers pick (empty_decisions keep pool) {} 0))
      = of_nat (length (filter (\<lambda>u. step_end_fate handlers won keep u = DropUnit) pool))"
    and "filter is_emptied (em_events (run_decisions player pool (pipeline_loop handlers pick (empty_decisions keep pool) {} 0)))
      = rev (map (\<lambda>u. ManaPoolEmptied player (mu_source u) (mu_color u)) (filter (\<lambda>u. step_end_fate handlers won keep u = DropUnit) pool))"
proof -
  define units where "units = pipeline_loop handlers pick (empty_decisions keep pool) {} 0"
  obtain won where won: "first_claims handlers won"
    and fates: "\<And>i. i < length pool \<Longrightarrow> fate units (i, pool ! i) = step_end_fate handlers won keep (pool ! i)"
    using step_end_fates [OF assms, of handlers pool keep] unfolding units_def by metis
  have 1: "map (settle units) (enumerate 0 pool) = map (\<lambda>u. left_by (step_end_fate handlers won keep u) u) pool"
    by (rule concat_enumerate) (simp add: settle_def left_by_def fates split: unit_disposition.split)
  have 2: "map (\<lambda>x. filter is_emptied (settle_events player units x)) (enumerate 0 pool)
      = map (\<lambda>u. if step_end_fate handlers won keep u = DropUnit then [ManaPoolEmptied player (mu_source u) (mu_color u)] else []) pool"
    by (rule concat_enumerate) (simp add: settle_events_def fates split: unit_disposition.split)
  have 3: "map (\<lambda>x. fate units x = DropUnit) (enumerate 0 pool) = map (\<lambda>u. step_end_fate handlers won keep u = DropUnit) pool"
    by (rule concat_enumerate) (simp add: fates)
  have "filter is_emptied (concat (map f (rev xs))) = rev (concat (map (\<lambda>x. rev (filter is_emptied (f x))) xs))" for f :: "nat \<times> 'g mana_unit \<Rightarrow> _" and xs
    by (induction xs) (simp_all add: filter_concat)
  moreover have "rev (filter is_emptied (settle_events player units x)) = filter is_emptied (settle_events player units x)"
    for x :: "nat \<times> 'g mana_unit"
    by (simp add: settle_events_def split: unit_disposition.split)
  ultimately have "filter is_emptied (em_events (run_decisions player pool units))
      = rev (concat (map (\<lambda>x. filter is_emptied (settle_events player units x)) (enumerate 0 pool)))"
    by (simp add: run_decisions_exact(2))
  also have "\<dots> = rev (map (\<lambda>u. ManaPoolEmptied player (mu_source u) (mu_color u)) (filter (\<lambda>u. step_end_fate handlers won keep u = DropUnit) pool))"
    unfolding 2 by (induction pool) simp_all
  finally have events: "filter is_emptied (em_events (run_decisions player pool units))
      = rev (map (\<lambda>u. ManaPoolEmptied player (mu_source u) (mu_color u)) (filter (\<lambda>u. step_end_fate handlers won keep u = DropUnit) pool))" .
  have "length (filter (\<lambda>x. fate units x = DropUnit) (enumerate 0 pool)) = length (filter (\<lambda>u. step_end_fate handlers won keep u = DropUnit) pool)"
    using arg_cong [OF 3, of "\<lambda>bs. length (filter id bs)"] by (simp add: filter_map comp_def)
  then show thesis
    using won events by (intro that) (simp_all add: run_decisions_exact 1 units_def [symmetric])
qed

lemma marked_colors: "u \<in> set (mark_pool burns previous upcoming pool) \<Longrightarrow> \<exists>v\<in>set pool. mu_color u = mu_color v"
  by (auto simp: marked_unit)

lemma end_of_turn_kept:
  "filter (\<lambda>u. mu_expiry u = Some EndOfTurn) (concat (map (\<lambda>u. left_by (step_end_fate handlers won keep u) u) (mark_pool burns previous upcoming pool)))
   = filter (\<lambda>u. mu_expiry u = Some EndOfTurn) pool"
proof (induction pool)
  case (Cons u pool)
  have "filter (\<lambda>u. mu_expiry u = Some EndOfTurn) (concat (map (\<lambda>u. left_by (step_end_fate handlers won keep u) u) (mark_pool burns previous upcoming [u])))
      = filter (\<lambda>u. mu_expiry u = Some EndOfTurn) [u]"
    by (auto simp: marked_unit left_by_def step_end_fate_def marker_expired_def Let_def
        split: option.splits mana_expiry.splits unit_disposition.splits)
  with Cons.IH show ?case by (simp add: marked_unit)
qed (simp add: marked_unit)

text \<open>C35. What the end of a step does to the mana of a player does not depend on the order in which handlers are chosen, as far as losses are
  concerned: exactly the unmarked units that no handler accepts are lost, one event and one life per cause each, and every other unit stays, recoloured by the
  first handler that claims it. Under mana burn nothing is lost within a phase, mana that lasts until end of turn is never touched, and no other
  pool changes.\<close>

theorem unspent_mana_exact:
  assumes "choice_in_range pick" and "pool_of st player = Some pool"
    and "drain_player burns causes_life_loss keep handlers pick previous upcoming st player = (st', events, owed)"
    and "marked = mark_pool burns previous upcoming pool"
    and "lost = filter (\<lambda>u. mu_expiry u = None \<and> \<not> keep \<and> \<not> (\<exists>entry\<in>set handlers. entry_accepts entry (mu_color u))) marked"
  shows "(\<exists>won. first_claims handlers won
        \<and> pool_of st' = (pool_of st)(player \<mapsto> concat (map (\<lambda>u. left_by (step_end_fate handlers won keep u) u) marked)))
    \<and> owed = owed_life_losses player burns causes_life_loss (of_nat (length lost))
    \<and> filter is_emptied events = rev (map (\<lambda>u. ManaPoolEmptied player (mu_source u) (mu_color u)) lost)
    \<and> (burns \<and> \<not> crosses_groups previous upcoming \<and> (is_combat upcoming \<or> (\<forall>u\<in>set pool. mu_expiry u \<noteq> Some EndOfCombat))
        \<longrightarrow> pool_of st' player = Some marked \<and> owed = [])
    \<and> (\<forall>pool'. pool_of st' player = Some pool' \<longrightarrow>
        filter (\<lambda>u. mu_expiry u = Some EndOfTurn) pool' = filter (\<lambda>u. mu_expiry u = Some EndOfTurn) pool)"
proof -
  define st1 where "st1 = with_pool player (mark_pool burns previous upcoming) st"
  define units where "units = pipeline_loop handlers pick (empty_decisions keep marked) {} 0"
  have st1: "pool_of st1 = (pool_of st)(player \<mapsto> marked)" "pool_of st1 player = Some marked"
    using assms(2,4) by (simp_all add: st1_def pool_of_with_pool)
  obtain amount where step: "apply_empty_mana_pool_decisions st1 player units = (st', events, amount)"
    "owed = owed_life_losses player burns causes_life_loss amount"
    using assms(3) st1(2) by (auto simp: drain_player_def st1_def [symmetric] units_def Let_def split: prod.splits)
  obtain won where won: "first_claims handlers won"
    and pool: "em_pool (run_decisions player marked units) = concat (map (\<lambda>u. left_by (step_end_fate handlers won keep u) u) marked)"
    and removed: "em_removed (run_decisions player marked units) = of_nat (length lost)"
    and emptied: "filter is_emptied (em_events (run_decisions player marked units))
      = rev (map (\<lambda>u. ManaPoolEmptied player (mu_source u) (mu_color u)) lost)"
    by (rule drained_pool [OF assms(1), of handlers player marked keep]) (simp add: units_def assms(5) step_end_fate_drop)
  note after = apply_decisions_pool [OF st1(2) step(1)]
  have pool': "pool_of st' = (pool_of st)(player \<mapsto> concat (map (\<lambda>u. left_by (step_end_fate handlers won keep u) u) marked))"
    by (simp add: after(1) pool st1(1))
  have "lost = [] \<and> concat (map (\<lambda>u. left_by (step_end_fate handlers won keep u) u) marked) = marked"
    if "burns \<and> \<not> crosses_groups previous upcoming \<and> (is_combat upcoming \<or> (\<forall>u\<in>set pool. mu_expiry u \<noteq> Some EndOfCombat))"
  proof -
    have held: "\<forall>u\<in>set marked. mu_expiry u \<noteq> None" using that marks_hold assms(4) by blast
    then have "map (\<lambda>u. left_by (step_end_fate handlers won keep u) u) marked = map (\<lambda>u. [u]) marked"
      by (intro map_cong) (simp_all add: step_end_fate_def left_by_def)
    then have "concat (map (\<lambda>u. left_by (step_end_fate handlers won keep u) u) marked) = marked" by (simp only: concat_map_singleton) simp
    moreover have "lost = []" using held by (simp add: assms(5) filter_empty_conv)
    ultimately show ?thesis by simp
  qed
  then show ?thesis
    using won pool' step(2) emptied after(2,3) removed end_of_turn_kept assms(4) by (auto simp: owed_life_losses_def)
qed

text \<open>A sample: leaving the main phase under mana burn with a blue unit that Horizon Stone saves, a green one that lasts for the turn
  and two ordinary ones.\<close>

definition sample_players :: "unit mana_players" where
  "sample_players = \<lparr>mp_players = [(7, []), (3, [unit_new TyRed 1 False [], unit_new TyBlue 2 False [],
      (unit_new TyGreen 4 False [])\<lparr>mu_expiry := Some EndOfTurn\<rparr>,
      (unit_new TyRed 5 False [])\<lparr>mu_expiry := Some EndOfPhaseGroup\<rparr>])], mp_layers_dirty = False\<rparr>"

definition sample_handlers :: "step_end_entry list" where
  "sample_handlers = [\<lparr>se_source = 9, se_controller = 3, se_filter = Some Blue, se_action = TransformMana TyColorless, se_description = []\<rparr>,
     \<lparr>se_source = 10, se_controller = 3, se_filter = Some Blue, se_action = RetainMana, se_description = []\<rparr>]"

lemma hd_in_range: "choice_in_range hd"
  by (simp add: choice_in_range_def)

lemma sample_pool_units: "pool_of sample_players 3 = Some (snd (mp_players sample_players ! 1))"
  by (simp add: pool_of_def sample_players_def)

lemma sample_lost:
  "map mu_source (filter (\<lambda>u. mu_expiry u = None \<and> \<not> False \<and> \<not> (\<exists>entry\<in>set sample_handlers. entry_accepts entry (mu_color u)))
     (mark_pool True (Some PhPreCombatMain) PhBeginCombat (snd (mp_players sample_players ! 1)))) = [1, 5]"
  by (simp add: sample_players_def sample_handlers_def marked_unit marker_expired_def crosses_groups_def entry_accepts_def unit_new_def Let_def)

theorem unspent_mana_exact_witness:
  "snd (snd (drain_player True False False sample_handlers hd (Some PhPreCombatMain) PhBeginCombat sample_players 3))
     = [\<lparr>pl_player = 3, pl_amount = 2, pl_cause = ManaBurnLoss\<rparr>]"
proof -
  let ?marked = "mark_pool True (Some PhPreCombatMain) PhBeginCombat (snd (mp_players sample_players ! 1))"
  let ?lost = "filter (\<lambda>u. mu_expiry u = None \<and> \<not> False \<and> \<not> (\<exists>entry\<in>set sample_handlers. entry_accepts entry (mu_color u))) ?marked"
  obtain st' events owed where drain:
    "drain_player True False False sample_handlers hd (Some PhPreCombatMain) PhBeginCombat sample_players 3 = (st', events, owed)"
    by (rule prod_cases3)
  have "length (map mu_source ?lost) = 2" unfolding sample_lost by simp
  then have "owed_life_losses 3 True False (of_nat (length ?lost)) = [\<lparr>pl_player = 3, pl_amount = 2, pl_cause = ManaBurnLoss\<rparr>]"
    by (simp add: owed_life_losses_def)
  with unspent_mana_exact [OF hd_in_range sample_pool_units drain refl refl] drain show ?thesis by simp
qed

end
