(* ===== verification/Rust_Ordering.thy ===== *)
theory Rust_Ordering
  imports Prelude
begin

text \<open>
  \<^verbatim>\<open>Ordering\<close>, the comparison of the derived \<^verbatim>\<open>Ord\<close>, lexicographic composition and the stable sort by a comparison, as
  the standings of tournaments and the order of mana sources use them, with what a total comparison makes of a sort.
\<close>

subsection \<open>Comparisons\<close>

datatype rust_ordering = OrdLess | OrdEqual | OrdGreater

definition rust_cmp :: "'a::linorder \<Rightarrow> 'a \<Rightarrow> rust_ordering" where
  "rust_cmp a b = (if a < b then OrdLess else if a = b then OrdEqual else OrdGreater)"

definition then_with :: "rust_ordering \<Rightarrow> rust_ordering \<Rightarrow> rust_ordering" where
  "then_with o1 o2 = (if o1 = OrdEqual then o2 else o1)"

text \<open>\<^verbatim>\<open>slice::sort_by\<close>, stable; the order of the result is specified for comparisons that are total orders.\<close>

fun insert_by :: "('a \<Rightarrow> 'a \<Rightarrow> rust_ordering) \<Rightarrow> 'a \<Rightarrow> 'a list \<Rightarrow> 'a list" where
  "insert_by cmp x [] = [x]"
| "insert_by cmp x (y # ys) = (if cmp x y = OrdGreater then y # insert_by cmp x ys else x # y # ys)"

definition sort_by :: "('a \<Rightarrow> 'a \<Rightarrow> rust_ordering) \<Rightarrow> 'a list \<Rightarrow> 'a list" where
  "sort_by cmp xs = foldr (insert_by cmp) xs []"

subsection \<open>Total comparisons and sorting\<close>

fun flip_ordering :: "rust_ordering \<Rightarrow> rust_ordering" where
  "flip_ordering OrdLess = OrdGreater"
| "flip_ordering OrdEqual = OrdEqual"
| "flip_ordering OrdGreater = OrdLess"

definition total_cmp :: "('a \<Rightarrow> 'a \<Rightarrow> rust_ordering) \<Rightarrow> bool" where
  "total_cmp cmp \<longleftrightarrow> (\<forall>a b. cmp b a = flip_ordering (cmp a b))
     \<and> (\<forall>a b c. cmp a b \<noteq> OrdGreater \<and> cmp b c \<noteq> OrdGreater \<longrightarrow> cmp a c \<noteq> OrdGreater)"

lemma flip_ordering_iff [simp]:
  "flip_ordering c = OrdGreater \<longleftrightarrow> c = OrdLess" "flip_ordering c = OrdLess \<longleftrightarrow> c = OrdGreater"
  "flip_ordering c = OrdEqual \<longleftrightarrow> c = OrdEqual"
  by (cases c; simp)+

lemma total_cmpD:
  assumes "total_cmp cmp"
  shows "cmp b a = flip_ordering (cmp a b)"
    and "cmp a b \<noteq> OrdGreater \<Longrightarrow> cmp b c \<noteq> OrdGreater \<Longrightarrow> cmp a c \<noteq> OrdGreater"
  using assms unfolding total_cmp_def by blast+

lemma total_cmp_rust_cmp: "total_cmp rust_cmp"
  unfolding total_cmp_def by (auto simp: rust_cmp_def)

lemma total_cmp_by: "total_cmp cmp \<Longrightarrow> total_cmp (\<lambda>a b. cmp (f a) (f b))"
  unfolding total_cmp_def by blast

lemma total_cmp_swap:
  assumes "total_cmp cmp"
  shows "total_cmp (\<lambda>a b. cmp b a)"
  unfolding total_cmp_def
proof (intro conjI allI impI)
  fix a b show "cmp a b = flip_ordering (cmp b a)" by (rule total_cmpD(1) [OF assms])
next
  fix a b c assume "cmp b a \<noteq> OrdGreater \<and> cmp c b \<noteq> OrdGreater"
  then show "cmp c a \<noteq> OrdGreater" using total_cmpD(2) [OF assms, of c b a] by simp
qed

lemma total_cmp_then_with:
  assumes "total_cmp c1" and "total_cmp c2"
  shows "total_cmp (\<lambda>a b. then_with (c1 a b) (c2 a b))"
  unfolding total_cmp_def
proof (intro conjI allI impI)
  fix a b show "then_with (c1 b a) (c2 b a) = flip_ordering (then_with (c1 a b) (c2 a b))"
    by (simp add: then_with_def total_cmpD(1) [OF assms(1), of b a] total_cmpD(1) [OF assms(2), of b a])
next
  fix a b c
  assume le: "then_with (c1 a b) (c2 a b) \<noteq> OrdGreater \<and> then_with (c1 b c) (c2 b c) \<noteq> OrdGreater"
  then have one: "c1 a b \<noteq> OrdGreater" "c1 b c \<noteq> OrdGreater" by (auto simp: then_with_def split: if_splits)
  then have ac: "c1 a c \<noteq> OrdGreater" by (rule total_cmpD(2) [OF assms(1)])
  show "then_with (c1 a c) (c2 a c) \<noteq> OrdGreater"
  proof (cases "c1 a c = OrdEqual")
    case True
    then have "c1 c a \<noteq> OrdGreater" using total_cmpD(1) [OF assms(1), of c a] by simp
    from total_cmpD(2) [OF assms(1) one(2) this] total_cmpD(2) [OF assms(1) this one(1)]
    have "c1 b a \<noteq> OrdGreater" "c1 c b \<noteq> OrdGreater" .
    with one have "c1 a b = OrdEqual" "c1 b c = OrdEqual"
      using total_cmpD(1) [OF assms(1), of b a] total_cmpD(1) [OF assms(1), of c b]
      by (metis flip_ordering_iff(1) rust_ordering.exhaust)+
    with le True total_cmpD(2) [OF assms(2), of a b c] show ?thesis by (simp add: then_with_def)
  next
    case False
    with ac show ?thesis by (simp add: then_with_def)
  qed
qed

lemma mset_insert_by: "mset (insert_by cmp x xs) = add_mset x (mset xs)"
  by (induction xs) auto

lemma mset_sort_by [simp]: "mset (sort_by cmp xs) = mset xs"
  by (induction xs) (simp_all add: sort_by_def mset_insert_by)

lemma set_insert_by: "set (insert_by cmp x xs) = insert x (set xs)"
  using mset_eq_setD [OF mset_insert_by [of cmp x xs, folded mset.simps(2)]] by simp

lemma sorted_insert_by:
  assumes "total_cmp cmp" and "sorted_wrt (\<lambda>a b. cmp a b \<noteq> OrdGreater) xs"
  shows "sorted_wrt (\<lambda>a b. cmp a b \<noteq> OrdGreater) (insert_by cmp x xs)"
  using assms(2)
proof (induction xs)
  case Nil
  then show ?case by simp
next
  case (Cons y ys)
  show ?case
  proof (cases "cmp x y = OrdGreater")
    case True
    then have "cmp y x \<noteq> OrdGreater" using total_cmpD(1) [OF assms(1), of y x] by simp
    with Cons True show ?thesis by (auto simp: set_insert_by)
  next
    case False
    with Cons.prems total_cmpD(2) [OF assms(1) False] show ?thesis by auto
  qed
qed

lemma sorted_sort_by: "total_cmp cmp \<Longrightarrow> sorted_wrt (\<lambda>a b. cmp a b \<noteq> OrdGreater) (sort_by cmp xs)"
  by (induction xs) (simp_all add: sort_by_def sorted_insert_by)

end
