(* ===== verification/Mana_Orders.thy ===== *)
theory Mana_Orders
  imports Mana_Pool Rust_Ordering "HOL-Library.Option_ord" "HOL-Library.Product_Lexorder"
begin

text \<open>
  The stable order of mana-source selections (\<^verbatim>\<open>ManaSourceSelection::cmp_stable\<close> of \<^verbatim>\<open>src/crates/engine/src/types/mana.rs\<close>), by
  which the engine lists the sources a player may activate. It is composed of derived orders and of explicit comparisons of
  the payloads that have none. The contract \<open>comparison\<close> says that a comparison is a total order whose equality is
  equality of values; it is interpreted on every comparison of the file.

  The identity of a trigger is compared by its derived order and is a value of any linear order \<open>'o\<close>.
\<close>

subsection \<open>Orderings\<close>

text \<open>Derived orders of enumerations compare the positions of the variants.\<close>

instantiation mana_type :: linorder
begin

definition less_eq_mana_type :: "mana_type \<Rightarrow> mana_type \<Rightarrow> bool" where
  "a \<le> b \<longleftrightarrow> type_index a \<le> type_index b"

definition less_mana_type :: "mana_type \<Rightarrow> mana_type \<Rightarrow> bool" where
  "a < b \<longleftrightarrow> type_index a < type_index b"

instance
proof
  fix a b :: mana_type
  show "a \<le> b \<Longrightarrow> b \<le> a \<Longrightarrow> a = b" by (cases a; cases b) (simp_all add: less_eq_mana_type_def)
qed (auto simp: less_eq_mana_type_def less_mana_type_def)

end

instantiation mana_color :: linorder
begin

definition less_eq_mana_color :: "mana_color \<Rightarrow> mana_color \<Rightarrow> bool" where
  "a \<le> b \<longleftrightarrow> color_index a \<le> color_index b"

definition less_mana_color :: "mana_color \<Rightarrow> mana_color \<Rightarrow> bool" where
  "a < b \<longleftrightarrow> color_index a < color_index b"

instance
proof
  fix a b :: mana_color
  show "a \<le> b \<Longrightarrow> b \<le> a \<Longrightarrow> a = b" by (cases a; cases b) (simp_all add: less_eq_mana_color_def)
qed (auto simp: less_eq_mana_color_def less_mana_color_def)

end

fun zone_index :: "zone \<Rightarrow> nat" where
  "zone_index Library = 0"
| "zone_index Hand = 1"
| "zone_index Battlefield = 2"
| "zone_index Graveyard = 3"
| "zone_index Stack = 4"
| "zone_index Exile = 5"
| "zone_index Command = 6"

instantiation zone :: linorder
begin

definition less_eq_zone :: "zone \<Rightarrow> zone \<Rightarrow> bool" where
  "a \<le> b \<longleftrightarrow> zone_index a \<le> zone_index b"

definition less_zone :: "zone \<Rightarrow> zone \<Rightarrow> bool" where
  "a < b \<longleftrightarrow> zone_index a < zone_index b"

instance
proof
  fix a b :: zone
  show "a \<le> b \<Longrightarrow> b \<le> a \<Longrightarrow> a = b" by (cases a; cases b) (simp_all add: less_eq_zone_def)
qed (auto simp: less_eq_zone_def less_zone_def)

end

subsection \<open>Comparisons of payloads\<close>

definition cmp_slice_by :: "('a \<Rightarrow> 'a \<Rightarrow> rust_ordering) \<Rightarrow> 'a list \<Rightarrow> 'a list \<Rightarrow> rust_ordering" where
  "cmp_slice_by cmp left right =
     (case List.find (\<lambda>ord. ord \<noteq> OrdEqual) (map2 cmp left right) of
        Some ord \<Rightarrow> ord
      | None \<Rightarrow> rust_cmp (length left) (length right))"

lemma cmp_slice_by_cong [fundef_cong]:
  "xs = xs' \<Longrightarrow> ys = ys' \<Longrightarrow> (\<And>x y. x \<in> set xs' \<Longrightarrow> y \<in> set ys' \<Longrightarrow> f x y = g x y) \<Longrightarrow> cmp_slice_by f xs ys = cmp_slice_by g xs' ys'"
proof -
  assume "xs = xs'" "ys = ys'" "\<And>x y. x \<in> set xs' \<Longrightarrow> y \<in> set ys' \<Longrightarrow> f x y = g x y"
  then have "map2 f xs ys = map2 g xs' ys'" by (auto dest: set_zip_leftD set_zip_rightD)
  with \<open>xs = xs'\<close> \<open>ys = ys'\<close> show ?thesis by (simp only: cmp_slice_by_def)
qed

fun comparator_rank :: "comparator \<Rightarrow> nat" where
  "comparator_rank CmpGT = 0"
| "comparator_rank CmpLT = 1"
| "comparator_rank CmpGE = 2"
| "comparator_rank CmpLE = 3"
| "comparator_rank CmpEQ = 4"
| "comparator_rank CmpNE = 5"

fun ability_activation_scope_rank :: "ability_activation_scope \<Rightarrow> nat" where
  "ability_activation_scope_rank OfSpellType = 0"
| "ability_activation_scope_rank AnyAbility = 1"

fun ability_tag_rank :: "ability_tag \<Rightarrow> nat" where
  "ability_tag_rank Boast = 0"
| "ability_tag_rank Evolve = 1"
| "ability_tag_rank Exhaust = 2"
| "ability_tag_rank Outlast = 3"
| "ability_tag_rank Cycling = 4"
| "ability_tag_rank Backup = 5"
| "ability_tag_rank PowerUp = 6"
| "ability_tag_rank Equip = 7"
| "ability_tag_rank Augment = 8"

fun zone_spend_polarity_rank :: "zone_spend_polarity \<Rightarrow> nat" where
  "zone_spend_polarity_rank FromZone = 0"
| "zone_spend_polarity_rank NotFromZone = 1"

fun special_action_rank :: "special_action \<Rightarrow> nat" where
  "special_action_rank CompanionToHand = 0"
| "special_action_rank UnlockDoor = 1"
| "special_action_rank Plot = 2"
| "special_action_rank TurnFaceUp = 3"
| "special_action_rank RollPlanarDie = 4"
| "special_action_rank EndContinuousEffect = 5"

fun cmp_spell_cost_criterion :: "spell_cost_criterion \<Rightarrow> spell_cost_criterion \<Rightarrow> rust_ordering" where
  "cmp_spell_cost_criterion (CritManaValue c v) (CritManaValue d w) =
     then_with (rust_cmp (comparator_rank c) (comparator_rank d)) (rust_cmp v w)"
| "cmp_spell_cost_criterion HasXInCost HasXInCost = OrdEqual"
| "cmp_spell_cost_criterion (CritManaValue _ _) HasXInCost = OrdLess"
| "cmp_spell_cost_criterion HasXInCost (CritManaValue _ _) = OrdGreater"

fun restriction_rank :: "mana_restriction \<Rightarrow> nat" where
  "restriction_rank OnlyForSpell = 0"
| "restriction_rank (OnlyForSpellType _) = 1"
| "restriction_rank (OnlyForCreatureType _) = 2"
| "restriction_rank (OnlyForTypeSpellsOrAbilities _ _) = 3"
| "restriction_rank OnlyForActivation = 4"
| "restriction_rank (OnlyForTaggedActivation _) = 5"
| "restriction_rank OnlyForXCosts = 6"
| "restriction_rank (OnlyForSpellWithKeywordKind _) = 7"
| "restriction_rank (OnlyForSpellWithKeywordKindFromZone _ _) = 8"
| "restriction_rank (OnlyForSpellWithManaValue _ _) = 9"
| "restriction_rank (OnlyForSpellMatchingCostCriteria _ _) = 10"
| "restriction_rank (OnlyForSpellWithColorCount _ _) = 11"
| "restriction_rank (OnlyForSpellColor _) = 12"
| "restriction_rank (OnlyForSpellFromZone _) = 13"
| "restriction_rank (CannotCastSpellFromZone _) = 14"
| "restriction_rank OnlyForFaceDownSpell = 15"
| "restriction_rank (OnlyForAny _) = 16"
| "restriction_rank (OnlyForSpecialAction _) = 17"
| "restriction_rank ImpossibleRestriction = 18"
| "restriction_rank ConvokePayment = 19"

fun cmp_mana_restriction :: "mana_restriction \<Rightarrow> mana_restriction \<Rightarrow> rust_ordering" where
  "cmp_mana_restriction l r = then_with (rust_cmp (restriction_rank l) (restriction_rank r))
     (case l of
        OnlyForSpellType a \<Rightarrow> (case r of OnlyForSpellType b \<Rightarrow> rust_cmp a b | _ \<Rightarrow> OrdEqual)
      | OnlyForCreatureType a \<Rightarrow> (case r of OnlyForCreatureType b \<Rightarrow> rust_cmp a b | _ \<Rightarrow> OrdEqual)
      | OnlyForTypeSpellsOrAbilities a scope \<Rightarrow>
          (case r of OnlyForTypeSpellsOrAbilities b scope' \<Rightarrow>
             then_with (rust_cmp a b) (rust_cmp (ability_activation_scope_rank scope) (ability_activation_scope_rank scope')) | _ \<Rightarrow> OrdEqual)
      | OnlyForTaggedActivation a \<Rightarrow>
          (case r of OnlyForTaggedActivation b \<Rightarrow> rust_cmp (ability_tag_rank a) (ability_tag_rank b) | _ \<Rightarrow> OrdEqual)
      | OnlyForSpellWithKeywordKind a \<Rightarrow> (case r of OnlyForSpellWithKeywordKind b \<Rightarrow> rust_cmp a b | _ \<Rightarrow> OrdEqual)
      | OnlyForSpellWithKeywordKindFromZone a z \<Rightarrow>
          (case r of OnlyForSpellWithKeywordKindFromZone b z' \<Rightarrow> then_with (rust_cmp a b) (rust_cmp z z') | _ \<Rightarrow> OrdEqual)
      | OnlyForSpellWithManaValue c v \<Rightarrow>
          (case r of OnlyForSpellWithManaValue d w \<Rightarrow>
             then_with (rust_cmp (comparator_rank c) (comparator_rank d)) (rust_cmp v w) | _ \<Rightarrow> OrdEqual)
      | OnlyForSpellMatchingCostCriteria a cs \<Rightarrow>
          (case r of OnlyForSpellMatchingCostCriteria b ds \<Rightarrow>
             then_with (rust_cmp a b) (cmp_slice_by cmp_spell_cost_criterion cs ds) | _ \<Rightarrow> OrdEqual)
      | OnlyForSpellWithColorCount c v \<Rightarrow>
          (case r of OnlyForSpellWithColorCount d w \<Rightarrow>
             then_with (rust_cmp (comparator_rank c) (comparator_rank d)) (rust_cmp v w) | _ \<Rightarrow> OrdEqual)
      | OnlyForSpellColor a \<Rightarrow> (case r of OnlyForSpellColor b \<Rightarrow> rust_cmp a b | _ \<Rightarrow> OrdEqual)
      | OnlyForSpellFromZone a \<Rightarrow>
          (case r of OnlyForSpellFromZone b \<Rightarrow>
             then_with (rust_cmp (zs_zone a) (zs_zone b))
               (rust_cmp (zone_spend_polarity_rank (zs_polarity a)) (zone_spend_polarity_rank (zs_polarity b))) | _ \<Rightarrow> OrdEqual)
      | CannotCastSpellFromZone a \<Rightarrow> (case r of CannotCastSpellFromZone b \<Rightarrow> rust_cmp a b | _ \<Rightarrow> OrdEqual)
      | OnlyForAny as \<Rightarrow> (case r of OnlyForAny bs \<Rightarrow> cmp_slice_by cmp_mana_restriction as bs | _ \<Rightarrow> OrdEqual)
      | OnlyForSpecialAction a \<Rightarrow>
          (case r of OnlyForSpecialAction b \<Rightarrow> rust_cmp (special_action_rank a) (special_action_rank b) | _ \<Rightarrow> OrdEqual)
      | _ \<Rightarrow> OrdEqual)"

declare cmp_mana_restriction.simps [simp del]

subsection \<open>Selections\<close>

datatype mana_source_penalty =
    NoPenalty
  | HasIrreversibleContinuation
  | DealsDamageOnResolution "16 word option"
  | PaysLifeOnActivation "16 word option"
  | Sacrifices

fun penalty_rank :: "mana_source_penalty \<Rightarrow> nat" where
  "penalty_rank NoPenalty = 0"
| "penalty_rank HasIrreversibleContinuation = 1"
| "penalty_rank (DealsDamageOnResolution _) = 2"
| "penalty_rank (PaysLifeOnActivation _) = 3"
| "penalty_rank Sacrifices = 4"

definition cmp_mana_source_penalty :: "mana_source_penalty \<Rightarrow> mana_source_penalty \<Rightarrow> rust_ordering" where
  "cmp_mana_source_penalty l r = then_with (rust_cmp (penalty_rank l) (penalty_rank r))
     (case l of
        DealsDamageOnResolution a \<Rightarrow> (case r of DealsDamageOnResolution b \<Rightarrow> rust_cmp a b | _ \<Rightarrow> OrdEqual)
      | PaysLifeOnActivation a \<Rightarrow> (case r of PaysLifeOnActivation b \<Rightarrow> rust_cmp a b | _ \<Rightarrow> OrdEqual)
      | _ \<Rightarrow> OrdEqual)"

datatype mana_source_output = Concrete mana_type | DeferredColorChoice

fun cmp_mana_source_output :: "mana_source_output \<Rightarrow> mana_source_output \<Rightarrow> rust_ordering" where
  "cmp_mana_source_output (Concrete a) (Concrete b) = rust_cmp a b"
| "cmp_mana_source_output DeferredColorChoice DeferredColorChoice = OrdEqual"
| "cmp_mana_source_output (Concrete _) DeferredColorChoice = OrdLess"
| "cmp_mana_source_output DeferredColorChoice (Concrete _) = OrdGreater"

datatype production_override = SingleColor mana_type | CombinationOverride "mana_type list"

fun cmp_production_override :: "production_override \<Rightarrow> production_override \<Rightarrow> rust_ordering" where
  "cmp_production_override (SingleColor a) (SingleColor b) = rust_cmp a b"
| "cmp_production_override (CombinationOverride a) (CombinationOverride b) = rust_cmp a b"
| "cmp_production_override (SingleColor _) (CombinationOverride _) = OrdLess"
| "cmp_production_override (CombinationOverride _) (SingleColor _) = OrdGreater"

type_synonym object_incarnation_ref = "u64 \<times> u64"

record 'o taps_for_mana_selection =
  tm_source :: object_incarnation_ref
  tm_occurrence :: 'o
  tm_production_override :: production_override

definition cmp_taps_for_mana :: "'o :: linorder taps_for_mana_selection \<Rightarrow> 'o taps_for_mana_selection \<Rightarrow> rust_ordering" where
  "cmp_taps_for_mana a b =
     then_with (rust_cmp (tm_source a) (tm_source b))
       (then_with (rust_cmp (tm_occurrence a) (tm_occurrence b))
         (cmp_production_override (tm_production_override a) (tm_production_override b)))"

record 'o mana_source_selection =
  ss_source :: object_incarnation_ref
  ss_ability_index :: "usize option"
  ss_mana_type :: mana_type
  ss_output :: mana_source_output
  ss_atomic_combination :: "mana_type list option"
  ss_restrictions :: "mana_restriction list"
  ss_penalty :: mana_source_penalty
  ss_taps_for_mana :: "'o taps_for_mana_selection list"

definition cmp_stable :: "'o :: linorder mana_source_selection \<Rightarrow> 'o mana_source_selection \<Rightarrow> rust_ordering" where
  "cmp_stable a b =
     then_with (rust_cmp (ss_source a) (ss_source b))
    (then_with (rust_cmp (ss_ability_index a) (ss_ability_index b))
    (then_with (rust_cmp (ss_mana_type a) (ss_mana_type b))
    (then_with (cmp_mana_source_output (ss_output a) (ss_output b))
    (then_with (rust_cmp (ss_atomic_combination a) (ss_atomic_combination b))
    (then_with (cmp_slice_by cmp_mana_restriction (ss_restrictions a) (ss_restrictions b))
    (then_with (cmp_mana_source_penalty (ss_penalty a) (ss_penalty b))
               (cmp_slice_by cmp_taps_for_mana (ss_taps_for_mana a) (ss_taps_for_mana b))))))))"

text \<open>\<^verbatim>\<open>slice::sort_by\<close>, a stable sort, and the list of selections without repetitions. Which options the objects of the
  player have is a query to the engine; \<open>select\<close> is \<^verbatim>\<open>manual_selection_for_option\<close>.\<close>

definition push_new :: "'a list \<Rightarrow> 'a option \<Rightarrow> 'a list" where
  "push_new xs x = (case x of None \<Rightarrow> xs | Some y \<Rightarrow> if y \<in> set xs then xs else xs @ [y])"

definition activatable_mana_source_selections ::
  "('e \<Rightarrow> 'o :: linorder mana_source_selection option) \<Rightarrow> 'e list \<Rightarrow> 'o mana_source_selection list" where
  "activatable_mana_source_selections select options =
     sort_by cmp_stable (foldl (\<lambda>xs option. push_new xs (select option)) [] options)"

subsection \<open>The laws of a comparison\<close>

text \<open>On a carrier: equal exactly on equal values, antisymmetric and transitive.\<close>

definition lawful_on :: "'a set \<Rightarrow> ('a \<Rightarrow> 'a \<Rightarrow> rust_ordering) \<Rightarrow> bool" where
  "lawful_on A cmp \<longleftrightarrow>
     (\<forall>a\<in>A. \<forall>b\<in>A. (cmp a b = OrdEqual \<longleftrightarrow> a = b) \<and> cmp b a = flip_ordering (cmp a b)
       \<and> (\<forall>c\<in>A. cmp a b = OrdLess \<and> cmp b c = OrdLess \<longrightarrow> cmp a c = OrdLess))"

lemma lawful_onI:
  assumes "\<And>a b. a \<in> A \<Longrightarrow> b \<in> A \<Longrightarrow> cmp a b = OrdEqual \<longleftrightarrow> a = b"
    and "\<And>a b. a \<in> A \<Longrightarrow> b \<in> A \<Longrightarrow> cmp b a = flip_ordering (cmp a b)"
    and "\<And>a b c. a \<in> A \<Longrightarrow> b \<in> A \<Longrightarrow> c \<in> A \<Longrightarrow> cmp a b = OrdLess \<Longrightarrow> cmp b c = OrdLess \<Longrightarrow> cmp a c = OrdLess"
  shows "lawful_on A cmp"
  using assms unfolding lawful_on_def by blast

lemma lawful_onD:
  assumes "lawful_on A cmp"
  shows "a \<in> A \<Longrightarrow> b \<in> A \<Longrightarrow> cmp a b = OrdEqual \<longleftrightarrow> a = b"
    and "a \<in> A \<Longrightarrow> b \<in> A \<Longrightarrow> cmp b a = flip_ordering (cmp a b)"
    and "a \<in> A \<Longrightarrow> b \<in> A \<Longrightarrow> c \<in> A \<Longrightarrow> cmp a b = OrdLess \<Longrightarrow> cmp b c = OrdLess \<Longrightarrow> cmp a c = OrdLess"
  using assms unfolding lawful_on_def by blast+

lemma reverse_reverse [simp]: "flip_ordering (flip_ordering x) = x"
  by (cases x) simp_all

lemma then_with_simps [simp]: "then_with OrdEqual x = x" "then_with OrdLess x = OrdLess" "then_with OrdGreater x = OrdGreater"
  by (simp_all add: then_with_def)

lemma then_with_eq [simp]:
  "then_with x y = OrdEqual \<longleftrightarrow> x = OrdEqual \<and> y = OrdEqual"
  "then_with x y = OrdLess \<longleftrightarrow> x = OrdLess \<or> (x = OrdEqual \<and> y = OrdLess)"
  "then_with x y = OrdGreater \<longleftrightarrow> x = OrdGreater \<or> (x = OrdEqual \<and> y = OrdGreater)"
  "flip_ordering (then_with x y) = then_with (flip_ordering x) (flip_ordering y)"
  by (cases x; simp)+

lemma rust_cmp_eq [simp]:
  "rust_cmp a b = OrdEqual \<longleftrightarrow> a = b" "rust_cmp a b = OrdLess \<longleftrightarrow> a < b" "rust_cmp a b = OrdGreater \<longleftrightarrow> b < a"
  by (auto simp: rust_cmp_def)

lemma rust_cmp_refl [simp]: "rust_cmp a a = OrdEqual"
  by simp

lemma reverse_rust_cmp [simp]: "flip_ordering (rust_cmp a b) = rust_cmp b a"
  by (auto simp: rust_cmp_def)

lemma lawful_key: "inj_on key A \<Longrightarrow> lawful_on A (\<lambda>a b. rust_cmp (key a) (key b))"
  by (rule lawful_onI) (auto dest: inj_onD)

lemma lawful_ord: "lawful_on A rust_cmp"
  by (rule lawful_onI) auto

lemma lawful_subset: "lawful_on B cmp \<Longrightarrow> A \<subseteq> B \<Longrightarrow> lawful_on A cmp"
  unfolding lawful_on_def by blast

text \<open>A comparison of values that are built alike is one of what they are built from.\<close>

lemma lawful_image:
  assumes "lawful_on B cmp'" "\<And>x y. x \<in> B \<Longrightarrow> y \<in> B \<Longrightarrow> cmp (f x) (f y) = cmp' x y" "A \<subseteq> f ` B" "inj f"
  shows "lawful_on A cmp"
proof (rule lawful_onI)
  fix a b assume "a \<in> A" "b \<in> A"
  then obtain x y where xy: "x \<in> B" "y \<in> B" "a = f x" "b = f y" using assms(3) by blast
  then show "cmp a b = OrdEqual \<longleftrightarrow> a = b" using lawful_onD(1) [OF assms(1)] by (simp add: assms(2) inj_eq [OF assms(4)])
  show "cmp b a = flip_ordering (cmp a b)" using xy lawful_onD(2) [OF assms(1) xy(1,2)] by (simp add: assms(2))
next
  fix a b c assume abc: "a \<in> A" "b \<in> A" "c \<in> A" and less: "cmp a b = OrdLess" "cmp b c = OrdLess"
  from abc(1) assms(3) obtain x where x: "x \<in> B" "a = f x" by blast
  from abc(2) assms(3) obtain y where y: "y \<in> B" "b = f y" by blast
  from abc(3) assms(3) obtain z where z: "z \<in> B" "c = f z" by blast
  from less x y z show "cmp a c = OrdLess" using lawful_onD(3) [OF assms(1) x(1) y(1) z(1)] by (simp add: assms(2))
qed

text \<open>Values of smaller rank come first, and among values of one rank the comparison is lawful.\<close>

lemma lawful_rank:
  fixes rank :: "'a \<Rightarrow> 'r :: linorder"
  assumes same: "\<And>a. a \<in> A \<Longrightarrow> lawful_on {b \<in> A. rank b = rank a} cmp"
    and below: "\<And>a b. a \<in> A \<Longrightarrow> b \<in> A \<Longrightarrow> rank a < rank b \<Longrightarrow> cmp a b = OrdLess \<and> cmp b a = OrdGreater"
  shows "lawful_on A cmp"
proof (rule lawful_onI)
  fix a b assume ab: "a \<in> A" "b \<in> A"
  show "cmp a b = OrdEqual \<longleftrightarrow> a = b"
    using ab below [of a b] below [of b a] lawful_onD(1) [OF same [of a], of a b] by (cases "rank a" "rank b" rule: linorder_cases) auto
  show "cmp b a = flip_ordering (cmp a b)"
    using ab below [of a b] below [of b a] lawful_onD(2) [OF same [of a], of a b] by (cases "rank a" "rank b" rule: linorder_cases) auto
next
  fix a b c assume abc: "a \<in> A" "b \<in> A" "c \<in> A" and less: "cmp a b = OrdLess" "cmp b c = OrdLess"
  have "\<not> rank b < rank a" "\<not> rank c < rank b" using below [of b a] below [of c b] abc less by auto
  note ranks = this
  show "cmp a c = OrdLess"
  proof (cases "rank a < rank c")
    case False
    then have "rank b = rank a" "rank c = rank a" using ranks by order+
    then show ?thesis using lawful_onD(3) [OF same [of a], of a b c] abc less by simp
  qed (use below abc in blast)
qed

text \<open>Lexicographic comparison of pairs.\<close>

lemma lawful_pair:
  assumes "lawful_on A cmp1" "lawful_on B cmp2"
  shows "lawful_on (A \<times> B) (\<lambda>x y. then_with (cmp1 (fst x) (fst y)) (cmp2 (snd x) (snd y)))"
proof (rule lawful_onI)
  fix x y assume "x \<in> A \<times> B" "y \<in> A \<times> B"
  then show "then_with (cmp1 (fst x) (fst y)) (cmp2 (snd x) (snd y)) = OrdEqual \<longleftrightarrow> x = y"
    and "then_with (cmp1 (fst y) (fst x)) (cmp2 (snd y) (snd x)) = flip_ordering (then_with (cmp1 (fst x) (fst y)) (cmp2 (snd x) (snd y)))"
    using lawful_onD(1) [OF assms(1)] lawful_onD(1) [OF assms(2)] lawful_onD(2) [OF assms(1), of "fst x" "fst y"] lawful_onD(2) [OF assms(2), of "snd x" "snd y"]
    by (auto simp: prod_eq_iff)
next
  fix x y z assume xyz: "x \<in> A \<times> B" "y \<in> A \<times> B" "z \<in> A \<times> B"
    and less: "then_with (cmp1 (fst x) (fst y)) (cmp2 (snd x) (snd y)) = OrdLess" "then_with (cmp1 (fst y) (fst z)) (cmp2 (snd y) (snd z)) = OrdLess"
  have carrier: "fst x \<in> A" "fst y \<in> A" "fst z \<in> A" "snd x \<in> B" "snd y \<in> B" "snd z \<in> B" using xyz by auto
  note first = lawful_onD [OF assms(1)]
  show "then_with (cmp1 (fst x) (fst z)) (cmp2 (snd x) (snd z)) = OrdLess"
  proof (cases "fst x = fst y \<and> fst y = fst z")
    case True
    with less carrier show ?thesis
      using first(1) [of "fst x" "fst x"] lawful_onD(3) [OF assms(2), of "snd x" "snd y" "snd z"] by simp
  next
    case False
    then have "cmp1 (fst x) (fst z) = OrdLess"
      using less carrier first(1) [of "fst x" "fst y"] first(1) [of "fst y" "fst z"] first(3) [of "fst x" "fst y" "fst z"] by auto
    then show ?thesis by simp
  qed
qed

text \<open>Slices: element by element, then by length.\<close>

lemma cmp_slice_by_simps [simp]:
  "cmp_slice_by cmp [] [] = OrdEqual"
  "cmp_slice_by cmp [] (y # ys) = OrdLess"
  "cmp_slice_by cmp (x # xs) [] = OrdGreater"
  "cmp_slice_by cmp (x # xs) (y # ys) = then_with (cmp x y) (cmp_slice_by cmp xs ys)"
proof -
  show "cmp_slice_by cmp (x # xs) (y # ys) = then_with (cmp x y) (cmp_slice_by cmp xs ys)"
    by (cases "cmp x y") (simp_all add: cmp_slice_by_def rust_cmp_def split: option.split)
qed (simp_all add: cmp_slice_by_def rust_cmp_def)

lemma cmp_slice_by_Nil [simp]: "cmp_slice_by cmp xs [] \<noteq> OrdLess"
  by (cases xs) simp_all

lemma lawful_slice:
  assumes "lawful_on A cmp"
  shows "lawful_on (lists A) (cmp_slice_by cmp)"
proof (rule lawful_onI)
  fix xs ys assume "xs \<in> lists A" "ys \<in> lists A"
  then show "cmp_slice_by cmp xs ys = OrdEqual \<longleftrightarrow> xs = ys"
  proof (induction xs ys rule: list_induct2')
    case (4 x xs y ys)
    then show ?case using lawful_onD(1) [OF assms, of x y] by auto
  qed simp_all
next
  fix xs ys assume "xs \<in> lists A" "ys \<in> lists A"
  then show "cmp_slice_by cmp ys xs = flip_ordering (cmp_slice_by cmp xs ys)"
  proof (induction xs ys rule: list_induct2')
    case (4 x xs y ys)
    then show ?case using lawful_onD(2) [OF assms, of x y] by auto
  qed simp_all
next
  fix xs ys zs assume "xs \<in> lists A" "ys \<in> lists A" "zs \<in> lists A" "cmp_slice_by cmp xs ys = OrdLess" "cmp_slice_by cmp ys zs = OrdLess"
  then show "cmp_slice_by cmp xs zs = OrdLess"
  proof (induction xs arbitrary: ys zs)
    case Nil
    then show ?case by (cases ys; cases zs) auto
  next
    case (Cons x xs)
    have "ys \<noteq> []" "zs \<noteq> []" using Cons.prems by auto
    then obtain y ys' z zs' where yz: "ys = y # ys'" "zs = z # zs'" by (auto simp: neq_Nil_conv)
    note first = lawful_onD [OF assms]
    show ?case
    proof (cases "x = y \<and> y = z")
      case True
      then show ?thesis using Cons.IH [of ys' zs'] Cons.prems Cons.hyps yz first(1) [of x x] by simp
    next
      case False
      with Cons.prems yz have "cmp x z = OrdLess"
        using Cons.hyps first(1) [of x y] first(1) [of y z] first(3) [of x y z] by auto
      then show ?thesis by (simp add: yz)
    qed
  qed
qed

subsection \<open>The comparisons of the file\<close>

lemma rank_eq [simp]:
  "comparator_rank c = comparator_rank d \<longleftrightarrow> c = d"
  "ability_activation_scope_rank s = ability_activation_scope_rank s' \<longleftrightarrow> s = s'"
  "ability_tag_rank t = ability_tag_rank t' \<longleftrightarrow> t = t'"
  "zone_spend_polarity_rank p = zone_spend_polarity_rank p' \<longleftrightarrow> p = p'"
  "special_action_rank a = special_action_rank a' \<longleftrightarrow> a = a'"
proof -
  show "comparator_rank c = comparator_rank d \<longleftrightarrow> c = d" by (cases c; cases d) simp_all
  show "ability_activation_scope_rank s = ability_activation_scope_rank s' \<longleftrightarrow> s = s'" by (cases s; cases s') simp_all
  show "ability_tag_rank t = ability_tag_rank t' \<longleftrightarrow> t = t'" by (cases t; cases t') simp_all
  show "zone_spend_polarity_rank p = zone_spend_polarity_rank p' \<longleftrightarrow> p = p'" by (cases p; cases p') simp_all
  show "special_action_rank a = special_action_rank a' \<longleftrightarrow> a = a'" by (cases a; cases a') simp_all
qed

lemma lawful_ranks:
  "lawful_on A (\<lambda>c d. rust_cmp (comparator_rank c) (comparator_rank d))"
  "lawful_on B (\<lambda>s t. rust_cmp (ability_activation_scope_rank s) (ability_activation_scope_rank t))"
  "lawful_on C (\<lambda>s t. rust_cmp (ability_tag_rank s) (ability_tag_rank t))"
  "lawful_on D (\<lambda>s t. rust_cmp (zone_spend_polarity_rank s) (zone_spend_polarity_rank t))"
  "lawful_on E (\<lambda>s t. rust_cmp (special_action_rank s) (special_action_rank t))"
  by (rule lawful_key, simp add: inj_on_def)+

lemma lawful_unit: "lawful_on (UNIV :: unit set) (\<lambda>_ _. OrdEqual)"
  by (rule lawful_onI) auto

lemma lawful_any: "lawful_on UNIV cmp \<Longrightarrow> lawful_on A cmp"
  by (erule lawful_subset) simp

lemma lawful_both:
  "lawful_on UNIV cmp1 \<Longrightarrow> lawful_on UNIV cmp2 \<Longrightarrow> lawful_on UNIV (\<lambda>x y. then_with (cmp1 (fst x) (fst y)) (cmp2 (snd x) (snd y)))"
  using lawful_pair [of UNIV cmp1 UNIV cmp2] by simp

lemma lawful_criterion: "lawful_on UNIV cmp_spell_cost_criterion"
proof (rule lawful_rank [where rank = "\<lambda>c. if c = HasXInCost then 1 else 0 :: nat"])
  fix a :: spell_cost_criterion
  show "lawful_on {b \<in> UNIV. (if b = HasXInCost then 1 else 0 :: nat) = (if a = HasXInCost then 1 else 0)} cmp_spell_cost_criterion"
  proof (cases a)
    case (CritManaValue c v)
    show ?thesis
      by (rule lawful_image [OF lawful_both [OF lawful_ranks(1) lawful_ord], where f = "\<lambda>x. CritManaValue (fst x) (snd x)"])
        (auto simp: CritManaValue inj_def image_iff prod_eq_iff split: if_splits, metis spell_cost_criterion.exhaust)
  next
    case HasXInCost
    then have "{b \<in> UNIV. (if b = HasXInCost then 1 else 0 :: nat) = (if a = HasXInCost then 1 else 0)} = {HasXInCost}"
      by (auto split: if_splits)
    then show ?thesis by (simp add: lawful_on_def)
  qed
next
  fix a b :: spell_cost_criterion
  assume "(if a = HasXInCost then 1 else 0 :: nat) < (if b = HasXInCost then 1 else 0)"
  then show "cmp_spell_cost_criterion a b = OrdLess \<and> cmp_spell_cost_criterion b a = OrdGreater" by (cases a; cases b) simp_all
qed

text \<open>The equations of the comparison, constructor by constructor.\<close>

lemma cmp_restriction_rank:
  "restriction_rank l < restriction_rank r \<Longrightarrow> cmp_mana_restriction l r = OrdLess"
  "restriction_rank r < restriction_rank l \<Longrightarrow> cmp_mana_restriction l r = OrdGreater"
  by (subst cmp_mana_restriction.simps, simp add: rust_cmp_def)+

lemma cmp_restriction_simps [simp]:
  "cmp_mana_restriction (OnlyForSpellType a) (OnlyForSpellType b) = rust_cmp a b"
  "cmp_mana_restriction (OnlyForCreatureType a) (OnlyForCreatureType b) = rust_cmp a b"
  "cmp_mana_restriction (OnlyForTypeSpellsOrAbilities a s) (OnlyForTypeSpellsOrAbilities b t) =
     then_with (rust_cmp a b) (rust_cmp (ability_activation_scope_rank s) (ability_activation_scope_rank t))"
  "cmp_mana_restriction (OnlyForTaggedActivation g) (OnlyForTaggedActivation h) = rust_cmp (ability_tag_rank g) (ability_tag_rank h)"
  "cmp_mana_restriction (OnlyForSpellWithKeywordKind k) (OnlyForSpellWithKeywordKind k') = rust_cmp k k'"
  "cmp_mana_restriction (OnlyForSpellWithKeywordKindFromZone k z) (OnlyForSpellWithKeywordKindFromZone k' z') =
     then_with (rust_cmp k k') (rust_cmp z z')"
  "cmp_mana_restriction (OnlyForSpellWithManaValue c v) (OnlyForSpellWithManaValue d w) =
     then_with (rust_cmp (comparator_rank c) (comparator_rank d)) (rust_cmp v w)"
  "cmp_mana_restriction (OnlyForSpellMatchingCostCriteria o1 cs) (OnlyForSpellMatchingCostCriteria o2 ds) =
     then_with (rust_cmp o1 o2) (cmp_slice_by cmp_spell_cost_criterion cs ds)"
  "cmp_mana_restriction (OnlyForSpellWithColorCount c v) (OnlyForSpellWithColorCount d w) =
     then_with (rust_cmp (comparator_rank c) (comparator_rank d)) (rust_cmp v w)"
  "cmp_mana_restriction (OnlyForSpellColor x) (OnlyForSpellColor y) = rust_cmp x y"
  "cmp_mana_restriction (OnlyForSpellFromZone (ZoneSpend z p)) (OnlyForSpellFromZone (ZoneSpend z' p')) =
     then_with (rust_cmp z z') (rust_cmp (zone_spend_polarity_rank p) (zone_spend_polarity_rank p'))"
  "cmp_mana_restriction (CannotCastSpellFromZone z) (CannotCastSpellFromZone z') = rust_cmp z z'"
  "cmp_mana_restriction (OnlyForAny as) (OnlyForAny bs) = cmp_slice_by cmp_mana_restriction as bs"
  "cmp_mana_restriction (OnlyForSpecialAction e) (OnlyForSpecialAction f) = rust_cmp (special_action_rank e) (special_action_rank f)"
  by (subst cmp_mana_restriction.simps, simp)+

text \<open>Restrictions of one rank are built by one constructor and compared by their arguments.\<close>

lemma lawful_constructor:
  assumes "lawful_on B cmp'" "inj f" "\<And>x y. cmp_mana_restriction (f x) (f y) = cmp' x y"
    and "\<And>b. b \<in> A \<Longrightarrow> restriction_rank b = restriction_rank a \<Longrightarrow> \<exists>x\<in>B. b = f x"
  shows "lawful_on {b \<in> A. restriction_rank b = restriction_rank a} cmp_mana_restriction"
  by (rule lawful_image [OF assms(1) _ _ assms(2)]) (use assms(3,4) in \<open>auto simp: image_iff\<close>)

lemma lawful_constants:
  assumes "a \<in> {OnlyForSpell, OnlyForActivation, OnlyForXCosts, OnlyForFaceDownSpell, ImpossibleRestriction, ConvokePayment}"
  shows "lawful_on {b \<in> A. restriction_rank b = restriction_rank a} cmp_mana_restriction"
proof (rule lawful_constructor [OF lawful_unit, of "\<lambda>_. a"])
  show "inj (\<lambda>_ :: unit. a)" by (simp add: inj_def)
  show "cmp_mana_restriction a a = OrdEqual" using assms by (subst cmp_mana_restriction.simps) auto
  show "\<exists>x\<in>UNIV. b = a" if "restriction_rank b = restriction_rank a" for b
    using that assms by (auto elim!: restriction_rank.elims)
qed

text \<open>Restrictions nest; the laws hold below every size.\<close>

lemma lawful_restriction_upto: "lawful_on {r. size r < n} cmp_mana_restriction"
proof (induction n)
  case (Suc n)
  let ?A = "{r :: mana_restriction. size r < Suc n}"
  show ?case
  proof (rule lawful_rank [where rank = restriction_rank])
    fix a assume "a \<in> ?A"
    show "lawful_on {b \<in> ?A. restriction_rank b = restriction_rank a} cmp_mana_restriction"
    proof (cases a)
      case (OnlyForSpellType s)
      show ?thesis unfolding OnlyForSpellType
        by (rule lawful_constructor [OF lawful_ord [of UNIV], of OnlyForSpellType]) (auto simp: inj_def elim!: restriction_rank.elims)
    next
      case (OnlyForCreatureType s)
      show ?thesis unfolding OnlyForCreatureType
        by (rule lawful_constructor [OF lawful_ord [of UNIV], of OnlyForCreatureType]) (auto simp: inj_def elim!: restriction_rank.elims)
    next
      case (OnlyForSpellWithKeywordKind k)
      show ?thesis unfolding OnlyForSpellWithKeywordKind
        by (rule lawful_constructor [OF lawful_ord [of UNIV], of OnlyForSpellWithKeywordKind]) (auto simp: inj_def elim!: restriction_rank.elims)
    next
      case (OnlyForSpellColor c)
      show ?thesis unfolding OnlyForSpellColor
        by (rule lawful_constructor [OF lawful_ord [of UNIV], of OnlyForSpellColor]) (auto simp: inj_def elim!: restriction_rank.elims)
    next
      case (CannotCastSpellFromZone z)
      show ?thesis unfolding CannotCastSpellFromZone
        by (rule lawful_constructor [OF lawful_ord [of UNIV], of CannotCastSpellFromZone]) (auto simp: inj_def elim!: restriction_rank.elims)
    next
      case (OnlyForTaggedActivation t)
      show ?thesis unfolding OnlyForTaggedActivation
        by (rule lawful_constructor [OF lawful_ranks(3) [of UNIV], of OnlyForTaggedActivation]) (auto simp: inj_def elim!: restriction_rank.elims)
    next
      case (OnlyForSpecialAction e)
      show ?thesis unfolding OnlyForSpecialAction
        by (rule lawful_constructor [OF lawful_ranks(5) [of UNIV], of OnlyForSpecialAction]) (auto simp: inj_def elim!: restriction_rank.elims)
    next
      case (OnlyForTypeSpellsOrAbilities s scope)
      show ?thesis unfolding OnlyForTypeSpellsOrAbilities
        by (rule lawful_constructor [OF lawful_both [OF lawful_ord lawful_ranks(2)], of "\<lambda>x. OnlyForTypeSpellsOrAbilities (fst x) (snd x)"]) (auto simp: inj_def prod_eq_iff elim!: restriction_rank.elims)
    next
      case (OnlyForSpellWithKeywordKindFromZone k z)
      show ?thesis unfolding OnlyForSpellWithKeywordKindFromZone
        by (rule lawful_constructor [OF lawful_both [OF lawful_ord lawful_ord], of "\<lambda>x. OnlyForSpellWithKeywordKindFromZone (fst x) (snd x)"]) (auto simp: inj_def prod_eq_iff elim!: restriction_rank.elims)
    next
      case (OnlyForSpellWithManaValue c v)
      show ?thesis unfolding OnlyForSpellWithManaValue
        by (rule lawful_constructor [OF lawful_both [OF lawful_ranks(1) lawful_ord], of "\<lambda>x. OnlyForSpellWithManaValue (fst x) (snd x)"]) (auto simp: inj_def prod_eq_iff elim!: restriction_rank.elims)
    next
      case (OnlyForSpellMatchingCostCriteria s cs)
      show ?thesis unfolding OnlyForSpellMatchingCostCriteria
        by (rule lawful_constructor [OF lawful_both [OF lawful_ord lawful_slice [OF lawful_criterion, simplified]], of "\<lambda>x. OnlyForSpellMatchingCostCriteria (fst x) (snd x)"]) (auto simp: inj_def prod_eq_iff elim!: restriction_rank.elims)
    next
      case (OnlyForSpellWithColorCount c v)
      show ?thesis unfolding OnlyForSpellWithColorCount
        by (rule lawful_constructor [OF lawful_both [OF lawful_ranks(1) lawful_ord], of "\<lambda>x. OnlyForSpellWithColorCount (fst x) (snd x)"]) (auto simp: inj_def prod_eq_iff elim!: restriction_rank.elims)
    next
      case (OnlyForSpellFromZone zs)
      show ?thesis unfolding OnlyForSpellFromZone
      proof (rule lawful_constructor [OF lawful_both [OF lawful_ord lawful_ranks(4)], of "\<lambda>x. OnlyForSpellFromZone (ZoneSpend (fst x) (snd x))"])
        show "\<exists>x\<in>UNIV. b = OnlyForSpellFromZone (ZoneSpend (fst x) (snd x))"
          if "restriction_rank b = restriction_rank (OnlyForSpellFromZone zs)" for b
          using that by (auto elim!: restriction_rank.elims) (metis zone_spend.exhaust)
      qed (auto simp: inj_def)
    next
      case (OnlyForAny subs)
      show ?thesis unfolding OnlyForAny
        by (rule lawful_constructor [OF lawful_slice [OF Suc.IH], of OnlyForAny])
          (auto simp: inj_def elim!: restriction_rank.elims dest!: size_list_estimation' [OF _ order_refl, where f = size])
    next
      case OnlyForSpell
      show ?thesis by (rule lawful_constants) (simp add: OnlyForSpell)
    next
      case OnlyForActivation
      show ?thesis by (rule lawful_constants) (simp add: OnlyForActivation)
    next
      case OnlyForXCosts
      show ?thesis by (rule lawful_constants) (simp add: OnlyForXCosts)
    next
      case OnlyForFaceDownSpell
      show ?thesis by (rule lawful_constants) (simp add: OnlyForFaceDownSpell)
    next
      case ImpossibleRestriction
      show ?thesis by (rule lawful_constants) (simp add: ImpossibleRestriction)
    next
      case ConvokePayment
      show ?thesis by (rule lawful_constants) (simp add: ConvokePayment)
    qed
  qed (simp add: cmp_restriction_rank)
qed (simp add: lawful_on_def)

lemma lawful_restriction: "lawful_on UNIV cmp_mana_restriction"
proof (rule lawful_onI)
  fix a b c :: mana_restriction
  define n where "n = Suc (size a + size b + size c)"
  then have "a \<in> {r. size r < n}" "b \<in> {r. size r < n}" "c \<in> {r. size r < n}" by simp_all
  note laws = lawful_onD [OF lawful_restriction_upto [of n]] this
  show "cmp_mana_restriction a b = OrdEqual \<longleftrightarrow> a = b" "cmp_mana_restriction b a = flip_ordering (cmp_mana_restriction a b)"
    "cmp_mana_restriction a b = OrdLess \<Longrightarrow> cmp_mana_restriction b c = OrdLess \<Longrightarrow> cmp_mana_restriction a c = OrdLess"
    using laws by blast+
qed

lemma lawful_output: "lawful_on UNIV cmp_mana_source_output"
proof (rule lawful_onI)
  fix a b c :: mana_source_output
  show "cmp_mana_source_output a b = OrdEqual \<longleftrightarrow> a = b" by (cases a; cases b) simp_all
  show "cmp_mana_source_output b a = flip_ordering (cmp_mana_source_output a b)" by (cases a; cases b) simp_all
  show "cmp_mana_source_output a b = OrdLess \<Longrightarrow> cmp_mana_source_output b c = OrdLess \<Longrightarrow> cmp_mana_source_output a c = OrdLess"
    by (cases a; cases b; cases c) simp_all
qed

lemma lawful_override: "lawful_on UNIV cmp_production_override"
proof (rule lawful_onI)
  fix a b c :: production_override
  show "cmp_production_override a b = OrdEqual \<longleftrightarrow> a = b" by (cases a; cases b) simp_all
  show "cmp_production_override b a = flip_ordering (cmp_production_override a b)" by (cases a; cases b) simp_all
  show "cmp_production_override a b = OrdLess \<Longrightarrow> cmp_production_override b c = OrdLess \<Longrightarrow> cmp_production_override a c = OrdLess"
    by (cases a; cases b; cases c) auto
qed

lemma lawful_penalty: "lawful_on UNIV cmp_mana_source_penalty"
proof (rule lawful_onI)
  fix a b c :: mana_source_penalty
  show "cmp_mana_source_penalty a b = OrdEqual \<longleftrightarrow> a = b" by (cases a; cases b) (simp_all add: cmp_mana_source_penalty_def)
  show "cmp_mana_source_penalty b a = flip_ordering (cmp_mana_source_penalty a b)"
    by (cases a; cases b) (simp_all add: cmp_mana_source_penalty_def)
  show "cmp_mana_source_penalty a b = OrdLess \<Longrightarrow> cmp_mana_source_penalty b c = OrdLess \<Longrightarrow> cmp_mana_source_penalty a c = OrdLess"
    by (cases a; cases b; cases c) (auto simp: cmp_mana_source_penalty_def)
qed

text \<open>Records are compared like the tuples of their fields.\<close>

lemma lawful_fields:
  assumes "lawful_on UNIV cmp'" "inj parts" "\<And>a b. cmp a b = cmp' (parts a) (parts b)"
  shows "lawful_on UNIV cmp"
proof (rule lawful_onI)
  fix a b c
  show "cmp a b = OrdEqual \<longleftrightarrow> a = b"
    unfolding assms(3) using lawful_onD(1) [OF assms(1) UNIV_I UNIV_I] by (simp add: inj_eq [OF assms(2)])
  show "cmp b a = flip_ordering (cmp a b)" unfolding assms(3) by (rule lawful_onD(2) [OF assms(1) UNIV_I UNIV_I])
  show "cmp a b = OrdLess \<Longrightarrow> cmp b c = OrdLess \<Longrightarrow> cmp a c = OrdLess"
    unfolding assms(3) by (rule lawful_onD(3) [OF assms(1) UNIV_I UNIV_I UNIV_I])
qed

lemma lawful_taps: "lawful_on UNIV (cmp_taps_for_mana :: 'o :: linorder taps_for_mana_selection \<Rightarrow> _)"
  by (rule lawful_fields [OF lawful_both [OF lawful_ord lawful_both [OF lawful_ord lawful_override]],
        of "\<lambda>t. (tm_source t, tm_occurrence t, tm_production_override t)"])
    (auto simp: inj_def cmp_taps_for_mana_def)

lemmas lawful_slices = lawful_slice [OF lawful_restriction, simplified] lawful_slice [OF lawful_taps, simplified]

lemma lawful_stable: "lawful_on UNIV (cmp_stable :: 'o :: linorder mana_source_selection \<Rightarrow> _)"
  by (rule lawful_fields [OF lawful_both [OF lawful_ord lawful_both [OF lawful_ord lawful_both [OF lawful_ord lawful_both [OF lawful_output
            lawful_both [OF lawful_ord lawful_both [OF lawful_slices(1) lawful_both [OF lawful_penalty lawful_slices(2)]]]]]]],
        of "\<lambda>s. (ss_source s, ss_ability_index s, ss_mana_type s, ss_output s, ss_atomic_combination s, ss_restrictions s, ss_penalty s,
          ss_taps_for_mana s)"])
    (auto simp: inj_def cmp_stable_def)

subsection \<open>Sorting by a comparison\<close>

text \<open>The contract of a comparison that is used as an ordering authority, and what sorting by it gives.\<close>

locale comparison =
  fixes cmp :: "'a \<Rightarrow> 'a \<Rightarrow> rust_ordering"
  assumes equal_iff: "cmp a b = OrdEqual \<longleftrightarrow> a = b"
    and flip: "cmp b a = flip_ordering (cmp a b)"
    and trans: "cmp a b = OrdLess \<Longrightarrow> cmp b c = OrdLess \<Longrightarrow> cmp a c = OrdLess"
begin

lemma greater_iff: "cmp a b = OrdGreater \<longleftrightarrow> cmp b a = OrdLess"
  by (subst flip) simp

lemma not_greater: "cmp a b \<noteq> OrdGreater \<longleftrightarrow> cmp a b = OrdLess \<or> a = b"
proof (cases "cmp a b")
  case OrdGreater
  then show ?thesis using equal_iff [of b b] by auto
qed (use equal_iff [of a b] in auto)

lemma less_asym: "cmp a b = OrdLess \<Longrightarrow> cmp b a \<noteq> OrdLess"
  by (subst flip) simp

lemma not_greater_trans: "cmp a b \<noteq> OrdGreater \<Longrightarrow> cmp b c \<noteq> OrdGreater \<Longrightarrow> cmp a c \<noteq> OrdGreater"
  unfolding not_greater using trans by blast

lemma total: "total_cmp cmp"
  unfolding total_cmp_def using flip not_greater_trans by blast

lemmas sorted_by = sorted_sort_by [OF total]

lemma sorted_unique:
  "sorted_wrt (\<lambda>a b. cmp a b \<noteq> OrdGreater) xs \<Longrightarrow> sorted_wrt (\<lambda>a b. cmp a b \<noteq> OrdGreater) ys \<Longrightarrow> mset xs = mset ys \<Longrightarrow> xs = ys"
proof (induction xs arbitrary: ys)
  case (Cons x xs)
  then obtain y ys' where ys: "ys = y # ys'" by (cases ys) auto
  have sets: "set (x # xs) = set (y # ys')" using Cons.prems(3) ys by (metis set_mset_mset)
  then have "x = y \<or> (cmp x y \<noteq> OrdGreater \<and> cmp y x \<noteq> OrdGreater)" using Cons.prems(1,2) ys by auto
  then have "x = y" using less_asym [of x y] by (auto simp: not_greater)
  then show ?case using Cons ys by simp
qed simp

text \<open>The sorted list is determined by the values in the list.\<close>

lemma sort_by_perm: "mset xs = mset ys \<Longrightarrow> sort_by cmp xs = sort_by cmp ys"
  by (rule sorted_unique) (simp_all add: sorted_by)

lemma sort_by_strict: "distinct xs \<Longrightarrow> sorted_wrt (\<lambda>a b. cmp a b = OrdLess) (sort_by cmp xs)"
proof -
  assume "distinct xs"
  then have "distinct (sort_by cmp xs)" by (metis mset_sort_by mset_eq_imp_distinct_iff)
  then show ?thesis
  proof -
    have "distinct zs \<Longrightarrow> sorted_wrt (\<lambda>a b. cmp a b \<noteq> OrdGreater) zs \<Longrightarrow> sorted_wrt (\<lambda>a b. cmp a b = OrdLess) zs" for zs
      by (induction zs) (auto simp: not_greater)
    then show "distinct (sort_by cmp xs) \<Longrightarrow> ?thesis" using sorted_by [of xs] by blast
  qed
qed

end

text \<open>The comparison of restrictions and the order of selections keep the contract.\<close>

interpretation restriction_order: comparison cmp_mana_restriction
  using lawful_onD [OF lawful_restriction UNIV_I UNIV_I] by unfold_locales blast+

interpretation selection_order: comparison "cmp_stable :: 'o :: linorder mana_source_selection \<Rightarrow> _"
  using lawful_onD [OF lawful_stable UNIV_I UNIV_I] by unfold_locales blast+

subsection \<open>The list of selections\<close>

lemma push_new_all:
  "set (foldl (\<lambda>xs e. push_new xs (select e)) acc options) = set acc \<union> {s. \<exists>e\<in>set options. select e = Some s}
   \<and> (distinct acc \<longrightarrow> distinct (foldl (\<lambda>xs e. push_new xs (select e)) acc options))"
proof (induction options arbitrary: acc)
  case (Cons e options)
  then show ?case by (cases "select e") (auto simp: push_new_def)
qed simp

text \<open>C19. The order of mana-source selections is total and its equality is equality of selections, nested restrictions included. So the
  list that the engine offers has every selection once, in strictly ascending order, and depends only on which selections there are, not on the
  order in which objects and options are visited.\<close>

theorem selection_order_canonical:
  fixes a b c :: "'o :: linorder mana_source_selection"
    and select :: "'x \<Rightarrow> 'o mana_source_selection option" and select' :: "'y \<Rightarrow> 'o mana_source_selection option"
  shows "(cmp_stable a b = OrdEqual \<longleftrightarrow> a = b) \<and> cmp_stable b a = flip_ordering (cmp_stable a b)
    \<and> (cmp_stable a b = OrdLess \<and> cmp_stable b c = OrdLess \<longrightarrow> cmp_stable a c = OrdLess)
    \<and> set (activatable_mana_source_selections select options) = {s :: 'o mana_source_selection. \<exists>e\<in>set options. select e = Some s}
    \<and> sorted_wrt (\<lambda>s t. cmp_stable s t = OrdLess) (activatable_mana_source_selections select options)
    \<and> ((\<forall>s. (\<exists>e\<in>set options. select e = Some s) \<longleftrightarrow> (\<exists>e\<in>set options'. select' e = Some s))
        \<longrightarrow> activatable_mana_source_selections select options = activatable_mana_source_selections select' options')"
proof -
  define found where "found f es = foldl (\<lambda>xs e. push_new xs (f e)) [] es" for f :: "'x \<Rightarrow> 'o mana_source_selection option" and es
  define found' where "found' f es = foldl (\<lambda>xs e. push_new xs (f e)) [] es" for f :: "'y \<Rightarrow> 'o mana_source_selection option" and es
  have *: "set (found select options) = {s. \<exists>e\<in>set options. select e = Some s}" "distinct (found select options)"
    using push_new_all [of select "[]" options] by (simp_all add: found_def)
  have **: "set (found' select' options') = {s. \<exists>e\<in>set options'. select' e = Some s}" "distinct (found' select' options')"
    using push_new_all [of select' "[]" options'] by (simp_all add: found'_def)
  have list: "activatable_mana_source_selections select options = sort_by cmp_stable (found select options)"
    "activatable_mana_source_selections select' options' = sort_by cmp_stable (found' select' options')"
    by (simp_all add: activatable_mana_source_selections_def found_def found'_def)
  have "set (sort_by cmp_stable (found select options)) = set (found select options)"
    by (metis mset_sort_by set_mset_mset)
  moreover have "sort_by cmp_stable (found select options) = sort_by cmp_stable (found' select' options')"
    if "\<forall>s. (\<exists>e\<in>set options. select e = Some s) \<longleftrightarrow> (\<exists>e\<in>set options'. select' e = Some s)"
    using that * ** by (intro selection_order.sort_by_perm) (simp add: set_eq_iff_mset_eq_distinct [symmetric])
  ultimately show ?thesis
    using selection_order.equal_iff [of a b] selection_order.flip [of b a] selection_order.trans [of a b c]
      selection_order.sort_by_strict [OF *(2)] *(1)
    unfolding list by blast
qed

definition sample_selection :: "mana_restriction list \<Rightarrow> nat mana_source_selection" where
  "sample_selection rs = \<lparr>ss_source = (4, 1), ss_ability_index = Some 0, ss_mana_type = TyGreen, ss_output = Concrete TyGreen,
     ss_atomic_combination = None, ss_restrictions = rs, ss_penalty = NoPenalty, ss_taps_for_mana = []\<rparr>"

definition sample_s :: "nat mana_source_selection" where
  "sample_s = sample_selection [OnlyForAny [OnlyForSpell, OnlyForActivation]]"

definition sample_t :: "nat mana_source_selection" where
  "sample_t = sample_selection [OnlyForAny [OnlyForSpell, OnlyForXCosts]]"

definition sample_u :: "nat mana_source_selection" where
  "sample_u = sample_selection [ConvokePayment]"

theorem selection_order_canonical_witness:
  "activatable_mana_source_selections Some [sample_u, sample_t, sample_s, sample_t]
     = activatable_mana_source_selections Some [sample_s, sample_t, sample_u]
   \<and> cmp_stable sample_s sample_u = OrdLess"
proof -
  have same: "\<forall>x. (\<exists>e\<in>set [sample_u, sample_t, sample_s, sample_t]. Some e = Some x) \<longleftrightarrow> (\<exists>e\<in>set [sample_s, sample_t, sample_u]. Some e = Some x)"
    by auto
  have refl: "cmp_mana_restriction r r = OrdEqual" for r by (simp only: restriction_order.equal_iff)
  have "cmp_stable sample_s sample_t = OrdLess" "cmp_stable sample_t sample_u = OrdLess"
    by (simp_all add: sample_s_def sample_t_def sample_u_def sample_selection_def cmp_stable_def cmp_restriction_rank refl)
  then show ?thesis
    using selection_order_canonical [of sample_s sample_t sample_u Some "[sample_u, sample_t, sample_s, sample_t]" "[sample_s, sample_t, sample_u]" Some]
      same by blast
qed

end
