(* ===== verification/Draft_Types.thy ===== *)
theory Draft_Types
  imports Prelude
begin

text \<open>
  The data of a draft event (\<^verbatim>\<open>src/crates/draft-core/src/types.rs\<close>, the error type of
  \<^verbatim>\<open>validation.rs\<close> and the trait of \<^verbatim>\<open>pack_source.rs\<close>): the kinds of draft and their procedure
  table, pack sources, cards, seats and flags, the shared stack, actions, deltas, errors, pairings
  and the session record, with the small operations their \<^verbatim>\<open>impl\<close> blocks define.

  The random number generator (the crates \<^verbatim>\<open>rand\<close> and \<^verbatim>\<open>rand_chacha\<close>) is a parameter: \<open>rng\<close> is the
  record of the three operations the sources call. A shuffle is given by the permutation of indices
  it draws, since the algorithm depends on the length of the slice only.
\<close>

subsection \<open>Kinds and procedures\<close>

datatype tournament_format = Swiss | SingleElimination

datatype pod_policy = Competitive | Casual

datatype spectator_visibility = PublicView | Omniscient

datatype draft_kind = Quick | Premier | Traditional | Sealed | CommanderDraft | Winston

datatype pack_distribution = PickAndPass | AllAtOnce | SharedStackPiles u8

datatype post_draft_play = CompleteImmediately | TournamentPairings

datatype draft_launch_capability = LaunchNone | CommanderMultiplayer

datatype pick_selection_mode = Direct | Ordered

datatype match_type = Bo1 | Bo3

datatype loop_detection_mode = LoopOff | LoopOn | LoopInteractive

record match_config =
  mc_match_type :: match_type
  mc_loop_detection :: loop_detection_mode

record draft_procedure =
  proc_pod_size :: u8
  proc_human_seats :: u8
  proc_min_pod_size :: u8
  proc_local_cube_min_pod_size :: u8
  proc_max_pod_size :: u8
  proc_local_cube_max_pod_size :: u8
  proc_packs_per_player :: u8
  proc_cards_per_pick :: u8
  proc_pick_selection_mode :: pick_selection_mode
  proc_distribution :: pack_distribution
  proc_min_deck_size :: usize
  proc_cube_min_deck_size :: usize
  proc_commanders_required :: u8
  proc_post_draft_play :: post_draft_play
  proc_match_config :: match_config

definition MAX_CARDS_PER_PICK :: usize where
  "MAX_CARDS_PER_PICK = 2"

definition MAX_COMMANDER_DESIGNATIONS :: usize where
  "MAX_COMMANDER_DESIGNATIONS = 2"

definition MAX_SHARED_STACK_PILES :: usize where
  "MAX_SHARED_STACK_PILES = 3"

definition SHARED_STACK_HISTORY_CAPACITY :: usize where
  "SHARED_STACK_HISTORY_CAPACITY = 128"

definition ALL_kinds :: "draft_kind list" where
  "ALL_kinds = [Quick, Premier, Traditional, Sealed, CommanderDraft, Winston]"

fun kind_procedure :: "draft_kind \<Rightarrow> draft_procedure" where
  "kind_procedure Quick =
     \<lparr>proc_pod_size = 8, proc_human_seats = 1, proc_min_pod_size = 2,
      proc_local_cube_min_pod_size = 1, proc_max_pod_size = 8, proc_local_cube_max_pod_size = 255,
      proc_packs_per_player = 3, proc_cards_per_pick = 1, proc_pick_selection_mode = Direct,
      proc_distribution = PickAndPass, proc_min_deck_size = 40, proc_cube_min_deck_size = 1,
      proc_commanders_required = 0, proc_post_draft_play = CompleteImmediately,
      proc_match_config = \<lparr>mc_match_type = Bo1, mc_loop_detection = LoopOff\<rparr>\<rparr>"
| "kind_procedure Premier =
     \<lparr>proc_pod_size = 8, proc_human_seats = 8, proc_min_pod_size = 2,
      proc_local_cube_min_pod_size = 2, proc_max_pod_size = 8, proc_local_cube_max_pod_size = 8,
      proc_packs_per_player = 3, proc_cards_per_pick = 1, proc_pick_selection_mode = Direct,
      proc_distribution = PickAndPass, proc_min_deck_size = 40, proc_cube_min_deck_size = 1,
      proc_commanders_required = 0, proc_post_draft_play = TournamentPairings,
      proc_match_config = \<lparr>mc_match_type = Bo1, mc_loop_detection = LoopOff\<rparr>\<rparr>"
| "kind_procedure Traditional =
     \<lparr>proc_pod_size = 8, proc_human_seats = 8, proc_min_pod_size = 2,
      proc_local_cube_min_pod_size = 2, proc_max_pod_size = 8, proc_local_cube_max_pod_size = 8,
      proc_packs_per_player = 3, proc_cards_per_pick = 1, proc_pick_selection_mode = Direct,
      proc_distribution = PickAndPass, proc_min_deck_size = 40, proc_cube_min_deck_size = 1,
      proc_commanders_required = 0, proc_post_draft_play = TournamentPairings,
      proc_match_config = \<lparr>mc_match_type = Bo3, mc_loop_detection = LoopOff\<rparr>\<rparr>"
| "kind_procedure Sealed =
     \<lparr>proc_pod_size = 8, proc_human_seats = 8, proc_min_pod_size = 2,
      proc_local_cube_min_pod_size = 2, proc_max_pod_size = 8, proc_local_cube_max_pod_size = 8,
      proc_packs_per_player = 6, proc_cards_per_pick = 1, proc_pick_selection_mode = Direct,
      proc_distribution = AllAtOnce, proc_min_deck_size = 40, proc_cube_min_deck_size = 1,
      proc_commanders_required = 0, proc_post_draft_play = TournamentPairings,
      proc_match_config = \<lparr>mc_match_type = Bo1, mc_loop_detection = LoopOff\<rparr>\<rparr>"
| "kind_procedure CommanderDraft =
     \<lparr>proc_pod_size = 4, proc_human_seats = 1, proc_min_pod_size = 3,
      proc_local_cube_min_pod_size = 3, proc_max_pod_size = 8, proc_local_cube_max_pod_size = 8,
      proc_packs_per_player = 3, proc_cards_per_pick = 2, proc_pick_selection_mode = Ordered,
      proc_distribution = PickAndPass, proc_min_deck_size = 60, proc_cube_min_deck_size = 60,
      proc_commanders_required = 1, proc_post_draft_play = CompleteImmediately,
      proc_match_config = \<lparr>mc_match_type = Bo1, mc_loop_detection = LoopOff\<rparr>\<rparr>"
| "kind_procedure Winston =
     \<lparr>proc_pod_size = 2, proc_human_seats = 2, proc_min_pod_size = 2,
      proc_local_cube_min_pod_size = 2, proc_max_pod_size = 4, proc_local_cube_max_pod_size = 4,
      proc_packs_per_player = 3, proc_cards_per_pick = 1, proc_pick_selection_mode = Direct,
      proc_distribution = SharedStackPiles 3, proc_min_deck_size = 40, proc_cube_min_deck_size = 1,
      proc_commanders_required = 0, proc_post_draft_play = TournamentPairings,
      proc_match_config = \<lparr>mc_match_type = Bo1, mc_loop_detection = LoopOff\<rparr>\<rparr>"

definition default_pod_size :: "draft_kind \<Rightarrow> u8" where
  "default_pod_size k = proc_pod_size (kind_procedure k)"

definition human_seats :: "draft_kind \<Rightarrow> u8" where
  "human_seats k = proc_human_seats (kind_procedure k)"

definition commanders_required :: "draft_kind \<Rightarrow> u8" where
  "commanders_required k = proc_commanders_required (kind_procedure k)"

definition kind_match_config :: "draft_kind \<Rightarrow> match_config" where
  "kind_match_config k = proc_match_config (kind_procedure k)"

definition launch_capability :: "draft_procedure \<Rightarrow> draft_launch_capability" where
  "launch_capability p =
     (if proc_post_draft_play p = CompleteImmediately \<and> 1 \<le> proc_commanders_required p
      then CommanderMultiplayer else LaunchNone)"

text \<open>A \<^verbatim>\<open>RangeInclusive<u8>\<close> is the pair of its bounds.\<close>

definition allowed_pod_size_range :: "draft_procedure \<Rightarrow> tournament_format \<Rightarrow> u8 \<times> u8" where
  "allowed_pod_size_range p tf =
     (if proc_post_draft_play p = TournamentPairings \<and> tf = SingleElimination
      then (proc_max_pod_size p, proc_max_pod_size p)
      else (proc_min_pod_size p, proc_max_pod_size p))"

definition allowed_pod_sizes :: "draft_procedure \<Rightarrow> tournament_format \<Rightarrow> u8 list" where
  "allowed_pod_sizes p tf =
     (let (lo, hi) = allowed_pod_size_range p tf in map as_u8 [unat lo..<Suc (unat hi)])"

definition allows_pod_size :: "draft_procedure \<Rightarrow> tournament_format \<Rightarrow> u8 \<Rightarrow> bool" where
  "allows_pod_size p tf n = (let (lo, hi) = allowed_pod_size_range p tf in lo \<le> n \<and> n \<le> hi)"

definition allows_local_cube_pod_size :: "draft_procedure \<Rightarrow> tournament_format \<Rightarrow> u8 \<Rightarrow> bool" where
  "allows_local_cube_pod_size p tf n =
     (if proc_post_draft_play p = TournamentPairings \<and> tf = SingleElimination
      then n = proc_max_pod_size p
      else proc_local_cube_min_pod_size p \<le> n \<and> n \<le> proc_local_cube_max_pod_size p)"

definition effective_cube_min_deck_size :: "draft_procedure \<Rightarrow> usize \<Rightarrow> usize" where
  "effective_cube_min_deck_size p requested = max requested (proc_cube_min_deck_size p)"

text \<open>\<open>None\<close> is the division by zero of a procedure that takes no cards per pick.\<close>

definition pick_steps_per_pack :: "draft_procedure \<Rightarrow> u8 \<Rightarrow> u8 option" where
  "pick_steps_per_pack p cards_per_pack = div_ceil cards_per_pack (proc_cards_per_pick p)"

definition SEALED_PACK_COUNT :: u8 where
  "SEALED_PACK_COUNT = 6"

definition MAX_PACK_COUNT :: u8 where
  "MAX_PACK_COUNT = 8"

subsection \<open>Pack sources and layouts\<close>

definition entry_for_pack :: "'a list \<Rightarrow> u8 \<Rightarrow> 'a option" where
  "entry_for_pack sequence pack_number =
     (if sequence = [] then None
      else vec_get sequence (min (unat pack_number) (length sequence - 1)))"

datatype set_layout = UniformByRound "string list" | Chaos "string list" "string list list"

datatype set_layout_kind = UniformByRoundKind | ChaosKind

datatype draft_source = SetSource set_layout | CubeSource string string

fun distinct_set_codes_from :: "string list \<Rightarrow> string list \<Rightarrow> string list" where
  "distinct_set_codes_from held [] = held"
| "distinct_set_codes_from held (code # codes) =
     (if list_ex (\<lambda>h. eq_ignore_ascii_case h code) held
      then distinct_set_codes_from held codes
      else distinct_set_codes_from (held @ [code]) codes)"

definition distinct_set_codes :: "string list \<Rightarrow> string list" where
  "distinct_set_codes codes = distinct_set_codes_from [] codes"

fun layout_actual_set_codes :: "set_layout \<Rightarrow> string list" where
  "layout_actual_set_codes (UniformByRound codes) = distinct_set_codes codes"
| "layout_actual_set_codes (Chaos candidates assignments) = distinct_set_codes (concat assignments)"

fun layout_set_code_for_seat_and_pack :: "set_layout \<Rightarrow> u8 \<Rightarrow> u8 \<Rightarrow> string option" where
  "layout_set_code_for_seat_and_pack (UniformByRound codes) seat pack_number =
     entry_for_pack codes pack_number"
| "layout_set_code_for_seat_and_pack (Chaos candidates assignments) seat pack_number =
     (case vec_get assignments (unat seat) of
        None \<Rightarrow> None
      | Some rounds \<Rightarrow> vec_get rounds (unat pack_number))"

text \<open>\<^verbatim>\<open>'{code}'\<close>: the text between two apostrophes.\<close>

definition quoted :: "string \<Rightarrow> string" where
  "quoted s = CHR 0x27 # s @ [CHR 0x27]"

fun chaos_round_error :: "string list \<Rightarrow> nat \<Rightarrow> string list \<Rightarrow> string option" where
  "chaos_round_error candidates seat [] = None"
| "chaos_round_error candidates seat (code # codes) =
     (if list_ex (\<lambda>candidate. eq_ignore_ascii_case candidate code) candidates
      then chaos_round_error candidates seat codes
      else Some (''Chaos assignment '' @ quoted code @ '' for seat '' @ show_nat seat @ '' is not a candidate set''))"

fun chaos_assignments_error ::
  "string list \<Rightarrow> u8 \<Rightarrow> nat \<Rightarrow> string list list \<Rightarrow> string option" where
  "chaos_assignments_error candidates pack_count seat [] = None"
| "chaos_assignments_error candidates pack_count seat (rounds # rest) =
     (if length rounds \<noteq> unat pack_count
      then Some (''Chaos assignments for seat '' @ show_nat seat @ '' must contain ''
        @ show_u8 pack_count @ '' rounds, got '' @ show_nat (length rounds))
      else (case chaos_round_error candidates seat rounds of
          Some e \<Rightarrow> Some e
        | None \<Rightarrow> chaos_assignments_error candidates pack_count (Suc seat) rest))"

fun validate_for_draft :: "set_layout \<Rightarrow> u8 \<Rightarrow> u8 \<Rightarrow> (unit, string) rust_result" where
  "validate_for_draft (UniformByRound codes) seat_count pack_count =
     (if codes = [] then Err ''a draft must name at least one set'' else Ok ())"
| "validate_for_draft (Chaos candidates assignments) seat_count pack_count =
     (if candidates = [] then Err ''a Chaos draft must name at least one candidate set''
      else if length assignments \<noteq> unat seat_count
      then Err (''Chaos assignments must contain '' @ show_u8 seat_count @ '' seats, got ''
        @ show_nat (length assignments))
      else (case chaos_assignments_error candidates pack_count 0 assignments of
          Some e \<Rightarrow> Err e
        | None \<Rightarrow> Ok ()))"

definition single_set :: "string \<Rightarrow> draft_source" where
  "single_set code = SetSource (UniformByRound [code])"

fun source_actual_set_codes :: "draft_source \<Rightarrow> string list" where
  "source_actual_set_codes (SetSource layout) = layout_actual_set_codes layout"
| "source_actual_set_codes (CubeSource ident name) = []"

fun source_set_code :: "draft_source \<Rightarrow> string" where
  "source_set_code (SetSource layout) = join_with ''+'' (layout_actual_set_codes layout)"
| "source_set_code (CubeSource ident name) = ident"

fun source_set_code_for_seat_and_pack :: "draft_source \<Rightarrow> u8 \<Rightarrow> u8 \<Rightarrow> string" where
  "source_set_code_for_seat_and_pack (SetSource layout) seat pack_number =
     (case layout_set_code_for_seat_and_pack layout seat pack_number of Some c \<Rightarrow> c | None \<Rightarrow> [])"
| "source_set_code_for_seat_and_pack (CubeSource ident name) seat pack_number = ident"

definition source_set_code_for_pack :: "draft_source \<Rightarrow> u8 \<Rightarrow> string" where
  "source_set_code_for_pack source pack_number = source_set_code_for_seat_and_pack source 0 pack_number"

definition allowed_set_layouts :: "draft_procedure \<Rightarrow> set_layout_kind list" where
  "allowed_set_layouts p =
     (case proc_distribution p of
        PickAndPass \<Rightarrow> [UniformByRoundKind, ChaosKind]
      | AllAtOnce \<Rightarrow> [UniformByRoundKind, ChaosKind]
      | SharedStackPiles _ \<Rightarrow> [UniformByRoundKind])"

definition allows_chaos_layout :: "draft_procedure \<Rightarrow> bool" where
  "allows_chaos_layout p \<longleftrightarrow> ChaosKind \<in> set (allowed_set_layouts p)"

definition CHAOS_LAYOUT_REFUSAL :: string where
  "CHAOS_LAYOUT_REFUSAL =
     ''a shared-stack draft shuffles every booster into one stack, so it takes a named pack sequence rather than a Chaos assignment''"

subsection \<open>Addable cards\<close>

datatype deck_addable_card_policy = StandardBasics | CustomOnly | StandardBasicsPlusCustom

record deck_addable_cards =
  addable_policy :: deck_addable_card_policy
  addable_custom :: "string list"

definition STANDARD_BASIC_LANDS :: "string list" where
  "STANDARD_BASIC_LANDS =
     [''Plains'', ''Island'', ''Swamp'', ''Mountain'', ''Forest'', ''Wastes'',
      ''Snow-Covered Plains'', ''Snow-Covered Island'', ''Snow-Covered Swamp'',
      ''Snow-Covered Mountain'', ''Snow-Covered Forest'']"

definition standard_basics :: deck_addable_cards where
  "standard_basics = \<lparr>addable_policy = StandardBasics, addable_custom = []\<rparr>"

definition is_addable :: "deck_addable_cards \<Rightarrow> string \<Rightarrow> bool" where
  "is_addable a name =
     (let standard = name \<in> set STANDARD_BASIC_LANDS; custom = name \<in> set (addable_custom a)
      in case addable_policy a of
           StandardBasics \<Rightarrow> standard
         | CustomOnly \<Rightarrow> custom
         | StandardBasicsPlusCustom \<Rightarrow> standard \<or> custom)"

definition display_names :: "deck_addable_cards \<Rightarrow> string list" where
  "display_names a =
     remdups_adj (sort
       (case addable_policy a of
          StandardBasics \<Rightarrow> STANDARD_BASIC_LANDS
        | CustomOnly \<Rightarrow> addable_custom a
        | StandardBasicsPlusCustom \<Rightarrow> STANDARD_BASIC_LANDS @ addable_custom a))"

subsection \<open>Passing, cards, seats and flags\<close>

datatype pass_direction = PassLeft | PassRight

definition pass_for_pack :: "u8 \<Rightarrow> pass_direction" where
  "pass_for_pack pack_number = (if pack_number mod 2 = 0 then PassLeft else PassRight)"

text \<open>The sums are \<^verbatim>\<open>u8\<close> sums; a pod of no seats divides by zero and is never passed around.\<close>

fun next_seat :: "pass_direction \<Rightarrow> u8 \<Rightarrow> u8 \<Rightarrow> u8" where
  "next_seat PassLeft current pod_size = (current + 1) mod pod_size"
| "next_seat PassRight current pod_size = (current + pod_size - 1) mod pod_size"

datatype draft_status =
  Lobby | Drafting | Paused | Deckbuilding | Pairing | MatchInProgress | RoundComplete | Complete | Abandoned

datatype draft_effect = AdditionalPick

record draft_card =
  instance_id :: string
  card_name :: string
  card_set_code :: string
  collector_number :: string
  rarity :: string
  card_colors :: "string list"
  cmc :: u8
  type_line :: string
  card_draft_effect :: "draft_effect option"

type_synonym draft_pack = "draft_card list"
type_synonym player_id = u8

datatype draft_seat = Human player_id string | Bot string

datatype seat_flags = SeatFlags (flag_list: "bool list")

definition sf_all_true :: "u8 \<Rightarrow> seat_flags" where
  "sf_all_true pod_size = SeatFlags (replicate (unat pod_size) True)"

definition sf_all_false :: "u8 \<Rightarrow> seat_flags" where
  "sf_all_false pod_size = SeatFlags (replicate (unat pod_size) False)"

definition sf_ensure_len :: "seat_flags \<Rightarrow> u8 \<Rightarrow> bool \<Rightarrow> seat_flags" where
  "sf_ensure_len f pod_size dflt =
     (if length (flag_list f) < unat pod_size
      then SeatFlags (vec_resize (unat pod_size) dflt (flag_list f)) else f)"

definition sf_get_or :: "seat_flags \<Rightarrow> u8 \<Rightarrow> bool \<Rightarrow> bool" where
  "sf_get_or f seat dflt = (case vec_get (flag_list f) (unat seat) of Some b \<Rightarrow> b | None \<Rightarrow> dflt)"

definition sf_get :: "seat_flags \<Rightarrow> u8 \<Rightarrow> bool" where
  "sf_get f seat = (case vec_get (flag_list f) (unat seat) of Some b \<Rightarrow> b | None \<Rightarrow> False)"

definition sf_set :: "seat_flags \<Rightarrow> u8 \<Rightarrow> bool \<Rightarrow> seat_flags" where
  "sf_set f seat value =
     (if unat seat < length (flag_list f) then SeatFlags ((flag_list f)[unat seat := value]) else f)"

definition sf_clear :: "seat_flags \<Rightarrow> seat_flags" where
  "sf_clear f = SeatFlags (map (\<lambda>_. False) (flag_list f))"

definition sf_len :: "seat_flags \<Rightarrow> usize" where
  "sf_len f = length (flag_list f)"

subsection \<open>The shared stack\<close>

datatype shared_stack_pile_decision = Take | Decline

definition ALL_pile_decisions :: "shared_stack_pile_decision list" where
  "ALL_pile_decisions = [Take, Decline]"

record shared_stack_decision_record =
  rec_seat :: u8
  rec_pile :: u8
  rec_decision :: shared_stack_pile_decision
  rec_pile_size :: usize

record shared_stack_state =
  main_stack :: "draft_card list"
  piles :: "draft_card list list"
  starting_seat :: u8
  active_seat :: u8
  stack_cursor :: u8
  inspected :: "usize list"
  decisions :: u32
  stack_history :: "shared_stack_decision_record list"
  forced_draws :: "draft_card option list"

datatype shared_stack_refusal = PileNotActive | PileEmpty | NoGuaranteedCard

subsection \<open>Actions, deltas and errors\<close>

datatype draft_action =
    StartDraft
  | Pick u8 "string list"
  | PickWithDraftEffect u8 string "string list"
  | SubmitDeck u8 "string list" "string list"
  | GeneratePairings
  | ReportMatchResult string "u8 option"
  | AdvanceRound
  | ReplaceSeatWithBot u8 "string option"
  | SetSeatConnected u8 bool
  | SharedStackDecision u8 u8 shared_stack_pile_decision

datatype draft_delta =
    DraftStarted
  | CardPicked u8 string
  | PackPassed
  | PackExhausted u8
  | DeckSubmitted u8
  | TransitionedTo draft_status
  | PairingsGenerated u8
  | MatchResultRecorded string "u8 option"
  | RoundAdvanced u8
  | SeatReplacedWithBot u8
  | SeatConnectionChanged u8 bool
  | SharedStackDecisionApplied u8 u8 shared_stack_pile_decision

datatype limited_deck_error =
    TooFewCards usize usize
  | NotInPool string
  | ExceedsPoolCount string u32 u32
  | FillerExceedsGrant string u32 u32 u32
  | FillerNotUsedAsCommander string u32 u32 u32
  | CommanderNotInDeck string u32 u32
  | TooManyCommanders usize usize
  | TooFewCommanders usize usize

datatype draft_error =
    InvalidTransition draft_status string
  | SeatOutOfRange u8 u8
  | CardNotInPack string
  | DraftEffectCardNotInPool string
  | InvalidDraftEffectSelection usize usize
  | NoPendingPack u8
  | ValidationFailed "limited_deck_error list"
  | PairingNotFound string
  | PairingNotInCurrentRound string u8
  | MatchWinnerRequired string
  | SeatNotInPairing u8 string
  | UnsupportedTournamentSize tournament_format u8 u8
  | InsufficientCards usize usize
  | WrongPickCardCount u8 usize usize
  | DuplicatePickCardId u8 string
  | SeatAlreadyPickedThisRound u8
  | SeatIsBot u8
  | SealedRequiresSetSource
  | InvalidPackSequence string
  | InvalidSealedConfiguration string
  | InvalidSealedSnapshot string
  | PodBelowMinimumSize draft_kind u8 u8
  | InvalidSharedStackConfiguration string
  | SharedStackDecisionRefused u8 u8 shared_stack_refusal

fun validate_source :: "draft_procedure \<Rightarrow> draft_source \<Rightarrow> (unit, draft_error) rust_result" where
  "validate_source p (SetSource (Chaos candidates assignments)) =
     (if \<not> allows_chaos_layout p
      then Err (InvalidSharedStackConfiguration CHAOS_LAYOUT_REFUSAL) else Ok ())"
| "validate_source p (SetSource (UniformByRound codes)) = Ok ()"
| "validate_source p (CubeSource ident name) = Ok ()"

subsection \<open>Configuration, pairings and the session\<close>

record draft_config =
  cfg_source :: draft_source
  cfg_set_code :: string
  cfg_kind :: draft_kind
  cfg_pod_size :: u8
  cfg_cards_per_pack :: u8
  cfg_pack_count :: u8
  cfg_min_deck_size :: usize
  cfg_addable_cards :: deck_addable_cards
  cfg_rng_seed :: u64
  cfg_tournament_format :: tournament_format
  cfg_pod_policy :: pod_policy
  cfg_spectator_visibility :: spectator_visibility

record draft_deck_submission =
  sub_seat :: u8
  sub_main_deck :: "string list"
  sub_commanders :: "string list"

record draft_match_record =
  mr_player :: player_id
  mr_wins :: u8
  mr_losses :: u8
  mr_draws :: u8
  mr_match_wins :: u8
  mr_match_losses :: u8

datatype pairing_status = PairingPending | PairingInProgress | PairingComplete

record draft_pairing =
  pairing_round :: u8
  pairing_table :: u8
  pairing_players :: "player_id \<times> player_id"
  match_id :: string
  pairing_state :: pairing_status
  pairing_winner :: "player_id option"

type_synonym match_record_map = "player_id \<rightharpoonup> draft_match_record"

definition match_wins_of :: "match_record_map \<Rightarrow> player_id \<Rightarrow> u8" where
  "match_wins_of records p = (case records p of Some r \<Rightarrow> mr_match_wins r | None \<Rightarrow> 0)"

definition infer_winner_from_records :: "draft_pairing \<Rightarrow> match_record_map \<Rightarrow> player_id option" where
  "infer_winner_from_records p records =
     (if pairing_state p \<noteq> PairingComplete then None
      else (let w0 = match_wins_of records (fst (pairing_players p));
                w1 = match_wins_of records (snd (pairing_players p))
            in if w1 < w0 then Some (fst (pairing_players p))
               else if w0 < w1 then Some (snd (pairing_players p))
               else None))"

definition result_winner :: "draft_pairing \<Rightarrow> match_record_map \<Rightarrow> player_id option" where
  "result_winner p records =
     (case pairing_winner p of Some w \<Rightarrow> Some w | None \<Rightarrow> infer_winner_from_records p records)"

record draft_session =
  booster_pack_pool :: "string list option"
  shared_stack :: "shared_stack_state option"
  draft_code :: string
  set_code :: string
  draft_kind_of :: draft_kind
  status :: draft_status
  config :: draft_config
  seats :: "draft_seat list"
  current_pack_number :: u8
  pack_sizes :: "u8 list"
  pick_number :: u8
  seats_picked_this_round :: seat_flags
  connected_seats :: seat_flags
  pass_direction :: pass_direction
  packs_by_seat :: "draft_pack list list"
  current_pack :: "draft_pack option list"
  current_pack_origins :: "u8 option list"
  pools :: "draft_card list list"
  submitted_decks :: "player_id \<rightharpoonup> draft_deck_submission"
  match_records :: match_record_map
  pairings :: "draft_pairing list"
  current_round :: u8
  created_at :: u64
  updated_at :: u64

type_synonym draft_outcome = "draft_session \<times> (draft_delta list, draft_error) rust_result"

text \<open>The session after an accepted action. A panic ends the process; its session is not observed.\<close>

definition accepted :: "draft_outcome \<Rightarrow> draft_session option" where
  "accepted out = (case out of (s, r) \<Rightarrow> if is_ok r then Some s else None)"

subsection \<open>Randomness and pack sources\<close>

record 'r rng =
  seed_from_u64 :: "u64 \<Rightarrow> 'r"
  shuffle_perm :: "nat \<Rightarrow> 'r \<Rightarrow> nat list \<times> 'r"
  random_range :: "u8 \<Rightarrow> 'r \<Rightarrow> u8 \<times> 'r"

definition shuffle :: "'r rng \<Rightarrow> 'a list \<Rightarrow> 'r \<Rightarrow> 'a list \<times> 'r" where
  "shuffle g xs r = (let (p, r') = shuffle_perm g (length xs) r in (map ((!) xs) p, r'))"

text \<open>What the crate documents: a shuffle permutes, a range draw is below its bound.\<close>

definition rng_shuffles :: "'r rng \<Rightarrow> bool" where
  "rng_shuffles g \<longleftrightarrow> (\<forall>n r. mset (fst (shuffle_perm g n r)) = mset [0..<n])"

definition rng_in_range :: "'r rng \<Rightarrow> bool" where
  "rng_in_range g \<longleftrightarrow> (\<forall>b r. 0 < b \<longrightarrow> fst (random_range g b r) < b)"

text \<open>The trait object: its pool of booster packs and its pack generation.\<close>

record 'r pack_source =
  source_booster_pack_pool :: "string list option"
  generate_packs :: "'r \<Rightarrow> draft_config \<Rightarrow> u8 \<Rightarrow> (draft_pack list list, draft_error) rust_result \<times> 'r"

fun generate_seat_packs :: "('r \<Rightarrow> u8 \<Rightarrow> u8 \<Rightarrow> draft_pack \<times> 'r) \<Rightarrow> u8 \<Rightarrow> nat list \<Rightarrow> 'r \<Rightarrow> draft_pack list \<times> 'r" where
  "generate_seat_packs gen seat [] r = ([], r)"
| "generate_seat_packs gen seat (k # ks) r =
     (let (pack, r1) = gen r seat (as_u8 k); (rest, r2) = generate_seat_packs gen seat ks r1
      in (pack # rest, r2))"

fun generate_all_packs ::
  "('r \<Rightarrow> u8 \<Rightarrow> u8 \<Rightarrow> draft_pack \<times> 'r) \<Rightarrow> u8 \<Rightarrow> nat list \<Rightarrow> 'r \<Rightarrow> draft_pack list list \<times> 'r" where
  "generate_all_packs gen pack_count [] r = ([], r)"
| "generate_all_packs gen pack_count (seat # rest) r =
     (let (packs, r1) = generate_seat_packs gen (as_u8 seat) [0..<unat pack_count] r;
          (others, r2) = generate_all_packs gen pack_count rest r1
      in (packs # others, r2))"

text \<open>The provided method of the trait, from one pack to all of them.\<close>

definition default_generate_packs ::
  "('r \<Rightarrow> u8 \<Rightarrow> u8 \<Rightarrow> draft_pack \<times> 'r)
    \<Rightarrow> 'r \<Rightarrow> draft_config \<Rightarrow> u8 \<Rightarrow> (draft_pack list list, draft_error) rust_result \<times> 'r" where
  "default_generate_packs gen r cfg seat_count =
     (let (packs, r') = generate_all_packs gen (cfg_pack_count cfg) [0..<unat seat_count] r
      in (Ok packs, r'))"

definition fixture_card :: "string \<Rightarrow> u8 \<Rightarrow> u8 \<Rightarrow> nat \<Rightarrow> draft_card" where
  "fixture_card code seat pack_number i =
     \<lparr>instance_id = code @ ''-'' @ show_u8 seat @ ''-'' @ show_u8 pack_number @ ''-'' @ show_nat i,
      card_name = code @ '' Card '' @ show_u8 seat @ ''-'' @ show_u8 pack_number @ ''-'' @ show_nat i,
      card_set_code = code,
      collector_number = show_u8 (as_u8 i + 1),
      rarity = (if i = 0 then ''rare'' else if i < 4 then ''uncommon'' else ''common''),
      card_colors = [], cmc = 0, type_line = [], card_draft_effect = None\<rparr>"

definition fixture_generate_pack :: "string \<Rightarrow> u8 \<Rightarrow> 'r \<Rightarrow> u8 \<Rightarrow> u8 \<Rightarrow> draft_pack \<times> 'r" where
  "fixture_generate_pack code cards_per_pack r seat pack_number =
     (map (fixture_card code seat pack_number) [0..<unat cards_per_pack], r)"

definition fixture_pack_source :: "string \<Rightarrow> u8 \<Rightarrow> 'r pack_source" where
  "fixture_pack_source code cards_per_pack =
     \<lparr>source_booster_pack_pool = None,
      generate_packs = default_generate_packs (fixture_generate_pack code cards_per_pack)\<rparr>"

subsection \<open>Passing around the pod\<close>

lemma unat_next_left:
  assumes "c < n"
  shows "unat (next_seat PassLeft c n) = (unat c + 1) mod unat n"
proof -
  have "unat c + 1 < 256"
    using assms [unfolded word_less_nat_alt] unat_u8_bound [of n] by linarith
  then have "unat (c + 1) = unat c + 1"
    by (simp add: unat_word_ariths)
  then show ?thesis by (simp add: unat_mod)
qed

lemma unat_next_right:
  assumes "c < n" and "unat n \<le> 128"
  shows "unat (next_seat PassRight c n) = (unat c + unat n - 1) mod unat n"
proof -
  have sum: "unat c + unat n < 256" "0 < unat n"
    using assms by (simp_all add: word_less_nat_alt)
  then have "unat (c + n) = unat c + unat n" by (simp add: unat_word_ariths)
  moreover have "1 \<le> c + n"
    using calculation sum by (simp add: word_le_nat_alt)
  ultimately have "unat (c + n - 1) = unat c + unat n - 1" by (simp add: unat_sub)
  then show ?thesis by (simp add: unat_mod)
qed

text \<open>The seat that passes to \<open>j\<close>.\<close>

fun prev_index :: "pass_direction \<Rightarrow> nat \<Rightarrow> nat \<Rightarrow> nat" where
  "prev_index PassLeft n j = (j + n - 1) mod n"
| "prev_index PassRight n j = (j + 1) mod n"

definition pod_passes :: "pass_direction \<Rightarrow> nat \<Rightarrow> bool" where
  "pod_passes d n \<longleftrightarrow> n < 256 \<and> (d = PassRight \<longrightarrow> n \<le> 128)"

lemma cyclic_pred_succ: "i < n \<Longrightarrow> ((i + 1) mod n + n - 1) mod n = i" for n :: nat
  by (cases "Suc i = n") simp_all

lemma cyclic_succ_pred: "i < n \<Longrightarrow> ((i + n - 1) mod n + 1) mod n = i" for n :: nat
  by (cases i) (simp_all add: mod_Suc)

lemma next_index:
  assumes "pod_passes d n" and "i < n"
  shows "unat (next_seat d (as_u8 i) (as_u8 n)) < n"
    and "prev_index d n (unat (next_seat d (as_u8 i) (as_u8 n))) = i"
proof -
  have lt: "as_u8 i < as_u8 n" and n: "unat (as_u8 n) = n" "unat (as_u8 i) = i"
    using assms by (simp_all add: pod_passes_def word_less_nat_alt)
  show "unat (next_seat d (as_u8 i) (as_u8 n)) < n"
    using assms n unat_next_left [OF lt] unat_next_right [OF lt]
    by (cases d) (simp_all add: pod_passes_def del: next_seat.simps)
  show "prev_index d n (unat (next_seat d (as_u8 i) (as_u8 n))) = i"
    using assms n unat_next_left [OF lt] unat_next_right [OF lt] cyclic_pred_succ [of i n] cyclic_succ_pred [of i n]
    by (cases d) (simp_all add: pod_passes_def del: next_seat.simps)
qed

lemma next_index_inj: "pod_passes d n \<Longrightarrow> inj_on (\<lambda>i. unat (next_seat d (as_u8 i) (as_u8 n))) {..<n}"
  by (rule inj_onI) (metis lessThan_iff next_index(2))

lemma next_index_bij: "pod_passes d n \<Longrightarrow> bij_betw (\<lambda>i. unat (next_seat d (as_u8 i) (as_u8 n))) {..<n} {..<n}"
  by (simp add: bij_betw_def next_index_inj endo_inj_surj image_subset_iff next_index(1))

lemma next_right_first: "next_seat PassRight 1 p = 0" for p :: u8
  by simp

lemma next_right_wraps: "next_seat PassRight (257 - p) p = 0" for p :: u8
proof -
  have "257 - p + p - 1 = (0 :: u8)" by simp
  then show ?thesis by (metis next_seat.simps(2) mod_0)
qed

subsection \<open>Seat flags\<close>

lemma length_sf_ensure_len: "length (flag_list f) \<le> unat n \<Longrightarrow> length (flag_list (sf_ensure_len f n b)) = unat n"
  by (auto simp: sf_ensure_len_def rust_len)

lemma sf_ensure_len_noop [simp]: "length (flag_list f) = unat n \<Longrightarrow> sf_ensure_len f n b = f"
  by (simp add: sf_ensure_len_def)

lemma length_sf_set [simp]: "length (flag_list (sf_set f i b)) = length (flag_list f)"
  by (simp add: sf_set_def)

lemma length_sf_clear [simp]: "length (flag_list (sf_clear f)) = length (flag_list f)"
  by (simp add: sf_clear_def)

lemma sf_get_set: "unat i < length (flag_list f) \<Longrightarrow> sf_get (sf_set f i b) j = (if i = j then b else sf_get f j)"
  by (auto simp: sf_get_def sf_set_def vec_get_def nth_list_update word_unat_eq_iff)

lemma sf_get_clear [simp]: "\<not> sf_get (sf_clear f) i"
  by (simp add: sf_get_def sf_clear_def vec_get_def)

subsection \<open>Set codes and layouts\<close>

lemma distinct_set_codes_from_spec:
  "(\<forall>c\<in>set held \<union> set codes. \<exists>h\<in>set (distinct_set_codes_from held codes). eq_ignore_ascii_case h c)
   \<and> set (distinct_set_codes_from held codes) \<subseteq> set held \<union> set codes"
proof (induction codes arbitrary: held)
  case Nil
  then show ?case using eq_ignore_ascii_case_refl by fastforce
next
  case (Cons c cs)
  show ?case
  proof (cases "list_ex (\<lambda>h. eq_ignore_ascii_case h c) held")
    case True
    then obtain h where h: "h \<in> set held" "eq_ignore_ascii_case h c" by (auto simp: list_ex_iff)
    from Cons.IH [of held] h(1) obtain k where k: "k \<in> set (distinct_set_codes_from held cs)" "eq_ignore_ascii_case k h"
      by blast
    from eq_ignore_ascii_case_trans [OF k(2) h(2)] k(1) True Cons.IH [of held] show ?thesis by auto
  next
    case False
    with Cons.IH [of "held @ [c]"] show ?thesis by auto
  qed
qed

lemma distinct_set_codes_from_distinct:
  "distinct (map (map ascii_lower) held) \<Longrightarrow> distinct (map (map ascii_lower) (distinct_set_codes_from held codes))"
proof (induction codes arbitrary: held)
  case Nil
  then show ?case by simp
next
  case (Cons c cs)
  show ?case
  proof (cases "list_ex (\<lambda>h. eq_ignore_ascii_case h c) held")
    case True
    with Cons show ?thesis by simp
  next
    case False
    then have "map ascii_lower c \<notin> map ascii_lower ` set held"
      by (auto simp: list_ex_iff eq_ignore_ascii_case_def)
    with Cons.prems have "distinct (map (map ascii_lower) (held @ [c]))" by simp
    with False Cons.IH [of "held @ [c]"] show ?thesis by simp
  qed
qed

lemma chaos_round_error_None:
  "chaos_round_error candidates seat codes = None \<longleftrightarrow>
     (\<forall>c\<in>set codes. \<exists>k\<in>set candidates. eq_ignore_ascii_case k c)"
  by (induction codes) (auto simp: list_ex_iff)

lemma chaos_assignments_error_None:
  "chaos_assignments_error candidates n seat rows = None \<longleftrightarrow>
     (\<forall>r\<in>set rows. length r = unat n \<and> (\<forall>c\<in>set r. \<exists>k\<in>set candidates. eq_ignore_ascii_case k c))"
proof (induction rows arbitrary: seat)
  case Nil
  then show ?case by simp
next
  case (Cons r rows)
  then show ?case
    using chaos_round_error_None [of candidates seat r]
    by (cases "chaos_round_error candidates seat r") auto
qed

lemma entry_for_pack_Some: "xs \<noteq> [] \<Longrightarrow> \<exists>x\<in>set xs. entry_for_pack xs n = Some x"
proof -
  assume "xs \<noteq> []"
  then have "min (unat n) (length xs - 1) < length xs" by (cases xs) auto
  with \<open>xs \<noteq> []\<close> show ?thesis by (auto simp: entry_for_pack_def)
qed

lemma validated_layout_names_set:
  assumes "validate_for_draft layout seat_count packs = Ok ()" and "seat < seat_count" and "pack < packs"
  shows "\<exists>c. layout_set_code_for_seat_and_pack layout seat pack = Some c
    \<and> (\<exists>h\<in>set (layout_actual_set_codes layout). eq_ignore_ascii_case h c)"
proof (cases layout)
  case (UniformByRound codes)
  with assms(1) obtain c where "c \<in> set codes" "entry_for_pack codes pack = Some c"
    using entry_for_pack_Some [of codes pack] by (auto split: if_splits)
  with UniformByRound show ?thesis
    using distinct_set_codes_from_spec [of "[]" codes] by (auto simp: distinct_set_codes_def)
next
  case (Chaos candidates rows)
  with assms(1) have len: "length rows = unat seat_count"
    and rows: "\<And>r. r \<in> set rows \<Longrightarrow> length r = unat packs"
    by (auto simp: chaos_assignments_error_None split: if_splits option.splits)
  with assms(2,3) have s: "unat seat < length rows" and p: "unat pack < length (rows ! unat seat)"
    by (simp_all add: word_less_nat_alt)
  then have "rows ! unat seat ! unat pack \<in> set (concat rows)"
    by (auto intro!: bexI [of _ "rows ! unat seat"])
  with Chaos s p show ?thesis
    using distinct_set_codes_from_spec [of "[]" "concat rows"] by (auto simp: distinct_set_codes_def)
qed

subsection \<open>Procedure table\<close>

lemma unat_div_ceil:
  assumes "div_ceil a b = Some q"
  shows "unat a \<le> unat q * unat b \<and> (0 < unat a \<longrightarrow> (unat q - 1) * unat b < unat a)"
proof -
  from assms have b: "0 < unat b" and q: "q = (if a mod b = 0 then a div b else a div b + 1)"
    by (auto simp: div_ceil_def unat_gt_0 split: if_splits)
  have split: "unat a = unat a div unat b * unat b + unat a mod unat b" by simp
  show ?thesis
  proof (cases "a mod b = 0")
    case True
    then have "unat a mod unat b = 0" by (metis unat_0 unat_mod)
    with q True split b show ?thesis
      by (cases "unat a div unat b") (simp_all add: unat_div)
  next
    case False
    then have rem: "0 < unat a mod unat b" by (metis unat_mod unat_gt_0)
    then have b2: "2 \<le> unat b" by (cases "unat b = 1") (use b in auto)
    have "unat a div unat b + 1 < 256"
      using b2 unat_u8_bound [of a] div_le_mono2 [of 2 "unat b" "unat a"] by linarith
    then have "unat q = unat a div unat b + 1"
      using q False by (simp add: unat_word_ariths unat_div)
    then have "unat q * unat b = unat a div unat b * unat b + unat b" "(unat q - 1) * unat b = unat a div unat b * unat b"
      by (simp_all add: algebra_simps)
    with split rem mod_less_divisor [OF b, of "unat a"] show ?thesis by linarith
  qed
qed

lemma kind_procedure_bounds:
  "1 \<le> proc_cards_per_pick (kind_procedure k)" "proc_min_pod_size (kind_procedure k) \<le> proc_pod_size (kind_procedure k)"
  "proc_pod_size (kind_procedure k) \<le> proc_max_pod_size (kind_procedure k)"
  "proc_human_seats (kind_procedure k) \<le> proc_pod_size (kind_procedure k)"
  "unat (proc_cards_per_pick (kind_procedure k)) \<le> MAX_CARDS_PER_PICK"
  by (cases k; simp add: MAX_CARDS_PER_PICK_def)+

lemma allows_pod_size_iff: "allows_pod_size p tf n \<longleftrightarrow> n \<in> set (allowed_pod_sizes p tf)"
proof -
  obtain lo hi where r: "allowed_pod_size_range p tf = (lo, hi)" by fastforce
  have "n \<in> as_u8 ` {unat lo..<Suc (unat hi)} \<longleftrightarrow> unat n \<in> {unat lo..<Suc (unat hi)}"
  proof
    assume "n \<in> as_u8 ` {unat lo..<Suc (unat hi)}"
    then obtain x where x: "n = as_u8 x" "unat lo \<le> x" "x < Suc (unat hi)" by auto
    have "x < 256" using x(3) unat_u8_bound [of hi] by linarith
    with x show "unat n \<in> {unat lo..<Suc (unat hi)}" by simp
  next
    assume "unat n \<in> {unat lo..<Suc (unat hi)}"
    then show "n \<in> as_u8 ` {unat lo..<Suc (unat hi)}"
      by (intro image_eqI [of _ _ "unat n"]) simp_all
  qed
  then show ?thesis
    by (auto simp: allows_pod_size_def allowed_pod_sizes_def r word_le_nat_alt)
qed

subsection \<open>Well-formed sessions and the cards of a session\<close>

text \<open>Every per-seat vector has one entry per seat, and seats are numbered by a \<^verbatim>\<open>u8\<close>.\<close>

definition pod_wf :: "draft_session \<Rightarrow> bool" where
  "pod_wf s \<longleftrightarrow>
     length (seats s) < 256 \<and>
     length (pools s) = length (seats s) \<and>
     length (current_pack s) = length (seats s) \<and>
     length (packs_by_seat s) = length (seats s) \<and>
     length (current_pack_origins s) = length (seats s) \<and>
     length (flag_list (seats_picked_this_round s)) = length (seats s) \<and>
     length (flag_list (connected_seats s)) = length (seats s)"

definition slot_cards :: "draft_pack option \<Rightarrow> draft_card list" where
  "slot_cards slot = (case slot of None \<Rightarrow> [] | Some pack \<Rightarrow> pack)"

definition stack_cards :: "shared_stack_state option \<Rightarrow> draft_card multiset" where
  "stack_cards st = (case st of None \<Rightarrow> {#} | Some t \<Rightarrow> mset (main_stack t) + mset (concat (piles t)))"

definition pool_cards :: "draft_session \<Rightarrow> draft_card multiset" where
  "pool_cards s = mset (concat (pools s))"

definition cards_in_event :: "draft_session \<Rightarrow> draft_card multiset" where
  "cards_in_event s =
     pool_cards s
   + mset (concat (map slot_cards (current_pack s)))
   + mset (concat (concat (packs_by_seat s)))
   + stack_cards (shared_stack s)"

text \<open>No seat holds a pack or has one to open.\<close>

definition no_packs :: "draft_session \<Rightarrow> bool" where
  "no_packs s \<longleftrightarrow> mset (concat (map slot_cards (current_pack s))) = {#} \<and> mset (concat (concat (packs_by_seat s))) = {#}"

lemma no_packs_cards: "no_packs s \<Longrightarrow> cards_in_event s = pool_cards s + stack_cards (shared_stack s)"
  unfolding no_packs_def cards_in_event_def by (metis add.right_neutral)

lemma pod_wfD:
  assumes "pod_wf s"
  shows "length (seats s) < 256" "length (pools s) = length (seats s)"
    "length (current_pack s) = length (seats s)" "length (packs_by_seat s) = length (seats s)"
    "length (current_pack_origins s) = length (seats s)"
    "length (flag_list (seats_picked_this_round s)) = length (seats s)"
    "length (flag_list (connected_seats s)) = length (seats s)"
  using assms by (simp_all add: pod_wf_def)

lemma accepted_iff: "accepted out = Some s' \<longleftrightarrow> (\<exists>ds. out = (s', Ok ds))"
  by (cases out) (auto simp: accepted_def is_ok_iff)

lemma accepted_simps [simp]:
  "accepted (s, Ok ds) = Some s" "accepted (s, Err e) = None" "accepted (s, Panic) = None"
  by (simp_all add: accepted_def)

lemma pod_wf_seat: "seat < as_u8 (length (seats s)) \<Longrightarrow> unat seat < length (seats s)"
  by (rule less_as_u8_in_range)

subsection \<open>A small event\<close>

text \<open>A two-seat event in its only pack round, used as the concrete input of the examples.\<close>

definition sample_card :: "string \<Rightarrow> draft_effect option \<Rightarrow> draft_card" where
  "sample_card ident effect =
     \<lparr>instance_id = ident, card_name = ident, card_set_code = ''TST'', collector_number = ''1'', rarity = ''common'',
      card_colors = [], cmc = 1, type_line = ''Creature'', card_draft_effect = effect\<rparr>"

definition sample_config :: "draft_kind \<Rightarrow> draft_config" where
  "sample_config k =
     \<lparr>cfg_source = single_set ''TST'', cfg_set_code = ''TST'', cfg_kind = k, cfg_pod_size = 2,
      cfg_cards_per_pack = 2, cfg_pack_count = proc_packs_per_player (kind_procedure k), cfg_min_deck_size = proc_min_deck_size (kind_procedure k),
      cfg_addable_cards = standard_basics, cfg_rng_seed = 7, cfg_tournament_format = Swiss,
      cfg_pod_policy = Competitive, cfg_spectator_visibility = PublicView\<rparr>"

definition sample_seats :: "draft_seat list" where
  "sample_seats = [Human 0 ''Ann'', Human 1 ''Bob'']"

definition sample_pod :: draft_session where
  "sample_pod =
     \<lparr>booster_pack_pool = None, shared_stack = None, draft_code = ''D'', set_code = ''TST'', draft_kind_of = Premier,
      status = Drafting, config = (sample_config Premier)\<lparr>cfg_pack_count := 1\<rparr>, seats = sample_seats, current_pack_number = 0,
      pack_sizes = [2], pick_number = 0, seats_picked_this_round = SeatFlags [False, False],
      connected_seats = SeatFlags [True, True], pass_direction = PassLeft, packs_by_seat = [[], []],
      current_pack = [Some [sample_card ''a'' None, sample_card ''b'' None], Some [sample_card ''c'' None, sample_card ''d'' None]],
      current_pack_origins = [Some 0, Some 1], pools = [[sample_card ''e'' (Some AdditionalPick)], []],
      submitted_decks = Map.empty, match_records = Map.empty, pairings = [], current_round = 0,
      created_at = 0, updated_at = 0\<rparr>"

text \<open>A generator that leaves every slice as it is and draws the first seat.\<close>

definition sample_rng :: "unit rng" where
  "sample_rng = \<lparr>seed_from_u64 = \<lambda>_. (), shuffle_perm = \<lambda>n r. ([0..<n], r), random_range = \<lambda>b r. (0, r)\<rparr>"

lemma sample_rng_ok: "rng_shuffles sample_rng" "rng_in_range sample_rng"
  by (simp_all add: rng_shuffles_def rng_in_range_def sample_rng_def)

lemma sample_pod_wf: "pod_wf sample_pod"
  by (simp add: pod_wf_def sample_pod_def sample_seats_def)

subsection \<open>Properties\<close>

text \<open>
  A set layout that passes validation names a set for every booster of the draft, and that set is
  among the sets the layout reports as its actual ones.
\<close>

theorem layout_names_every_pack:
  assumes "validate_for_draft layout seat_count packs = Ok ()" and "seat < seat_count" and "pack < packs"
  shows "\<exists>c. layout_set_code_for_seat_and_pack layout seat pack = Some c
    \<and> (\<exists>h\<in>set (layout_actual_set_codes layout). eq_ignore_ascii_case h c)"
  by (rule validated_layout_names_set [OF assms])

end
