(* ===== verification/Draft_Validation.thy ===== *)
theory Draft_Validation
  imports Draft_Types
begin

text \<open>
  Limited deck validation (\<^verbatim>\<open>src/crates/draft-core/src/validation.rs\<close>) and the deck-construction
  concessions of a draft's booster sets (\<^verbatim>\<open>src/crates/engine/src/game/deck_validation.rs\<close>).

  The validator walks two \<^verbatim>\<open>HashMap\<close>s, whose iteration order the language leaves open: \<open>ho\<close> maps the
  keys in order of first insertion to the order of iteration, and \<open>hash_order\<close> says it is one.
  A counted map is the list it counts: its keys are \<open>remdups\<close> of the list, the value at a key is the
  number of occurrences as a \<^verbatim>\<open>u32\<close>.
\<close>

subsection \<open>Concessions of the booster sets\<close>

record grantable_commander_filler =
  filler_card_name :: string
  filler_max_copies :: u32

record partner_grant =
  pg_max_colors :: u8

record set_concessions =
  con_fillers :: "grantable_commander_filler list"
  con_partner_grant :: "partner_grant option"

definition no_concessions :: set_concessions where
  "no_concessions = \<lparr>con_fillers = [], con_partner_grant = None\<rparr>"

fun merge_filler :: "grantable_commander_filler list \<Rightarrow> grantable_commander_filler \<Rightarrow> grantable_commander_filler list" where
  "merge_filler [] filler = [filler]"
| "merge_filler (held # rest) filler =
     (if filler_card_name held = filler_card_name filler
      then held\<lparr>filler_max_copies := max (filler_max_copies held) (filler_max_copies filler)\<rparr> # rest
      else held # merge_filler rest filler)"

definition concessions_union :: "set_concessions \<Rightarrow> set_concessions \<Rightarrow> set_concessions" where
  "concessions_union a b =
     \<lparr>con_fillers = foldl merge_filler (con_fillers a) (con_fillers b),
      con_partner_grant =
        (case (con_partner_grant a, con_partner_grant b) of
           (Some held, Some added) \<Rightarrow> Some \<lparr>pg_max_colors = max (pg_max_colors held) (pg_max_colors added)\<rparr>
         | (Some held, None) \<Rightarrow> Some held
         | (None, added) \<Rightarrow> added)\<rparr>"

definition DRAFT_SET_CONCESSIONS :: "(string \<times> string \<times> u8 option) list" where
  "DRAFT_SET_CONCESSIONS =
     [(''CMR'', ''The Prismatic Piper'', None),
      (''CMM'', ''The Prismatic Piper'', Some 1),
      (''CLB'', ''Faceless One'', None)]"

definition GRANTABLE_FILLER_MAX_COPIES :: u32 where
  "GRANTABLE_FILLER_MAX_COPIES = 2"

fun row_concessions :: "string \<times> string \<times> u8 option \<Rightarrow> set_concessions" where
  "row_concessions (code, name, max_colors) =
     \<lparr>con_fillers = [\<lparr>filler_card_name = name, filler_max_copies = GRANTABLE_FILLER_MAX_COPIES\<rparr>],
      con_partner_grant = map_option (\<lambda>m. \<lparr>pg_max_colors = m\<rparr>) max_colors\<rparr>"

definition draft_set_concessions :: "string \<Rightarrow> set_concessions" where
  "draft_set_concessions code =
     (case find (\<lambda>(c, _, _). eq_ignore_ascii_case c code) DRAFT_SET_CONCESSIONS of
        None \<Rightarrow> no_concessions
      | Some row \<Rightarrow> row_concessions row)"

definition draft_set_concessions_for :: "string list \<Rightarrow> set_concessions" where
  "draft_set_concessions_for set_codes =
     foldl concessions_union no_concessions
       (map row_concessions
         (filter (\<lambda>(code, _, _). list_ex (\<lambda>named. eq_ignore_ascii_case named code) set_codes)
           DRAFT_SET_CONCESSIONS))"

subsection \<open>The validator\<close>

type_synonym hash_iteration = "string list \<Rightarrow> string list"

definition hash_order :: "hash_iteration \<Rightarrow> bool" where
  "hash_order ho \<longleftrightarrow> (\<forall>ks. distinct ks \<longrightarrow> mset (ho ks) = mset ks)"

definition counted :: "string list \<Rightarrow> string \<Rightarrow> u32 option" where
  "counted xs name = (if name \<in> set xs then Some (of_nat (count_list xs name)) else None)"

definition counted_or_zero :: "string list \<Rightarrow> string \<Rightarrow> u32" where
  "counted_or_zero xs name = (case counted xs name of Some n \<Rightarrow> n | None \<Rightarrow> 0)"

definition deck_card_errors ::
  "string list \<Rightarrow> string list \<Rightarrow> deck_addable_cards \<Rightarrow> grantable_commander_filler list \<Rightarrow> string list
    \<Rightarrow> string \<Rightarrow> limited_deck_error list" where
  "deck_card_errors main_deck pool addable granted_fillers commanders name =
     (let requested = counted_or_zero main_deck name in
      case find (\<lambda>f. filler_card_name f = name) granted_fillers of
        Some filler \<Rightarrow>
          (let pooled = counted_or_zero pool name;
               added = saturating_sub requested pooled;
               designated = of_nat (length (filter (\<lambda>c. c = name) commanders)) :: u32
           in (if filler_max_copies filler < added
               then [FillerExceedsGrant name pooled added (filler_max_copies filler)] else [])
            @ (if designated < added
               then [FillerNotUsedAsCommander name pooled added designated] else []))
      | None \<Rightarrow>
          if is_addable addable name then []
          else (case counted pool name of
              None \<Rightarrow> [NotInPool name]
            | Some available \<Rightarrow>
                if available < requested then [ExceedsPoolCount name requested available] else []))"

definition commander_errors :: "string list \<Rightarrow> string list \<Rightarrow> string \<Rightarrow> limited_deck_error list" where
  "commander_errors main_deck commanders name =
     (let designated = counted_or_zero commanders name; in_deck = counted_or_zero main_deck name
      in if in_deck < designated then [CommanderNotInDeck name designated in_deck] else [])"

definition limited_deck_errors ::
  "hash_iteration \<Rightarrow> string list \<Rightarrow> string list \<Rightarrow> deck_addable_cards \<Rightarrow> usize
    \<Rightarrow> grantable_commander_filler list \<Rightarrow> string list \<Rightarrow> usize \<Rightarrow> limited_deck_error list" where
  "limited_deck_errors ho main_deck pool addable min_deck_size granted_fillers commanders required =
     (if length main_deck < min_deck_size then [TooFewCards (length main_deck) min_deck_size] else [])
   @ concat (map (deck_card_errors main_deck pool addable granted_fillers commanders) (ho (remdups main_deck)))
   @ concat (map (commander_errors main_deck commanders) (ho (remdups commanders)))
   @ (if length commanders < required then [TooFewCommanders (length commanders) required] else [])"

definition validate_limited_deck ::
  "hash_iteration \<Rightarrow> string list \<Rightarrow> string list \<Rightarrow> deck_addable_cards \<Rightarrow> usize
    \<Rightarrow> grantable_commander_filler list \<Rightarrow> string list \<Rightarrow> usize
    \<Rightarrow> (unit, limited_deck_error list) rust_result" where
  "validate_limited_deck ho main_deck pool addable min_deck_size granted_fillers commanders required =
     (let errors = limited_deck_errors ho main_deck pool addable min_deck_size granted_fillers commanders required
      in if errors = [] then Ok () else Err errors)"

subsection \<open>What a legal deck is\<close>

text \<open>Copies of a card a deck holds beyond the drafted ones.\<close>

definition extra_copies :: "string list \<Rightarrow> string list \<Rightarrow> string \<Rightarrow> nat" where
  "extra_copies main_deck pool name = count_list main_deck name - count_list pool name"

definition legal_card ::
  "string list \<Rightarrow> string list \<Rightarrow> deck_addable_cards \<Rightarrow> grantable_commander_filler list \<Rightarrow> string list
    \<Rightarrow> string \<Rightarrow> bool" where
  "legal_card main_deck pool addable granted_fillers commanders name \<longleftrightarrow>
     (case find (\<lambda>f. filler_card_name f = name) granted_fillers of
        Some filler \<Rightarrow>
          extra_copies main_deck pool name \<le> unat (filler_max_copies filler) \<and>
          extra_copies main_deck pool name \<le> count_list commanders name
      | None \<Rightarrow> is_addable addable name \<or> extra_copies main_deck pool name = 0)"

definition legal_deck ::
  "string list \<Rightarrow> string list \<Rightarrow> deck_addable_cards \<Rightarrow> usize \<Rightarrow> grantable_commander_filler list
    \<Rightarrow> string list \<Rightarrow> usize \<Rightarrow> bool" where
  "legal_deck main_deck pool addable min_deck_size granted_fillers commanders required \<longleftrightarrow>
     min_deck_size \<le> length main_deck \<and>
     (\<forall>name\<in>set main_deck. legal_card main_deck pool addable granted_fillers commanders name) \<and>
     mset commanders \<subseteq># mset main_deck \<and>
     required \<le> length commanders"

definition fits_counts :: "string list \<Rightarrow> bool" where
  "fits_counts xs \<longleftrightarrow> length xs < 2 ^ 32"

subsection \<open>The validator decides legality\<close>

lemma hash_order_set: "hash_order ho \<Longrightarrow> set (ho (remdups xs)) = set xs"
  by (metis distinct_remdups hash_order_def set_mset_mset set_remdups)

lemma hash_order_mset: "hash_order ho \<Longrightarrow> mset (ho (remdups xs)) = mset (remdups xs)"
  by (simp add: hash_order_def)

lemma count_list_bound: "count_list xs a \<le> length xs"
  by (simp add: count_list_eq_length_filter)

lemma unat_counted_or_zero: "fits_counts xs \<Longrightarrow> unat (counted_or_zero xs name) = count_list xs name"
  using count_list_bound [of xs name]
  by (auto simp: counted_or_zero_def counted_def fits_counts_def unat_of_nat count_list_0_iff)

lemma counted_Some: "fits_counts xs \<Longrightarrow> counted xs name = Some n \<longleftrightarrow> name \<in> set xs \<and> n = counted_or_zero xs name"
  by (auto simp: counted_def counted_or_zero_def)

lemma filter_eq_count_list: "length (filter (\<lambda>c. c = name) xs) = count_list xs name"
  by (induction xs) auto

lemma deck_card_errors_Nil:
  assumes "fits_counts main_deck" and "fits_counts pool" and "fits_counts commanders" and "name \<in> set main_deck"
  shows "deck_card_errors main_deck pool addable fillers commanders name = []
    \<longleftrightarrow> legal_card main_deck pool addable fillers commanders name"
proof -
  note cnt = assms(1,2,3) [THEN unat_counted_or_zero]
  have added: "unat (saturating_sub (counted_or_zero main_deck name) (counted_or_zero pool name))
      = extra_copies main_deck pool name"
    by (simp add: unat_saturating_sub cnt extra_copies_def)
  have designated: "unat (of_nat (length (filter (\<lambda>c. c = name) commanders)) :: u32) = count_list commanders name"
    using count_list_bound [of commanders name] assms(3)
    by (simp add: filter_eq_count_list fits_counts_def unat_of_nat)
  have in_deck: "0 < count_list main_deck name"
    using assms(4) by (metis bot_nat_0.not_eq_extremum count_list_0_iff)
  show ?thesis
  proof (cases "find (\<lambda>f. filler_card_name f = name) fillers")
    case None
    show ?thesis
    proof (cases "name \<in> set pool")
      case True
      then have "counted pool name = Some (counted_or_zero pool name)"
        by (simp add: counted_def counted_or_zero_def)
      with None show ?thesis
        by (auto simp: deck_card_errors_def legal_card_def Let_def word_less_nat_alt cnt extra_copies_def)
    next
      case False
      then have "counted pool name = None" "count_list pool name = 0" by (simp_all add: counted_def)
      with None in_deck show ?thesis
        by (auto simp: deck_card_errors_def legal_card_def Let_def extra_copies_def)
    qed
  next
    case (Some filler)
    then show ?thesis
      by (auto simp: deck_card_errors_def legal_card_def Let_def word_less_nat_alt added designated)
  qed
qed

lemma commander_errors_Nil:
  assumes "fits_counts main_deck" and "fits_counts commanders"
  shows "commander_errors main_deck commanders name = [] \<longleftrightarrow> count_list commanders name \<le> count_list main_deck name"
  using assms [THEN unat_counted_or_zero] by (auto simp: commander_errors_def Let_def word_less_nat_alt)

lemma mset_subset_count_list: "mset xs \<subseteq># mset ys \<longleftrightarrow> (\<forall>a\<in>set xs. count_list xs a \<le> count_list ys a)"
  by (auto simp: subseteq_mset_def count_mset)

lemma limited_deck_errors_Nil:
  assumes "hash_order ho" and "fits_counts main_deck" and "fits_counts pool" and "fits_counts commanders"
  shows "limited_deck_errors ho main_deck pool addable minimum fillers commanders required = []
    \<longleftrightarrow> legal_deck main_deck pool addable minimum fillers commanders required"
proof -
  have "concat (map (deck_card_errors main_deck pool addable fillers commanders) (ho (remdups main_deck))) = []
      \<longleftrightarrow> (\<forall>name\<in>set main_deck. legal_card main_deck pool addable fillers commanders name)"
    using deck_card_errors_Nil [OF assms(2-4)] by (simp add: hash_order_set [OF assms(1)])
  moreover have "concat (map (commander_errors main_deck commanders) (ho (remdups commanders))) = []
      \<longleftrightarrow> mset commanders \<subseteq># mset main_deck"
    using commander_errors_Nil [OF assms(2,4)]
    by (simp add: hash_order_set [OF assms(1)] mset_subset_count_list)
  ultimately show ?thesis
    by (auto simp: limited_deck_errors_def legal_deck_def)
qed

lemma validate_limited_deck_decides:
  assumes "hash_order ho" and "fits_counts main_deck" and "fits_counts pool" and "fits_counts commanders"
  shows "validate_limited_deck ho main_deck pool addable minimum fillers commanders required = Ok ()
    \<longleftrightarrow> legal_deck main_deck pool addable minimum fillers commanders required"
  using limited_deck_errors_Nil [OF assms] by (simp add: validate_limited_deck_def)

lemma mset_concat_map: "mset (concat (map f xs)) = (\<Sum>x\<in>#mset xs. mset (f x))"
  by (induction xs) auto

lemma limited_deck_errors_order:
  assumes "hash_order ho" and "hash_order ho'"
  shows "mset (limited_deck_errors ho main_deck pool addable minimum fillers commanders required)
       = mset (limited_deck_errors ho' main_deck pool addable minimum fillers commanders required)"
  by (simp add: limited_deck_errors_def mset_concat_map hash_order_mset [OF assms(1)] hash_order_mset [OF assms(2)])

text \<open>In a legal deck, every card that is neither granted nor addable was drafted, copy for copy.\<close>

lemma legal_deck_drafted:
  assumes "legal_deck main_deck pool addable minimum fillers commanders required"
  shows "filter_mset (\<lambda>c. \<not> is_addable addable c \<and> c \<notin> filler_card_name ` set fillers) (mset main_deck) \<subseteq># mset pool"
proof (rule mset_subset_eqI)
  fix a
  show "count (filter_mset (\<lambda>c. \<not> is_addable addable c \<and> c \<notin> filler_card_name ` set fillers) (mset main_deck)) a
      \<le> count (mset pool) a"
  proof (cases "a \<in> set main_deck \<and> \<not> is_addable addable a \<and> a \<notin> filler_card_name ` set fillers")
    case True
    then have "find (\<lambda>f. filler_card_name f = a) fillers = None" by (auto simp: find_None_iff)
    with True assms have "count_list main_deck a - count_list pool a = 0"
      by (auto simp: legal_deck_def legal_card_def extra_copies_def)
    then show ?thesis by (simp add: count_mset)
  next
    case False
    then have "a \<notin> set main_deck \<or> is_addable addable a \<or> a \<in> filler_card_name ` set fillers" by blast
    then show ?thesis by (auto simp: count_mset)
  qed
qed

subsection \<open>Concessions depend on the sets contained\<close>

lemma draft_set_concessions_for_cong:
  assumes "\<And>row. row \<in> set DRAFT_SET_CONCESSIONS \<Longrightarrow>
    (\<exists>c\<in>set xs. eq_ignore_ascii_case c (fst row)) \<longleftrightarrow> (\<exists>c\<in>set ys. eq_ignore_ascii_case c (fst row))"
  shows "draft_set_concessions_for xs = draft_set_concessions_for ys"
  unfolding draft_set_concessions_for_def
  using assms by (intro arg_cong [of _ _ "\<lambda>rows. foldl concessions_union no_concessions (map row_concessions rows)"] filter_cong)
    (fastforce simp: list_ex_iff)+

lemma draft_set_concessions_for_case_set:
  assumes "map ascii_lower ` set xs = map ascii_lower ` set ys"
  shows "draft_set_concessions_for xs = draft_set_concessions_for ys"
proof (rule draft_set_concessions_for_cong)
  fix row :: "string \<times> string \<times> u8 option"
  have mem: "(\<exists>c\<in>set zs. eq_ignore_ascii_case c (fst row)) \<longleftrightarrow> map ascii_lower (fst row) \<in> map ascii_lower ` set zs" for zs
    by (auto simp: eq_ignore_ascii_case_def image_iff) metis
  show "(\<exists>c\<in>set xs. eq_ignore_ascii_case c (fst row)) \<longleftrightarrow> (\<exists>c\<in>set ys. eq_ignore_ascii_case c (fst row))"
    by (simp add: mem assms)
qed

subsection \<open>Properties\<close>

text \<open>
  C16. The deck validator accepts exactly the legal decks: large enough, every card granted as a filler
  within its limits, or addable, or drafted in that many copies, and the designated commanders in the deck.
\<close>

theorem limited_deck_validator_exact:
  assumes "hash_order ho" and "fits_counts main_deck" and "fits_counts pool" and "fits_counts commanders"
  shows "validate_limited_deck ho main_deck pool addable minimum fillers commanders required = Ok ()
    \<longleftrightarrow> legal_deck main_deck pool addable minimum fillers commanders required"
  by (rule validate_limited_deck_decides [OF assms])

theorem limited_deck_validator_exact_witness:
  "validate_limited_deck id [''Shock'', ''Island''] [''Shock''] standard_basics 2 [] [] 0 = Ok ()
   \<and> validate_limited_deck id [''Shock'', ''Shock''] [''Shock''] standard_basics 2 [] [] 0 \<noteq> Ok ()
   \<and> legal_deck [''Shock'', ''Island''] [''Shock''] standard_basics 2 [] [] 0
   \<and> \<not> legal_deck [''Shock'', ''Shock''] [''Shock''] standard_basics 2 [] [] 0"
proof -
  have order: "hash_order id" by (simp add: hash_order_def)
  have fits: "fits_counts [''Shock'', ''Island'']" "fits_counts [''Shock'', ''Shock'']" "fits_counts [''Shock'']" "fits_counts []"
    by (simp_all add: fits_counts_def)
  have yes: "legal_deck [''Shock'', ''Island''] [''Shock''] standard_basics 2 [] [] 0"
    by (simp add: legal_deck_def legal_card_def extra_copies_def is_addable_def standard_basics_def STANDARD_BASIC_LANDS_def)
  have no: "\<not> legal_deck [''Shock'', ''Shock''] [''Shock''] standard_basics 2 [] [] 0"
    by (simp add: legal_deck_def legal_card_def extra_copies_def is_addable_def standard_basics_def STANDARD_BASIC_LANDS_def)
  from yes no limited_deck_validator_exact [OF order fits(1,3,4)] limited_deck_validator_exact [OF order fits(2,3,4)]
  show ?thesis by simp
qed

text \<open>
  In a deck the validator accepts, the cards that are neither addable nor granted as fillers were
  drafted, copy for copy.
\<close>

theorem validated_deck_was_drafted:
  assumes "hash_order ho" and "fits_counts main_deck" and "fits_counts pool" and "fits_counts commanders"
    and "validate_limited_deck ho main_deck pool addable minimum fillers commanders required = Ok ()"
  shows "filter_mset (\<lambda>c. \<not> is_addable addable c \<and> c \<notin> filler_card_name ` set fillers) (mset main_deck) \<subseteq># mset pool"
  using assms validate_limited_deck_decides [OF assms(1-4)] legal_deck_drafted by blast

text \<open>
  The order in which the hash maps are walked changes the order of the reported errors only, so the
  verdict and the multiset of errors do not depend on it.
\<close>

theorem validator_errors_order_free:
  assumes "hash_order ho" and "hash_order ho'"
  shows "mset (limited_deck_errors ho main_deck pool addable minimum fillers commanders required)
       = mset (limited_deck_errors ho' main_deck pool addable minimum fillers commanders required)
    \<and> (validate_limited_deck ho main_deck pool addable minimum fillers commanders required = Ok ()
       \<longleftrightarrow> validate_limited_deck ho' main_deck pool addable minimum fillers commanders required = Ok ())"
  using limited_deck_errors_order [OF assms, of main_deck pool addable minimum fillers commanders required]
  by (auto simp: validate_limited_deck_def Let_def)

end
