(* ===== verification/Draft_Shared_Stack.thy ===== *)
theory Draft_Shared_Stack
  imports Draft_Types
begin

text \<open>
  Winston draft turns (\<^verbatim>\<open>src/crates/draft-core/src/shared_stack.rs\<close>): one shared face-down stack dealt
  through take-or-decline piles. \<open>refusal_for\<close> is the single authority for legality,
  \<open>apply_shared_stack_decision\<close> the whole transition. The last section shows what the module's
  comments promise: no card is created or lost, the seat to move always has a legal decision, and
  the draft ends.
\<close>

subsection \<open>Legality\<close>

definition piles_needed :: "u8 \<Rightarrow> (usize, draft_error) rust_result" where
  "piles_needed pile_count =
     (if pile_count = 0
      then Err (InvalidSharedStackConfiguration ''a shared-stack distribution must deal at least one pile'')
      else Ok (unat pile_count))"

definition refusal_for ::
  "shared_stack_state \<Rightarrow> u8 \<Rightarrow> u8 \<Rightarrow> shared_stack_pile_decision \<Rightarrow> shared_stack_refusal option" where
  "refusal_for st seat pile decision =
     (if seat \<noteq> active_seat st \<or> pile \<noteq> stack_cursor st then Some PileNotActive
      else (case vec_get (piles st) (unat pile) of
          None \<Rightarrow> Some PileNotActive
        | Some cursor_pile \<Rightarrow>
            (case decision of
               Take \<Rightarrow> if cursor_pile = [] then Some PileEmpty else None
             | Decline \<Rightarrow>
                 (let later_pile_available = list_ex (\<lambda>p. p \<noteq> []) (drop (unat pile + 1) (piles st));
                      is_final_pile = (unat pile + 1 = length (piles st))
                  in if later_pile_available \<or> (is_final_pile \<and> 2 \<le> length (main_stack st))
                     then None else Some NoGuaranteedCard))))"

definition forced_decision :: "shared_stack_state \<Rightarrow> u8 \<Rightarrow> shared_stack_pile_decision option" where
  "forced_decision st seat =
     find (\<lambda>d. refusal_for st seat (stack_cursor st) d = None) ALL_pile_decisions"

definition session_shared_stack :: "draft_session \<Rightarrow> (shared_stack_state, draft_error) rust_result" where
  "session_shared_stack s =
     (case shared_stack s of
        Some st \<Rightarrow> Ok st
      | None \<Rightarrow> Err (InvalidSharedStackConfiguration ''shared-stack state missing on a shared-stack session''))"

subsection \<open>One decision\<close>

text \<open>
  The match on the decision: the new state, the seat's new pool and whether the turn ends.
  \<open>None\<close> is an index out of range.
\<close>

definition take_pile :: "nat \<Rightarrow> shared_stack_state \<Rightarrow> draft_card list \<Rightarrow> shared_stack_state \<times> draft_card list" where
  "take_pile pile_index st pool =
     (case vec_pop (main_stack st) of
        Some (drawn, rest) \<Rightarrow>
          (st\<lparr>main_stack := rest, piles := (piles st)[pile_index := [drawn]]\<rparr>, pool @ piles st ! pile_index)
      | None \<Rightarrow> (st\<lparr>piles := (piles st)[pile_index := []]\<rparr>, pool @ piles st ! pile_index))"

definition feed_pile :: "nat \<Rightarrow> shared_stack_state \<Rightarrow> shared_stack_state" where
  "feed_pile pile_index st =
     (case vec_pop (main_stack st) of
        Some (drawn, rest) \<Rightarrow>
          st\<lparr>main_stack := rest, piles := (piles st)[pile_index := piles st ! pile_index @ [drawn]]\<rparr>
      | None \<Rightarrow> st)"

definition advance_cursor :: "shared_stack_state \<Rightarrow> shared_stack_state option" where
  "advance_cursor st =
     (let c = stack_cursor st + 1 in
      case vec_get (piles st) (unat c) of
        None \<Rightarrow> None
      | Some pile \<Rightarrow>
          if unat c < length (inspected st)
          then Some (st\<lparr>stack_cursor := c, inspected := (inspected st)[unat c := length pile]\<rparr>)
          else None)"

definition forced_draw :: "nat \<Rightarrow> shared_stack_state \<Rightarrow> draft_card list \<Rightarrow> shared_stack_state \<times> draft_card list" where
  "forced_draw seat st pool =
     (case vec_pop (main_stack st) of
        Some (drawn, rest) \<Rightarrow>
          (st\<lparr>main_stack := rest, forced_draws := (forced_draws st)[seat := Some drawn]\<rparr>, pool @ [drawn])
      | None \<Rightarrow> (st, pool))"

definition decide_pile ::
  "nat \<Rightarrow> nat \<Rightarrow> shared_stack_pile_decision \<Rightarrow> shared_stack_state \<Rightarrow> draft_card list
    \<Rightarrow> (shared_stack_state \<times> draft_card list \<times> bool) option" where
  "decide_pile seat pile_index decision st pool =
     (case decision of
        Take \<Rightarrow> (let (st', pool') = take_pile pile_index st pool in Some (st', pool', True))
      | Decline \<Rightarrow>
          (let st1 = feed_pile pile_index st in
           if pile_index + 1 < length (piles st1)
           then map_option (\<lambda>st'. (st', pool, False)) (advance_cursor st1)
           else (let (st', pool') = forced_draw seat st1 pool in Some (st', pool', True))))"

definition clear_forced_draw :: "nat \<Rightarrow> u8 \<Rightarrow> shared_stack_state \<Rightarrow> shared_stack_state" where
  "clear_forced_draw seat seat_count st =
     st\<lparr>forced_draws := (vec_resize (unat seat_count) None (forced_draws st))[seat := None]\<rparr>"

definition record_decision :: "shared_stack_decision_record \<Rightarrow> shared_stack_state \<Rightarrow> shared_stack_state" where
  "record_decision r st =
     (let h = stack_history st @ [r] in
      st\<lparr>decisions := decisions st + 1,
         stack_history := (if SHARED_STACK_HISTORY_CAPACITY < length h
           then drop (length h - SHARED_STACK_HISTORY_CAPACITY) h else h)\<rparr>)"

text \<open>\<open>None\<close>: the first pile or the first inspection count does not exist.\<close>

definition end_turn :: "u8 \<Rightarrow> shared_stack_state \<Rightarrow> shared_stack_state option" where
  "end_turn seat_count st =
     (if inspected st = [] \<or> piles st = [] then None
      else Some (st\<lparr>active_seat := (active_seat st + 1) mod seat_count, stack_cursor := 0,
        inspected := (map (\<lambda>_. 0) (inspected st))[0 := length (piles st ! 0)]\<rparr>))"

definition stack_exhausted :: "shared_stack_state \<Rightarrow> bool" where
  "stack_exhausted st \<longleftrightarrow> main_stack st = [] \<and> list_all (\<lambda>p. p = []) (piles st)"

text \<open>Everything after the legality check.\<close>

definition stack_turn ::
  "u8 \<Rightarrow> u8 \<Rightarrow> u8 \<Rightarrow> shared_stack_pile_decision \<Rightarrow> shared_stack_state \<Rightarrow> draft_card list
    \<Rightarrow> (shared_stack_state \<times> draft_card list) option" where
  "stack_turn seat_count seat pile decision st pool =
     (let pile_size = length (piles st ! unat pile);
          st0 = clear_forced_draw (unat seat) seat_count st
      in case decide_pile (unat seat) (unat pile) decision st0 pool of
           None \<Rightarrow> None
         | Some (st1, pool', turn_ends) \<Rightarrow>
             (let st2 = record_decision
                    \<lparr>rec_seat = seat, rec_pile = pile, rec_decision = decision, rec_pile_size = pile_size\<rparr> st1
              in map_option (\<lambda>st'. (st', pool')) (if turn_ends then end_turn seat_count st2 else Some st2)))"

definition apply_shared_stack_decision ::
  "draft_session \<Rightarrow> u8 \<Rightarrow> u8 \<Rightarrow> shared_stack_pile_decision \<Rightarrow> draft_outcome" where
  "apply_shared_stack_decision s seat pile decision =
     (if status s \<noteq> Drafting then (s, Err (InvalidTransition (status s) ''SharedStackDecision''))
      else (let pod_size = as_u8 (length (seats s)) in
        if pod_size \<le> seat then (s, Err (SeatOutOfRange seat pod_size))
        else (case session_shared_stack s of
            Panic \<Rightarrow> (s, Panic)
          | Err e \<Rightarrow> (s, Err e)
          | Ok st \<Rightarrow>
              (case refusal_for st seat pile decision of
                 Some reason \<Rightarrow> (s, Err (SharedStackDecisionRefused seat pile reason))
               | None \<Rightarrow>
                   (case vec_get (pools s) (unat seat) of
                      None \<Rightarrow> (s, Panic)
                    | Some pool \<Rightarrow>
                        (case stack_turn pod_size seat pile decision st pool of
                           None \<Rightarrow> (s, Panic)
                         | Some (st', pool') \<Rightarrow>
                             (let s1 = s\<lparr>shared_stack := Some st', pools := (pools s)[unat seat := pool']\<rparr>;
                                  applied = SharedStackDecisionApplied seat pile decision
                              in if stack_exhausted st'
                                 then (s1\<lparr>status := Deckbuilding\<rparr>, Ok [applied, TransitionedTo Deckbuilding])
                                 else (s1, Ok [applied]))))))))"

subsection \<open>Invariants of the shared stack\<close>

definition table_cards :: "shared_stack_state \<Rightarrow> draft_card multiset" where
  "table_cards st = mset (main_stack st) + mset (concat (piles st))"

text \<open>
  Shape, and the refill discipline: as long as the stack holds cards, every pile does.
\<close>

definition stack_core :: "nat \<Rightarrow> shared_stack_state \<Rightarrow> bool" where
  "stack_core n st \<longleftrightarrow>
     0 < n \<and> n < 256 \<and> piles st \<noteq> [] \<and> length (piles st) < 256 \<and>
     length (inspected st) = length (piles st) \<and>
     unat (stack_cursor st) < length (piles st) \<and>
     unat (active_seat st) < n \<and> unat (starting_seat st) < n \<and>
     (main_stack st \<noteq> [] \<longrightarrow> (\<forall>p\<in>set (piles st). p \<noteq> [])) \<and>
     (forced_draws st = [] \<or> length (forced_draws st) = n) \<and>
     length (stack_history st) \<le> SHARED_STACK_HISTORY_CAPACITY \<and>
     (\<forall>r\<in>set (stack_history st). unat (rec_pile r) < length (piles st) \<and> unat (rec_seat r) < n)"

text \<open>A seat has looked at no more than a pile holds, and at nothing beyond its cursor.\<close>

definition inspected_ok :: "shared_stack_state \<Rightarrow> bool" where
  "inspected_ok st \<longleftrightarrow>
     (\<forall>j<length (piles st). inspected st ! j \<le> length (piles st ! j)) \<and>
     (\<forall>j<length (piles st). unat (stack_cursor st) < j \<longrightarrow> inspected st ! j = 0)"

text \<open>The existential of the module's comment: some pile at or after the cursor holds cards.\<close>

definition stack_live :: "shared_stack_state \<Rightarrow> bool" where
  "stack_live st \<longleftrightarrow> (\<exists>j. unat (stack_cursor st) \<le> j \<and> j < length (piles st) \<and> piles st ! j \<noteq> [])"

definition stack_wf :: "nat \<Rightarrow> shared_stack_state \<Rightarrow> bool" where
  "stack_wf n st \<longleftrightarrow> stack_core n st \<and> inspected_ok st"

definition stack_potential :: "shared_stack_state \<Rightarrow> nat" where
  "stack_potential st =
     size (table_cards st) * length (piles st) - unat (stack_cursor st)"

subsection \<open>Legality and progress\<close>

lemma refusal_for_None:
  "refusal_for st seat pile d = None \<longleftrightarrow>
     seat = active_seat st \<and> pile = stack_cursor st \<and> unat pile < length (piles st) \<and>
     (case d of
        Take \<Rightarrow> piles st ! unat pile \<noteq> []
      | Decline \<Rightarrow> (\<exists>j. unat pile < j \<and> j < length (piles st) \<and> piles st ! j \<noteq> [])
          \<or> (unat pile + 1 = length (piles st) \<and> 2 \<le> length (main_stack st)))"
proof -
  have "list_ex (\<lambda>p. p \<noteq> []) (drop (unat pile + 1) (piles st))
      \<longleftrightarrow> (\<exists>j. unat pile < j \<and> j < length (piles st) \<and> piles st ! j \<noteq> [])"
  proof
    assume "list_ex (\<lambda>p. p \<noteq> []) (drop (unat pile + 1) (piles st))"
    then obtain k where "k < length (piles st) - (unat pile + 1)" "piles st ! (unat pile + 1 + k) \<noteq> []"
      by (auto simp: list_ex_length)
    then show "\<exists>j. unat pile < j \<and> j < length (piles st) \<and> piles st ! j \<noteq> []"
      by (intro exI [of _ "unat pile + 1 + k"]) auto
  next
    assume "\<exists>j. unat pile < j \<and> j < length (piles st) \<and> piles st ! j \<noteq> []"
    then obtain j where "unat pile < j" "j < length (piles st)" "piles st ! j \<noteq> []" by blast
    then show "list_ex (\<lambda>p. p \<noteq> []) (drop (unat pile + 1) (piles st))"
      by (auto simp: list_ex_length intro!: exI [of _ "j - (unat pile + 1)"])
  qed
  then show ?thesis
    by (auto simp: refusal_for_def vec_get_def Let_def split: shared_stack_pile_decision.splits)
qed

lemma forced_decision_legal:
  "forced_decision st seat = Some d \<Longrightarrow> refusal_for st seat (stack_cursor st) d = None"
  by (auto simp: forced_decision_def find_Some_iff)

lemma all_pile_decisions: "(\<forall>d. P d) \<longleftrightarrow> P Take \<and> P Decline"
  by (metis shared_stack_pile_decision.exhaust)

lemma forced_decision_None_iff:
  "forced_decision st seat = None \<longleftrightarrow> (\<forall>d. refusal_for st seat (stack_cursor st) d \<noteq> None)"
  unfolding all_pile_decisions by (auto simp: forced_decision_def ALL_pile_decisions_def)

lemma stack_live_decision:
  assumes "stack_live st" and "unat (stack_cursor st) < length (piles st)"
  shows "forced_decision st (active_seat st) \<noteq> None"
proof -
  from assms(1) obtain j where j: "unat (stack_cursor st) \<le> j" "j < length (piles st)" "piles st ! j \<noteq> []"
    by (auto simp: stack_live_def)
  show ?thesis
  proof (cases "j = unat (stack_cursor st)")
    case True
    with j assms(2) have "refusal_for st (active_seat st) (stack_cursor st) Take = None"
      by (simp add: refusal_for_None)
    then show ?thesis by (auto simp: forced_decision_None_iff)
  next
    case False
    with j have "unat (stack_cursor st) < j" by simp
    with j assms(2) have "refusal_for st (active_seat st) (stack_cursor st) Decline = None"
      by (auto simp: refusal_for_None)
    then show ?thesis by (auto simp: forced_decision_None_iff)
  qed
qed

subsection \<open>The parts of a turn\<close>

lemma clear_forced_draw_core:
  assumes "stack_core n st"
  shows "stack_core n (clear_forced_draw seat (as_u8 n) st)"
  using assms by (simp add: stack_core_def clear_forced_draw_def rust_len)

lemma clear_forced_draw_frame [simp]:
  "main_stack (clear_forced_draw seat m st) = main_stack st" "piles (clear_forced_draw seat m st) = piles st"
  "stack_cursor (clear_forced_draw seat m st) = stack_cursor st" "inspected (clear_forced_draw seat m st) = inspected st"
  "active_seat (clear_forced_draw seat m st) = active_seat st" "table_cards (clear_forced_draw seat m st) = table_cards st"
  "stack_history (clear_forced_draw seat m st) = stack_history st"
  "starting_seat (clear_forced_draw seat m st) = starting_seat st"
  by (simp_all add: clear_forced_draw_def table_cards_def)

lemma take_pile_core:
  assumes "stack_core n st" and "c < length (piles st)"
  shows "stack_core n (fst (take_pile c st pool))"
proof (cases "main_stack st" rule: rev_cases)
  case Nil
  with assms show ?thesis by (simp add: take_pile_def stack_core_def)
next
  case (snoc rest x)
  note m = snoc
  have "\<forall>p\<in>set ((piles st)[c := [x]]). p \<noteq> []"
    using assms(1) m set_update_subset_insert [of "piles st" c "[x]"] by (auto simp: stack_core_def)
  with assms m show ?thesis by (simp add: take_pile_def stack_core_def)
qed

lemma take_pile_cards:
  assumes "c < length (piles st)"
  shows "table_cards (fst (take_pile c st pool)) + mset (snd (take_pile c st pool)) = table_cards st + mset pool"
    and "size (table_cards (fst (take_pile c st pool))) + length (piles st ! c) = size (table_cards st)"
proof -
  note upd = mset_concat_update [OF assms]
  have t: "table_cards (fst (take_pile c st pool)) + mset (piles st ! c) = table_cards st"
  proof (cases "main_stack st" rule: rev_cases)
    case Nil
    with upd [of "[]"] show ?thesis by (simp add: take_pile_def table_cards_def add.assoc)
  next
    case (snoc rest x)
    with upd [of "[x]"] show ?thesis by (simp add: take_pile_def table_cards_def add.assoc)
  qed
  have p: "snd (take_pile c st pool) = pool @ piles st ! c"
    by (simp add: take_pile_def split: option.split prod.split)
  show "table_cards (fst (take_pile c st pool)) + mset (snd (take_pile c st pool)) = table_cards st + mset pool"
    using t by (simp add: p add.assoc add.commute)
  show "size (table_cards (fst (take_pile c st pool))) + length (piles st ! c) = size (table_cards st)"
    using arg_cong [OF t, of size] by simp
qed

lemma feed_pile_core:
  assumes "stack_core n st" and "c < length (piles st)"
  shows "stack_core n (feed_pile c st)"
proof (cases "main_stack st" rule: rev_cases)
  case Nil
  with assms show ?thesis by (simp add: feed_pile_def)
next
  case (snoc rest x)
  note m = snoc
  have "\<forall>p\<in>set ((piles st)[c := piles st ! c @ [x]]). p \<noteq> []"
    using assms(1) m set_update_subset_insert [of "piles st" c "piles st ! c @ [x]"] by (auto simp: stack_core_def)
  with assms m show ?thesis by (simp add: feed_pile_def stack_core_def)
qed

lemma feed_pile_cards:
  assumes "c < length (piles st)"
  shows "table_cards (feed_pile c st) = table_cards st"
proof (cases "main_stack st" rule: rev_cases)
  case Nil
  then show ?thesis by (simp add: feed_pile_def)
next
  case (snoc rest x)
  have "mset (concat ((piles st)[c := piles st ! c @ [x]])) = add_mset x (mset (concat (piles st)))"
    using mset_concat_update [OF assms, of "piles st ! c @ [x]"] by simp
  with snoc show ?thesis by (simp add: feed_pile_def table_cards_def)
qed

lemma feed_pile_frame [simp]:
  "stack_cursor (feed_pile c st) = stack_cursor st" "inspected (feed_pile c st) = inspected st"
  "length (piles (feed_pile c st)) = length (piles st)" "active_seat (feed_pile c st) = active_seat st"
  "length (main_stack (feed_pile c st)) = length (main_stack st) - 1"
  by (cases "main_stack st" rule: rev_cases; simp add: feed_pile_def)+

lemma feed_pile_grows:
  assumes "j < length (piles st)"
  shows "length (piles st ! j) \<le> length (piles (feed_pile c st) ! j)"
  using assms by (cases "j = c") (auto simp: feed_pile_def split: option.split)

lemma forced_draw_core: "stack_core n st \<Longrightarrow> stack_core n (fst (forced_draw seat st pool))"
  by (auto simp: forced_draw_def stack_core_def vec_pop_Some split: option.split)

lemma forced_draw_cards:
  shows "table_cards (fst (forced_draw seat st pool)) + mset (snd (forced_draw seat st pool)) = table_cards st + mset pool"
    and "main_stack st \<noteq> [] \<Longrightarrow> size (table_cards (fst (forced_draw seat st pool))) < size (table_cards st)"
  by (cases "main_stack st" rule: rev_cases; simp add: forced_draw_def table_cards_def)+

lemma forced_draw_frame [simp]: "piles (fst (forced_draw seat st pool)) = piles st"
  by (auto simp: forced_draw_def split: option.split)

lemma record_decision_core:
  assumes "stack_core n st" and "unat (rec_pile r) < length (piles st)" and "unat (rec_seat r) < n"
  shows "stack_core n (record_decision r st)"
  using assms
  by (auto simp: record_decision_def stack_core_def Let_def dest: in_set_dropD)

lemma record_decision_frame [simp]:
  "main_stack (record_decision r st) = main_stack st" "piles (record_decision r st) = piles st"
  "stack_cursor (record_decision r st) = stack_cursor st" "inspected (record_decision r st) = inspected st"
  "table_cards (record_decision r st) = table_cards st" "active_seat (record_decision r st) = active_seat st"
  by (simp_all add: record_decision_def Let_def table_cards_def)

lemma end_turn_outcome:
  assumes "stack_core n st"
  obtains st' where "end_turn (as_u8 n) st = Some st'" and "stack_wf n st'" and "table_cards st' = table_cards st"
    and "main_stack st' = main_stack st" and "piles st' = piles st" and "stack_cursor st' = 0"
    and "unat (active_seat st') = (unat (active_seat st) + 1) mod n"
proof -
  define st' where "st' = st\<lparr>active_seat := (active_seat st + 1) mod as_u8 n, stack_cursor := 0,
      inspected := (map (\<lambda>_. 0) (inspected st))[0 := length (piles st ! 0)]\<rparr>"
  have n: "0 < n" "n < 256" "unat (active_seat st) < n" and ne: "inspected st \<noteq> []" "piles st \<noteq> []"
    using assms by (auto simp: stack_core_def)
  have "active_seat st < as_u8 n" using n by (simp add: word_less_nat_alt)
  from unat_next_left [OF this] n have act: "unat (active_seat st') = (unat (active_seat st) + 1) mod n"
    by (simp add: st'_def)
  have "stack_core n st'"
    using assms act n by (simp add: stack_core_def st'_def)
  moreover have "inspected_ok st'"
    using assms by (auto simp: inspected_ok_def st'_def stack_core_def nth_list_update)
  ultimately have "stack_wf n st'" by (simp add: stack_wf_def)
  moreover have "end_turn (as_u8 n) st = Some st'" using ne by (simp add: end_turn_def st'_def)
  ultimately show thesis using that [of st'] act by (simp add: st'_def table_cards_def)
qed

lemma advance_cursor_outcome:
  assumes core: "stack_core n st" and insp: "inspected_ok st" and next': "unat (stack_cursor st) + 1 < length (piles st)"
  obtains st' where "advance_cursor st = Some st'" and "stack_wf n st'" and "table_cards st' = table_cards st"
    and "main_stack st' = main_stack st" and "piles st' = piles st"
    and "unat (stack_cursor st') = unat (stack_cursor st) + 1"
proof -
  have len: "length (piles st) < 256" "length (inspected st) = length (piles st)"
    using core by (auto simp: stack_core_def)
  have c: "unat (stack_cursor st + 1) = unat (stack_cursor st) + 1"
    using next' len by (simp add: unat_word_ariths)
  let ?c = "stack_cursor st + 1"
  let ?st = "st\<lparr>stack_cursor := ?c, inspected := (inspected st)[unat ?c := length (piles st ! unat ?c)]\<rparr>"
  have "advance_cursor st = Some ?st"
    using next' len c by (simp add: advance_cursor_def Let_def)
  moreover have "stack_core n ?st" using core next' c by (simp add: stack_core_def)
  moreover have "inspected_ok ?st"
    using insp len next' c by (auto simp: inspected_ok_def nth_list_update)
  ultimately show thesis using that [of ?st] c by (simp add: stack_wf_def table_cards_def)
qed

lemma live_or_exhausted:
  assumes "stack_core n st" and "stack_cursor st = 0"
  shows "stack_exhausted st \<or> stack_live st"
proof (cases "\<forall>p\<in>set (piles st). p = []")
  case True
  moreover have "main_stack st = []"
    using True assms(1) list.set_intros(1) by (cases "piles st") (auto simp: stack_core_def)
  ultimately show ?thesis by (simp add: stack_exhausted_def list_all_iff)
next
  case False
  then obtain j where "j < length (piles st)" "piles st ! j \<noteq> []" by (auto simp: in_set_conv_nth)
  with assms(2) show ?thesis by (auto simp: stack_live_def)
qed

lemma potential_turn_end:
  assumes "size (table_cards st') < size (table_cards st)" and "length (piles st') = length (piles st)"
    and "stack_cursor st' = 0" and "unat (stack_cursor st) < length (piles st)"
  shows "stack_potential st' < stack_potential st"
proof -
  have "Suc (size (table_cards st')) * length (piles st) \<le> size (table_cards st) * length (piles st)"
    using assms(1) by (intro mult_le_mono1) simp
  with assms(2-4) show ?thesis unfolding stack_potential_def by simp
qed

text \<open>The promises of one accepted decision.\<close>

definition turn_promise :: "nat \<Rightarrow> shared_stack_state \<Rightarrow> draft_card list \<Rightarrow> shared_stack_state \<Rightarrow> draft_card list \<Rightarrow> bool" where
  "turn_promise n st pool st' pool' \<longleftrightarrow>
     stack_wf n st' \<and> (stack_exhausted st' \<or> stack_live st') \<and>
     table_cards st' + mset pool' = table_cards st + mset pool \<and>
     stack_potential st' < stack_potential st \<and> length (piles st') = length (piles st)"

lemma turn_end_promise:
  assumes core: "stack_core n st1" and seat: "unat seat < n" and pile: "unat pile < length (piles st)"
    and len: "length (piles st1) = length (piles st)" and cur: "unat (stack_cursor st) < length (piles st)"
    and cards: "table_cards st1 + mset pool' = table_cards st + mset pool"
    and less: "size (table_cards st1) < size (table_cards st)"
  shows "\<exists>st'. end_turn (as_u8 n) (record_decision
      \<lparr>rec_seat = seat, rec_pile = pile, rec_decision = d, rec_pile_size = k\<rparr> st1) = Some st'
    \<and> turn_promise n st pool st' pool'"
proof -
  let ?st2 = "record_decision \<lparr>rec_seat = seat, rec_pile = pile, rec_decision = d, rec_pile_size = k\<rparr> st1"
  have "stack_core n ?st2" using record_decision_core [OF core] pile seat len by simp
  from end_turn_outcome [OF this] obtain st' where st': "end_turn (as_u8 n) ?st2 = Some st'" "stack_wf n st'"
      "table_cards st' = table_cards ?st2" "piles st' = piles ?st2" "stack_cursor st' = 0" by metis
  have "stack_potential st' < stack_potential st"
    by (rule potential_turn_end) (use st' less len cur in simp_all)
  moreover have "stack_exhausted st' \<or> stack_live st'"
    using live_or_exhausted [of n st'] st' by (simp add: stack_wf_def)
  ultimately show ?thesis using st' cards len by (simp add: turn_promise_def)
qed

lemma stack_turn_promise:
  assumes wf: "stack_wf n st" and legal: "refusal_for st seat pile d = None"
  shows "\<exists>st' pool'. stack_turn (as_u8 n) seat pile d st pool = Some (st', pool') \<and> turn_promise n st pool st' pool'"
proof -
  let ?st0 = "clear_forced_draw (unat seat) (as_u8 n) st"
  have core: "stack_core n ?st0" and insp: "inspected_ok st"
    using wf by (simp_all add: stack_wf_def clear_forced_draw_core)
  from legal wf have seat: "unat seat < n" and pile: "pile = stack_cursor st" and c: "unat pile < length (piles st)"
    by (auto simp: refusal_for_None stack_wf_def stack_core_def)
  have c0: "unat pile < length (piles ?st0)" using c by simp
  show ?thesis
  proof (cases d)
    case Take
    let ?t = "take_pile (unat pile) ?st0 pool"
    have len: "length (piles (fst ?t)) = length (piles st)"
      by (simp add: take_pile_def split: option.split prod.split)
    have "0 < length (piles st ! unat pile)" using legal Take by (auto simp: refusal_for_None)
    then have less: "size (table_cards (fst ?t)) < size (table_cards st)"
      using take_pile_cards(2) [OF c0, of pool] by (simp only: clear_forced_draw_frame)
    from turn_end_promise [OF take_pile_core [OF core c0] seat c len _ _ less, of "snd ?t" pool d
        "length (piles st ! unat pile)"] take_pile_cards(1) [OF c0, of pool] c pile Take
    show ?thesis by (auto simp: stack_turn_def decide_pile_def Let_def split_beta)
  next
    case Decline
    let ?f = "feed_pile (unat pile) ?st0"
    have fcore: "stack_core n ?f" by (rule feed_pile_core [OF core c0])
    have fcards: "table_cards ?f = table_cards st" using feed_pile_cards [OF c0] by simp
    show ?thesis
    proof (cases "unat pile + 1 < length (piles st)")
      case True
      have "inspected_ok ?f"
        using insp feed_pile_grows [of _ ?st0 "unat pile"] by (fastforce simp: inspected_ok_def intro: le_trans)
      from advance_cursor_outcome [OF fcore this] True pile obtain st1
        where st1: "advance_cursor ?f = Some st1" "stack_wf n st1" "table_cards st1 = table_cards st"
          "piles st1 = piles ?f" "unat (stack_cursor st1) = unat pile + 1"
        by (metis clear_forced_draw_frame(2,3) fcards feed_pile_frame(1,3))
      let ?st' = "record_decision \<lparr>rec_seat = seat, rec_pile = pile, rec_decision = d,
          rec_pile_size = length (piles st ! unat pile)\<rparr> st1"
      have "stack_wf n ?st'"
        using st1 seat c record_decision_core [of n st1] by (simp add: stack_wf_def inspected_ok_def)
      moreover have "stack_live ?st'"
      proof -
        from legal Decline True obtain j where j: "unat pile < j" "j < length (piles st)" "piles st ! j \<noteq> []"
          by (auto simp: refusal_for_None)
        then have "piles ?f ! j \<noteq> []" using feed_pile_grows [of j ?st0 "unat pile"] by auto
        with j st1 show ?thesis by (auto simp: stack_live_def intro!: exI [of _ j])
      qed
      moreover have "stack_potential ?st' < stack_potential st"
      proof -
        from legal Decline True obtain j where "j < length (piles st)" "piles st ! j \<noteq> []" by (auto simp: refusal_for_None)
        then have "concat (piles st) \<noteq> []" by (auto simp: concat_eq_Nil_conv dest: nth_mem)
        then have "1 \<le> size (table_cards st)" by (simp add: table_cards_def Suc_le_eq)
        then have "length (piles st) \<le> size (table_cards st) * length (piles st)" by (metis mult_le_mono1 mult_1)
        moreover have "unat (stack_cursor st) < length (piles st)" using c pile by simp
        ultimately have "unat (stack_cursor st) < size (table_cards st) * length (piles st)" by (rule order_less_le_trans [rotated])
        then have "size (table_cards st) * length (piles st) - Suc (unat (stack_cursor st))
            < size (table_cards st) * length (piles st) - unat (stack_cursor st)" by (intro diff_less_mono2) simp_all
        with st1 pile show ?thesis by (simp add: stack_potential_def)
      qed
      ultimately have "turn_promise n st pool ?st' pool"
        using st1 by (simp add: turn_promise_def)
      with True st1 Decline show ?thesis by (auto simp: stack_turn_def decide_pile_def Let_def)
    next
      case False
      with legal Decline have two: "2 \<le> length (main_stack st)" by (auto simp: refusal_for_None)
      let ?t = "forced_draw (unat seat) ?f pool"
      have "main_stack ?f \<noteq> []" using two feed_pile_frame(5) [of "unat pile" ?st0] by (metis clear_forced_draw_frame(1)
          diff_is_0_eq list.size(3) not_one_le_zero numeral_le_one_iff semiring_norm(69) order_trans)
      then have less: "size (table_cards (fst ?t)) < size (table_cards st)"
        using forced_draw_cards(2) [of ?f "unat seat" pool] fcards by simp
      have len: "length (piles (fst ?t)) = length (piles st)" by simp
      from turn_end_promise [OF forced_draw_core [OF fcore] seat c len _ _ less, of "snd ?t" pool d
          "length (piles st ! unat pile)"] forced_draw_cards(1) [of "unat seat" ?f pool] fcards c pile False Decline
      show ?thesis by (auto simp: stack_turn_def decide_pile_def Let_def split_beta)
    qed
  qed
qed

subsection \<open>Sessions that draft from a shared stack\<close>

text \<open>The invariant of a Winston session from the deal to the end of the draft.\<close>

definition stack_session :: "draft_session \<Rightarrow> bool" where
  "stack_session s \<longleftrightarrow>
     pod_wf s \<and> no_packs s \<and>
     (case shared_stack s of
        None \<Rightarrow> False
      | Some st \<Rightarrow> stack_wf (length (seats s)) st \<and>
          (status s = Drafting \<longrightarrow> stack_live st) \<and> (status s \<noteq> Drafting \<longrightarrow> stack_exhausted st))"

definition decision_step :: "draft_session \<Rightarrow> u8 \<times> u8 \<times> shared_stack_pile_decision \<Rightarrow> draft_session option" where
  "decision_step s a =
     (case a of (seat, pile, d) \<Rightarrow> accepted (apply_shared_stack_decision s seat pile d))"

definition session_potential :: "draft_session \<Rightarrow> nat" where
  "session_potential s = (case shared_stack s of None \<Rightarrow> 0 | Some st \<Rightarrow> stack_potential st)"

text \<open>The move of the timeout path, asked of the seat to act.\<close>

definition forced_move :: "draft_session \<Rightarrow> u8 \<times> u8 \<times> shared_stack_pile_decision" where
  "forced_move s =
     (case shared_stack s of
        None \<Rightarrow> (0, 0, Take)
      | Some st \<Rightarrow> (active_seat st, stack_cursor st,
          case forced_decision st (active_seat st) of Some d \<Rightarrow> d | None \<Rightarrow> Take))"

lemma stack_sessionE:
  assumes "stack_session s"
  obtains st where "shared_stack s = Some st" "stack_wf (length (seats s)) st" "pod_wf s"
    "status s = Drafting \<Longrightarrow> stack_live st" "status s \<noteq> Drafting \<Longrightarrow> stack_exhausted st"
  using assms by (auto simp: stack_session_def split: option.splits)

lemma apply_decision_unchanged:
  "\<not> is_ok (snd (apply_shared_stack_decision s seat pile d)) \<Longrightarrow> fst (apply_shared_stack_decision s seat pile d) = s"
  by (auto simp: apply_shared_stack_decision_def Let_def split: rust_result.splits option.splits if_splits)

lemma apply_decision_accepted:
  assumes pod: "pod_wf s" and wf: "stack_wf (length (seats s)) st" and dr: "status s = Drafting" and st: "shared_stack s = Some st"
    and legal: "refusal_for st seat pile d = None"
  shows "\<exists>st' pool'. unat seat < length (seats s) \<and>
    apply_shared_stack_decision s seat pile d =
      (s\<lparr>shared_stack := Some st', pools := (pools s)[unat seat := pool'],
         status := (if stack_exhausted st' then Deckbuilding else Drafting)\<rparr>,
       Ok (SharedStackDecisionApplied seat pile d # (if stack_exhausted st' then [TransitionedTo Deckbuilding] else [])))
    \<and> turn_promise (length (seats s)) st (pools s ! unat seat) st' pool'"
proof -
  let ?n = "length (seats s)"
  from wf legal have seat: "unat seat < ?n" by (auto simp: refusal_for_None stack_wf_def stack_core_def)
  then have lt: "\<not> as_u8 ?n \<le> seat" using pod by (simp add: pod_wf_def word_le_nat_alt)
  from stack_turn_promise [OF wf legal] obtain st' pool'
    where turn: "stack_turn (as_u8 ?n) seat pile d st (pools s ! unat seat) = Some (st', pool')"
      "turn_promise ?n st (pools s ! unat seat) st' pool'" by blast
  have "vec_get (pools s) (unat seat) = Some (pools s ! unat seat)" using seat pod by (simp add: pod_wf_def)
  with dr st legal lt turn seat show ?thesis
    by (intro exI [of _ st'] exI [of _ pool'])
       (simp add: apply_shared_stack_decision_def session_shared_stack_def)
qed

lemma apply_decision_cases:
  assumes st: "shared_stack s = Some st"
  obtains (refused) e where "apply_shared_stack_decision s seat pile d = (s, Err e)"
  | (accepted) "status s = Drafting" and "refusal_for st seat pile d = None"
proof -
  show thesis
  proof (cases "status s = Drafting \<and> seat < as_u8 (length (seats s)) \<and> refusal_for st seat pile d = None")
    case True
    then show thesis by (intro accepted) simp_all
  next
    case False
    with st have "\<exists>e. apply_shared_stack_decision s seat pile d = (s, Err e)"
      by (auto simp: apply_shared_stack_decision_def session_shared_stack_def Let_def not_le split: option.splits)
    then show thesis using refused by blast
  qed
qed

lemma decision_pools_cards:
  assumes "unat seat < length (pools s)" and "table_cards st' + mset pool' = table_cards st + mset (pools s ! unat seat)"
    and "shared_stack s = Some st"
  shows "cards_in_event (s\<lparr>shared_stack := Some st', pools := (pools s)[unat seat := pool'], status := x\<rparr>) = cards_in_event s"
proof -
  have "mset (concat ((pools s)[unat seat := pool'])) + table_cards st' = mset (concat (pools s)) + table_cards st"
  proof -
    have "mset (concat ((pools s)[unat seat := pool'])) + table_cards st' + mset (pools s ! unat seat)
        = (mset (concat ((pools s)[unat seat := pool'])) + mset (pools s ! unat seat)) + table_cards st'"
      by (simp add: ac_simps)
    also have "\<dots> = mset (concat (pools s)) + (table_cards st' + mset pool')"
      unfolding mset_concat_update [OF assms(1)] by (simp only: ac_simps)
    also have "\<dots> = mset (concat (pools s)) + table_cards st + mset (pools s ! unat seat)"
      by (simp only: assms(2) ac_simps)
    finally show ?thesis by (rule add_right_imp_eq)
  qed
  with assms(3) show ?thesis
    by (simp add: cards_in_event_def pool_cards_def stack_cards_def table_cards_def ac_simps)
qed

lemma decision_step_accepted:
  assumes inv: "stack_session s" and step: "decision_step s (seat, pile, d) = Some s'"
  shows "stack_session s'" and "session_potential s' < session_potential s"
    and "cards_in_event s' = cards_in_event s"
proof -
  from step obtain ds where ok: "apply_shared_stack_decision s seat pile d = (s', Ok ds)"
    by (auto simp: decision_step_def accepted_iff)
  from inv obtain st where st: "shared_stack s = Some st" "stack_wf (length (seats s)) st" "pod_wf s"
    by (rule stack_sessionE)
  from st(1) have "stack_session s' \<and> session_potential s' < session_potential s \<and> cards_in_event s' = cards_in_event s"
  proof (cases rule: apply_decision_cases [where seat = seat and pile = pile and d = d])
    case (refused e)
    with ok show ?thesis by auto
  next
    case accepted
    from apply_decision_accepted [OF st(3,2) accepted(1) st(1) accepted(2)] obtain st' pool' where
      app: "s' = s\<lparr>shared_stack := Some st', pools := (pools s)[unat seat := pool'],
         status := (if stack_exhausted st' then Deckbuilding else Drafting)\<rparr>"
      and seat: "unat seat < length (seats s)"
      and tp: "turn_promise (length (seats s)) st (pools s ! unat seat) st' pool'"
      using ok by auto
    have "stack_session s'"
      using st accepted tp inv by (auto simp: app stack_session_def turn_promise_def pod_wf_def no_packs_def)
    moreover have "session_potential s' < session_potential s"
      using st accepted tp by (simp add: app session_potential_def turn_promise_def)
    moreover have "cards_in_event s' = cards_in_event s"
      unfolding app using st accepted tp seat
      by (intro decision_pools_cards) (auto simp: turn_promise_def pod_wf_def)
    ultimately show ?thesis by simp
  qed
  then show "stack_session s'" "session_potential s' < session_potential s" "cards_in_event s' = cards_in_event s"
    by blast+
qed

lemma forced_move_accepted:
  assumes inv: "stack_session s" and dr: "status s = Drafting"
  shows "decision_step s (forced_move s) \<noteq> None"
proof -
  from inv dr obtain st where st: "shared_stack s = Some st" "stack_wf (length (seats s)) st" "stack_live st" "pod_wf s"
    by (metis stack_sessionE)
  then obtain d where d: "forced_decision st (active_seat st) = Some d"
    using stack_live_decision [of st] by (fastforce simp: stack_wf_def stack_core_def)
  from apply_decision_accepted [OF st(4,2) dr st(1) forced_decision_legal [OF d]]
  show ?thesis by (auto simp: decision_step_def forced_move_def st(1) d)
qed

interpretation winston: turn_engine decision_step stack_session "\<lambda>s. status s \<noteq> Drafting" session_potential forced_move
proof (unfold_locales)
  fix s a s'
  assume "stack_session s" "decision_step s a = Some s'"
  then show "stack_session s'" "session_potential s' < session_potential s"
    using decision_step_accepted by (metis prod_cases3)+
qed (simp add: forced_move_accepted)

lemma winston_run_cards:
  "stack_session s \<Longrightarrow> run_steps decision_step s as = Some s' \<Longrightarrow> cards_in_event s' = cards_in_event s"
proof (induction "as" arbitrary: s)
  case (Cons a "as")
  then obtain s1 where "decision_step s a = Some s1" "run_steps decision_step s1 as = Some s'"
    by (auto split: option.splits)
  with Cons decision_step_accepted [of s] show ?case by (metis prod_cases3)
qed simp

lemma winston_over:
  assumes "stack_session s" and "status s \<noteq> Drafting"
  shows "pool_cards s = cards_in_event s"
proof -
  from assms obtain st where st: "shared_stack s = Some st" "stack_exhausted st" by (metis stack_sessionE)
  then have "stack_cards (shared_stack s) = {#}"
    by (auto simp: stack_cards_def stack_exhausted_def list_all_iff)
  with no_packs_cards [of s] assms(1) show ?thesis by (simp add: stack_session_def)
qed

lemma stack_potential_bound:
  assumes "stack_session s" and "shared_stack s = Some st"
  shows "session_potential s \<le> size (cards_in_event s) * length (piles st)"
proof -
  have "table_cards st \<subseteq># cards_in_event s"
    using assms(2) by (simp add: cards_in_event_def stack_cards_def table_cards_def)
  then have "size (table_cards st) \<le> size (cards_in_event s)" by (rule size_mset_mono)
  then have "size (table_cards st) * length (piles st) \<le> size (cards_in_event s) * length (piles st)" by (rule mult_le_mono1)
  then show ?thesis unfolding session_potential_def stack_potential_def assms(2) option.case by linarith
qed

lemma decision_step_frame:
  assumes "decision_step s a = Some s'"
  shows "seats s' = seats s" "config s' = config s" "draft_kind_of s' = draft_kind_of s" "set_code s' = set_code s"
  using assms
  by (auto simp: decision_step_def apply_shared_stack_decision_def Let_def split: prod.splits if_splits option.splits rust_result.splits)

subsection \<open>Properties\<close>

text \<open>A Winston table in its first turn.\<close>

definition sample_stack :: shared_stack_state where
  "sample_stack =
     \<lparr>main_stack = [sample_card ''x'' None, sample_card ''y'' None],
      piles = [[sample_card ''p'' None], [sample_card ''q'' None], [sample_card ''r'' None]],
      starting_seat = 0, active_seat = 0, stack_cursor = 0, inspected = [1, 0, 0], decisions = 0,
      stack_history = [], forced_draws = [None, None]\<rparr>"

definition sample_winston :: draft_session where
  "sample_winston =
     sample_pod\<lparr>draft_kind_of := Winston, current_pack := [None, None], shared_stack := Some sample_stack\<rparr>"

lemma sample_winston_session: "stack_session sample_winston" "status sample_winston = Drafting"
  "shared_stack sample_winston = Some sample_stack"
  by (auto simp: stack_session_def sample_winston_def sample_pod_def sample_seats_def pod_wf_def no_packs_def slot_cards_def
      sample_stack_def stack_wf_def stack_core_def inspected_ok_def stack_live_def less_Suc_eq numeral_3_eq_3)

text \<open>
  C9. A decision is accepted exactly when the draft is running, it comes from the seat to move about the
  pile at its cursor, and either takes a pile that holds cards or declines one while a later pile holds
  cards or the last pile can be fed and a card drawn; every other decision is an error that leaves the
  session as it was. An accepted one keeps the invariant of the table, neither adds nor loses a card,
  and spends potential.
\<close>

theorem decision_accepted_iff:
  assumes "stack_session s" and "shared_stack s = Some st"
  shows "if status s = Drafting \<and> seat = active_seat st \<and> pile = stack_cursor st \<and>
      (case d of
         Take \<Rightarrow> piles st ! unat pile \<noteq> []
       | Decline \<Rightarrow> (\<exists>j. unat pile < j \<and> j < length (piles st) \<and> piles st ! j \<noteq> [])
           \<or> (unat pile + 1 = length (piles st) \<and> 2 \<le> length (main_stack st)))
    then \<exists>s' ds. apply_shared_stack_decision s seat pile d = (s', Ok (SharedStackDecisionApplied seat pile d # ds)) \<and>
      stack_session s' \<and> cards_in_event s' = cards_in_event s \<and> session_potential s' < session_potential s
    else \<exists>e. apply_shared_stack_decision s seat pile d = (s, Err e)"
proof -
  from assms have wf: "stack_wf (length (seats s)) st" "pod_wf s" by (auto elim!: stack_sessionE)
  have legal: "refusal_for st seat pile d = None \<longleftrightarrow> seat = active_seat st \<and> pile = stack_cursor st \<and>
      (case d of
         Take \<Rightarrow> piles st ! unat pile \<noteq> []
       | Decline \<Rightarrow> (\<exists>j. unat pile < j \<and> j < length (piles st) \<and> piles st ! j \<noteq> [])
           \<or> (unat pile + 1 = length (piles st) \<and> 2 \<le> length (main_stack st)))"
    using wf(1) by (auto simp: refusal_for_None stack_wf_def stack_core_def)
  show ?thesis
  proof (cases "status s = Drafting \<and> refusal_for st seat pile d = None")
    case True
    then obtain s' ds where s': "apply_shared_stack_decision s seat pile d = (s', Ok (SharedStackDecisionApplied seat pile d # ds))"
      using apply_decision_accepted [OF wf(2,1) _ assms(2)] by blast
    then have "decision_step s (seat, pile, d) = Some s'" by (simp add: decision_step_def)
    with decision_step_accepted [OF assms(1)] s' True legal show ?thesis by auto
  next
    case False
    with legal show ?thesis
      by (cases rule: apply_decision_cases [OF assms(2), where seat = seat and pile = pile and d = d]) auto
  qed
qed

theorem decision_accepted_iff_witness:
  "(\<exists>s'. apply_shared_stack_decision sample_winston 0 0 Take = (s', Ok [SharedStackDecisionApplied 0 0 Take])
      \<and> cards_in_event s' = cards_in_event sample_winston)
   \<and> (\<exists>e. apply_shared_stack_decision sample_winston 1 0 Take = (sample_winston, Err e))"
proof -
  have "snd (apply_shared_stack_decision sample_winston 0 0 Take) = Ok [SharedStackDecisionApplied 0 0 Take]" by code_simp
  with decision_accepted_iff [OF sample_winston_session(1,3), of 0 0 Take] decision_accepted_iff [OF sample_winston_session(1,3), of 1 0 Take]
  show ?thesis by (auto simp: sample_winston_session(2) sample_stack_def)
qed

text \<open>
  While a Winston draft runs, the seat to move always has a legal decision: the forced decision of
  the timeout path exists for it and is accepted; a seat that is not to move is never given one.
\<close>

theorem seat_always_can_decide:
  assumes "stack_session s" and "status s = Drafting" and "shared_stack s = Some st"
  shows "(\<exists>d. forced_decision st (active_seat st) = Some d \<and>
      is_ok (snd (apply_shared_stack_decision s (active_seat st) (stack_cursor st) d)))
    \<and> (seat \<noteq> active_seat st \<longrightarrow> forced_decision st seat = None)"
proof -
  from assms have wf: "stack_wf (length (seats s)) st" "pod_wf s" "stack_live st" by (auto elim!: stack_sessionE)
  then obtain d where d: "forced_decision st (active_seat st) = Some d"
    using stack_live_decision [of st] by (auto simp: stack_wf_def stack_core_def)
  with apply_decision_accepted [OF wf(2,1) assms(2,3) forced_decision_legal [OF d]] show ?thesis
    by (auto simp: forced_decision_None_iff refusal_for_None)
qed

end
