(* ===== verification/Draft_Pick_Pass.thy ===== *)
theory Draft_Pick_Pass
  imports Draft_Types "HOL-Library.Sublist"
begin

text \<open>
  Pick-and-pass drafting (\<^verbatim>\<open>src/crates/draft-core/src/pick_pass.rs\<close>): one pick step of a seat, the
  draft-matters effect that trades a drafted card for a second pick, and the end of a pick step,
  which passes the packs, opens the next ones or ends the draft. The lemmas show which cards move
  where, that no card is created or lost, that a pick never panics on a well-formed session, and
  that the draft can always go on and ends.
\<close>

subsection \<open>Choosing cards\<close>

definition required_pick_count :: "draft_session \<Rightarrow> u8 \<Rightarrow> usize" where
  "required_pick_count s seat =
     min (unat (proc_cards_per_pick (kind_procedure (draft_kind_of s))))
       (case vec_get (current_pack s) (unat seat) of
          None \<Rightarrow> 0
        | Some slot \<Rightarrow> (case slot of None \<Rightarrow> 0 | Some pack \<Rightarrow> length pack))"

text \<open>\<^verbatim>\<open>ensure_len\<close> on both bitmaps, the only change a refused pick may leave behind.\<close>

definition ensure_flags :: "draft_session \<Rightarrow> draft_session" where
  "ensure_flags s =
     (let pod_size = as_u8 (length (seats s)) in
      s\<lparr>seats_picked_this_round := sf_ensure_len (seats_picked_this_round s) pod_size False,
        connected_seats := sf_ensure_len (connected_seats s) pod_size True\<rparr>)"

fun resolve_indices ::
  "u8 \<Rightarrow> draft_pack \<Rightarrow> nat list \<Rightarrow> string list \<Rightarrow> (nat list, draft_error) rust_result" where
  "resolve_indices seat pack indices [] = Ok indices"
| "resolve_indices seat pack indices (cid # cids) =
     (case position (\<lambda>c. instance_id c = cid) pack of
        None \<Rightarrow> Err (CardNotInPack cid)
      | Some index \<Rightarrow>
          if index \<in> set indices then Err (DuplicatePickCardId seat cid)
          else resolve_indices seat pack (indices @ [index]) cids)"

text \<open>\<^verbatim>\<open>Vec::remove\<close> one slot after the other; \<open>None\<close> is an index out of range.\<close>

fun remove_slots :: "(nat \<times> nat) list \<Rightarrow> draft_pack \<Rightarrow> ((nat \<times> draft_card) list \<times> draft_pack) option" where
  "remove_slots [] pack = Some ([], pack)"
| "remove_slots ((slot, index) # rest) pack =
     (if index < length pack
      then map_option (\<lambda>(picked, pack'). ((slot, pack ! index) # picked, pack'))
             (remove_slots rest (vec_remove index pack))
      else None)"

text \<open>Descending index order for the removal, the caller's order for the result.\<close>

definition take_picked :: "nat list \<Rightarrow> draft_pack \<Rightarrow> (draft_card list \<times> draft_pack) option" where
  "take_picked indices pack =
     (let removal_order = rev (sort_key snd (enumerate 0 indices)) in
      map_option (\<lambda>(picked, pack'). (map snd (sort_key fst picked), pack'))
        (remove_slots removal_order pack))"

subsection \<open>The end of a pick step\<close>

definition owes_pick :: "draft_pack option \<Rightarrow> bool" where
  "owes_pick slot = (case slot of None \<Rightarrow> False | Some pack \<Rightarrow> pack \<noteq> [])"

fun round_complete_from :: "draft_session \<Rightarrow> nat list \<Rightarrow> bool option" where
  "round_complete_from s [] = Some True"
| "round_complete_from s (i # is) =
     (case vec_get (current_pack s) i of
        None \<Rightarrow> None
      | Some slot \<Rightarrow>
          if \<not> owes_pick slot \<or> sf_get (seats_picked_this_round s) (as_u8 i)
          then round_complete_from s is else Some False)"

definition packs_empty :: "draft_session \<Rightarrow> bool" where
  "packs_empty s \<longleftrightarrow> list_all (\<lambda>slot. \<not> owes_pick slot) (current_pack s)"

fun open_packs :: "nat list \<Rightarrow> draft_session \<Rightarrow> draft_session option" where
  "open_packs [] s = Some s"
| "open_packs (i # is) s =
     (case vec_get (packs_by_seat s) i of
        None \<Rightarrow> None
      | Some [] \<Rightarrow> open_packs is s
      | Some (pack # packs) \<Rightarrow>
          if i < length (current_pack s) \<and> i < length (current_pack_origins s)
          then open_packs is (s\<lparr>packs_by_seat := (packs_by_seat s)[i := packs],
            current_pack := (current_pack s)[i := Some pack],
            current_pack_origins := (current_pack_origins s)[i := Some (as_u8 i)]\<rparr>)
          else None)"

text \<open>
  Every index is taken from the old vectors once, so taking it is reading it. A missing origin reads
  as \<open>None\<close>, a missing pack is out of range.
\<close>

fun pass_packs ::
  "pass_direction \<Rightarrow> u8 \<Rightarrow> draft_pack option list \<Rightarrow> u8 option list \<Rightarrow> nat list
    \<Rightarrow> draft_pack option list \<times> u8 option list \<Rightarrow> (draft_pack option list \<times> u8 option list) option" where
  "pass_packs d pod_size packs origins [] acc = Some acc"
| "pass_packs d pod_size packs origins (i # is) (new_packs, new_origins) =
     (case vec_get packs i of
        None \<Rightarrow> None
      | Some slot \<Rightarrow>
          (let dest = unat (next_seat d (as_u8 i) pod_size) in
           pass_packs d pod_size packs origins is
             (new_packs[dest := slot],
              new_origins[dest := (case vec_get origins i of None \<Rightarrow> None | Some origin \<Rightarrow> origin)])))"

definition start_pack_round :: "u8 \<Rightarrow> draft_session \<Rightarrow> draft_session option" where
  "start_pack_round pod_size s =
     open_packs [0..<unat pod_size]
       (s\<lparr>pass_direction := pass_for_pack (current_pack_number s), pick_number := 0,
          current_pack_origins := replicate (unat pod_size) None\<rparr>)"

definition pass_round :: "u8 \<Rightarrow> draft_session \<Rightarrow> draft_session option" where
  "pass_round pod_size s =
     map_option (\<lambda>(new_packs, new_origins).
         s\<lparr>pick_number := pick_number s + 1, current_pack := new_packs, current_pack_origins := new_origins\<rparr>)
       (pass_packs (pass_direction s) pod_size (current_pack s) (current_pack_origins s) [0..<unat pod_size]
         (replicate (unat pod_size) None, replicate (unat pod_size) None))"

text \<open>What happens once every seat that owes a pick has picked.\<close>

definition advance_pack_round :: "u8 \<Rightarrow> draft_session \<Rightarrow> (draft_session \<times> draft_delta) option" where
  "advance_pack_round pod_size s =
     (let s1 = s\<lparr>seats_picked_this_round := sf_clear (seats_picked_this_round s)\<rparr> in
      if packs_empty s1 then
        (let s2 = s1\<lparr>current_pack_number := current_pack_number s1 + 1\<rparr> in
         if cfg_pack_count (config s2) \<le> current_pack_number s2
         then Some (s2\<lparr>status := Deckbuilding\<rparr>, TransitionedTo Deckbuilding)
         else map_option (\<lambda>s3. (s3, PackExhausted (current_pack_number s2))) (start_pack_round pod_size s2))
      else map_option (\<lambda>s2. (s2, PackPassed)) (pass_round pod_size s1))"

definition mark_picked :: "u8 \<Rightarrow> draft_session \<Rightarrow> draft_session" where
  "mark_picked seat s =
     s\<lparr>current_pack_origins := vec_resize (unat (as_u8 (length (seats s)))) None (current_pack_origins s),
       seats_picked_this_round := sf_set (seats_picked_this_round s) seat True\<rparr>"

definition finish_pick :: "draft_session \<Rightarrow> u8 \<Rightarrow> string list \<Rightarrow> draft_outcome" where
  "finish_pick s seat card_instance_ids =
     (let pod_size = as_u8 (length (seats s));
          s1 = mark_picked seat s;
          deltas = map (CardPicked seat) card_instance_ids
      in case round_complete_from s1 [0..<unat pod_size] of
           None \<Rightarrow> (s1, Panic)
         | Some False \<Rightarrow> (s1, Ok deltas)
         | Some True \<Rightarrow>
             (case advance_pack_round pod_size s1 of
                None \<Rightarrow> (s1, Panic)
              | Some (s2, delta) \<Rightarrow> (s2, Ok (deltas @ [delta]))))"

subsection \<open>The two picks\<close>

definition apply_pick_inner :: "draft_session \<Rightarrow> u8 \<Rightarrow> string list \<Rightarrow> draft_outcome" where
  "apply_pick_inner s seat card_instance_ids =
     (if status s \<noteq> Drafting then (s, Err (InvalidTransition (status s) ''Pick''))
      else (let pod_size = as_u8 (length (seats s)) in
        if pod_size \<le> seat then (s, Err (SeatOutOfRange seat pod_size))
        else (let s1 = ensure_flags s in
          if sf_get (seats_picked_this_round s1) seat then (s1, Err (SeatAlreadyPickedThisRound seat))
          else (case vec_get (current_pack s1) (unat seat) of
              None \<Rightarrow> (s1, Panic)
            | Some None \<Rightarrow> (s1, Err (NoPendingPack seat))
            | Some (Some pack) \<Rightarrow>
                if pack = [] then (s1, Err (NoPendingPack seat))
                else if length card_instance_ids \<noteq> required_pick_count s1 seat
                then (s1, Err (WrongPickCardCount seat (required_pick_count s1 seat) (length card_instance_ids)))
                else (case resolve_indices seat pack [] card_instance_ids of
                    Panic \<Rightarrow> (s1, Panic)
                  | Err e \<Rightarrow> (s1, Err e)
                  | Ok indices \<Rightarrow>
                      (case (take_picked indices pack, vec_get (pools s1) (unat seat)) of
                         (Some (picked, pack'), Some pool) \<Rightarrow>
                           finish_pick (s1\<lparr>current_pack := (current_pack s1)[unat seat := Some pack'],
                             pools := (pools s1)[unat seat := pool @ picked]\<rparr>) seat card_instance_ids
                       | _ \<Rightarrow> (s1, Panic)))))))"

definition apply_pick :: "draft_session \<Rightarrow> u8 \<Rightarrow> string list \<Rightarrow> draft_outcome" where
  "apply_pick s seat card_instance_ids = apply_pick_inner s seat card_instance_ids"

definition is_effect_card :: "string \<Rightarrow> draft_card \<Rightarrow> bool" where
  "is_effect_card effect_id c \<longleftrightarrow> instance_id c = effect_id \<and> card_draft_effect c = Some AdditionalPick"

text \<open>\<open>None\<close> is the \<^verbatim>\<open>expect\<close> on a card that is no longer in the pack.\<close>

fun remove_by_id :: "string list \<Rightarrow> draft_pack \<Rightarrow> (draft_card list \<times> draft_pack) option" where
  "remove_by_id [] pack = Some ([], pack)"
| "remove_by_id (cid # cids) pack =
     (case position (\<lambda>c. instance_id c = cid) pack of
        None \<Rightarrow> None
      | Some index \<Rightarrow>
          map_option (\<lambda>(cards, pack'). (pack ! index # cards, pack')) (remove_by_id cids (vec_remove index pack)))"

text \<open>The exchange: two cards into the pool, the effect card back into the pack.\<close>

definition exchange_effect_card ::
  "draft_session \<Rightarrow> u8 \<Rightarrow> draft_card list \<Rightarrow> nat \<Rightarrow> draft_pack \<Rightarrow> string list \<Rightarrow> draft_outcome" where
  "exchange_effect_card s seat pool effect_index pack card_instance_ids =
     (case remove_by_id card_instance_ids pack of
        None \<Rightarrow> (s, Panic)
      | Some (picked_cards, pack') \<Rightarrow>
          finish_pick (s\<lparr>current_pack := (current_pack s)[unat seat := Some (pack' @ [pool ! effect_index])],
              pools := (pools s)[unat seat := vec_remove effect_index pool @ picked_cards]\<rparr>)
            seat card_instance_ids)"

definition apply_pick_with_effect_inner ::
  "draft_session \<Rightarrow> u8 \<Rightarrow> string \<Rightarrow> string list \<Rightarrow> draft_outcome" where
  "apply_pick_with_effect_inner s seat effect_id card_instance_ids =
     (if status s \<noteq> Drafting then (s, Err (InvalidTransition (status s) ''PickWithDraftEffect''))
      else (let pod_size = as_u8 (length (seats s)) in
        if pod_size \<le> seat then (s, Err (SeatOutOfRange seat pod_size))
        else (let s1 = ensure_flags s in
          if sf_get (seats_picked_this_round s1) seat then (s1, Err (SeatAlreadyPickedThisRound seat))
          else (case (vec_get card_instance_ids 0, vec_get card_instance_ids 1) of
              (Some a, Some b) \<Rightarrow>
                if a = b then (s1, Err (InvalidDraftEffectSelection 2 1))
                else (case vec_get (pools s1) (unat seat) of
                    None \<Rightarrow> (s1, Panic)
                  | Some pool \<Rightarrow>
                      (case position (is_effect_card effect_id) pool of
                         None \<Rightarrow> (s1, Err (DraftEffectCardNotInPool effect_id))
                       | Some effect_index \<Rightarrow>
                           (case vec_get (current_pack s1) (unat seat) of
                              None \<Rightarrow> (s1, Panic)
                            | Some None \<Rightarrow> (s1, Err (NoPendingPack seat))
                            | Some (Some pack) \<Rightarrow>
                                (case find (\<lambda>cid. \<not> list_ex (\<lambda>c. instance_id c = cid) pack) card_instance_ids of
                                   Some missing_card \<Rightarrow> (s1, Err (CardNotInPack missing_card))
                                 | None \<Rightarrow> exchange_effect_card s1 seat pool effect_index pack card_instance_ids))))
            | _ \<Rightarrow> (s1, Panic)))))"

definition apply_pick_with_draft_effect ::
  "draft_session \<Rightarrow> u8 \<Rightarrow> string \<Rightarrow> string list \<Rightarrow> draft_outcome" where
  "apply_pick_with_draft_effect s seat effect_id card_instance_ids =
     (if length card_instance_ids \<noteq> 2
      then (s, Err (InvalidDraftEffectSelection 2 (length card_instance_ids)))
      else apply_pick_with_effect_inner s seat effect_id card_instance_ids)"

subsection \<open>Taking cards out of a pack\<close>

lemma remove_slots_descending:
  assumes "sorted_wrt (\<lambda>a b. snd b < snd a) order" and "\<forall>a\<in>set order. snd a < length pack"
  shows "remove_slots order pack = Some (map (\<lambda>(slot, i). (slot, pack ! i)) order, nths pack (- snd ` set order))"
  using assms
proof (induction order arbitrary: pack)
  case Nil
  then show ?case by (simp add: nths_all)
next
  case (Cons a order)
  obtain slot i where a: "a = (slot, i)" by fastforce
  with Cons.prems have i: "i < length pack" and below: "\<forall>b\<in>set order. snd b < i" by auto
  then have len: "\<forall>b\<in>set order. snd b < length (vec_remove i pack)" by (auto simp: rust_len)
  have "map (\<lambda>(slot, j). (slot, vec_remove i pack ! j)) order = map (\<lambda>(slot, j). (slot, pack ! j)) order"
    using below i by (auto simp: vec_remove_nth_below)
  with Cons.IH [OF _ len] Cons.prems(1) a i nths_vec_remove [OF i, of "snd ` set order"] below
  show ?case by simp
qed

lemma map_enumerate_snd: "map (\<lambda>x. g (snd x)) (enumerate n xs) = map g xs"
  by (induction xs arbitrary: n) simp_all

lemma take_picked_spec:
  assumes "distinct indices" and "\<forall>i\<in>set indices. i < length pack"
  shows "take_picked indices pack = Some (map ((!) pack) indices, nths pack (- set indices))"
proof -
  let ?e = "enumerate 0 indices"
  let ?o = "rev (sort_key snd ?e)"
  have "distinct (map snd (sort_key snd ?e))" and "sorted (map snd (sort_key snd ?e))"
    using assms(1) distinct_map by (auto simp: distinct_map inj_on_def in_set_enumerate_eq nth_eq_iff_index_eq)
  then have "sorted_wrt (<) (map snd (sort_key snd ?e))" by (simp add: strict_sorted_iff)
  then have desc: "sorted_wrt (\<lambda>a b. snd b < snd a) ?o"
    by (simp add: sorted_wrt_rev sorted_wrt_map)
  have snds: "snd ` set ?o = set indices" by (metis list.set_map map_snd_enumerate set_rev set_sort)
  from remove_slots_descending [OF desc] assms(2) snds
  have rem: "remove_slots ?o pack = Some (map (\<lambda>(slot, i). (slot, pack ! i)) ?o, nths pack (- set indices))"
    by fastforce
  let ?f = "\<lambda>(slot, i). (slot, pack ! i)"
  have "sort_key fst (map ?f ?o) = map ?f ?e"
  proof (rule sort_key_inj_key_eq)
    show "mset (map ?f ?o) = mset (map ?f ?e)" by simp
    show "inj_on fst (set (map ?f ?o))"
      by (auto simp: inj_on_def in_set_enumerate_eq)
    show "sorted (map fst (map ?f ?e))"
      by (simp add: comp_def split_beta)
  qed
  moreover have "map snd (map ?f ?e) = map ((!) pack) indices"
    by (simp add: comp_def split_beta map_enumerate_snd)
  ultimately show ?thesis using rem by (simp add: take_picked_def Let_def)
qed

lemma resolve_indices_Ok:
  assumes "resolve_indices seat pack acc ids = Ok indices" and "distinct acc" and "\<forall>i\<in>set acc. i < length pack"
  shows "distinct indices \<and> (\<forall>i\<in>set indices. i < length pack)
    \<and> map (\<lambda>i. instance_id (pack ! i)) indices = map (\<lambda>i. instance_id (pack ! i)) acc @ ids"
  using assms
proof (induction ids arbitrary: acc)
  case Nil
  then show ?case by simp
next
  case (Cons cid ids)
  from Cons.prems(1) obtain i where i: "position (\<lambda>c. instance_id c = cid) pack = Some i" "i \<notin> set acc"
    "resolve_indices seat pack (acc @ [i]) ids = Ok indices"
    by (simp split: option.splits if_splits)
  from position_Some [OF i(1)] have "i < length pack" "instance_id (pack ! i) = cid" by auto
  then have "distinct (acc @ [i])" "\<forall>j\<in>set (acc @ [i]). j < length pack"
    "map (\<lambda>i. instance_id (pack ! i)) (acc @ [i]) = map (\<lambda>i. instance_id (pack ! i)) acc @ [cid]"
    using Cons.prems(2,3) i(2) by auto
  with Cons.IH [OF i(3)] show ?case by (metis append.assoc append_Cons append_Nil)
qed

lemma resolve_indices_positions:
  "resolve_indices seat pack acc ids = Ok indices \<Longrightarrow>
     indices = acc @ map (\<lambda>cid. the (position (\<lambda>c. instance_id c = cid) pack)) ids"
proof (induction ids arbitrary: acc)
  case (Cons cid ids)
  from Cons.prems obtain i where i: "position (\<lambda>c. instance_id c = cid) pack = Some i"
    "resolve_indices seat pack (acc @ [i]) ids = Ok indices"
    by (simp split: option.splits if_splits)
  from Cons.IH [OF i(2)] i(1) show ?case by simp
qed simp

lemma resolve_indices_complete:
  assumes "set ids \<subseteq> instance_id ` set pack" and "distinct ids"
    and "\<forall>i\<in>set acc. i < length pack \<and> instance_id (pack ! i) \<notin> set ids"
  shows "\<exists>indices. resolve_indices seat pack acc ids = Ok indices"
  using assms
proof (induction ids arbitrary: acc)
  case Nil
  then show ?case by simp
next
  case (Cons cid ids)
  from Cons.prems(1) obtain i where i: "position (\<lambda>c. instance_id c = cid) pack = Some i"
    by (cases "position (\<lambda>c. instance_id c = cid) pack") (auto simp: position_None)
  from position_Some [OF i] have ii: "i < length pack" "instance_id (pack ! i) = cid" by auto
  with Cons.prems(3) have "i \<notin> set acc" by auto
  moreover have "\<exists>indices. resolve_indices seat pack (acc @ [i]) ids = Ok indices"
    using Cons.prems ii by (intro Cons.IH) auto
  ultimately show ?case using i by simp
qed

lemma resolve_indices_Err:
  assumes "resolve_indices seat pack acc ids = r" and "\<not> is_ok r"
  shows "\<exists>cid\<in>set ids. r = Err (CardNotInPack cid) \<and> cid \<notin> instance_id ` set pack
    \<or> r = Err (DuplicatePickCardId seat cid)"
  using assms(1)
proof (induction ids arbitrary: acc)
  case Nil
  with assms(2) show ?case by auto
next
  case (Cons cid ids)
  show ?case
  proof (cases "position (\<lambda>c. instance_id c = cid) pack")
    case None
    with Cons.prems show ?thesis by (auto simp: position_None)
  next
    case (Some i)
    show ?thesis
    proof (cases "i \<in> set acc")
      case True
      with Some Cons.prems show ?thesis by auto
    next
      case False
      with Some Cons.prems have "resolve_indices seat pack (acc @ [i]) ids = r" by simp
      from Cons.IH [OF this] show ?thesis by auto
    qed
  qed
qed

lemma remove_by_id_spec:
  assumes "remove_by_id ids pack = Some (cards, pack')"
  shows "map instance_id cards = ids \<and> mset cards + mset pack' = mset pack"
  using assms
proof (induction ids arbitrary: pack cards)
  case Nil
  then show ?case by simp
next
  case (Cons cid ids)
  then obtain i cs where i: "position (\<lambda>c. instance_id c = cid) pack = Some i"
    and rest: "remove_by_id ids (vec_remove i pack) = Some (cs, pack')" and cards: "cards = pack ! i # cs"
    by (auto split: option.splits)
  from position_Some [OF i] have "i < length pack" "instance_id (pack ! i) = cid" by auto
  with Cons.IH [OF rest] mset_vec_remove [of i pack] cards show ?case by auto
qed

lemma remove_by_id_complete:
  assumes "set ids \<subseteq> instance_id ` set pack" and "distinct ids"
  shows "remove_by_id ids pack \<noteq> None"
  using assms
proof (induction ids arbitrary: pack)
  case Nil
  then show ?case by simp
next
  case (Cons cid ids)
  from Cons.prems(1) obtain i where i: "position (\<lambda>c. instance_id c = cid) pack = Some i"
    by (cases "position (\<lambda>c. instance_id c = cid) pack") (auto simp: position_None)
  from position_Some [OF i] have ii: "i < length pack" "instance_id (pack ! i) = cid" by auto
  have "set ids \<subseteq> instance_id ` set (vec_remove i pack)"
  proof
    fix x
    assume x: "x \<in> set ids"
    with Cons.prems have "x \<in> instance_id ` set pack" "x \<noteq> cid" by auto
    then obtain c where c: "c \<in> set pack" "instance_id c = x" "x \<noteq> cid" by blast
    then have "c \<in># add_mset (pack ! i) (mset (vec_remove i pack))" using mset_vec_remove [OF ii(1)] by simp
    with c ii show "x \<in> instance_id ` set (vec_remove i pack)" by auto
  qed
  with Cons.IH Cons.prems(2) i show ?case by (auto split: option.splits)
qed

lemma take_picked_cards:
  assumes "take_picked indices pack = Some (picked, pack')"
  shows "mset picked + mset pack' = mset pack"
proof -
  have "remove_slots order xs = Some (ps, ys) \<Longrightarrow> mset (map snd ps) + mset ys = mset xs" for order xs ps ys
  proof (induction order arbitrary: xs ps)
    case (Cons a order)
    obtain slot i where a: "a = (slot, i)" by fastforce
    with Cons.prems obtain qs where i: "i < length xs" and qs: "remove_slots order (vec_remove i xs) = Some (qs, ys)"
      and ps: "ps = (slot, xs ! i) # qs" by (auto split: if_splits)
    from Cons.IH [OF qs] mset_vec_remove [OF i] ps show ?case by auto
  qed auto
  moreover from assms obtain ps where "remove_slots (rev (sort_key snd (enumerate 0 indices))) pack = Some (ps, pack')"
    "picked = map snd (sort_key fst ps)" by (auto simp: take_picked_def Let_def)
  ultimately show ?thesis by fastforce
qed

subsection \<open>Passing and opening packs\<close>

lemma mset_concat_sum: "mset (concat xss) = (\<Sum>i<length xss. mset (xss ! i))"
  by (induction xss) (simp_all add: lessThan_Suc_eq_insert_0 sum.reindex)

definition held_cards :: "draft_pack option list \<Rightarrow> draft_card multiset" where
  "held_cards slots = mset (concat (map slot_cards slots))"

definition unopened_cards :: "draft_pack list list \<Rightarrow> draft_card multiset" where
  "unopened_cards packs = mset (concat (concat packs))"

lemma held_cards_sum: "held_cards slots = (\<Sum>i<length slots. mset (slot_cards (slots ! i)))"
  by (simp add: held_cards_def mset_concat_sum)

lemma unopened_cards_sum: "unopened_cards packs = (\<Sum>i<length packs. mset (concat (packs ! i)))"
proof -
  have "concat (concat packs) = concat (map concat packs)" by (induction packs) simp_all
  then show ?thesis by (simp add: unopened_cards_def mset_concat_sum)
qed

lemma cards_in_event_alt:
  "cards_in_event s = pool_cards s + held_cards (current_pack s) + unopened_cards (packs_by_seat s) + stack_cards (shared_stack s)"
  by (simp add: cards_in_event_def held_cards_def unopened_cards_def)

lemma find_append: "find P (xs @ ys) = (case find P xs of None \<Rightarrow> find P ys | Some x \<Rightarrow> Some x)"
  by (induction xs) simp_all

lemma find_SomeD: "find P xs = Some x \<Longrightarrow> P x \<and> x \<in> set xs"
  by (induction xs) (auto split: if_splits)

text \<open>The last seat that passes to \<open>j\<close> decides what \<open>j\<close> receives.\<close>

lemma pass_packs_slots:
  assumes "\<forall>i\<in>set is. i < length packs"
  shows "\<exists>np no. pass_packs d p packs origins is (new_packs, new_origins) = Some (np, no)
    \<and> length np = length new_packs \<and> length no = length new_origins
    \<and> (\<forall>j<length new_packs. np ! j =
        (case find (\<lambda>i. unat (next_seat d (as_u8 i) p) = j) (rev is) of Some i \<Rightarrow> packs ! i | None \<Rightarrow> new_packs ! j))"
  using assms
proof (induction "is" arbitrary: new_packs new_origins)
  case Nil
  then show ?case by simp
next
  case (Cons i "is")
  let ?dest = "unat (next_seat d (as_u8 i) p)"
  let ?no = "new_origins[?dest := (case vec_get origins i of None \<Rightarrow> None | Some origin \<Rightarrow> origin)]"
  from Cons.IH [of "new_packs[?dest := packs ! i]" ?no] Cons.prems obtain np no where
    *: "pass_packs d p packs origins is (new_packs[?dest := packs ! i], ?no) = Some (np, no)"
      "length np = length new_packs" "length no = length new_origins"
      "\<forall>j<length new_packs. np ! j =
        (case find (\<lambda>i. unat (next_seat d (as_u8 i) p) = j) (rev is) of Some i \<Rightarrow> packs ! i | None \<Rightarrow> new_packs[?dest := packs ! i] ! j)"
    by auto
  have "pass_packs d p packs origins (i # is) (new_packs, new_origins) = Some (np, no)"
    using *(1) Cons.prems by (simp add: Let_def del: next_seat.simps)
  moreover have "np ! j = (case find (\<lambda>i. unat (next_seat d (as_u8 i) p) = j) (rev (i # is)) of
      Some i \<Rightarrow> packs ! i | None \<Rightarrow> new_packs ! j)" if "j < length new_packs" for j
    using *(4) that by (auto simp: find_append nth_list_update simp del: next_seat.simps split: option.splits)
  ultimately show ?case using *(2,3) by blast
qed

lemma pass_packs_outcome:
  assumes n: "length packs = n" "n < 256"
  obtains np no where
    "pass_packs d (as_u8 n) packs origins [0..<unat (as_u8 n)]
       (replicate (unat (as_u8 n)) None, replicate (unat (as_u8 n)) None) = Some (np, no)"
    "length np = n" "length no = n"
    "\<And>i. pod_passes d n \<Longrightarrow> i < n \<Longrightarrow> np ! unat (next_seat d (as_u8 i) (as_u8 n)) = packs ! i"
proof -
  have un: "unat (as_u8 n) = n" using n by simp
  from pass_packs_slots [of "[0..<n]" packs d "as_u8 n" origins "replicate n None" "replicate n None"] n
  obtain np no where *: "pass_packs d (as_u8 n) packs origins [0..<n] (replicate n None, replicate n None) = Some (np, no)"
    "length np = n" "length no = n"
    "\<forall>j<n. np ! j = (case find (\<lambda>i. unat (next_seat d (as_u8 i) (as_u8 n)) = j) (rev [0..<n]) of
        Some i \<Rightarrow> packs ! i | None \<Rightarrow> replicate n None ! j)"
    by (auto simp del: next_seat.simps upt_0 upt_Suc)
  have "np ! unat (next_seat d (as_u8 i) (as_u8 n)) = packs ! i"
    if passes: "pod_passes d n" and i: "i < n" for i
  proof -
    let ?j = "unat (next_seat d (as_u8 i) (as_u8 n))"
    obtain k where k: "find (\<lambda>i. unat (next_seat d (as_u8 i) (as_u8 n)) = ?j) (rev [0..<n]) = Some k"
      using i by (cases "find (\<lambda>i. unat (next_seat d (as_u8 i) (as_u8 n)) = ?j) (rev [0..<n])")
        (auto simp: find_None_iff simp del: next_seat.simps)
    from find_SomeD [OF this] have "unat (next_seat d (as_u8 k) (as_u8 n)) = ?j" "k \<in> set (rev [0..<n])" by blast+
    with next_index_inj [OF passes] i have "k = i" by (auto dest: inj_onD simp del: next_seat.simps)
    with k *(4) next_index(1) [OF passes i] show ?thesis by (simp del: next_seat.simps)
  qed
  with * un show thesis by (intro that [of np no]) (simp_all del: next_seat.simps)
qed

lemma pass_packs_held:
  assumes "pod_passes d n" and "length packs = n" and "length np = n"
    and "\<And>i. i < n \<Longrightarrow> np ! unat (next_seat d (as_u8 i) (as_u8 n)) = packs ! i"
  shows "held_cards np = held_cards packs"
proof -
  let ?f = "\<lambda>i. unat (next_seat d (as_u8 i) (as_u8 n))"
  have "held_cards np = (\<Sum>j<n. mset (slot_cards (np ! j)))" using assms(3) by (simp add: held_cards_sum)
  also have "\<dots> = (\<Sum>i<n. mset (slot_cards (np ! ?f i)))"
    using sum.reindex_bij_betw [OF next_index_bij [OF assms(1)], of "\<lambda>j. mset (slot_cards (np ! j))"] by simp
  also have "\<dots> = (\<Sum>i<n. mset (slot_cards (packs ! i)))"
    using assms(4) by (intro sum.cong) (simp_all del: next_seat.simps)
  finally show ?thesis using assms(2) by (simp add: held_cards_sum)
qed

lemma open_packs_outcome:
  assumes "distinct is" and "\<forall>i\<in>set is. i < n" and "length (packs_by_seat s) = n"
    and "length (current_pack s) = n" and "length (current_pack_origins s) = n"
  shows "\<exists>pbs cur org. open_packs is s =
      Some (s\<lparr>packs_by_seat := pbs, current_pack := cur, current_pack_origins := org\<rparr>)
    \<and> length pbs = n \<and> length cur = n \<and> length org = n
    \<and> (\<forall>i<n. pbs ! i = (if i \<in> set is then tl (packs_by_seat s ! i) else packs_by_seat s ! i)
        \<and> cur ! i = (if i \<in> set is \<and> packs_by_seat s ! i \<noteq> [] then Some (hd (packs_by_seat s ! i)) else current_pack s ! i))"
  using assms
proof (induction "is" arbitrary: s)
  case Nil
  then show ?case by (intro exI [of _ "packs_by_seat s"] exI [of _ "current_pack s"] exI [of _ "current_pack_origins s"]) simp
next
  case (Cons i "is")
  note IH = Cons.IH and prems = Cons.prems
  show ?case
  proof (cases "packs_by_seat s ! i")
    case Nil
    from IH [of s] prems obtain pbs cur org where
      *: "open_packs is s = Some (s\<lparr>packs_by_seat := pbs, current_pack := cur, current_pack_origins := org\<rparr>)"
        "length pbs = n" "length cur = n" "length org = n"
        "\<forall>j<n. pbs ! j = (if j \<in> set is then tl (packs_by_seat s ! j) else packs_by_seat s ! j)
          \<and> cur ! j = (if j \<in> set is \<and> packs_by_seat s ! j \<noteq> [] then Some (hd (packs_by_seat s ! j)) else current_pack s ! j)"
      by auto
    have "open_packs (i # is) s = Some (s\<lparr>packs_by_seat := pbs, current_pack := cur, current_pack_origins := org\<rparr>)"
      using *(1) Nil prems by simp
    with *(2-5) Nil show ?thesis by (intro exI [of _ pbs] exI [of _ cur] exI [of _ org]) auto
  next
    case (Cons pack packs)
    let ?s = "s\<lparr>packs_by_seat := (packs_by_seat s)[i := packs], current_pack := (current_pack s)[i := Some pack],
        current_pack_origins := (current_pack_origins s)[i := Some (as_u8 i)]\<rparr>"
    from IH [of ?s] prems obtain pbs cur org where
      *: "open_packs is ?s = Some (?s\<lparr>packs_by_seat := pbs, current_pack := cur, current_pack_origins := org\<rparr>)"
        "length pbs = n" "length cur = n" "length org = n"
        "\<forall>j<n. pbs ! j = (if j \<in> set is then tl (packs_by_seat ?s ! j) else packs_by_seat ?s ! j)
          \<and> cur ! j = (if j \<in> set is \<and> packs_by_seat ?s ! j \<noteq> [] then Some (hd (packs_by_seat ?s ! j)) else current_pack ?s ! j)"
      by auto
    have "open_packs (i # is) s = Some (s\<lparr>packs_by_seat := pbs, current_pack := cur, current_pack_origins := org\<rparr>)"
      using *(1) Cons prems by simp
    moreover have "pbs ! j = (if j \<in> set (i # is) then tl (packs_by_seat s ! j) else packs_by_seat s ! j)
        \<and> cur ! j = (if j \<in> set (i # is) \<and> packs_by_seat s ! j \<noteq> [] then Some (hd (packs_by_seat s ! j)) else current_pack s ! j)"
      if "j < n" for j
      using *(5) that Cons prems by (cases "j = i") auto
    ultimately show ?thesis using *(2-4) by blast
  qed
qed

subsection \<open>What the end of a pick step does\<close>

text \<open>The fields that passing and opening never touch.\<close>

definition same_event :: "draft_session \<Rightarrow> draft_session \<Rightarrow> bool" where
  "same_event s s' \<longleftrightarrow>
     seats s' = seats s \<and> config s' = config s \<and> draft_kind_of s' = draft_kind_of s \<and>
     shared_stack s' = shared_stack s \<and> pools s' = pools s \<and> connected_seats s' = connected_seats s \<and>
     submitted_decks s' = submitted_decks s \<and> match_records s' = match_records s \<and>
     pairings s' = pairings s \<and> current_round s' = current_round s \<and> set_code s' = set_code s"

definition pending_seat :: "draft_session \<Rightarrow> nat \<Rightarrow> bool" where
  "pending_seat s i \<longleftrightarrow> i < length (current_pack s) \<and> owes_pick (current_pack s ! i)
     \<and> \<not> sf_get (seats_picked_this_round s) (as_u8 i)"

lemma pass_round_outcome:
  assumes "pod_wf s"
  obtains s' where "pass_round (as_u8 (length (seats s))) s = Some s'" "pod_wf s'" "same_event s s'" "status s' = status s"
    "packs_by_seat s' = packs_by_seat s" "current_pack_number s' = current_pack_number s"
    "seats_picked_this_round s' = seats_picked_this_round s" "pass_direction s' = pass_direction s"
    "pod_passes (pass_direction s) (length (seats s)) \<Longrightarrow> held_cards (current_pack s') = held_cards (current_pack s)"
proof -
  note wf = pod_wfD [OF assms]
  obtain np no where *: "pass_packs (pass_direction s) (as_u8 (length (seats s))) (current_pack s) (current_pack_origins s)
       [0..<unat (as_u8 (length (seats s)))] (replicate (unat (as_u8 (length (seats s)))) None, replicate (unat (as_u8 (length (seats s)))) None)
       = Some (np, no)" "length np = length (seats s)" "length no = length (seats s)"
    "\<And>i. pod_passes (pass_direction s) (length (seats s)) \<Longrightarrow> i < length (seats s) \<Longrightarrow>
       np ! unat (next_seat (pass_direction s) (as_u8 i) (as_u8 (length (seats s)))) = current_pack s ! i"
    using pass_packs_outcome [OF wf(3,1)] by metis
  let ?s = "s\<lparr>pick_number := pick_number s + 1, current_pack := np, current_pack_origins := no\<rparr>"
  have "pass_round (as_u8 (length (seats s))) s = Some ?s" using *(1) by (simp add: pass_round_def)
  moreover have "pod_wf ?s" "same_event s ?s" using *(2,3) wf by (simp_all add: pod_wf_def same_event_def)
  moreover have "held_cards (current_pack ?s) = held_cards (current_pack s)"
    if "pod_passes (pass_direction s) (length (seats s))"
    using pass_packs_held [OF that wf(3) *(2) *(4) [OF that]] by simp
  ultimately show thesis by (intro that [of ?s]) simp_all
qed

lemma start_pack_round_outcome:
  assumes "pod_wf s" and closed: "packs_empty s"
  obtains s' where "start_pack_round (as_u8 (length (seats s))) s = Some s'" "pod_wf s'" "same_event s s'" "status s' = status s"
    "current_pack_number s' = current_pack_number s" "seats_picked_this_round s' = seats_picked_this_round s"
    "pass_direction s' = pass_for_pack (current_pack_number s)"
    "held_cards (current_pack s') + unopened_cards (packs_by_seat s') = unopened_cards (packs_by_seat s)"
    "\<And>i. i < length (seats s) \<Longrightarrow> packs_by_seat s' ! i = tl (packs_by_seat s ! i)"
    "\<And>i. i < length (seats s) \<Longrightarrow> packs_by_seat s ! i \<noteq> [] \<Longrightarrow> current_pack s' ! i = Some (hd (packs_by_seat s ! i))"
proof -
  note wf = pod_wfD [OF assms(1)]
  let ?n = "length (seats s)"
  let ?s = "s\<lparr>pass_direction := pass_for_pack (current_pack_number s), pick_number := 0,
      current_pack_origins := replicate ?n None\<rparr>"
  from open_packs_outcome [of "[0..<?n]" ?n ?s] wf obtain pbs cur org where
    *: "open_packs [0..<?n] ?s = Some (?s\<lparr>packs_by_seat := pbs, current_pack := cur, current_pack_origins := org\<rparr>)"
      "length pbs = ?n" "length cur = ?n" "length org = ?n"
      "\<And>i. i < ?n \<Longrightarrow> pbs ! i = tl (packs_by_seat s ! i)"
      "\<And>i. i < ?n \<Longrightarrow> cur ! i = (if packs_by_seat s ! i \<noteq> [] then Some (hd (packs_by_seat s ! i)) else current_pack s ! i)"
    by auto
  let ?s' = "?s\<lparr>packs_by_seat := pbs, current_pack := cur, current_pack_origins := org\<rparr>"
  have "start_pack_round (as_u8 ?n) s = Some ?s'" using *(1) wf(1) by (simp add: start_pack_round_def)
  moreover have "pod_wf ?s'" "same_event s ?s'" using *(2-4) wf by (simp_all add: pod_wf_def same_event_def)
  moreover have "held_cards cur + unopened_cards pbs = unopened_cards (packs_by_seat s)"
  proof -
    have "mset (slot_cards (cur ! i)) + mset (concat (pbs ! i)) = mset (concat (packs_by_seat s ! i))" if "i < ?n" for i
    proof (cases "packs_by_seat s ! i")
      case Nil
      have "\<not> owes_pick (current_pack s ! i)" using closed that wf(3) by (simp add: packs_empty_def list_all_length)
      with Nil * that show ?thesis by (auto simp: owes_pick_def slot_cards_def split: option.splits)
    next
      case (Cons p ps)
      with * that show ?thesis by (simp add: slot_cards_def)
    qed
    then show ?thesis
      using *(2,3) wf(4) by (simp add: held_cards_sum unopened_cards_sum flip: sum.distrib)
  qed
  ultimately show thesis using *(5,6) by (intro that [of ?s']) simp_all
qed

lemma round_complete_from_spec:
  assumes "\<forall>i\<in>set is. i < length (current_pack s)"
  shows "round_complete_from s is = Some (\<forall>i\<in>set is. \<not> pending_seat s i)"
  using assms by (induction "is") (auto simp: pending_seat_def)

lemma packs_empty_held: "packs_empty s \<Longrightarrow> held_cards (current_pack s) = {#}"
  by (auto simp: packs_empty_def held_cards_def list_all_iff owes_pick_def slot_cards_def split: option.splits)

lemma mark_picked_frame:
  assumes "pod_wf s"
  shows "pod_wf (mark_picked seat s)" "same_event s (mark_picked seat s)" "status (mark_picked seat s) = status s"
    "current_pack (mark_picked seat s) = current_pack s" "packs_by_seat (mark_picked seat s) = packs_by_seat s"
    "current_pack_number (mark_picked seat s) = current_pack_number s"
    "pass_direction (mark_picked seat s) = pass_direction s"
  using pod_wfD [OF assms] by (simp_all add: mark_picked_def pod_wf_def same_event_def)

lemma clear_flags_frame:
  assumes "pod_wf s"
  shows "pod_wf (s\<lparr>seats_picked_this_round := sf_clear (seats_picked_this_round s)\<rparr>)"
    "same_event s (s\<lparr>seats_picked_this_round := sf_clear (seats_picked_this_round s)\<rparr>)"
  using pod_wfD [OF assms] by (simp_all add: pod_wf_def same_event_def)

lemma same_event_trans: "same_event a b \<Longrightarrow> same_event b c \<Longrightarrow> same_event a c"
  by (simp add: same_event_def)

lemma advance_pack_round_outcome:
  assumes wf: "pod_wf s"
  obtains s' delta where "advance_pack_round (as_u8 (length (seats s))) s = Some (s', delta)" "pod_wf s'" "same_event s s'"
    "pod_passes (pass_direction s) (length (seats s)) \<Longrightarrow>
      held_cards (current_pack s') + unopened_cards (packs_by_seat s') = held_cards (current_pack s) + unopened_cards (packs_by_seat s)"
proof -
  let ?n = "length (seats s)"
  let ?s1 = "s\<lparr>seats_picked_this_round := sf_clear (seats_picked_this_round s)\<rparr>"
  note c = clear_flags_frame [OF wf]
  show thesis
  proof (cases "packs_empty s")
    case True
    let ?s2 = "?s1\<lparr>current_pack_number := current_pack_number s + 1\<rparr>"
    have wf2: "pod_wf ?s2" "packs_empty ?s2" using c True by (simp_all add: pod_wf_def packs_empty_def)
    show thesis
    proof (cases "cfg_pack_count (config s) \<le> current_pack_number s + 1")
      case finished: True
      show thesis
        by (rule that [of "?s2\<lparr>status := Deckbuilding\<rparr>" "TransitionedTo Deckbuilding"])
           (use True finished wf2 in \<open>simp_all add: advance_pack_round_def Let_def packs_empty_def pod_wf_def same_event_def\<close>)
    next
      case more: False
      from start_pack_round_outcome [OF wf2] obtain s' where s':
        "start_pack_round (as_u8 (length (seats ?s2))) ?s2 = Some s'" "pod_wf s'" "same_event ?s2 s'"
        "held_cards (current_pack s') + unopened_cards (packs_by_seat s') = unopened_cards (packs_by_seat ?s2)"
        by metis
      show thesis
        by (rule that [of s' "PackExhausted (current_pack_number s + 1)"])
           (use True more s' packs_empty_held [OF True] in \<open>simp_all add: advance_pack_round_def Let_def packs_empty_def same_event_def\<close>)
    qed
  next
    case False
    from pass_round_outcome [OF c(1)] obtain s' where s': "pass_round (as_u8 (length (seats ?s1))) ?s1 = Some s'" "pod_wf s'"
      "same_event ?s1 s'" "packs_by_seat s' = packs_by_seat ?s1"
      "pod_passes (pass_direction ?s1) (length (seats ?s1)) \<Longrightarrow> held_cards (current_pack s') = held_cards (current_pack ?s1)"
      by metis
    show thesis
      by (rule that [of s' PackPassed])
         (use False s' in \<open>simp_all add: advance_pack_round_def Let_def packs_empty_def same_event_def\<close>)
  qed
qed

lemma finish_pick_outcome:
  assumes wf: "pod_wf s"
  obtains s' ds where "finish_pick s seat ids = (s', Ok (map (CardPicked seat) ids @ ds))" "pod_wf s'" "same_event s s'"
    "pod_passes (pass_direction s) (length (seats s)) \<Longrightarrow> cards_in_event s' = cards_in_event s"
proof -
  let ?n = "length (seats s)"
  let ?s1 = "mark_picked seat s"
  note m = mark_picked_frame [OF wf, of seat]
  have n1: "seats ?s1 = seats s" using m(2) by (simp add: same_event_def)
  have un: "unat (as_u8 ?n) = ?n" using wf by (simp add: pod_wf_def)
  have rc: "round_complete_from ?s1 [0..<unat (as_u8 ?n)] = Some (\<forall>i<?n. \<not> pending_seat ?s1 i)"
    using round_complete_from_spec [of "[0..<?n]" ?s1] m(4) wf by (auto simp: un pod_wf_def)
  show thesis
  proof (cases "\<forall>i<?n. \<not> pending_seat ?s1 i")
    case False
    then have "round_complete_from ?s1 [0..<unat (as_u8 ?n)] = Some False" using rc by (simp only: simp_thms)
    then show thesis
      by (intro that [of ?s1 "[]"])
         (use m in \<open>simp_all add: finish_pick_def Let_def same_event_def cards_in_event_alt pool_cards_def\<close>)
  next
    case True
    from advance_pack_round_outcome [OF m(1)] obtain s' delta where
      s': "advance_pack_round (as_u8 (length (seats ?s1))) ?s1 = Some (s', delta)" "pod_wf s'" "same_event ?s1 s'"
      "pod_passes (pass_direction ?s1) (length (seats ?s1)) \<Longrightarrow>
        held_cards (current_pack s') + unopened_cards (packs_by_seat s') = held_cards (current_pack ?s1) + unopened_cards (packs_by_seat ?s1)"
      by metis
    show thesis
    proof (rule that [of s' "[delta]"])
      show "finish_pick s seat ids = (s', Ok (map (CardPicked seat) ids @ [delta]))"
        using True rc s'(1) n1 by (simp add: finish_pick_def Let_def)
      show "pod_wf s'" "same_event s s'" using s' m(2) same_event_trans by blast+
      assume p: "pod_passes (pass_direction s) (length (seats s))"
      have "held_cards (current_pack s') + unopened_cards (packs_by_seat s')
          = held_cards (current_pack s) + unopened_cards (packs_by_seat s)"
        using s'(4) p m n1 by simp
      then show "cards_in_event s' = cards_in_event s"
        using s'(3) m(2) by (simp add: cards_in_event_alt same_event_def pool_cards_def add.assoc)
    qed
  qed
qed

subsection \<open>What a pick does\<close>

lemma move_cards:
  assumes wf: "pod_wf s" and i: "i < length (seats s)" and slot: "current_pack s ! i = Some pack"
    and cards: "mset pool' + mset pack' = mset (pools s ! i) + mset pack"
  shows "pod_wf (s\<lparr>current_pack := (current_pack s)[i := Some pack'], pools := (pools s)[i := pool']\<rparr>)"
    and "cards_in_event (s\<lparr>current_pack := (current_pack s)[i := Some pack'], pools := (pools s)[i := pool']\<rparr>) = cards_in_event s"
proof -
  note w = pod_wfD [OF wf]
  show "pod_wf (s\<lparr>current_pack := (current_pack s)[i := Some pack'], pools := (pools s)[i := pool']\<rparr>)"
    using w by (simp add: pod_wf_def)
  have h: "held_cards ((current_pack s)[i := Some pack']) + mset pack = held_cards (current_pack s) + mset pack'"
    using mset_concat_update [of i "map slot_cards (current_pack s)" pack'] i w(3) slot
    by (simp add: held_cards_def map_update slot_cards_def)
  have p: "mset (concat ((pools s)[i := pool'])) + mset (pools s ! i) = mset (concat (pools s)) + mset pool'"
    using mset_concat_update [of i "pools s" pool'] i w(2) by simp
  have "(mset (concat ((pools s)[i := pool'])) + held_cards ((current_pack s)[i := Some pack'])) + (mset (pools s ! i) + mset pack)
      = (mset (concat ((pools s)[i := pool'])) + mset (pools s ! i)) + (held_cards ((current_pack s)[i := Some pack']) + mset pack)"
    by (simp only: ac_simps)
  also have "\<dots> = (mset (concat (pools s)) + held_cards (current_pack s)) + (mset pool' + mset pack')"
    unfolding h p by (simp only: ac_simps)
  finally have "mset (concat ((pools s)[i := pool'])) + held_cards ((current_pack s)[i := Some pack'])
      = mset (concat (pools s)) + held_cards (current_pack s)"
    using cards by (metis add_right_imp_eq)
  then show "cards_in_event (s\<lparr>current_pack := (current_pack s)[i := Some pack'], pools := (pools s)[i := pool']\<rparr>) = cards_in_event s"
    by (simp add: cards_in_event_alt pool_cards_def)
qed

text \<open>The request a seat may make: the right number of distinct cards of its pack, not twice in a round.\<close>

definition legal_pick :: "draft_session \<Rightarrow> u8 \<Rightarrow> string list \<Rightarrow> bool" where
  "legal_pick s seat ids \<longleftrightarrow>
     status s = Drafting \<and> unat seat < length (seats s) \<and> pending_seat s (unat seat) \<and>
     length ids = required_pick_count s seat \<and> distinct ids \<and>
     set ids \<subseteq> instance_id ` set (slot_cards (current_pack s ! unat seat))"

lemma ensure_flags_wf [simp]: "pod_wf s \<Longrightarrow> ensure_flags s = s"
  by (simp add: ensure_flags_def pod_wf_def)

lemma seat_bounds:
  assumes "pod_wf s"
  shows "\<not> as_u8 (length (seats s)) \<le> seat \<longleftrightarrow> unat seat < length (seats s)"
  using assms by (simp add: pod_wf_def word_le_nat_alt not_le)

lemma apply_pick_legal:
  assumes wf: "pod_wf s" and legal: "legal_pick s seat ids"
  obtains pack picked pack' where "current_pack s ! unat seat = Some pack"
    "map instance_id picked = ids" "mset picked + mset pack' = mset pack" "subseq pack' pack"
    "apply_pick s seat ids =
       finish_pick (s\<lparr>current_pack := (current_pack s)[unat seat := Some pack'],
         pools := (pools s)[unat seat := pools s ! unat seat @ picked]\<rparr>) seat ids"
proof -
  note w = pod_wfD [OF wf]
  from legal have st: "status s = Drafting" and seat: "unat seat < length (seats s)" and dist: "distinct ids"
    and flag: "\<not> sf_get (seats_picked_this_round s) seat" and len: "length ids = required_pick_count s seat"
    by (auto simp: legal_pick_def pending_seat_def)
  from legal obtain pack where pack: "current_pack s ! unat seat = Some pack" "pack \<noteq> []"
    "set ids \<subseteq> instance_id ` set pack"
    by (auto simp: legal_pick_def pending_seat_def owes_pick_def slot_cards_def split: option.splits)
  from resolve_indices_complete [OF pack(3) dist, of "[]" seat] obtain indices
    where r: "resolve_indices seat pack [] ids = Ok indices" by auto
  from resolve_indices_Ok [OF r] have i: "distinct indices" "\<forall>i\<in>set indices. i < length pack"
    "map (\<lambda>i. instance_id (pack ! i)) indices = ids" by auto
  let ?picked = "map ((!) pack) indices" and ?pack' = "nths pack (- set indices)"
  note t = take_picked_spec [OF i(1,2)]
  show thesis
  proof (rule that [of pack ?picked ?pack'])
    show "map instance_id ?picked = ids" using i(3) by (simp add: comp_def)
    show "mset ?picked + mset ?pack' = mset pack" by (rule take_picked_cards [OF t])
    show "subseq ?pack' pack" by (simp add: subseq_conv_nths exI [of _ "- set indices"])
    show "apply_pick s seat ids =
       finish_pick (s\<lparr>current_pack := (current_pack s)[unat seat := Some ?pack'],
         pools := (pools s)[unat seat := pools s ! unat seat @ ?picked]\<rparr>) seat ids"
      using st seat flag len pack(1,2) r t w wf seat_bounds [OF wf, of seat]
      by (simp add: apply_pick_def apply_pick_inner_def Let_def)
  qed (rule pack(1))
qed

lemma apply_pick_illegal:
  assumes wf: "pod_wf s" and illegal: "\<not> legal_pick s seat ids"
  shows "\<exists>e. apply_pick s seat ids = (s, Err e)"
proof (cases "status s = Drafting \<and> unat seat < length (seats s) \<and> pending_seat s (unat seat)
    \<and> length ids = required_pick_count s seat")
  case False
  note w = pod_wfD [OF wf]
  have "status s \<noteq> Drafting \<or> \<not> unat seat < length (seats s) \<or> sf_get (seats_picked_this_round s) seat
    \<or> \<not> owes_pick (current_pack s ! unat seat) \<or> length ids \<noteq> required_pick_count s seat"
    using False w by (auto simp: pending_seat_def)
  then show ?thesis
    using wf w seat_bounds [OF wf, of seat]
    by (auto simp: apply_pick_def apply_pick_inner_def Let_def owes_pick_def vec_get_def split: option.splits)
next
  case True
  note w = pod_wfD [OF wf]
  from True obtain pack where pack: "current_pack s ! unat seat = Some pack" "pack \<noteq> []"
    by (auto simp: pending_seat_def owes_pick_def split: option.splits)
  have flag: "\<not> sf_get (seats_picked_this_round s) seat" using True by (simp add: pending_seat_def)
  have bad: "\<not> (distinct ids \<and> set ids \<subseteq> instance_id ` set pack)"
    using True illegal pack(1) by (auto simp: legal_pick_def slot_cards_def)
  have "\<not> is_ok (resolve_indices seat pack [] ids)"
  proof
    assume "is_ok (resolve_indices seat pack [] ids)"
    then obtain indices where ok: "resolve_indices seat pack [] ids = Ok indices" by (auto simp: is_ok_iff)
    from resolve_indices_Ok [OF ok] have "distinct indices" "\<forall>i\<in>set indices. i < length pack"
      and ids: "map (\<lambda>i. instance_id (pack ! i)) indices = ids" by auto
    then have "set ids \<subseteq> instance_id ` set pack" by auto
    moreover have "distinct ids"
      using resolve_indices_positions [OF ok] \<open>distinct indices\<close> by (simp add: distinct_map)
    ultimately show False using bad by blast
  qed
  from resolve_indices_Err [OF refl this] obtain e where "resolve_indices seat pack [] ids = Err e" by blast
  with True flag pack wf w seat_bounds [OF wf, of seat] show ?thesis
    by (simp add: apply_pick_def apply_pick_inner_def Let_def)
qed

definition legal_effect_pick :: "draft_session \<Rightarrow> u8 \<Rightarrow> string \<Rightarrow> string list \<Rightarrow> bool" where
  "legal_effect_pick s seat effect_id ids \<longleftrightarrow>
     status s = Drafting \<and> unat seat < length (seats s) \<and> pending_seat s (unat seat) \<and>
     length ids = 2 \<and> distinct ids \<and> (\<exists>c\<in>set (pools s ! unat seat). is_effect_card effect_id c) \<and>
     set ids \<subseteq> instance_id ` set (slot_cards (current_pack s ! unat seat))"

lemma two_ids: "length ids = 2 \<Longrightarrow> \<exists>a b. ids = [a, b]"
  by (cases ids; cases "tl ids"; auto)

lemma apply_effect_legal:
  assumes wf: "pod_wf s" and legal: "legal_effect_pick s seat effect_id ids"
  obtains pack picked pack' effect rest where "current_pack s ! unat seat = Some pack"
    "is_effect_card effect_id effect" "add_mset effect (mset rest) = mset (pools s ! unat seat)"
    "map instance_id picked = ids" "mset picked + mset pack' = mset pack"
    "apply_pick_with_draft_effect s seat effect_id ids =
       finish_pick (s\<lparr>current_pack := (current_pack s)[unat seat := Some (pack' @ [effect])],
         pools := (pools s)[unat seat := rest @ picked]\<rparr>) seat ids"
proof -
  note w = pod_wfD [OF wf]
  from legal have st: "status s = Drafting" and seat: "unat seat < length (seats s)"
    and flag: "\<not> sf_get (seats_picked_this_round s) seat" and dist: "distinct ids" and two: "length ids = 2"
    by (auto simp: legal_effect_pick_def pending_seat_def)
  from legal obtain pack where pack: "current_pack s ! unat seat = Some pack" "set ids \<subseteq> instance_id ` set pack"
    by (auto simp: legal_effect_pick_def pending_seat_def owes_pick_def slot_cards_def split: option.splits)
  obtain k where k: "position (is_effect_card effect_id) (pools s ! unat seat) = Some k"
    using legal by (cases "position (is_effect_card effect_id) (pools s ! unat seat)") (auto simp: legal_effect_pick_def position_None)
  note kk = position_Some [OF k]
  obtain picked pack' where r: "remove_by_id ids pack = Some (picked, pack')"
    using remove_by_id_complete [OF pack(2) dist] by auto
  have none: "find (\<lambda>cid. \<not> list_ex (\<lambda>c. instance_id c = cid) pack) ids = None"
    using pack(2) by (auto simp: find_None_iff list_ex_iff)
  obtain a b where ids: "ids = [a, b]" using two_ids [OF two] by blast
  with dist have "a \<noteq> b" by simp
  show thesis
  proof (rule that [of pack "pools s ! unat seat ! k" "vec_remove k (pools s ! unat seat)" picked pack'])
    show "apply_pick_with_draft_effect s seat effect_id ids =
       finish_pick (s\<lparr>current_pack := (current_pack s)[unat seat := Some (pack' @ [pools s ! unat seat ! k])],
         pools := (pools s)[unat seat := vec_remove k (pools s ! unat seat) @ picked]\<rparr>) seat ids"
      using st seat flag \<open>a \<noteq> b\<close> two pack(1) k r none w wf seat_bounds [OF wf, of seat] ids
      by (simp add: apply_pick_with_draft_effect_def apply_pick_with_effect_inner_def exchange_effect_card_def Let_def
            vec_get_def del: find.simps)
  qed (use pack kk mset_vec_remove remove_by_id_spec [OF r] in auto)
qed

lemma apply_effect_illegal:
  assumes wf: "pod_wf s" and illegal: "\<not> legal_effect_pick s seat effect_id ids"
  shows "\<exists>e. apply_pick_with_draft_effect s seat effect_id ids = (s, Err e)"
proof (cases "length ids = 2 \<and> status s = Drafting \<and> unat seat < length (seats s) \<and> \<not> sf_get (seats_picked_this_round s) seat")
  case False
  then show ?thesis
    using wf seat_bounds [OF wf, of seat]
    by (auto simp: apply_pick_with_draft_effect_def apply_pick_with_effect_inner_def Let_def)
next
  case True
  note w = pod_wfD [OF wf]
  obtain a b where ids: "ids = [a, b]" using two_ids True by blast
  have inner: "apply_pick_with_draft_effect s seat effect_id ids =
      (if a = b then (s, Err (InvalidDraftEffectSelection 2 1))
       else (case position (is_effect_card effect_id) (pools s ! unat seat) of
           None \<Rightarrow> (s, Err (DraftEffectCardNotInPool effect_id))
         | Some k \<Rightarrow> (case current_pack s ! unat seat of
               None \<Rightarrow> (s, Err (NoPendingPack seat))
             | Some pack \<Rightarrow> (case find (\<lambda>cid. \<not> list_ex (\<lambda>c. instance_id c = cid) pack) ids of
                   Some m \<Rightarrow> (s, Err (CardNotInPack m))
                 | None \<Rightarrow> exchange_effect_card s seat (pools s ! unat seat) k pack ids))))"
    using True wf w seat_bounds [OF wf, of seat] ids
    by (simp add: apply_pick_with_draft_effect_def apply_pick_with_effect_inner_def Let_def vec_get_def
          del: find.simps cong: option.case_cong)
  show ?thesis
  proof (rule ccontr)
    assume "\<nexists>e. apply_pick_with_draft_effect s seat effect_id ids = (s, Err e)"
    then obtain k pack where ab: "a \<noteq> b" and k: "position (is_effect_card effect_id) (pools s ! unat seat) = Some k"
      and pack: "current_pack s ! unat seat = Some pack"
      and f: "find (\<lambda>cid. \<not> list_ex (\<lambda>c. instance_id c = cid) pack) ids = None"
      unfolding inner by (auto split: if_splits option.splits simp del: find.simps)
    from f have sub: "set ids \<subseteq> instance_id ` set pack" by (auto simp: find_None_iff list_ex_iff)
    then have "pack \<noteq> []" using ids by auto
    with True pack w have "pending_seat s (unat seat)" by (simp add: pending_seat_def owes_pick_def)
    moreover have "pools s ! unat seat ! k \<in> set (pools s ! unat seat)" using position_Some [OF k] by simp
    ultimately have "legal_effect_pick s seat effect_id ids"
      using True ab ids pack sub position_Some [OF k] by (auto simp: legal_effect_pick_def slot_cards_def)
    with illegal show False by blast
  qed
qed

subsection \<open>The pick-and-pass draft as a turn engine\<close>

definition pick_step :: "draft_session \<Rightarrow> draft_action \<Rightarrow> draft_session option" where
  "pick_step s a =
     (case a of
        Pick seat ids \<Rightarrow> accepted (apply_pick s seat ids)
      | PickWithDraftEffect seat effect_id ids \<Rightarrow> accepted (apply_pick_with_draft_effect s seat effect_id ids)
      | _ \<Rightarrow> None)"

definition unique_ids :: "draft_card multiset \<Rightarrow> bool" where
  "unique_ids M \<longleftrightarrow> (\<forall>x. count (image_mset instance_id M) x \<le> 1)"

text \<open>Every seat has the same number of packs left to open, and none of them is empty.\<close>

definition rounds_left :: "draft_session \<Rightarrow> bool" where
  "rounds_left s \<longleftrightarrow>
     (\<forall>i<length (seats s).
        length (packs_by_seat s ! i) + unat (current_pack_number s) + 1 = unat (cfg_pack_count (config s))
        \<and> (\<forall>p\<in>set (packs_by_seat s ! i). p \<noteq> []))"

definition pick_live :: "draft_session \<Rightarrow> bool" where
  "pick_live s \<longleftrightarrow>
     (status s = Drafting \<and> rounds_left s \<and> (\<exists>i. pending_seat s i)) \<or>
     (status s = Deckbuilding \<and> held_cards (current_pack s) = {#} \<and> unopened_cards (packs_by_seat s) = {#})"

definition pick_session :: "draft_session \<Rightarrow> bool" where
  "pick_session s \<longleftrightarrow>
     pod_wf s \<and> 0 < length (seats s) \<and> length (seats s) \<le> 128 \<and> unique_ids (cards_in_event s) \<and> pick_live s"

definition cards_to_draft :: "draft_session \<Rightarrow> nat" where
  "cards_to_draft s = size (cards_in_event s) - size (pool_cards s)"

text \<open>The host's automatic pick: the first cards of the first pack that is still owed.\<close>

definition auto_pick :: "draft_session \<Rightarrow> draft_action" where
  "auto_pick s =
     (case find (pending_seat s) [0..<length (seats s)] of
        None \<Rightarrow> StartDraft
      | Some i \<Rightarrow> Pick (as_u8 i)
          (map instance_id (take (required_pick_count s (as_u8 i)) (slot_cards (current_pack s ! i)))))"

lemma held_cards_empty_iff: "held_cards slots = {#} \<longleftrightarrow> list_all (\<lambda>slot. \<not> owes_pick slot) slots"
  by (auto simp: held_cards_def list_all_iff owes_pick_def slot_cards_def split: option.splits)

lemma pending_after_clear:
  assumes "held_cards (current_pack s) \<noteq> {#}" and "\<And>i. \<not> sf_get (seats_picked_this_round s) i"
  shows "\<exists>i. pending_seat s i"
  using assms by (auto simp: held_cards_empty_iff list_all_length pending_seat_def)

lemma rounds_left_next:
  assumes "rounds_left s" and "0 < length (seats s)"
    and "cfg_pack_count (config s) \<le> current_pack_number s + 1 \<longleftrightarrow> b"
  shows "i < length (seats s) \<Longrightarrow> packs_by_seat s ! i = [] \<longleftrightarrow> b"
    and "unat (current_pack_number s + 1) = unat (current_pack_number s) + 1"
proof -
  have r: "length (packs_by_seat s ! i) + unat (current_pack_number s) + 1 = unat (cfg_pack_count (config s))"
    if "i < length (seats s)" for i using assms(1) that by (simp add: rounds_left_def)
  have "unat (current_pack_number s) + 1 < 256"
    using r [OF assms(2)] unat_u8_bound [of "cfg_pack_count (config s)"] by linarith
  then show u: "unat (current_pack_number s + 1) = unat (current_pack_number s) + 1"
    by (simp add: unat_word_ariths)
  have "b \<longleftrightarrow> unat (cfg_pack_count (config s)) \<le> unat (current_pack_number s) + 1"
    using assms(3) u by (simp add: word_le_nat_alt)
  then show "packs_by_seat s ! i = [] \<longleftrightarrow> b" if "i < length (seats s)"
    using r [OF that] by (cases "packs_by_seat s ! i") simp_all
qed

lemma advance_pack_round_live:
  assumes wf: "pod_wf s" and dr: "status s = Drafting" and left: "rounds_left s"
    and n: "0 < length (seats s)" "length (seats s) \<le> 128"
    and adv: "advance_pack_round (as_u8 (length (seats s))) s = Some (s', delta)"
  shows "pick_live s'"
proof -
  let ?s1 = "s\<lparr>seats_picked_this_round := sf_clear (seats_picked_this_round s)\<rparr>"
  note c = clear_flags_frame [OF wf]
  show ?thesis
  proof (cases "packs_empty s")
    case True
    let ?s2 = "?s1\<lparr>current_pack_number := current_pack_number s + 1\<rparr>"
    have wf2: "pod_wf ?s2" "packs_empty ?s2" using c True by (simp_all add: pod_wf_def packs_empty_def)
    note nxt = rounds_left_next [OF left n(1) refl]
    show ?thesis
    proof (cases "cfg_pack_count (config s) \<le> current_pack_number s + 1")
      case finished: True
      with nxt have "\<forall>i<length (seats s). packs_by_seat s ! i = []" by blast
      then have "unopened_cards (packs_by_seat s) = {#}"
        using pod_wfD(4) [OF wf] by (simp add: unopened_cards_sum)
      moreover have "s' = ?s2\<lparr>status := Deckbuilding\<rparr>"
        using adv True finished by (simp add: advance_pack_round_def Let_def packs_empty_def)
      ultimately show ?thesis using packs_empty_held [OF True] by (simp add: pick_live_def)
    next
      case more: False
      with nxt(1) have ne: "packs_by_seat s ! i \<noteq> []" if "i < length (seats s)" for i using that by blast
      from start_pack_round_outcome [OF wf2] obtain s3 where s3:
        "start_pack_round (as_u8 (length (seats ?s2))) ?s2 = Some s3" "same_event ?s2 s3" "status s3 = status ?s2"
        "current_pack_number s3 = current_pack_number ?s2" "seats_picked_this_round s3 = seats_picked_this_round ?s2"
        "\<And>i. i < length (seats ?s2) \<Longrightarrow> packs_by_seat s3 ! i = tl (packs_by_seat ?s2 ! i)"
        "\<And>i. i < length (seats ?s2) \<Longrightarrow> packs_by_seat ?s2 ! i \<noteq> [] \<Longrightarrow> current_pack s3 ! i = Some (hd (packs_by_seat ?s2 ! i))"
        "pod_wf s3"
        by metis
      have s': "s' = s3" using adv True more s3(1) by (simp add: advance_pack_round_def Let_def packs_empty_def)
      have "rounds_left s3"
        unfolding rounds_left_def
      proof (intro allI impI)
        fix i
        assume "i < length (seats s3)"
        then have i: "i < length (seats s)" using s3(2) by (simp add: same_event_def)
        obtain p ps where p: "packs_by_seat s ! i = p # ps" using ne [OF i] by (cases "packs_by_seat s ! i") auto
        have "packs_by_seat s3 ! i = ps" "config s3 = config s" using s3(2,6) i p by (simp_all add: same_event_def)
        moreover have "length (packs_by_seat s ! i) + unat (current_pack_number s) + 1 = unat (cfg_pack_count (config s))"
          "\<forall>p\<in>set (packs_by_seat s ! i). p \<noteq> []" using left i by (simp_all add: rounds_left_def)
        ultimately show "length (packs_by_seat s3 ! i) + unat (current_pack_number s3) + 1 = unat (cfg_pack_count (config s3))
            \<and> (\<forall>p\<in>set (packs_by_seat s3 ! i). p \<noteq> [])"
          using s3(4) nxt(2) p by simp
      qed
      moreover have "pending_seat s3 0"
      proof -
        obtain p ps where p: "packs_by_seat s ! 0 = p # ps" using ne [OF n(1)] by (cases "packs_by_seat s ! 0") auto
        with left n(1) have "p \<noteq> []" by (auto simp: rounds_left_def)
        moreover have "current_pack s3 ! 0 = Some p" using s3(7) [of 0] n(1) p by simp
        moreover have "0 < length (current_pack s3)"
          using s3(2) pod_wfD(3) [OF s3(8)] n(1) by (simp add: same_event_def)
        ultimately show ?thesis using s3(5) by (simp add: pending_seat_def owes_pick_def)
      qed
      ultimately show ?thesis using s3(3) dr s' by (auto simp: pick_live_def)
    qed
  next
    case False
    from pass_round_outcome [OF c(1)] obtain s3 where s3: "pass_round (as_u8 (length (seats ?s1))) ?s1 = Some s3"
      "same_event ?s1 s3" "packs_by_seat s3 = packs_by_seat ?s1" "status s3 = status ?s1"
      "current_pack_number s3 = current_pack_number ?s1" "seats_picked_this_round s3 = seats_picked_this_round ?s1"
      "pod_passes (pass_direction ?s1) (length (seats ?s1)) \<Longrightarrow> held_cards (current_pack s3) = held_cards (current_pack ?s1)"
      by metis
    have s': "s' = s3" using adv False s3(1) by (simp add: advance_pack_round_def Let_def packs_empty_def)
    have "pod_passes (pass_direction ?s1) (length (seats ?s1))" using n by (simp add: pod_passes_def)
    with s3(7) False have "held_cards (current_pack s3) \<noteq> {#}" by (simp add: held_cards_empty_iff packs_empty_def)
    with s3(6) have "\<exists>i. pending_seat s3 i" by (intro pending_after_clear) simp_all
    moreover have "rounds_left s3" using left s3 by (simp add: rounds_left_def same_event_def)
    ultimately show ?thesis using s3(4) dr s' by (simp add: pick_live_def)
  qed
qed

lemma finish_pick_live:
  assumes wf: "pod_wf s" and dr: "status s = Drafting" and left: "rounds_left s"
    and n: "0 < length (seats s)" "length (seats s) \<le> 128"
    and fin: "finish_pick s seat ids = (s', Ok ds)"
  shows "pick_live s'"
proof -
  let ?n = "length (seats s)"
  let ?s1 = "mark_picked seat s"
  note m = mark_picked_frame [OF wf, of seat]
  have n1: "seats ?s1 = seats s" using m(2) by (simp add: same_event_def)
  have un: "unat (as_u8 ?n) = ?n" using n by simp
  have rc: "round_complete_from ?s1 [0..<unat (as_u8 ?n)] = Some (\<forall>i<?n. \<not> pending_seat ?s1 i)"
    using round_complete_from_spec [of "[0..<?n]" ?s1] m(4) wf by (auto simp: un pod_wf_def)
  have left1: "rounds_left ?s1" using left m by (simp add: rounds_left_def same_event_def)
  show ?thesis
  proof (cases "\<forall>i<?n. \<not> pending_seat ?s1 i")
    case False
    then have "round_complete_from ?s1 [0..<unat (as_u8 ?n)] = Some False" using rc by (simp only: simp_thms)
    with fin have "s' = ?s1" by (simp add: finish_pick_def Let_def)
    with False left1 dr m(3) show ?thesis by (auto simp: pick_live_def)
  next
    case True
    with rc fin obtain delta where "advance_pack_round (as_u8 ?n) ?s1 = Some (s', delta)"
      by (auto simp: finish_pick_def Let_def split: option.splits)
    then show ?thesis
      using advance_pack_round_live [OF m(1) _ left1] m(3) dr n n1 by simp
  qed
qed

text \<open>Both accepted actions move cards from the seat's pack to its pool and end the pick step.\<close>

lemma pick_step_moves:
  assumes wf: "pod_wf s" and step: "pick_step s a = Some s'"
  obtains seat ids pack pack' pool' ds where
    "unat seat < length (seats s)" "status s = Drafting" "current_pack s ! unat seat = Some pack"
    "mset pool' + mset pack' = mset (pools s ! unat seat) + mset pack" "length (pools s ! unat seat) < length pool'"
    "finish_pick (s\<lparr>current_pack := (current_pack s)[unat seat := Some pack'],
       pools := (pools s)[unat seat := pool']\<rparr>) seat ids = (s', Ok ds)"
proof -
  from step consider (pick) seat ids ds where "apply_pick s seat ids = (s', Ok ds)"
    | (eff) seat effect_id ids ds where "apply_pick_with_draft_effect s seat effect_id ids = (s', Ok ds)"
    by (auto simp: pick_step_def accepted_iff split: draft_action.splits)
  then show thesis
  proof cases
    case pick
    then have legal: "legal_pick s seat ids" using apply_pick_illegal [OF wf, of seat ids] by fastforce
    from apply_pick_legal [OF wf legal] obtain pack picked pack' where
      *: "current_pack s ! unat seat = Some pack" "map instance_id picked = ids" "mset picked + mset pack' = mset pack"
      "apply_pick s seat ids = finish_pick (s\<lparr>current_pack := (current_pack s)[unat seat := Some pack'],
         pools := (pools s)[unat seat := pools s ! unat seat @ picked]\<rparr>) seat ids" by metis
    have "pack \<noteq> []" "unat seat < length (current_pack s)" "length ids = required_pick_count s seat"
      using legal *(1) by (auto simp: legal_pick_def pending_seat_def owes_pick_def)
    then have "length ids = min (unat (proc_cards_per_pick (kind_procedure (draft_kind_of s)))) (length pack)"
      using *(1) by (simp add: required_pick_count_def)
    moreover have "0 < unat (proc_cards_per_pick (kind_procedure (draft_kind_of s)))" "0 < length pack"
      using kind_procedure_bounds(1) [of "draft_kind_of s"] \<open>pack \<noteq> []\<close> by (simp_all add: word_le_nat_alt)
    ultimately have "0 < length ids" by simp
    with *(2) have "picked \<noteq> []" by auto
    with legal * pick show thesis
      by (intro that [of seat pack "pools s ! unat seat @ picked" pack' ids ds]) (auto simp: legal_pick_def ac_simps)
  next
    case eff
    then have legal: "legal_effect_pick s seat effect_id ids" using apply_effect_illegal [OF wf, of seat effect_id ids] by fastforce
    from apply_effect_legal [OF wf legal] obtain pack picked pack' effect rest where
      *: "current_pack s ! unat seat = Some pack" "add_mset effect (mset rest) = mset (pools s ! unat seat)"
      "map instance_id picked = ids" "mset picked + mset pack' = mset pack"
      "apply_pick_with_draft_effect s seat effect_id ids =
         finish_pick (s\<lparr>current_pack := (current_pack s)[unat seat := Some (pack' @ [effect])],
           pools := (pools s)[unat seat := rest @ picked]\<rparr>) seat ids" by metis
    have "length picked = 2" using *(3) legal by (metis legal_effect_pick_def length_map)
    moreover have "length (pools s ! unat seat) = Suc (length rest)" using *(2) by (metis size_add_mset size_mset)
    ultimately show thesis
      using legal * eff
      by (intro that [of seat pack "rest @ picked" "pack' @ [effect]" ids ds])
         (auto simp: legal_effect_pick_def *(2,4) [symmetric] ac_simps)
  qed
qed

lemma length_concat_update_less:
  assumes "i < length xss" and "length (xss ! i) < length ys"
  shows "length (concat xss) < length (concat (xss[i := ys]))"
  using arg_cong [OF mset_concat_update [OF assms(1), of ys], of size] assms(2) by simp

lemma pick_step_accepted:
  assumes inv: "pick_session s" and step: "pick_step s a = Some s'"
  shows "pick_session s'" and "cards_in_event s' = cards_in_event s" and "cards_to_draft s' < cards_to_draft s"
proof -
  from inv have wf: "pod_wf s" and n: "0 < length (seats s)" "length (seats s) \<le> 128"
    and uniq: "unique_ids (cards_in_event s)" and live: "pick_live s" by (auto simp: pick_session_def)
  from pick_step_moves [OF wf step] obtain seat ids pack pack' pool' ds where
    i: "unat seat < length (seats s)" "status s = Drafting" "current_pack s ! unat seat = Some pack"
    and cards: "mset pool' + mset pack' = mset (pools s ! unat seat) + mset pack" "length (pools s ! unat seat) < length pool'"
    and fin: "finish_pick (s\<lparr>current_pack := (current_pack s)[unat seat := Some pack'],
       pools := (pools s)[unat seat := pool']\<rparr>) seat ids = (s', Ok ds)" by metis
  let ?m = "s\<lparr>current_pack := (current_pack s)[unat seat := Some pack'], pools := (pools s)[unat seat := pool']\<rparr>"
  note mv = move_cards [OF wf i(1) i(3) cards(1)]
  from finish_pick_outcome [OF mv(1)] obtain s2 ds2 where fo: "finish_pick ?m seat ids = (s2, Ok ds2)" "pod_wf s2" "same_event ?m s2"
    "pod_passes (pass_direction ?m) (length (seats ?m)) \<Longrightarrow> cards_in_event s2 = cards_in_event ?m" by metis
  with fin have s2: "s2 = s'" by simp
  have "pod_passes (pass_direction ?m) (length (seats ?m))" using n by (simp add: pod_passes_def)
  with fo(4) mv(2) s2 show conserved: "cards_in_event s' = cards_in_event s" by simp
  have "rounds_left ?m" using live i(2) by (simp add: pick_live_def rounds_left_def)
  then have "pick_live s'" using finish_pick_live [OF mv(1) _ _ _ _ fin] n i(2) by simp
  then show "pick_session s'" using fo(2,3) s2 n uniq conserved by (simp add: pick_session_def same_event_def)
  have "pools s' = (pools s)[unat seat := pool']" using fo(3) s2 by (simp add: same_event_def)
  then have "size (pool_cards s) < size (pool_cards s')"
    using length_concat_update_less [of "unat seat" "pools s" pool'] cards(2) i(1) pod_wfD(2) [OF wf]
    by (simp add: pool_cards_def)
  moreover have "size (pool_cards s') \<le> size (cards_in_event s')" by (simp add: cards_in_event_alt)
  ultimately show "cards_to_draft s' < cards_to_draft s" by (simp add: cards_to_draft_def conserved)
qed

lemma unique_ids_pack:
  assumes "unique_ids M" and "mset pack \<subseteq># M"
  shows "distinct (map instance_id pack)"
proof -
  have "count (mset (map instance_id pack)) x \<le> 1" for x
    using assms mset_subset_eq_count [OF image_mset_subseteq_mono [OF assms(2)], of instance_id x]
    by (metis mset_map order_trans unique_ids_def)
  then show ?thesis
    unfolding distinct_count_atmost_1
    by (metis One_nat_def count_eq_zero_iff le_Suc_eq le_zero_eq set_mset_mset)
qed

lemma slot_cards_in_event:
  assumes "i < length (current_pack s)"
  shows "mset (slot_cards (current_pack s ! i)) \<subseteq># cards_in_event s"
proof -
  have "mset (slot_cards (current_pack s ! i)) \<subseteq># held_cards (current_pack s)"
    using assms by (simp add: held_cards_sum sum.remove [of "{..<length (current_pack s)}" i])
  then show ?thesis
    unfolding cards_in_event_alt by (meson mset_subset_eq_add_left mset_subset_eq_add_right subset_mset.order_trans)
qed

lemma auto_pick_accepted:
  assumes inv: "pick_session s" and dr: "status s = Drafting"
  shows "pick_step s (auto_pick s) \<noteq> None"
proof -
  from inv dr have wf: "pod_wf s" and uniq: "unique_ids (cards_in_event s)" and "\<exists>i. pending_seat s i"
    by (auto simp: pick_session_def pick_live_def)
  then obtain j where "pending_seat s j" "j < length (seats s)"
    using pod_wfD(3) [OF wf] by (auto simp: pending_seat_def)
  then obtain i where i: "find (pending_seat s) [0..<length (seats s)] = Some i"
    by (cases "find (pending_seat s) [0..<length (seats s)]") (auto simp: find_None_iff)
  from find_SomeD [OF i] have p: "pending_seat s i" and lt: "i < length (seats s)" by auto
  have u: "unat (as_u8 i) = i" using lt pod_wfD(1) [OF wf] by simp
  obtain pack where pack: "current_pack s ! i = Some pack" "i < length (current_pack s)"
    using p by (auto simp: pending_seat_def owes_pick_def split: option.splits)
  let ?ids = "map instance_id (take (required_pick_count s (as_u8 i)) pack)"
  have "distinct (map instance_id pack)"
    using unique_ids_pack [OF uniq] slot_cards_in_event [OF pack(2)] pack(1) by (simp add: slot_cards_def)
  then have "distinct ?ids" by (simp add: take_map [symmetric])
  moreover have "length ?ids = required_pick_count s (as_u8 i)"
    using pack u by (simp add: required_pick_count_def)
  ultimately have legal: "legal_pick s (as_u8 i) ?ids"
    using dr lt p u pack by (auto simp: legal_pick_def slot_cards_def dest: in_set_takeD)
  from apply_pick_legal [OF wf legal] obtain pack' picked where
    *: "mset picked + mset pack' = mset pack"
      "apply_pick s (as_u8 i) ?ids = finish_pick (s\<lparr>current_pack := (current_pack s)[unat (as_u8 i) := Some pack'],
       pools := (pools s)[unat (as_u8 i) := pools s ! unat (as_u8 i) @ picked]\<rparr>) (as_u8 i) ?ids"
    using pack(1) u by (metis option.inject)
  have "mset (pools s ! i @ picked) + mset pack' = mset (pools s ! i) + mset pack"
    by (simp add: *(1) [symmetric] ac_simps)
  from finish_pick_outcome [OF move_cards(1) [OF wf lt pack(1) this], of "as_u8 i" ?ids] *(2) u
  obtain s' ds where "apply_pick s (as_u8 i) ?ids = (s', Ok ds)" by metis
  then show ?thesis by (simp add: pick_step_def auto_pick_def i slot_cards_def pack(1))
qed

interpretation picks: turn_engine pick_step pick_session "\<lambda>s. status s \<noteq> Drafting" cards_to_draft auto_pick
  by (unfold_locales) (simp_all add: pick_step_accepted auto_pick_accepted)

lemma pick_run_cards:
  "pick_session s \<Longrightarrow> run_steps pick_step s as = Some s' \<Longrightarrow> cards_in_event s' = cards_in_event s"
proof (induction "as" arbitrary: s)
  case (Cons a "as")
  then obtain s1 where "pick_step s a = Some s1" "run_steps pick_step s1 as = Some s'"
    by (auto split: option.splits)
  with Cons pick_step_accepted [of s a] show ?case by metis
qed simp

lemma pick_step_stack:
  assumes "pod_wf s" and "pick_step s a = Some s'"
  shows "shared_stack s' = shared_stack s"
proof -
  from pick_step_moves [OF assms] obtain seat ids pack pack' pool' ds where
    p: "unat seat < length (seats s)" "current_pack s ! unat seat = Some pack"
    "mset pool' + mset pack' = mset (pools s ! unat seat) + mset pack"
    "finish_pick (s\<lparr>current_pack := (current_pack s)[unat seat := Some pack'], pools := (pools s)[unat seat := pool']\<rparr>) seat ids = (s', Ok ds)"
    by metis
  from finish_pick_outcome [OF move_cards(1) [OF assms(1) p(1-3)], of seat ids] obtain t es where
    "finish_pick (s\<lparr>current_pack := (current_pack s)[unat seat := Some pack'], pools := (pools s)[unat seat := pool']\<rparr>) seat ids = (t, Ok es)"
    "same_event (s\<lparr>current_pack := (current_pack s)[unat seat := Some pack'], pools := (pools s)[unat seat := pool']\<rparr>) t"
    by metis
  with p(4) show ?thesis by (simp add: same_event_def)
qed

lemma pick_run_stack:
  "pick_session s \<Longrightarrow> run_steps pick_step s as = Some s' \<Longrightarrow> shared_stack s' = shared_stack s"
proof (induction "as" arbitrary: s)
  case (Cons a "as")
  then obtain s1 where "pick_step s a = Some s1" "run_steps pick_step s1 as = Some s'"
    by (auto split: option.splits)
  moreover have "pod_wf s" using Cons.prems(1) by (simp add: pick_session_def)
  ultimately show ?case using Cons pick_step_accepted(1) [of s a] pick_step_stack [of s a] by metis
qed simp

lemma pick_draft_over:
  assumes "pick_session s" and "status s \<noteq> Drafting"
  shows "cards_in_event s = pool_cards s + stack_cards (shared_stack s)"
  using assms by (simp add: pick_session_def pick_live_def cards_in_event_alt)

subsection \<open>Pods that are too large to pass right\<close>

lemma find_rev_later:
  fixes xs :: "nat list"
  assumes "k \<in> set xs" and "P k" and "sorted_wrt (<) xs" and "j < k"
  shows "find P (rev xs) \<noteq> Some j"
proof
  assume f: "find P (rev xs) = Some j"
  from assms(1) obtain as bs where xs: "xs = as @ k # bs" by (meson split_list)
  have "find P (rev xs) = (case find P (rev bs) of None \<Rightarrow> Some k | Some x \<Rightarrow> Some x)"
    using assms(2) by (simp add: xs find_append split: option.splits)
  with f assms(4) have "j \<in> set bs" by (auto dest!: find_SomeD split: option.splits)
  with assms(3,4) xs show False by (auto simp: sorted_wrt_append)
qed

text \<open>
  With 129 to 255 seats the sum of \<open>next_seat\<close> to the right overflows, seats \<open>1\<close> and \<open>257 - n\<close> both pass
  to seat \<open>0\<close>, and what seat \<open>1\<close> held is gone.
\<close>

lemma pass_right_loses_pack:
  assumes n: "129 \<le> n" "n < 256" and packs: "length packs = n"
    and pass: "pass_packs PassRight (as_u8 n) packs origins [0..<unat (as_u8 n)]
       (replicate (unat (as_u8 n)) None, replicate (unat (as_u8 n)) None) = Some (np, no)"
    and j: "j < n"
  shows "np ! j = None \<or> (\<exists>i<n. i \<noteq> 1 \<and> np ! j = packs ! i)"
proof -
  let ?dest = "\<lambda>i. unat (next_seat PassRight (as_u8 i) (as_u8 n))"
  have un: "unat (as_u8 n) = n" using n by simp
  from pass_packs_slots [of "[0..<n]" packs PassRight "as_u8 n" origins "replicate n None" "replicate n None"] packs pass j
  have slot: "np ! j = (case find (\<lambda>i. ?dest i = j) (rev [0..<n]) of Some i \<Rightarrow> packs ! i | None \<Rightarrow> replicate n None ! j)"
    by (auto simp: un simp del: next_seat.simps)
  show ?thesis
  proof (cases "find (\<lambda>i. ?dest i = j) (rev [0..<n])")
    case None
    with slot j show ?thesis by simp
  next
    case (Some i)
    note fi = find_SomeD [OF Some]
    have "i \<noteq> 1"
    proof
      assume i: "i = 1"
      have "as_u8 (Suc 0) = (1 :: u8)" by (simp add: as_u8_def)
      then have j0: "j = 0" using fi i next_right_first [of "as_u8 n"] by (simp del: next_seat.simps)
      have "as_u8 (257 - n) = 257 - as_u8 n" using n by (simp add: as_u8_def of_nat_diff)
      then have "?dest (257 - n) = j" using next_right_wraps [of "as_u8 n"] j0 by (simp del: next_seat.simps)
      then have "find (\<lambda>i. ?dest i = j) (rev [0..<n]) \<noteq> Some 1"
        using n by (intro find_rev_later [of "257 - n"]) simp_all
      with Some i show False by simp
    qed
    with Some fi slot show ?thesis by auto
  qed
qed

lemma pass_round_loses_pack:
  assumes wf: "pod_wf s" and n: "129 \<le> length (seats s)" and d: "pass_direction s = PassRight"
    and p: "\<And>i. i < length (seats s) \<Longrightarrow> i \<noteq> 1 \<Longrightarrow> current_pack s ! i \<noteq> Some pack"
  shows "\<exists>s'. pass_round (as_u8 (length (seats s))) s = Some s' \<and> Some pack \<notin> set (current_pack s')"
proof -
  let ?n = "length (seats s)"
  note w = pod_wfD [OF wf]
  from pass_round_outcome [OF wf] obtain s' where s': "pass_round (as_u8 ?n) s = Some s'" "pod_wf s'" "same_event s s'" by metis
  then obtain np no where "pass_packs PassRight (as_u8 ?n) (current_pack s) (current_pack_origins s) [0..<unat (as_u8 ?n)]
      (replicate (unat (as_u8 ?n)) None, replicate (unat (as_u8 ?n)) None) = Some (np, no)" and np: "current_pack s' = np"
    by (auto simp: pass_round_def d)
  note lost = pass_right_loses_pack [OF n w(1,3) this(1)]
  have len: "length np = ?n" using pod_wfD(3) [OF s'(2)] s'(3) np by (simp add: same_event_def)
  have "Some pack \<notin> set np"
  proof
    assume "Some pack \<in> set np"
    then obtain j where "j < ?n" "np ! j = Some pack" by (metis in_set_conv_nth len)
    with lost [of j] p show False by fastforce
  qed
  with s'(1) np show ?thesis by auto
qed

subsection \<open>Accepted picks\<close>

lemma apply_pick_effect:
  assumes wf: "pod_wf s" and legal: "legal_pick s seat ids"
  shows "\<exists>s' ds pack picked. apply_pick s seat ids = (s', Ok (map (CardPicked seat) ids @ ds)) \<and> pod_wf s' \<and>
    current_pack s ! unat seat = Some pack \<and> mset picked \<subseteq># mset pack \<and> map instance_id picked = ids \<and>
    pools s' = (pools s)[unat seat := pools s ! unat seat @ picked] \<and>
    (pod_passes (pass_direction s) (length (seats s)) \<longrightarrow> cards_in_event s' = cards_in_event s)"
proof -
  have seat: "unat seat < length (seats s)" using legal by (simp add: legal_pick_def)
  from apply_pick_legal [OF wf legal] obtain pack picked pack' where
    p: "current_pack s ! unat seat = Some pack" "map instance_id picked = ids" "mset picked + mset pack' = mset pack"
    "apply_pick s seat ids = finish_pick (s\<lparr>current_pack := (current_pack s)[unat seat := Some pack'],
       pools := (pools s)[unat seat := pools s ! unat seat @ picked]\<rparr>) seat ids" by metis
  have "mset (pools s ! unat seat @ picked) + mset pack' = mset (pools s ! unat seat) + mset pack"
    by (simp add: p(3) [symmetric])
  note moved = move_cards [OF wf seat p(1) this]
  from finish_pick_outcome [OF moved(1), of seat ids] obtain s' ds where
    "apply_pick s seat ids = (s', Ok (map (CardPicked seat) ids @ ds))" "pod_wf s'"
    "pools s' = (pools s)[unat seat := pools s ! unat seat @ picked]"
    "pod_passes (pass_direction s) (length (seats s)) \<Longrightarrow> cards_in_event s' = cards_in_event s"
    unfolding p(4) [symmetric] moved(2) same_event_def by simp metis
  moreover have "mset picked \<subseteq># mset pack" by (simp add: p(3) [symmetric])
  ultimately show ?thesis using p(1,2) by blast
qed

lemma apply_effect_effect:
  assumes wf: "pod_wf s" and legal: "legal_effect_pick s seat effect_id ids"
  shows "\<exists>s' ds pack picked effect rest. apply_pick_with_draft_effect s seat effect_id ids = (s', Ok (map (CardPicked seat) ids @ ds)) \<and>
    pod_wf s' \<and> current_pack s ! unat seat = Some pack \<and> mset picked \<subseteq># mset pack \<and> map instance_id picked = ids \<and>
    is_effect_card effect_id effect \<and> add_mset effect (mset rest) = mset (pools s ! unat seat) \<and>
    pools s' = (pools s)[unat seat := rest @ picked] \<and>
    (pod_passes (pass_direction s) (length (seats s)) \<longrightarrow> cards_in_event s' = cards_in_event s)"
proof -
  have seat: "unat seat < length (seats s)" using legal by (simp add: legal_effect_pick_def)
  from apply_effect_legal [OF wf legal] obtain pack picked pack' effect rest where
    p: "current_pack s ! unat seat = Some pack" "is_effect_card effect_id effect"
    "add_mset effect (mset rest) = mset (pools s ! unat seat)" "map instance_id picked = ids" "mset picked + mset pack' = mset pack"
    "apply_pick_with_draft_effect s seat effect_id ids =
       finish_pick (s\<lparr>current_pack := (current_pack s)[unat seat := Some (pack' @ [effect])],
         pools := (pools s)[unat seat := rest @ picked]\<rparr>) seat ids" by metis
  have "mset (rest @ picked) + mset (pack' @ [effect]) = mset (pools s ! unat seat) + mset pack"
    by (simp add: p(3,5) [symmetric])
  note moved = move_cards [OF wf seat p(1) this]
  from finish_pick_outcome [OF moved(1), of seat ids] obtain s' ds where
    "apply_pick_with_draft_effect s seat effect_id ids = (s', Ok (map (CardPicked seat) ids @ ds))" "pod_wf s'"
    "pools s' = (pools s)[unat seat := rest @ picked]"
    "pod_passes (pass_direction s) (length (seats s)) \<Longrightarrow> cards_in_event s' = cards_in_event s"
    unfolding p(6) [symmetric] moved(2) same_event_def by simp metis
  moreover have "mset picked \<subseteq># mset pack" by (simp add: p(5) [symmetric])
  ultimately show ?thesis using p(1-4) by blast
qed

subsection \<open>Properties\<close>

lemmas sample_pod_simps =
  sample_pod_def sample_seats_def sample_config_def sample_card_def required_pick_count_def pending_seat_def owes_pick_def
  slot_cards_def sf_get_def vec_get_def

text \<open>
  C6. A pick is accepted exactly when the draft is running, the seat has a pack and has not picked this
  round, and it names the required number of distinct cards of its pack; any other request is an error
  that leaves the session as it was.
\<close>

theorem pick_accepted_iff_legal:
  assumes "pod_wf s"
  shows "(is_ok (snd (apply_pick s seat ids)) \<longleftrightarrow> legal_pick s seat ids)
    \<and> (\<not> legal_pick s seat ids \<longrightarrow> (\<exists>e. apply_pick s seat ids = (s, Err e)))"
  using apply_pick_effect [OF assms, of seat ids] apply_pick_illegal [OF assms, of seat ids]
  by (cases "legal_pick s seat ids") auto

theorem pick_accepted_iff_legal_witness:
  "is_ok (snd (apply_pick sample_pod 0 [''b''])) \<and> (\<exists>e. apply_pick sample_pod 0 [''c''] = (sample_pod, Err e))"
proof -
  have "legal_pick sample_pod 0 [''b'']" "\<not> legal_pick sample_pod 0 [''c'']"
    by (simp_all add: legal_pick_def sample_pod_simps)
  with pick_accepted_iff_legal [OF sample_pod_wf] show ?thesis by blast
qed

text \<open>
  C7. An accepted pick appends exactly the requested cards, in the requested order, to the seat's pool,
  leaves every other pool alone, and whatever passing or opening of packs follows neither adds nor
  loses a card of the event (in pods that can pass their packs).
\<close>

theorem pick_takes_requested_cards:
  assumes "pod_wf s" and "pod_passes (pass_direction s) (length (seats s))" and "legal_pick s seat ids"
  shows "\<exists>s' ds pack picked. apply_pick s seat ids = (s', Ok (map (CardPicked seat) ids @ ds)) \<and>
    current_pack s ! unat seat = Some pack \<and> mset picked \<subseteq># mset pack \<and> map instance_id picked = ids \<and>
    pools s' = (pools s)[unat seat := pools s ! unat seat @ picked] \<and> cards_in_event s' = cards_in_event s \<and> pod_wf s'"
  using apply_pick_effect [OF assms(1,3)] assms(2) by blast

theorem pick_takes_requested_cards_witness:
  "\<exists>s' ds pack picked. apply_pick sample_pod 1 [''d''] = (s', Ok (map (CardPicked 1) [''d''] @ ds)) \<and>
    current_pack sample_pod ! unat (1 :: u8) = Some pack \<and> mset picked \<subseteq># mset pack \<and> map instance_id picked = [''d''] \<and>
    pools s' = (pools sample_pod)[unat (1 :: u8) := pools sample_pod ! unat (1 :: u8) @ picked] \<and>
    cards_in_event s' = cards_in_event sample_pod \<and> pod_wf s'"
  by (rule pick_takes_requested_cards [OF sample_pod_wf])
     (simp_all add: legal_pick_def sample_pod_simps pod_passes_def)

text \<open>
  C8. The draft-matters effect is accepted exactly for a seat that owes a pick, holds the effect card in
  its pool and names two different cards of its pack; it then trades the effect card, which goes back
  into the pack, for exactly those two cards, and no card of the event is added or lost.
\<close>

theorem effect_pick_exchanges:
  assumes "pod_wf s" and "pod_passes (pass_direction s) (length (seats s))"
  shows "if legal_effect_pick s seat effect_id ids
    then \<exists>s' ds pack picked effect rest.
      apply_pick_with_draft_effect s seat effect_id ids = (s', Ok (map (CardPicked seat) ids @ ds)) \<and>
      current_pack s ! unat seat = Some pack \<and> mset picked \<subseteq># mset pack \<and> map instance_id picked = ids \<and>
      is_effect_card effect_id effect \<and> add_mset effect (mset rest) = mset (pools s ! unat seat) \<and>
      pools s' = (pools s)[unat seat := rest @ picked] \<and> cards_in_event s' = cards_in_event s \<and> pod_wf s'
    else \<exists>e. apply_pick_with_draft_effect s seat effect_id ids = (s, Err e)"
proof (cases "legal_effect_pick s seat effect_id ids")
  case True
  with apply_effect_effect [OF assms(1) True] assms(2) show ?thesis by (simp only: if_True) blast
next
  case False
  with apply_effect_illegal [OF assms(1) False] show ?thesis by simp
qed

theorem effect_pick_exchanges_witness:
  "\<exists>s' ds picked rest. apply_pick_with_draft_effect sample_pod 0 ''e'' [''b'', ''a''] = (s', Ok (map (CardPicked 0) [''b'', ''a''] @ ds)) \<and>
    map instance_id picked = [''b'', ''a''] \<and> pools s' = [rest @ picked, []] \<and> cards_in_event s' = cards_in_event sample_pod"
proof -
  have legal: "legal_effect_pick sample_pod 0 ''e'' [''b'', ''a'']"
    and passes: "pod_passes (pass_direction sample_pod) (length (seats sample_pod))"
    by (simp_all add: legal_effect_pick_def is_effect_card_def sample_pod_simps pod_passes_def)
  from effect_pick_exchanges [OF sample_pod_wf passes, of 0 "''e''" "[''b'', ''a'']"] legal obtain s' ds picked rest where
    "apply_pick_with_draft_effect sample_pod 0 ''e'' [''b'', ''a''] = (s', Ok (map (CardPicked 0) [''b'', ''a''] @ ds))"
    "map instance_id picked = [''b'', ''a'']" "pools s' = (pools sample_pod)[unat (0 :: u8) := rest @ picked]"
    "cards_in_event s' = cards_in_event sample_pod" by (metis (no_types, lifting))
  moreover have "(pools sample_pod)[unat (0 :: u8) := rest @ picked] = [rest @ picked, []]" by (simp add: sample_pod_def)
  ultimately show ?thesis by metis
qed

text \<open>
  C33. In a pod of 129 to 255 seats a pass to the right loses a pack: the \<^verbatim>\<open>u8\<close> sum of \<open>next_seat\<close>
  wraps, two seats pass to the same one, and the pack seat 1 held is with nobody afterwards.
\<close>

theorem large_pod_loses_pack:
  assumes "pod_wf s" and "129 \<le> length (seats s)" and "pass_direction s = PassRight"
    and "\<And>i. i < length (seats s) \<Longrightarrow> i \<noteq> 1 \<Longrightarrow> current_pack s ! i \<noteq> Some pack"
  shows "\<exists>s'. pass_round (as_u8 (length (seats s))) s = Some s' \<and> Some pack \<notin> set (current_pack s')"
  using assms by (rule pass_round_loses_pack)

theorem large_pod_loses_pack_witness:
  "\<exists>s'. pass_round (as_u8 129)
       (sample_pod\<lparr>seats := replicate 129 (Bot ''B''), pass_direction := PassRight, pools := replicate 129 [],
          packs_by_seat := replicate 129 [], current_pack := (replicate 129 None)[1 := Some [sample_card ''a'' None]],
          current_pack_origins := replicate 129 None, seats_picked_this_round := SeatFlags (replicate 129 False),
          connected_seats := SeatFlags (replicate 129 True)\<rparr>) = Some s'
     \<and> Some [sample_card ''a'' None] \<notin> set (current_pack s')"
proof -
  let ?s = "sample_pod\<lparr>seats := replicate 129 (Bot ''B''), pass_direction := PassRight, pools := replicate 129 [],
          packs_by_seat := replicate 129 [], current_pack := (replicate 129 None)[1 := Some [sample_card ''a'' None]],
          current_pack_origins := replicate 129 None, seats_picked_this_round := SeatFlags (replicate 129 False),
          connected_seats := SeatFlags (replicate 129 True)\<rparr>"
  have "pod_wf ?s" by (simp add: pod_wf_def)
  then have "\<exists>s'. pass_round (as_u8 (length (seats ?s))) ?s = Some s' \<and> Some [sample_card ''a'' None] \<notin> set (current_pack s')"
    by (rule large_pod_loses_pack) (simp_all add: nth_list_update nth_replicate)
  then show ?thesis by (simp)
qed

end
