(* ===== verification/Draft_Pairings.thy ===== *)
theory Draft_Pairings
  imports Draft_Types
begin

text \<open>
  Tournament play after a draft (\<^verbatim>\<open>src/crates/draft-core/src/session.rs\<close>, lines 462 to 958): pairing
  generation for Swiss and single elimination, match results with their corrections, and the step
  to the next round. The lemmas show that the backtracking search pairs every player exactly once
  and admits a rematch only where no pairing without one exists, that match ids stay unique, and
  what correcting a result does to the records.
\<close>

subsection \<open>Players and records\<close>

text \<open>\<open>None\<close> is an index out of range.\<close>

definition seat_player_id :: "draft_session \<Rightarrow> u8 \<Rightarrow> player_id option" where
  "seat_player_id s seat =
     (case vec_get (seats s) (unat seat) of
        None \<Rightarrow> None
      | Some (Human p name) \<Rightarrow> Some p
      | Some (Bot name) \<Rightarrow> Some seat)"

definition new_match_record :: "player_id \<Rightarrow> draft_match_record" where
  "new_match_record p =
     \<lparr>mr_player = p, mr_wins = 0, mr_losses = 0, mr_draws = 0, mr_match_wins = 0, mr_match_losses = 0\<rparr>"

text \<open>The entry that \<^verbatim>\<open>ensure_match_record\<close> returns, updated in place by the caller.\<close>

definition ensure_match_record ::
  "match_record_map \<Rightarrow> player_id \<Rightarrow> (draft_match_record \<Rightarrow> draft_match_record) \<Rightarrow> match_record_map" where
  "ensure_match_record records p upd =
     records(p \<mapsto> upd (case records p of Some r \<Rightarrow> r | None \<Rightarrow> new_match_record p))"

definition SWISS_ROUNDS :: u8 where
  "SWISS_ROUNDS = 3"

definition next_pairing_round :: "draft_session \<Rightarrow> u8" where
  "next_pairing_round s = current_round s + 1"

subsection \<open>Swiss pairings\<close>

text \<open>
  The search for a perfect matching. The second function is the loop over the candidates from index
  \<open>i\<close> on; \<open>out\<close> is the vector that the search pushes to and pops from.
\<close>

function (sequential) pair_pool_avoiding_rematches ::
  "player_id list \<Rightarrow> (player_id \<times> player_id) set \<Rightarrow> bool \<Rightarrow> (player_id \<times> player_id) list
    \<Rightarrow> bool \<times> (player_id \<times> player_id) list"
and try_partners ::
  "player_id \<Rightarrow> player_id list \<Rightarrow> nat \<Rightarrow> (player_id \<times> player_id) set \<Rightarrow> bool \<Rightarrow> (player_id \<times> player_id) list
    \<Rightarrow> bool \<times> (player_id \<times> player_id) list" where
  "pair_pool_avoiding_rematches [] prior allow_rematch out = (True, out)"
| "pair_pool_avoiding_rematches (first # candidates) prior allow_rematch out =
     try_partners first candidates 0 prior allow_rematch out"
| "try_partners first candidates i prior allow_rematch out =
     (if length candidates \<le> i then (False, out)
      else (let partner = candidates ! i in
        if \<not> allow_rematch \<and> (first, partner) \<in> prior
        then try_partners first candidates (Suc i) prior allow_rematch out
        else (case pair_pool_avoiding_rematches (vec_remove i candidates) prior allow_rematch (out @ [(first, partner)]) of
            (True, out') \<Rightarrow> (True, out')
          | (False, out') \<Rightarrow> try_partners first candidates (Suc i) prior allow_rematch (butlast out'))))"
  by pat_completeness auto
termination
  by (relation "measures [
        \<lambda>x. case x of Inl (pool, _, _, _) \<Rightarrow> length pool | Inr (_, candidates, _, _, _, _) \<Rightarrow> Suc (length candidates),
        \<lambda>x. case x of Inl (pool, _, _, _) \<Rightarrow> Suc (length pool) | Inr (_, candidates, i, _, _, _) \<Rightarrow> length candidates - i]")
     (auto simp: rust_len)

declare try_partners.simps [simp del]

definition players_with_wins :: "draft_session \<Rightarrow> (player_id \<times> u8 \<times> u8) list option" where
  "players_with_wins s =
     those (map (\<lambda>i. map_option (\<lambda>p. (p, match_wins_of (match_records s) p, as_u8 i)) (seat_player_id s (as_u8 i)))
       [0..<length (seats s)])"

text \<open>\<^verbatim>\<open>sort_by_key(Reverse(wins))\<close>: a stable sort, most wins first.\<close>

definition sort_by_wins :: "(player_id \<times> u8 \<times> u8) list \<Rightarrow> (player_id \<times> u8 \<times> u8) list" where
  "sort_by_wins = sort_key (\<lambda>(p, wins, seat). - int (unat wins))"

fun brackets_from ::
  "u8 option \<Rightarrow> (player_id \<times> u8) list list \<Rightarrow> (player_id \<times> u8 \<times> u8) list \<Rightarrow> (player_id \<times> u8) list list" where
  "brackets_from current_wins brackets [] = brackets"
| "brackets_from current_wins brackets ((p, wins, seat) # rest) =
     (let bs = (if current_wins \<noteq> Some wins then brackets @ [[]] else brackets) in
      brackets_from (Some wins) (butlast bs @ [last bs @ [(p, seat)]]) rest)"

fun shuffle_brackets :: "'r rng \<Rightarrow> 'a list list \<Rightarrow> 'r \<Rightarrow> 'a list list \<times> 'r" where
  "shuffle_brackets g [] r = ([], r)"
| "shuffle_brackets g (b # bs) r =
     (let (b', r1) = shuffle g b r; (bs', r2) = shuffle_brackets g bs r1 in (b' # bs', r2))"

definition prior_pairs :: "draft_pairing list \<Rightarrow> (player_id \<times> player_id) set" where
  "prior_pairs ps =
     set (concat (map (\<lambda>p. [(fst (pairing_players p), snd (pairing_players p)),
                            (snd (pairing_players p), fst (pairing_players p))]) ps))"

text \<open>The loop over bye candidates from the bottom of the standings up.\<close>

fun bye_search ::
  "player_id list \<Rightarrow> (player_id \<times> player_id) set \<Rightarrow> nat list \<Rightarrow> ((player_id \<times> player_id) list \<times> player_id) option" where
  "bye_search pool prior [] = None"
| "bye_search pool prior (idx # rest) =
     (case pair_pool_avoiding_rematches (vec_remove idx pool) prior False [] of
        (True, paired) \<Rightarrow> Some (paired, pool ! idx)
      | (False, _) \<Rightarrow> bye_search pool prior rest)"

definition pair_pool :: "player_id list \<Rightarrow> (player_id \<times> player_id) set \<Rightarrow> (player_id \<times> player_id) list \<times> player_id option" where
  "pair_pool pool prior =
     (if length pool mod 2 = 0 then
        (case pair_pool_avoiding_rematches pool prior False [] of
           (True, paired) \<Rightarrow> (paired, None)
         | (False, _) \<Rightarrow> (snd (pair_pool_avoiding_rematches pool prior True []), None))
      else (case bye_search pool prior (rev [0..<length pool]) of
          Some (paired, cand) \<Rightarrow> (paired, Some cand)
        | None \<Rightarrow> (snd (pair_pool_avoiding_rematches (butlast pool) prior True []), Some (last pool))))"

definition match_id_for :: "u8 \<Rightarrow> nat \<Rightarrow> string" where
  "match_id_for round table = ''r'' @ show_u8 round @ ''-t'' @ show_nat table"

definition new_pairing :: "u8 \<Rightarrow> nat \<Rightarrow> player_id \<times> player_id \<Rightarrow> draft_pairing" where
  "new_pairing round table players =
     \<lparr>pairing_round = round, pairing_table = as_u8 table, pairing_players = players,
      match_id = match_id_for round table, pairing_state = PairingPending, pairing_winner = None\<rparr>"

definition number_tables :: "u8 \<Rightarrow> (player_id \<times> player_id) list \<Rightarrow> draft_pairing list" where
  "number_tables round paired = map (\<lambda>(table, players). new_pairing round table players) (enumerate 0 paired)"

definition swiss_pool :: "'r rng \<Rightarrow> draft_session \<Rightarrow> 'r \<Rightarrow> player_id list option" where
  "swiss_pool g s r =
     map_option (\<lambda>players. map fst (concat (fst (shuffle_brackets g (brackets_from None [] (sort_by_wins players)) r))))
       (players_with_wins s)"

definition generate_swiss_pairings ::
  "'r rng \<Rightarrow> draft_session \<Rightarrow> u8 \<Rightarrow> 'r \<Rightarrow> (draft_pairing list \<times> player_id option) option" where
  "generate_swiss_pairings g s round r =
     map_option (\<lambda>pool. let (paired, bye) = pair_pool pool (prior_pairs (pairings s)) in (number_tables round paired, bye))
       (swiss_pool g s r)"

subsection \<open>Single elimination\<close>

definition bracket_pairs :: "u8 \<Rightarrow> (u8 \<times> u8) list" where
  "bracket_pairs n = map (\<lambda>i. (as_u8 i, n - 1 - as_u8 i)) [0..<unat n div 2]"

text \<open>\<^verbatim>\<open>chunks(2)\<close> without the short last chunk, which \<^verbatim>\<open>filter_map\<close> drops.\<close>

fun full_pairs :: "'a list \<Rightarrow> ('a \<times> 'a) list" where
  "full_pairs (a # b # rest) = (a, b) # full_pairs rest"
| "full_pairs _ = []"

definition round_winners :: "draft_session \<Rightarrow> u8 \<Rightarrow> player_id list" where
  "round_winners s round =
     List.map_filter (\<lambda>p. result_winner p (match_records s))
       (filter (\<lambda>p. pairing_round p = round \<and> pairing_state p = PairingComplete) (pairings s))"

definition generate_se_pairings :: "draft_session \<Rightarrow> u8 \<Rightarrow> draft_pairing list option" where
  "generate_se_pairings s round =
     (if round = 1 then
        map_option (number_tables round)
          (those (map (\<lambda>(a, b). Option.bind (seat_player_id s a) (\<lambda>p1. map_option (\<lambda>p2. (p1, p2)) (seat_player_id s b)))
             (bracket_pairs (as_u8 (length (seats s))))))
      else Some (number_tables round (full_pairs (round_winners s (round - 1)))))"

subsection \<open>Generating a round\<close>

definition credit_bye :: "player_id option \<Rightarrow> match_record_map \<Rightarrow> match_record_map" where
  "credit_bye bye records =
     (case bye of
        None \<Rightarrow> records
      | Some p \<Rightarrow> ensure_match_record records p (\<lambda>r. r\<lparr>mr_match_wins := mr_match_wins r + 1\<rparr>))"

definition pairing_seed :: "draft_session \<Rightarrow> u8 \<Rightarrow> u64" where
  "pairing_seed s round = Bit_Operations.xor (cfg_rng_seed (config s)) (ucast round * 0xDEADBEEF)"

definition apply_generate_pairings :: "'r rng \<Rightarrow> draft_session \<Rightarrow> draft_outcome" where
  "apply_generate_pairings g s =
     (if status s \<notin> {Deckbuilding, Pairing, RoundComplete}
      then (s, Err (InvalidTransition (status s) ''GeneratePairings''))
      else (let procedure = kind_procedure (draft_kind_of s); n = as_u8 (length (seats s));
                fmt = cfg_tournament_format (config s)
        in if proc_post_draft_play procedure \<noteq> TournamentPairings
        then (s, Err (InvalidTransition (status s) ''GeneratePairings''))
        else if \<not> allows_pod_size procedure fmt n
        then (s, Err (UnsupportedTournamentSize fmt (fst (allowed_pod_size_range procedure fmt)) n))
        else (let round = next_pairing_round s; r = seed_from_u64 g (pairing_seed s round)
          in case (case fmt of
                Swiss \<Rightarrow> generate_swiss_pairings g s round r
              | SingleElimination \<Rightarrow> map_option (\<lambda>ps. (ps, None)) (generate_se_pairings s round)) of
              None \<Rightarrow> (s, Panic)
            | Some (new_pairings, bye) \<Rightarrow>
                (s\<lparr>pairings := pairings s @ new_pairings, match_records := credit_bye bye (match_records s),
                   status := MatchInProgress, current_round := round\<rparr>,
                 Ok [PairingsGenerated round, TransitionedTo MatchInProgress]))))"

subsection \<open>Match results\<close>

definition loser_of :: "player_id \<times> player_id \<Rightarrow> player_id \<Rightarrow> player_id" where
  "loser_of players w = (if fst players = w then snd players else fst players)"

definition apply_match_record_result ::
  "match_record_map \<Rightarrow> player_id \<times> player_id \<Rightarrow> player_id option \<Rightarrow> match_record_map" where
  "apply_match_record_result records players winner =
     (case winner of
        Some w \<Rightarrow>
          (let r1 = ensure_match_record records w (\<lambda>r. r\<lparr>mr_match_wins := mr_match_wins r + 1\<rparr>);
               r2 = ensure_match_record r1 w (\<lambda>r. r\<lparr>mr_wins := mr_wins r + 1\<rparr>);
               r3 = ensure_match_record r2 (loser_of players w) (\<lambda>r. r\<lparr>mr_match_losses := mr_match_losses r + 1\<rparr>)
           in ensure_match_record r3 (loser_of players w) (\<lambda>r. r\<lparr>mr_losses := mr_losses r + 1\<rparr>))
      | None \<Rightarrow>
          (let r1 = ensure_match_record records (fst players) (\<lambda>r. r\<lparr>mr_draws := mr_draws r + 1\<rparr>)
           in ensure_match_record r1 (snd players) (\<lambda>r. r\<lparr>mr_draws := mr_draws r + 1\<rparr>)))"

text \<open>\<^verbatim>\<open>if let Some(record) = records.get_mut(..)\<close>.\<close>

definition update_record ::
  "match_record_map \<Rightarrow> player_id \<Rightarrow> (draft_match_record \<Rightarrow> draft_match_record) \<Rightarrow> match_record_map" where
  "update_record records p upd = (case records p of None \<Rightarrow> records | Some r \<Rightarrow> records(p \<mapsto> upd r))"

definition undo_match_record_result ::
  "match_record_map \<Rightarrow> player_id \<times> player_id \<Rightarrow> player_id option \<Rightarrow> match_record_map" where
  "undo_match_record_result records players winner =
     (case winner of
        Some w \<Rightarrow>
          (let r1 = update_record records w (\<lambda>r. r\<lparr>mr_match_wins := saturating_sub (mr_match_wins r) 1,
                 mr_wins := saturating_sub (mr_wins r) 1\<rparr>)
           in update_record r1 (loser_of players w) (\<lambda>r. r\<lparr>mr_match_losses := saturating_sub (mr_match_losses r) 1,
                 mr_losses := saturating_sub (mr_losses r) 1\<rparr>))
      | None \<Rightarrow>
          (let r1 = update_record records (fst players) (\<lambda>r. r\<lparr>mr_draws := saturating_sub (mr_draws r) 1\<rparr>)
           in update_record r1 (snd players) (\<lambda>r. r\<lparr>mr_draws := saturating_sub (mr_draws r) 1\<rparr>)))"

definition result_winner_seat ::
  "draft_session \<Rightarrow> player_id \<times> player_id \<Rightarrow> string \<Rightarrow> u8 option \<Rightarrow> (player_id option, draft_error) rust_result" where
  "result_winner_seat s players mid winner_seat =
     (case winner_seat of
        None \<Rightarrow> Ok None
      | Some w \<Rightarrow>
          (let pod_size = as_u8 (length (seats s)) in
           if pod_size \<le> w then Err (SeatOutOfRange w pod_size)
           else (case seat_player_id s w of
               None \<Rightarrow> Panic
             | Some p \<Rightarrow>
                 if p \<noteq> fst players \<and> p \<noteq> snd players then Err (SeatNotInPairing w mid) else Ok (Some p))))"

definition tournament_over :: "draft_session \<Rightarrow> bool" where
  "tournament_over s =
     (case cfg_tournament_format (config s) of
        Swiss \<Rightarrow> SWISS_ROUNDS \<le> current_round s
      | SingleElimination \<Rightarrow> length (filter (\<lambda>p. pairing_round p = current_round s) (pairings s)) = 1)"

text \<open>The end of a report: the round or the tournament may be over.\<close>

definition settle_round :: "draft_session \<Rightarrow> draft_delta list \<Rightarrow> draft_outcome" where
  "settle_round s deltas =
     (if list_all (\<lambda>p. pairing_state p = PairingComplete) (filter (\<lambda>p. pairing_round p = current_round s) (pairings s))
      then (let st = (if tournament_over s then Complete else RoundComplete)
            in (s\<lparr>status := st\<rparr>, Ok (deltas @ [TransitionedTo st])))
      else (s, Ok deltas))"

definition record_result :: "draft_session \<Rightarrow> nat \<Rightarrow> player_id option \<Rightarrow> draft_session" where
  "record_result s idx winner =
     (let p = pairings s ! idx;
          records = (if pairing_state p = PairingComplete
            then undo_match_record_result (match_records s) (pairing_players p) (result_winner p (match_records s))
            else match_records s)
      in s\<lparr>pairings := (pairings s)[idx := p\<lparr>pairing_state := PairingComplete, pairing_winner := winner\<rparr>],
           match_records := apply_match_record_result records (pairing_players p) winner\<rparr>)"

definition apply_report_match_result :: "draft_session \<Rightarrow> string \<Rightarrow> u8 option \<Rightarrow> draft_outcome" where
  "apply_report_match_result s mid winner_seat =
     (if status s \<notin> {MatchInProgress, RoundComplete}
      then (s, Err (InvalidTransition (status s) ''ReportMatchResult''))
      else (case position (\<lambda>p. match_id p = mid) (pairings s) of
          None \<Rightarrow> (s, Err (PairingNotFound mid))
        | Some idx \<Rightarrow>
            (let p = pairings s ! idx in
             if pairing_round p \<noteq> current_round s then (s, Err (PairingNotInCurrentRound mid (current_round s)))
             else if cfg_tournament_format (config s) = SingleElimination \<and> winner_seat = None
             then (s, Err (MatchWinnerRequired mid))
             else (case result_winner_seat s (pairing_players p) mid winner_seat of
                 Panic \<Rightarrow> (s, Panic)
               | Err e \<Rightarrow> (s, Err e)
               | Ok winner \<Rightarrow> settle_round (record_result s idx winner) [MatchResultRecorded mid winner_seat]))))"

definition apply_advance_round :: "draft_session \<Rightarrow> draft_outcome" where
  "apply_advance_round s =
     (if status s \<noteq> RoundComplete then (s, Err (InvalidTransition (status s) ''AdvanceRound''))
      else (s\<lparr>status := Pairing\<rparr>, Ok [RoundAdvanced (next_pairing_round s)]))"

subsection \<open>The search is sound and complete\<close>

definition flat_pairs :: "('a \<times> 'a) list \<Rightarrow> 'a list" where
  "flat_pairs ps = concat (map (\<lambda>(a, b). [a, b]) ps)"

lemma flat_pairs_simps [simp]:
  "flat_pairs [] = []" "flat_pairs ((a, b) # ps) = a # b # flat_pairs ps"
  "flat_pairs (ps @ qs) = flat_pairs ps @ flat_pairs qs"
  by (simp_all add: flat_pairs_def)

text \<open>A pairing of the whole pool; without \<open>allow_rematch\<close>, one that repeats no earlier pairing.\<close>

definition pairs_pool :: "player_id list \<Rightarrow> (player_id \<times> player_id) set \<Rightarrow> bool \<Rightarrow> (player_id \<times> player_id) list \<Rightarrow> bool" where
  "pairs_pool pool prior allow_rematch ps \<longleftrightarrow>
     mset (flat_pairs ps) = mset pool \<and> (allow_rematch \<or> set ps \<inter> prior = {})"

lemma pairs_pool_first:
  assumes "pairs_pool (first # candidates) prior allow_rematch ps" and "sym prior"
  shows "\<exists>k ps'. k < length candidates \<and> (allow_rematch \<or> (first, candidates ! k) \<notin> prior)
    \<and> pairs_pool (vec_remove k candidates) prior allow_rematch ps'"
proof -
  from assms(1) have m: "mset (flat_pairs ps) = add_mset first (mset candidates)"
    and adm: "allow_rematch \<or> set ps \<inter> prior = {}" by (auto simp: pairs_pool_def)
  from m have "first \<in> set (flat_pairs ps)" by (metis set_mset_mset union_single_eq_member add_mset_add_single union_iff)
  then obtain a b where ab: "(a, b) \<in> set ps" "first = a \<or> first = b" by (auto simp: flat_pairs_def)
  from ab(1) obtain ps1 ps2 where ps: "ps = ps1 @ (a, b) # ps2" by (meson split_list)
  define c where "c = (if first = a then b else a)"
  have c: "(first, c) = (a, b) \<or> (first, c) = (b, a)" using ab(2) by (auto simp: c_def)
  have mc: "mset candidates = add_mset c (mset (flat_pairs (ps1 @ ps2)))"
    using m c by (auto simp: ps)
  then have "c \<in> set candidates" by (metis set_mset_mset union_single_eq_member)
  then obtain k where k: "k < length candidates" "candidates ! k = c" by (auto simp: in_set_conv_nth)
  have "mset (vec_remove k candidates) = mset (flat_pairs (ps1 @ ps2))"
    using mset_vec_remove [OF k(1)] mc k(2) by simp
  moreover have "allow_rematch \<or> (first, c) \<notin> prior"
    using adm c assms(2) by (auto simp: ps dest: symD)
  moreover have "allow_rematch \<or> set (ps1 @ ps2) \<inter> prior = {}" using adm by (auto simp: ps)
  ultimately show ?thesis using k by (auto simp: pairs_pool_def intro!: exI [of _ k] exI [of _ "ps1 @ ps2"])
qed

definition search_ok ::
  "((player_id \<times> player_id) list \<Rightarrow> bool) \<Rightarrow> bool \<Rightarrow> (player_id \<times> player_id) list \<Rightarrow> bool \<times> (player_id \<times> player_id) list \<Rightarrow> bool" where
  "search_ok found none out res \<longleftrightarrow>
     (if fst res then \<exists>ps. snd res = out @ ps \<and> found ps else snd res = out \<and> none)"

lemma from_next: "(\<forall>k ps. i \<le> k \<longrightarrow> P k ps) \<longleftrightarrow> (\<forall>ps. P i ps) \<and> (\<forall>k ps. Suc i \<le> k \<longrightarrow> P k ps)" for i :: nat
  by (metis Suc_leD Suc_leI le_neq_implies_less order_refl)

lemma pair_pool_search:
  assumes sym: "sym prior"
  shows "search_ok (pairs_pool pool prior ar) (\<nexists>ps. pairs_pool pool prior ar ps) out
      (pair_pool_avoiding_rematches pool prior ar out)"
    and "search_ok (pairs_pool (first # candidates) prior ar)
      (\<forall>k ps. i \<le> k \<longrightarrow> k < length candidates \<longrightarrow> (ar \<or> (first, candidates ! k) \<notin> prior) \<longrightarrow>
         \<not> pairs_pool (vec_remove k candidates) prior ar ps) out
      (try_partners first candidates i prior ar out)"
  using sym
proof (induction pool prior ar out and first candidates i prior ar out
    rule: pair_pool_avoiding_rematches_try_partners.induct)
  case (1 prior ar out)
  then show ?case by (simp add: search_ok_def pairs_pool_def exI [of _ "[]"])
next
  case (2 first candidates prior ar out)
  show ?case
    using "2.IH" [OF "2.prems"] pairs_pool_first [OF _ "2.prems", of first candidates ar]
    unfolding search_ok_def pair_pool_avoiding_rematches.simps by (metis le0)
next
  case (3 first candidates i prior ar out)
  let ?partner = "candidates ! i"
  show ?case
  proof (cases "length candidates \<le> i")
    case True
    then show ?thesis by (simp add: try_partners.simps search_ok_def)
  next
    case False
    note i = this
    show ?thesis
    proof (cases "\<not> ar \<and> (first, ?partner) \<in> prior")
      case True
      have "search_ok (pairs_pool (first # candidates) prior ar)
        (\<forall>k ps. Suc i \<le> k \<longrightarrow> k < length candidates \<longrightarrow> (ar \<or> (first, candidates ! k) \<notin> prior) \<longrightarrow>
          \<not> pairs_pool (vec_remove k candidates) prior ar ps) out (try_partners first candidates (Suc i) prior ar out)"
        by (rule "3.IH"(1)) (use i True "3.prems" in auto)
      moreover have "try_partners first candidates i prior ar out = try_partners first candidates (Suc i) prior ar out"
        using i True by (simp add: try_partners.simps [of first candidates i])
      ultimately show ?thesis
        using True unfolding search_ok_def from_next [of i] by (auto split: if_splits)
    next
      case False
      let ?rec = "pair_pool_avoiding_rematches (vec_remove i candidates) prior ar (out @ [(first, ?partner)])"
      have rec: "search_ok (pairs_pool (vec_remove i candidates) prior ar) (\<nexists>ps. pairs_pool (vec_remove i candidates) prior ar ps)
          (out @ [(first, ?partner)]) ?rec"
        by (rule "3.IH"(2)) (use i False "3.prems" in auto)
      show ?thesis
      proof (cases "fst ?rec")
        case True
        with rec obtain ps where ps: "snd ?rec = out @ (first, ?partner) # ps" "pairs_pool (vec_remove i candidates) prior ar ps"
          by (auto simp: search_ok_def)
        have res: "try_partners first candidates i prior ar out = (True, snd ?rec)"
          using i False True by (auto simp: try_partners.simps [of first candidates i] Let_def split: prod.splits bool.splits)
        have "pairs_pool (first # candidates) prior ar ((first, ?partner) # ps)"
          using ps(2) False i mset_vec_remove [of i candidates] by (auto simp: pairs_pool_def)
        with res ps(1) show ?thesis by (auto simp: search_ok_def)
      next
        case none: False
        with rec have out: "butlast (snd ?rec) = out" "\<nexists>ps. pairs_pool (vec_remove i candidates) prior ar ps"
          by (auto simp: search_ok_def)
        have res: "try_partners first candidates i prior ar out = try_partners first candidates (Suc i) prior ar out"
          using i False none out(1)
          by (auto simp: try_partners.simps [of first candidates i] Let_def split: prod.splits bool.splits)
        have "search_ok (pairs_pool (first # candidates) prior ar)
          (\<forall>k ps. Suc i \<le> k \<longrightarrow> k < length candidates \<longrightarrow> (ar \<or> (first, candidates ! k) \<notin> prior) \<longrightarrow>
            \<not> pairs_pool (vec_remove k candidates) prior ar ps) (butlast (snd ?rec)) (try_partners first candidates (Suc i) prior ar (butlast (snd ?rec)))"
          by (rule "3.IH"(3) [of ?partner "fst ?rec" "snd ?rec"]) (use i False none "3.prems" in \<open>auto simp: prod_eq_iff\<close>)
        with out(2) show ?thesis unfolding search_ok_def from_next [of i] res out(1) by (auto split: if_splits)
      qed
    qed
  qed
qed

lemma flat_full_pairs: "even (length xs) \<Longrightarrow> flat_pairs (full_pairs xs) = xs"
  by (induction xs rule: full_pairs.induct) simp_all

lemma length_full_pairs: "length (full_pairs xs) = length xs div 2"
  by (induction xs rule: full_pairs.induct) simp_all

lemma length_flat_pairs: "length (flat_pairs ps) = 2 * length ps"
  by (induction ps) (auto simp: flat_pairs_def)

lemma pair_pool_found:
  assumes "sym prior" and "pair_pool_avoiding_rematches pool prior ar [] = (True, paired)"
  shows "pairs_pool pool prior ar paired"
  using pair_pool_search(1) [OF assms(1), of pool ar "[]"] assms(2) by (auto simp: search_ok_def)

lemma pair_pool_not_found:
  assumes "sym prior" and "pair_pool_avoiding_rematches pool prior ar [] = (False, out)"
  shows "\<not> pairs_pool pool prior ar ps"
  using pair_pool_search(1) [OF assms(1), of pool ar "[]"] assms(2) by (auto simp: search_ok_def)

lemma pair_pool_rematches:
  assumes "sym prior" and "even (length pool)"
  shows "pairs_pool pool prior True (snd (pair_pool_avoiding_rematches pool prior True []))"
proof -
  have ex: "pairs_pool pool prior True (full_pairs pool)"
    using assms(2) by (simp add: pairs_pool_def flat_full_pairs)
  obtain b out where r: "pair_pool_avoiding_rematches pool prior True [] = (b, out)" by fastforce
  with pair_pool_not_found [OF assms(1)] ex have b by (cases b) auto
  with r pair_pool_found [OF assms(1)] show ?thesis by simp
qed

lemma bye_search_Some:
  assumes "sym prior" and "bye_search pool prior idxs = Some (paired, cand)" and "\<forall>i\<in>set idxs. i < length pool"
  shows "mset (cand # flat_pairs paired) = mset pool \<and> set paired \<inter> prior = {}"
  using assms(2,3)
proof (induction idxs)
  case (Cons idx idxs)
  show ?case
  proof (cases "pair_pool_avoiding_rematches (vec_remove idx pool) prior False []")
    case (Pair b out)
    show ?thesis
    proof (cases b)
      case True
      with Pair Cons.prems pair_pool_found [OF assms(1)] mset_vec_remove [of idx pool]
      show ?thesis by (auto simp: pairs_pool_def)
    next
      case False
      with Pair Cons show ?thesis by simp
    qed
  qed
qed simp

lemma bye_search_None:
  assumes "sym prior" and "bye_search pool prior idxs = None" and "i \<in> set idxs"
  shows "\<not> pairs_pool (vec_remove i pool) prior False ps"
  using assms(2,3)
  by (induction idxs) (auto dest: pair_pool_not_found [OF assms(1)] split: prod.splits bool.splits)

text \<open>
  What a round owes its players: everyone plays once or has the bye, the bye exists for odd pods
  only, and a rematch happens only if every such pairing has one.
\<close>

definition covers :: "player_id list \<Rightarrow> (player_id \<times> player_id) list \<Rightarrow> player_id option \<Rightarrow> bool" where
  "covers pool ps bye \<longleftrightarrow> mset ((case bye of None \<Rightarrow> [] | Some p \<Rightarrow> [p]) @ flat_pairs ps) = mset pool"

lemma covers_parity: "covers pool ps bye \<Longrightarrow> bye = None \<longleftrightarrow> even (length pool)"
proof -
  assume "covers pool ps bye"
  then have "size (mset ((case bye of None \<Rightarrow> [] | Some p \<Rightarrow> [p]) @ flat_pairs ps)) = size (mset pool)"
    by (simp add: covers_def)
  then have "length pool = (case bye of None \<Rightarrow> 0 | Some p \<Rightarrow> 1) + 2 * length ps"
    by (simp add: length_flat_pairs split: option.splits)
  then show ?thesis by (cases bye) simp_all
qed

lemma pair_pool_round:
  assumes sym: "sym prior" and res: "pair_pool pool prior = (paired, bye)"
  shows "covers pool paired bye"
    and "covers pool ps b \<Longrightarrow> set ps \<inter> prior = {} \<Longrightarrow> set paired \<inter> prior = {}"
proof -
  have "covers pool paired bye \<and> (covers pool ps b \<longrightarrow> set ps \<inter> prior = {} \<longrightarrow> set paired \<inter> prior = {})"
  proof (cases "even (length pool)")
    case True
    obtain ok out where r: "pair_pool_avoiding_rematches pool prior False [] = (ok, out)" by fastforce
    show ?thesis
    proof (cases ok)
      case True
      with r res \<open>even (length pool)\<close> have "paired = out" "bye = None" by (auto simp: pair_pool_def even_iff_mod_2_eq_zero)
      with pair_pool_found [OF sym, of pool False out] r True show ?thesis by (simp add: covers_def pairs_pool_def)
    next
      case False
      have p: "paired = snd (pair_pool_avoiding_rematches pool prior True [])" "bye = None"
        using r res False \<open>even (length pool)\<close> by (auto simp: pair_pool_def even_iff_mod_2_eq_zero)
      have "covers pool paired bye"
        using pair_pool_rematches [OF sym \<open>even (length pool)\<close>] p by (simp add: covers_def pairs_pool_def)
      moreover have "\<not> (covers pool ps b \<and> set ps \<inter> prior = {})"
        using pair_pool_not_found [OF sym, of pool False out ps] r False covers_parity [of pool ps b] \<open>even (length pool)\<close>
        by (auto simp: covers_def pairs_pool_def)
      ultimately show ?thesis by blast
    qed
  next
    case False
    note odd = this
    then have ne: "pool \<noteq> []" by auto
    show ?thesis
    proof (cases "bye_search pool prior (rev [0..<length pool])")
      case None
      have p: "paired = snd (pair_pool_avoiding_rematches (butlast pool) prior True [])" "bye = Some (last pool)"
        using None res odd by (auto simp: pair_pool_def even_iff_mod_2_eq_zero)
      have "covers pool paired bye"
        using pair_pool_rematches [OF sym, of "butlast pool"] p odd ne
        by (simp add: covers_def pairs_pool_def) (metis append_butlast_last_id mset_append mset_single_iff
            add_mset_add_single mset.simps)
      moreover have "\<not> (covers pool ps b \<and> set ps \<inter> prior = {})"
      proof
        assume c: "covers pool ps b \<and> set ps \<inter> prior = {}"
        then obtain x where b: "b = Some x" using covers_parity [of pool ps b] odd by auto
        with c have m: "add_mset x (mset (flat_pairs ps)) = mset pool" by (simp add: covers_def)
        then have "x \<in> set pool" by (metis set_mset_mset union_single_eq_member)
        then obtain k where k: "k < length pool" "pool ! k = x" by (auto simp: in_set_conv_nth)
        then have "add_mset x (mset (vec_remove k pool)) = add_mset x (mset (flat_pairs ps))"
          using mset_vec_remove [OF k(1)] m by (simp only:)
        then have "pairs_pool (vec_remove k pool) prior False ps"
          using c by (simp add: pairs_pool_def)
        with bye_search_None [OF sym None, of k] k(1) show False by simp
      qed
      ultimately show ?thesis by blast
    next
      case (Some a)
      then obtain cand where p: "a = (paired, cand)" "bye = Some cand"
        using res odd by (cases a) (auto simp: pair_pool_def even_iff_mod_2_eq_zero)
      from bye_search_Some [OF sym, of pool "rev [0..<length pool]" paired cand] Some p
      show ?thesis by (simp add: covers_def)
    qed
  qed
  then show "covers pool paired bye" "covers pool ps b \<Longrightarrow> set ps \<inter> prior = {} \<Longrightarrow> set paired \<inter> prior = {}" by blast+
qed

subsection \<open>Swiss rounds\<close>

definition player_ids :: "draft_session \<Rightarrow> player_id list" where
  "player_ids s = map (\<lambda>i. case seats s ! (i mod 256) of Human p _ \<Rightarrow> p | Bot _ \<Rightarrow> as_u8 i) [0..<length (seats s)]"

lemma those_map_total: "(\<And>x. x \<in> set xs \<Longrightarrow> f x = Some (g x)) \<Longrightarrow> those (map f xs) = Some (map g xs)"
  by (induction xs) simp_all

lemma seat_player_id_in_range:
  assumes "i < length (seats s)"
  shows "seat_player_id s (as_u8 i) = Some (case seats s ! (i mod 256) of Human p _ \<Rightarrow> p | Bot _ \<Rightarrow> as_u8 i)"
proof -
  have "i mod 256 < length (seats s)" using assms mod_less_eq_dividend [of i 256] by linarith
  then show ?thesis by (simp add: seat_player_id_def unat_as_u8 split: draft_seat.split)
qed

lemma players_with_wins_ids: "\<exists>ps. players_with_wins s = Some ps \<and> map fst ps = player_ids s"
proof -
  let ?p = "\<lambda>i. case seats s ! (i mod 256) of Human p _ \<Rightarrow> p | Bot _ \<Rightarrow> as_u8 i"
  have "players_with_wins s = Some (map (\<lambda>i. (?p i, match_wins_of (match_records s) (?p i), as_u8 i)) [0..<length (seats s)])"
    unfolding players_with_wins_def by (rule those_map_total) (simp add: seat_player_id_in_range)
  then show ?thesis by (simp add: player_ids_def comp_def)
qed

lemma brackets_from_flat:
  "(current \<noteq> None \<longrightarrow> bs \<noteq> []) \<Longrightarrow> concat (brackets_from current bs xs) = concat bs @ map (\<lambda>(p, wins, seat). (p, seat)) xs"
proof (induction xs arbitrary: current bs)
  case (Cons x xs)
  obtain p w seat where x: "x = (p, w, seat)" by (metis prod_cases3)
  let ?bs = "if current \<noteq> Some w then bs @ [[]] else bs"
  have ne: "?bs \<noteq> []" using Cons.prems by auto
  have "concat (butlast ?bs @ [last ?bs @ [(p, seat)]]) = concat (butlast ?bs @ [last ?bs]) @ [(p, seat)]" by simp
  also have "\<dots> = concat bs @ [(p, seat)]" unfolding append_butlast_last_id [OF ne] by simp
  finally show ?case using Cons.IH [of "Some w" "butlast ?bs @ [last ?bs @ [(p, seat)]]"] by (simp add: x Let_def)
qed simp

lemma mset_shuffle: "rng_shuffles g \<Longrightarrow> mset (fst (shuffle g xs r)) = mset xs"
  unfolding shuffle_def rng_shuffles_def split_beta Let_def fst_conv by (intro mset_map_nth_permutation) blast

lemma mset_shuffle_brackets: "rng_shuffles g \<Longrightarrow> mset (concat (fst (shuffle_brackets g bs r))) = mset (concat bs)"
  by (induction bs arbitrary: r) (auto simp: split_beta Let_def mset_shuffle)

lemma swiss_pool_players:
  assumes "rng_shuffles g"
  shows "\<exists>pool. swiss_pool g s r = Some pool \<and> mset pool = mset (player_ids s)"
proof -
  obtain ps where ps: "players_with_wins s = Some ps" "map fst ps = player_ids s" using players_with_wins_ids by blast
  let ?bs = "brackets_from None [] (sort_by_wins ps)"
  have "mset (map fst (concat (fst (shuffle_brackets g ?bs r)))) = image_mset fst (mset (concat ?bs))"
    using mset_shuffle_brackets [OF assms, of ?bs r] by (simp only: mset_map)
  also have "\<dots> = mset (map fst (sort_by_wins ps))"
    by (simp add: brackets_from_flat split_beta image_mset.compositionality comp_def)
  also have "\<dots> = mset (player_ids s)" by (simp add: sort_by_wins_def flip: ps(2))
  finally show ?thesis using ps(1) by (simp add: swiss_pool_def)
qed

lemma sym_prior_pairs: "sym (prior_pairs ps)"
  by (auto simp: sym_def prior_pairs_def prod_eq_iff)

lemma map_number_tables [simp]: "map pairing_players (number_tables round ps) = ps"
proof -
  have "map pairing_players (map (\<lambda>(t, players). new_pairing round t players) (enumerate n ps)) = ps" for n
    by (induction ps arbitrary: n) (simp_all add: new_pairing_def)
  then show ?thesis by (simp add: number_tables_def)
qed

lemma swiss_round:
  assumes "rng_shuffles g"
  obtains ps bye where "generate_swiss_pairings g s round r = Some (ps, bye)"
    "covers (player_ids s) (map pairing_players ps) bye"
    "\<And>qs b. covers (player_ids s) qs b \<Longrightarrow> set qs \<inter> prior_pairs (pairings s) = {} \<Longrightarrow>
       set (map pairing_players ps) \<inter> prior_pairs (pairings s) = {}"
proof -
  obtain pool where pool: "swiss_pool g s r = Some pool" "mset pool = mset (player_ids s)"
    using swiss_pool_players [OF assms] by blast
  obtain paired bye where p: "pair_pool pool (prior_pairs (pairings s)) = (paired, bye)" by fastforce
  have c: "covers pool qs b = covers (player_ids s) qs b" for qs b by (simp add: covers_def pool(2))
  show thesis
    by (rule that [of "number_tables round paired" bye])
       (use pair_pool_round [OF sym_prior_pairs p] in \<open>simp_all add: generate_swiss_pairings_def pool(1) p c\<close>)
qed

subsection \<open>Single elimination rounds\<close>

lemma bracket_pairs_cover:
  assumes "even (unat n)"
  shows "mset (map unat (flat_pairs (bracket_pairs n))) = mset [0..<unat n]"
proof -
  let ?m = "unat n"
  have u: "unat (n - 1 - as_u8 i) = ?m - 1 - i" "unat (as_u8 i) = i" if "i < ?m div 2" for i
  proof -
    have i: "i < 256" "i < ?m" using that unat_u8_bound [of n] by linarith+
    then show "unat (as_u8 i) = i" by simp
    have one: "unat (n - 1) = ?m - 1" using i(2) by (simp add: unat_sub word_le_nat_alt)
    then show "unat (n - 1 - as_u8 i) = ?m - 1 - i" using i by (simp add: unat_sub word_le_nat_alt)
  qed
  have "mset (map unat (flat_pairs (map (\<lambda>i. (as_u8 i, n - 1 - as_u8 i)) xs)))
      = mset (map (\<lambda>i. i) xs) + mset (map (\<lambda>i. ?m - 1 - i) xs)" if "set xs \<subseteq> {..<?m div 2}" for xs
    using that by (induction xs) (auto simp: u)
  from this [of "[0..<?m div 2]"] have "mset (map unat (flat_pairs (bracket_pairs n)))
      = mset [0..<?m div 2] + mset (map (\<lambda>i. ?m - 1 - i) [0..<?m div 2])"
    by (simp add: bracket_pairs_def atLeast0LessThan)
  also have "map (\<lambda>i. ?m - 1 - i) [0..<?m div 2] = rev [?m div 2..<?m]"
    using assms by (intro nth_equalityI) (auto simp: rev_nth elim!: evenE)
  moreover have "[0..<?m] = [0..<?m div 2] @ [?m div 2..<?m]"
    using upt_add_eq_append [of 0 "?m div 2" "?m - ?m div 2"] by simp
  ultimately show ?thesis by (simp only: mset_append mset_rev)
qed

lemma map_flat_pairs: "map f (flat_pairs ps) = flat_pairs (map (\<lambda>(a, b). (f a, f b)) ps)"
  by (induction ps) (auto simp: flat_pairs_def)

lemma se_first_round:
  assumes n: "even (length (seats s))" "length (seats s) < 256"
  obtains ps where "generate_se_pairings s 1 = Some ps" "covers (player_ids s) (map pairing_players ps) None"
proof -
  let ?n = "length (seats s)"
  let ?pid = "\<lambda>seat. case seats s ! unat seat of Human p _ \<Rightarrow> p | Bot _ \<Rightarrow> seat"
  let ?ps = "map (\<lambda>(a, b). (?pid a, ?pid b)) (bracket_pairs (as_u8 ?n))"
  have un: "unat (as_u8 ?n) = ?n" using n by simp
  have cover: "mset (map unat (flat_pairs (bracket_pairs (as_u8 ?n)))) = mset [0..<?n]"
    using bracket_pairs_cover [of "as_u8 ?n"] n by simp
  have in_range: "unat a < ?n \<and> unat b < ?n" if "(a, b) \<in> set (bracket_pairs (as_u8 ?n))" for a b
  proof -
    have "unat a \<in> set (map unat (flat_pairs (bracket_pairs (as_u8 ?n))))" "unat b \<in> set (map unat (flat_pairs (bracket_pairs (as_u8 ?n))))"
      using that by (force simp: flat_pairs_def)+
    with cover show ?thesis by (metis atLeastLessThan_iff set_mset_mset set_upt)
  qed
  have "those (map (\<lambda>(a, b). Option.bind (seat_player_id s a) (\<lambda>p1. map_option (\<lambda>p2. (p1, p2)) (seat_player_id s b)))
      (bracket_pairs (as_u8 ?n))) = Some ?ps"
    by (rule those_map_total) (use in_range in \<open>fastforce simp: seat_player_id_def split: draft_seat.splits\<close>)
  then have gen: "generate_se_pairings s 1 = Some (number_tables 1 ?ps)" by (simp add: generate_se_pairings_def)
  have "flat_pairs ?ps = map ?pid (flat_pairs (bracket_pairs (as_u8 ?n)))" by (simp add: map_flat_pairs)
  also have "\<dots> = map (\<lambda>i. ?pid (as_u8 i)) (map unat (flat_pairs (bracket_pairs (as_u8 ?n))))"
    by (simp only: map_map comp_def as_u8_unat)
  finally have "mset (flat_pairs ?ps) = image_mset (\<lambda>i. ?pid (as_u8 i)) (mset [0..<?n])" using cover by (metis mset_map)
  also have "\<dots> = mset (player_ids s)"
    unfolding player_ids_def mset_map by (intro image_mset_cong) (simp add: unat_as_u8)
  finally have "covers (player_ids s) ?ps None" by (simp add: covers_def)
  with gen show thesis using that map_number_tables [of 1 ?ps] by (simp only:)
qed

lemma se_next_round:
  assumes "round \<noteq> 1"
  shows "generate_se_pairings s round = Some (number_tables round (full_pairs (round_winners s (round - 1))))"
  using assms by (simp add: generate_se_pairings_def)

lemma map_filter_all: "(\<And>x. x \<in> set xs \<Longrightarrow> f x \<noteq> None) \<Longrightarrow> length (List.map_filter f xs) = length xs"
  by (induction xs) (force simp: map_filter_simps)+

lemma se_round_halves:
  assumes "round \<noteq> 1" and "generate_se_pairings s round = Some ps"
    and "\<And>p. p \<in> set (pairings s) \<Longrightarrow> pairing_round p = round - 1 \<Longrightarrow> pairing_state p = PairingComplete \<and> pairing_winner p \<noteq> None"
  shows "length ps = length (filter (\<lambda>p. pairing_round p = round - 1) (pairings s)) div 2"
proof -
  let ?prev = "filter (\<lambda>p. pairing_round p = round - 1) (pairings s)"
  have f: "filter (\<lambda>p. pairing_round p = round - 1 \<and> pairing_state p = PairingComplete) (pairings s) = ?prev"
    using assms(3) by (intro filter_cong) auto
  have "length (round_winners s (round - 1)) = length ?prev"
    unfolding round_winners_def f by (rule map_filter_all) (use assms(3) in \<open>fastforce simp: result_winner_def split: option.splits\<close>)
  then show ?thesis
    using assms(1,2) by (auto simp: se_next_round number_tables_def length_full_pairs)
qed

subsection \<open>Match ids\<close>

lemma match_id_for_inj: "match_id_for a t = match_id_for b u \<longleftrightarrow> a = b \<and> t = u"
proof -
  have no_dash: "CHR ''-'' \<notin> set (show_nat n)" for n using show_nat_digits [of "CHR ''-''" n] by auto
  have "show_nat (unat a) @ CHR ''-'' # CHR ''t'' # show_nat t = show_nat (unat b) @ CHR ''-'' # CHR ''t'' # show_nat u
      \<longleftrightarrow> show_nat (unat a) = show_nat (unat b) \<and> CHR ''t'' # show_nat t = CHR ''t'' # show_nat u"
    by (rule append_Cons_eq_iff) (use no_dash in auto)
  then show ?thesis by (simp add: match_id_for_def show_u8_def word_unat_eq_iff)
qed

definition pairings_wf :: "draft_session \<Rightarrow> bool" where
  "pairings_wf s \<longleftrightarrow>
     distinct (map match_id (pairings s)) \<and>
     (\<forall>p\<in>set (pairings s). pairing_round p \<le> current_round s \<and> (\<exists>t. match_id p = match_id_for (pairing_round p) t))"

lemma number_tables_ids:
  "map match_id (number_tables round ps) = map (match_id_for round) [0..<length ps]"
  "p \<in> set (number_tables round ps) \<Longrightarrow> pairing_round p = round \<and> pairing_state p = PairingPending \<and> pairing_winner p = None"
proof -
  have "map match_id (map (\<lambda>(t, players). new_pairing round t players) (enumerate n ps)) = map (match_id_for round) [n..<n + length ps]" for n
    by (induction ps arbitrary: n) (simp_all add: new_pairing_def upt_conv_Cons del: upt_Suc)
  from this [of 0] show "map match_id (number_tables round ps) = map (match_id_for round) [0..<length ps]"
    by (simp add: number_tables_def)
  show "p \<in> set (number_tables round ps) \<Longrightarrow> pairing_round p = round \<and> pairing_state p = PairingPending \<and> pairing_winner p = None"
    by (auto simp: number_tables_def new_pairing_def)
qed

lemma pairings_wf_append:
  assumes "pairings_wf s" and "current_round s < round"
  shows "pairings_wf (s\<lparr>pairings := pairings s @ number_tables round ps, match_records := rs, status := st, current_round := round\<rparr>)"
proof -
  have "distinct (map (match_id_for round) [0..<length ps])" by (simp add: distinct_map inj_on_def match_id_for_inj)
  moreover have "match_id p \<noteq> match_id_for round t" if "p \<in> set (pairings s)" for p t
  proof -
    from that assms(1) obtain u where "match_id p = match_id_for (pairing_round p) u" "pairing_round p \<le> current_round s"
      by (auto simp: pairings_wf_def)
    with assms(2) show ?thesis by (auto simp: match_id_for_inj)
  qed
  moreover have "\<exists>t. match_id p = match_id_for round t" if "p \<in> set (number_tables round ps)" for p
  proof -
    from that have "match_id p \<in> set (map match_id (number_tables round ps))" by simp
    then show ?thesis unfolding number_tables_ids(1) by auto
  qed
  ultimately show ?thesis
    using assms number_tables_ids(1) [of round ps] number_tables_ids(2) by (fastforce simp: pairings_wf_def)
qed

subsection \<open>Match records\<close>

text \<open>A missing record reads as the one that \<^verbatim>\<open>ensure_match_record\<close> would create.\<close>

definition record_of :: "match_record_map \<Rightarrow> player_id \<Rightarrow> draft_match_record" where
  "record_of records p = (case records p of Some r \<Rightarrow> r | None \<Rightarrow> new_match_record p)"

definition no_wrap :: "draft_match_record \<Rightarrow> bool" where
  "no_wrap r \<longleftrightarrow> mr_wins r \<noteq> - 1 \<and> mr_losses r \<noteq> - 1 \<and> mr_draws r \<noteq> - 1 \<and> mr_match_wins r \<noteq> - 1 \<and> mr_match_losses r \<noteq> - 1"

lemma record_of_ensure:
  "record_of (ensure_match_record records p upd) q = (if q = p then upd (record_of records p) else record_of records q)"
  by (simp add: record_of_def ensure_match_record_def)

lemma record_of_update:
  "records p \<noteq> None \<Longrightarrow>
    record_of (update_record records p upd) q = (if q = p then upd (record_of records p) else record_of records q)"
  by (auto simp: record_of_def update_record_def)

lemma dom_ensure [simp]: "dom (ensure_match_record records p upd) = insert p (dom records)"
  by (simp add: ensure_match_record_def)

lemma dom_update [simp]: "dom (update_record records p upd) = dom records"
  by (auto simp: update_record_def split: option.splits)

lemma saturating_sub_add [simp]: "w \<noteq> - 1 \<Longrightarrow> saturating_sub (w + 1) 1 = w" for w :: u8
proof -
  assume w: "w \<noteq> - 1"
  have "w + 1 \<noteq> 0" using w by (metis add.inverse_unique add.commute)
  then have "1 \<le> w + 1" by (metis word_coorder.not_eq_extremum unat_gt_0 word_le_nat_alt unat_1 One_nat_def Suc_leI)
  then show ?thesis by (simp add: saturating_sub_def)
qed

definition valid_winner :: "player_id \<times> player_id \<Rightarrow> player_id option \<Rightarrow> bool" where
  "valid_winner players winner \<longleftrightarrow> (case winner of None \<Rightarrow> True | Some w \<Rightarrow> w = fst players \<or> w = snd players)"

lemma record_of_apply:
  assumes "fst players \<noteq> snd players" and "valid_winner players winner"
  shows "record_of (apply_match_record_result records players winner) q =
    (case winner of
       None \<Rightarrow> if q = fst players \<or> q = snd players
         then (record_of records q)\<lparr>mr_draws := mr_draws (record_of records q) + 1\<rparr> else record_of records q
     | Some v \<Rightarrow>
         if q = v then (record_of records q)\<lparr>mr_wins := mr_wins (record_of records q) + 1,
           mr_match_wins := mr_match_wins (record_of records q) + 1\<rparr>
         else if q = loser_of players v then (record_of records q)\<lparr>mr_losses := mr_losses (record_of records q) + 1,
           mr_match_losses := mr_match_losses (record_of records q) + 1\<rparr>
         else record_of records q)"
  using assms
  by (auto simp: apply_match_record_result_def record_of_ensure Let_def loser_of_def valid_winner_def split: option.splits)

lemma record_of_undo:
  assumes "fst players \<noteq> snd players" and "valid_winner players winner"
    and "fst players \<in> dom records" "snd players \<in> dom records"
  shows "record_of (undo_match_record_result records players winner) q =
    (case winner of
       None \<Rightarrow> if q = fst players \<or> q = snd players
         then (record_of records q)\<lparr>mr_draws := saturating_sub (mr_draws (record_of records q)) 1\<rparr> else record_of records q
     | Some v \<Rightarrow>
         if q = v then (record_of records q)\<lparr>mr_match_wins := saturating_sub (mr_match_wins (record_of records q)) 1,
           mr_wins := saturating_sub (mr_wins (record_of records q)) 1\<rparr>
         else if q = loser_of players v then (record_of records q)\<lparr>mr_match_losses := saturating_sub (mr_match_losses (record_of records q)) 1,
           mr_losses := saturating_sub (mr_losses (record_of records q)) 1\<rparr>
         else record_of records q)"
proof -
  have upd: "record_of (update_record rs p u) q = (if q = p then u (record_of rs p) else record_of rs q)"
    if "p \<in> dom rs" for rs p u q using that by (auto simp: record_of_update)
  have l: "loser_of players v \<in> dom records" "v = fst players \<or> v = snd players \<Longrightarrow> v \<in> dom records" for v
    using assms(3,4) by (auto simp: loser_of_def)
  show ?thesis
    using assms(1,2) l assms(3,4)
    by (auto simp: undo_match_record_result_def upd Let_def loser_of_def valid_winner_def simp del: domIff split: option.splits)
qed

lemma undo_apply_record:
  assumes "fst players \<noteq> snd players" and "valid_winner players winner"
    and "no_wrap (record_of records (fst players))" "no_wrap (record_of records (snd players))"
  shows "record_of (undo_match_record_result (apply_match_record_result records players winner) players winner) = record_of records"
proof
  fix q
  have d: "fst players \<in> dom (apply_match_record_result records players winner)"
      "snd players \<in> dom (apply_match_record_result records players winner)"
    using assms(1,2)
    by (auto simp: apply_match_record_result_def Let_def loser_of_def valid_winner_def simp del: domIff split: option.splits)
  show "record_of (undo_match_record_result (apply_match_record_result records players winner) players winner) q = record_of records q"
    unfolding record_of_undo [OF assms(1,2) d] record_of_apply [OF assms(1,2)]
    using assms by (auto simp: no_wrap_def loser_of_def valid_winner_def split: option.splits)
qed

subsection \<open>Reporting and correcting results\<close>

lemma record_of_apply_cong:
  assumes "fst players \<noteq> snd players" and "valid_winner players winner" and "record_of r1 = record_of r2"
  shows "record_of (apply_match_record_result r1 players winner) = record_of (apply_match_record_result r2 players winner)"
  by (rule ext) (simp only: record_of_apply [OF assms(1,2)] assms(3))

lemma record_result_fields [simp]:
  "seats (record_result s i w) = seats s" "status (record_result s i w) = status s" "config (record_result s i w) = config s"
  "current_round (record_result s i w) = current_round s" "length (pairings (record_result s i w)) = length (pairings s)"
  "draft_kind_of (record_result s i w) = draft_kind_of s"
  by (simp_all add: record_result_def Let_def)

text \<open>Correcting a decided match leaves the records as if the first report had not been made.\<close>

lemma correct_result:
  assumes idx: "idx < length (pairings s)" and fresh: "pairing_state (pairings s ! idx) \<noteq> PairingComplete"
    and players: "pairing_players (pairings s ! idx) = (a, b)" "a \<noteq> b"
    and w1: "w1 = a \<or> w1 = b" and w2: "valid_winner (a, b) w2"
    and wrap: "no_wrap (record_of (match_records s) a)" "no_wrap (record_of (match_records s) b)"
  shows "record_of (match_records (record_result (record_result s idx (Some w1)) idx w2))
       = record_of (match_records (record_result s idx w2))"
    and "pairings (record_result (record_result s idx (Some w1)) idx w2) = pairings (record_result s idx w2)"
proof -
  let ?s1 = "record_result s idx (Some w1)"
  have p1: "pairings ?s1 ! idx = (pairings s ! idx)\<lparr>pairing_state := PairingComplete, pairing_winner := Some w1\<rparr>"
    and m1: "match_records ?s1 = apply_match_record_result (match_records s) (a, b) (Some w1)"
    using idx fresh players by (simp_all add: record_result_def Let_def)
  have v: "valid_winner (a, b) (Some w1)" using w1 by (simp add: valid_winner_def)
  let ?undone = "undo_match_record_result (match_records ?s1) (a, b) (Some w1)"
  have m2: "match_records (record_result ?s1 idx w2) = apply_match_record_result ?undone (a, b) w2"
    using p1 players by (simp add: record_result_def [of ?s1] Let_def result_winner_def)
  have "record_of ?undone = record_of (match_records s)"
    unfolding m1 using undo_apply_record [of "(a, b)" "Some w1" "match_records s"] players(2) v wrap by simp
  from record_of_apply_cong [OF _ w2 this] players m2 fresh
  show "record_of (match_records (record_result ?s1 idx w2)) = record_of (match_records (record_result s idx w2))"
    by (simp add: record_result_def [of s] Let_def)
  show "pairings (record_result ?s1 idx w2) = pairings (record_result s idx w2)"
    using idx p1 by (simp add: record_result_def Let_def)
qed

text \<open>
  Correcting a drawn match whose players have different records undoes a win and a loss instead of
  the draw: \<open>result_winner\<close> infers a winner for the recorded draw.
\<close>

lemma correct_draw:
  assumes idx: "idx < length (pairings s)" and fresh: "pairing_state (pairings s ! idx) \<noteq> PairingComplete"
    and players: "pairing_players (pairings s ! idx) = (a, b)" "a \<noteq> b"
    and ahead: "match_wins_of (match_records s) b < match_wins_of (match_records s) a"
  shows "mr_draws (record_of (match_records (record_result (record_result s idx None) idx (Some b))) a)
       = mr_draws (record_of (match_records (record_result s idx (Some b))) a) + 1"
    and "mr_match_wins (record_of (match_records (record_result (record_result s idx None) idx (Some b))) a)
       = mr_match_wins (record_of (match_records (record_result s idx (Some b))) a) - 1"
proof -
  let ?s1 = "record_result s idx None"
  have p1: "pairings ?s1 ! idx = (pairings s ! idx)\<lparr>pairing_state := PairingComplete, pairing_winner := None\<rparr>"
    and m1: "match_records ?s1 = apply_match_record_result (match_records s) (a, b) None"
    using idx fresh players by (simp_all add: record_result_def Let_def)
  have wins: "match_wins_of rs p = mr_match_wins (record_of rs p)" for rs p
    by (simp add: match_wins_of_def record_of_def new_match_record_def split: option.split)
  have vn: "valid_winner (a, b) None" "valid_winner (a, b) (Some a)" "valid_winner (a, b) (Some b)"
    by (simp_all add: valid_winner_def)
  note draw = record_of_apply [of "(a, b)" None "match_records s", OF _ vn(1)]
  have "result_winner (pairings ?s1 ! idx) (match_records ?s1) = Some a"
    using ahead draw players by (simp add: p1 m1 result_winner_def infer_winner_from_records_def wins)
  then have m2: "match_records (record_result ?s1 idx (Some b)) =
      apply_match_record_result (undo_match_record_result (match_records ?s1) (a, b) (Some a)) (a, b) (Some b)"
    using p1 players by (simp add: record_result_def [of ?s1] Let_def)
  have d: "a \<in> dom (match_records ?s1)" "b \<in> dom (match_records ?s1)"
    unfolding m1 by (simp_all add: apply_match_record_result_def Let_def del: domIff)
  have undo: "record_of (undo_match_record_result (match_records ?s1) (a, b) (Some a)) a =
      (let r = record_of (match_records s) a in r\<lparr>mr_draws := mr_draws r + 1,
         mr_match_wins := saturating_sub (mr_match_wins r) 1, mr_wins := saturating_sub (mr_wins r) 1\<rparr>)"
    using record_of_undo [of "(a, b)" "Some a" "match_records ?s1" a] players(2) vn d draw by (simp add: m1 Let_def)
  have after: "record_of (match_records (record_result ?s1 idx (Some b))) a =
      (let r = record_of (undo_match_record_result (match_records ?s1) (a, b) (Some a)) a
       in r\<lparr>mr_losses := mr_losses r + 1, mr_match_losses := mr_match_losses r + 1\<rparr>)"
    using record_of_apply [of "(a, b)" "Some b" _ a, OF _ vn(3)] players(2) by (simp add: m2 Let_def loser_of_def)
  have direct: "record_of (match_records (record_result s idx (Some b))) a =
      (let r = record_of (match_records s) a in r\<lparr>mr_losses := mr_losses r + 1, mr_match_losses := mr_match_losses r + 1\<rparr>)"
    using record_of_apply [of "(a, b)" "Some b" "match_records s" a, OF _ vn(3)] players fresh
    by (simp add: record_result_def Let_def loser_of_def)
  show "mr_draws (record_of (match_records (record_result ?s1 idx (Some b))) a)
      = mr_draws (record_of (match_records (record_result s idx (Some b))) a) + 1"
    by (simp add: after undo direct Let_def)
  have "1 \<le> mr_match_wins (record_of (match_records s) a)"
    using ahead by (simp add: wins word_le_nat_alt word_less_nat_alt)
  then show "mr_match_wins (record_of (match_records (record_result ?s1 idx (Some b))) a)
      = mr_match_wins (record_of (match_records (record_result s idx (Some b))) a) - 1"
    by (simp add: after undo direct Let_def saturating_sub_def)
qed

subsection \<open>Whole operations\<close>

definition may_pair :: "draft_session \<Rightarrow> bool" where
  "may_pair s \<longleftrightarrow> status s \<in> {Deckbuilding, Pairing, RoundComplete} \<and>
     proc_post_draft_play (kind_procedure (draft_kind_of s)) = TournamentPairings \<and>
     allows_pod_size (kind_procedure (draft_kind_of s)) (cfg_tournament_format (config s)) (as_u8 (length (seats s)))"

lemma generate_pairings_shape:
  assumes "generate_swiss_pairings g s round r = Some (ps, bye)"
  shows "\<exists>paired. ps = number_tables round paired"
  using assms by (auto simp: generate_swiss_pairings_def split_beta)

lemma generate_se_shape:
  assumes "generate_se_pairings s round = Some ps"
  shows "\<exists>paired. ps = number_tables round paired"
  using assms by (auto simp: generate_se_pairings_def split: if_splits)

lemma apply_generate_pairings_cases:
  obtains (refused) r where "apply_generate_pairings g s = (s, r)" "\<not> is_ok r"
  | (paired) paired bye where "may_pair s"
    "apply_generate_pairings g s =
       (s\<lparr>pairings := pairings s @ number_tables (current_round s + 1) paired, match_records := credit_bye bye (match_records s),
          status := MatchInProgress, current_round := current_round s + 1\<rparr>,
        Ok [PairingsGenerated (current_round s + 1), TransitionedTo MatchInProgress])"
proof -
  let ?round = "current_round s + 1"
  let ?gen = "case cfg_tournament_format (config s) of
      Swiss \<Rightarrow> generate_swiss_pairings g s ?round (seed_from_u64 g (pairing_seed s ?round))
    | SingleElimination \<Rightarrow> map_option (\<lambda>ps. (ps, None)) (generate_se_pairings s ?round)"
  show thesis
  proof (cases "may_pair s \<and> ?gen \<noteq> None")
    case True
    then obtain ps bye where gen: "?gen = Some (ps, bye)" by auto
    then obtain paired where "ps = number_tables ?round paired"
      using generate_pairings_shape generate_se_shape by (fastforce split: tournament_format.splits)
    with True gen show thesis
      by (intro paired [where paired = paired and bye = bye]) (auto simp: apply_generate_pairings_def may_pair_def next_pairing_round_def Let_def)
  next
    case False
    then show thesis
      by (intro refused [of "snd (apply_generate_pairings g s)"])
         (auto simp: apply_generate_pairings_def may_pair_def next_pairing_round_def Let_def split: tournament_format.splits option.splits)
  qed
qed

lemma pairings_wf_generate:
  assumes "pairings_wf s" and "current_round s \<noteq> - 1"
  shows "pairings_wf (fst (apply_generate_pairings g s))"
proof (cases rule: apply_generate_pairings_cases [of g s])
  case (paired paired bye)
  have "current_round s < current_round s + 1"
    using assms(2) unatSuc [of "current_round s"] by (simp add: word_less_nat_alt add_eq_0_iff add.commute)
  with paired(2) pairings_wf_append [OF assms(1)] show ?thesis by simp
qed (simp add: assms)

lemma pairings_wf_alt:
  "pairings_wf s \<longleftrightarrow> distinct (map match_id (pairings s)) \<and>
     (\<forall>(m, r)\<in>set (zip (map match_id (pairings s)) (map pairing_round (pairings s))). r \<le> current_round s \<and> (\<exists>t. m = match_id_for r t))"
proof -
  have "zip (map match_id ps) (map pairing_round ps) = map (\<lambda>p. (match_id p, pairing_round p)) ps" for ps :: "draft_pairing list"
    by (induction ps) auto
  then show ?thesis by (simp add: pairings_wf_def)
qed

lemma map_update_same: "f q = f (xs ! i) \<Longrightarrow> map f (xs[i := q]) = map f xs"
  by (metis list_update_id map_update)

lemma pairings_wf_cong:
  assumes "map match_id (pairings s') = map match_id (pairings s)" and "map pairing_round (pairings s') = map pairing_round (pairings s)"
    and "current_round s' = current_round s" and "pairings_wf s"
  shows "pairings_wf s'"
  using assms(4) by (simp add: pairings_wf_alt assms(1-3) del: map_eq_conv)

lemma pairings_wf_record:
  assumes "pairings_wf s"
  shows "pairings_wf (record_result s i v)"
  by (rule pairings_wf_cong [OF _ _ _ assms]) (simp_all add: record_result_def Let_def map_update_same)

lemma pairings_wf_report:
  assumes "pairings_wf s"
  shows "pairings_wf (fst (apply_report_match_result s mid w))"
proof -
  have settle: "pairings_wf (fst (settle_round t ds)) \<longleftrightarrow> pairings_wf t" for t ds
    by (simp add: settle_round_def Let_def pairings_wf_def)
  show ?thesis
    by (simp add: apply_report_match_result_def Let_def assms settle pairings_wf_record split: option.split rust_result.split)
qed

subsection \<open>Properties\<close>

text \<open>
  C12. Generating a Swiss round pairs every player exactly once, with one bye (credited as a match win)
  in an odd pod and none in an even one, and repeats an earlier pairing only if every complete pairing
  of the pod does.
\<close>

theorem swiss_pairs_everyone:
  assumes "rng_shuffles g" and "may_pair s" and "cfg_tournament_format (config s) = Swiss"
  shows "\<exists>s' ps bye. apply_generate_pairings g s =
      (s', Ok [PairingsGenerated (current_round s + 1), TransitionedTo MatchInProgress]) \<and>
    pairings s' = pairings s @ ps \<and> match_records s' = credit_bye bye (match_records s) \<and>
    covers (player_ids s) (map pairing_players ps) bye \<and> (bye = None \<longleftrightarrow> even (length (seats s))) \<and>
    ((\<exists>qs b. covers (player_ids s) qs b \<and> set qs \<inter> prior_pairs (pairings s) = {}) \<longrightarrow>
      set (map pairing_players ps) \<inter> prior_pairs (pairings s) = {})"
proof -
  let ?round = "current_round s + 1"
  from swiss_round [OF assms(1), of s ?round "seed_from_u64 g (pairing_seed s ?round)"] obtain ps bye where
    gen: "generate_swiss_pairings g s ?round (seed_from_u64 g (pairing_seed s ?round)) = Some (ps, bye)"
    and cov: "covers (player_ids s) (map pairing_players ps) bye"
    and fresh: "\<And>qs b. covers (player_ids s) qs b \<Longrightarrow> set qs \<inter> prior_pairs (pairings s) = {} \<Longrightarrow>
       set (map pairing_players ps) \<inter> prior_pairs (pairings s) = {}" by metis
  let ?s' = "s\<lparr>pairings := pairings s @ ps, match_records := credit_bye bye (match_records s),
    status := MatchInProgress, current_round := ?round\<rparr>"
  have "apply_generate_pairings g s = (?s', Ok [PairingsGenerated ?round, TransitionedTo MatchInProgress])"
    using gen assms(2,3) by (auto simp: apply_generate_pairings_def may_pair_def next_pairing_round_def Let_def)
  moreover have "bye = None \<longleftrightarrow> even (length (seats s))" using covers_parity [OF cov] by (simp add: player_ids_def)
  ultimately show ?thesis using cov fresh by (intro exI [of _ ?s'] exI [of _ ps] exI [of _ bye]) auto
qed

theorem swiss_pairs_everyone_witness:
  "\<exists>s' ps bye. apply_generate_pairings sample_rng (sample_pod\<lparr>status := Pairing\<rparr>) =
      (s', Ok [PairingsGenerated 1, TransitionedTo MatchInProgress]) \<and> pairings s' = ps \<and>
    covers [0, 1] (map pairing_players ps) bye"
proof -
  have "may_pair (sample_pod\<lparr>status := Pairing\<rparr>)"
    by (simp add: may_pair_def allows_pod_size_def allowed_pod_size_range_def sample_pod_def sample_seats_def sample_config_def as_u8_def)
  from swiss_pairs_everyone [OF sample_rng_ok(1) this] show ?thesis
    by (simp add: sample_pod_def sample_config_def player_ids_def sample_seats_def) blast
qed

text \<open>
  C13. The recursive search answers yes exactly when the pool has a pairing that repeats no earlier one,
  and then it has appended such a pairing to its output; on no, the output is what it was.
\<close>

theorem backtracking_exact:
  assumes "sym prior"
  shows "(fst (pair_pool_avoiding_rematches pool prior ar out) \<longleftrightarrow> (\<exists>ps. pairs_pool pool prior ar ps)) \<and>
    (if fst (pair_pool_avoiding_rematches pool prior ar out)
     then \<exists>ps. snd (pair_pool_avoiding_rematches pool prior ar out) = out @ ps \<and> pairs_pool pool prior ar ps
     else snd (pair_pool_avoiding_rematches pool prior ar out) = out)"
  using pair_pool_search(1) [OF assms, of pool ar out] by (auto simp: search_ok_def split: if_splits)

theorem backtracking_exact_witness:
  "\<exists>ps. snd (pair_pool_avoiding_rematches [1, 2, 3, 4] {(1, 2), (2, 1), (1, 3), (3, 1)} False []) = ps
     \<and> pairs_pool [1, 2, 3, 4] {(1, 2), (2, 1), (1, 3), (3, 1)} False ps"
proof -
  let ?prior = "{(1, 2), (2, 1), (1, 3), (3, 1)} :: (player_id \<times> player_id) set"
  have sym: "sym ?prior" by (auto simp: sym_def)
  have "pairs_pool [1, 2, 3, 4] ?prior False [(1, 4), (2, 3)]" by (simp add: pairs_pool_def)
  with backtracking_exact [OF sym, of "[1, 2, 3, 4]" False "[]"] show ?thesis by (metis append_Nil)
qed

text \<open>
  The first round of a single-elimination bracket pairs every seat of an even pod exactly once.
\<close>

theorem single_elimination_first_round:
  assumes "even (length (seats s))" and "length (seats s) < 256"
  shows "\<exists>ps. generate_se_pairings s 1 = Some ps \<and> covers (player_ids s) (map pairing_players ps) None \<and>
    2 * length ps = length (seats s)"
proof -
  obtain ps where ps: "generate_se_pairings s 1 = Some ps" "covers (player_ids s) (map pairing_players ps) None"
    using se_first_round [OF assms] by blast
  have "length (flat_pairs (map pairing_players ps)) = length (player_ids s)"
    using ps(2) [unfolded covers_def] by (intro mset_eq_length) simp
  then have "2 * length ps = length (seats s)" by (simp add: length_flat_pairs player_ids_def)
  with ps show ?thesis by blast
qed

text \<open>
  Every later round of the bracket has half the matches of the round before, once all of that
  round's matches are decided.
\<close>

theorem single_elimination_halves:
  assumes "round \<noteq> 1" and "generate_se_pairings s round = Some ps"
    and "\<And>p. p \<in> set (pairings s) \<Longrightarrow> pairing_round p = round - 1 \<Longrightarrow> pairing_state p = PairingComplete \<and> pairing_winner p \<noteq> None"
  shows "length ps = length (filter (\<lambda>p. pairing_round p = round - 1) (pairings s)) div 2"
  by (rule se_round_halves [OF assms])

text \<open>
  Match ids stay unique over the whole tournament, so a report reaches one match only: generating a
  round (before the 255th), reporting a result and advancing keep them distinct.
\<close>

theorem match_ids_stay_unique:
  assumes "pairings_wf s" and "current_round s \<noteq> - 1"
  shows "pairings_wf (fst (apply_generate_pairings g s)) \<and> pairings_wf (fst (apply_report_match_result s mid w)) \<and>
    pairings_wf (fst (apply_advance_round s))"
proof (intro conjI)
  show "pairings_wf (fst (apply_advance_round s))"
    using assms(1) by (simp add: apply_advance_round_def pairings_wf_def)
qed (simp_all add: pairings_wf_generate pairings_wf_report assms)

text \<open>
  Correcting the result of a decided match leaves pairings and records exactly as if only the
  corrected result had been reported.
\<close>

theorem corrected_result_replaces:
  assumes "idx < length (pairings s)" and "pairing_state (pairings s ! idx) \<noteq> PairingComplete"
    and "pairing_players (pairings s ! idx) = (a, b)" "a \<noteq> b"
    and "w1 = a \<or> w1 = b" and "valid_winner (a, b) w2"
    and "no_wrap (record_of (match_records s) a)" "no_wrap (record_of (match_records s) b)"
  shows "record_of (match_records (record_result (record_result s idx (Some w1)) idx w2))
       = record_of (match_records (record_result s idx w2)) \<and>
     pairings (record_result (record_result s idx (Some w1)) idx w2) = pairings (record_result s idx w2)"
  using correct_result [OF assms] by blast

text \<open>A round with one match, players 0 and 1.\<close>

definition sample_match :: draft_session where
  "sample_match = sample_pod\<lparr>status := MatchInProgress, pairings := number_tables 1 [(0, 1)], current_round := 1,
     match_records := [0 \<mapsto> (new_match_record 0)\<lparr>mr_match_wins := 1, mr_wins := 1\<rparr>]\<rparr>"

lemma sample_match_simps:
  "length (pairings sample_match) = 1" "pairing_state (pairings sample_match ! 0) = PairingPending"
  "pairing_players (pairings sample_match ! 0) = (0, 1)"
  "match_records sample_match = [0 \<mapsto> (new_match_record 0)\<lparr>mr_match_wins := 1, mr_wins := 1\<rparr>]"
  by (simp_all add: sample_match_def number_tables_def new_pairing_def)

text \<open>
  Correcting a drawn match between players with different match wins does not take the draw back:
  the winner inferred for the drawn match loses a match win instead and the draw stays counted.
\<close>

theorem corrected_draw_keeps_draw:
  assumes "idx < length (pairings s)" and "pairing_state (pairings s ! idx) \<noteq> PairingComplete"
    and "pairing_players (pairings s ! idx) = (a, b)" "a \<noteq> b"
    and "match_wins_of (match_records s) b < match_wins_of (match_records s) a"
  shows "mr_draws (record_of (match_records (record_result (record_result s idx None) idx (Some b))) a)
       = mr_draws (record_of (match_records (record_result s idx (Some b))) a) + 1 \<and>
     mr_match_wins (record_of (match_records (record_result (record_result s idx None) idx (Some b))) a)
       = mr_match_wins (record_of (match_records (record_result s idx (Some b))) a) - 1"
  using correct_draw [OF assms] by blast

end
