(* ===== verification/Draft_Session.thy ===== *)
theory Draft_Session
  imports Draft_Validation Draft_Shared_Stack Draft_Pick_Pass Draft_Pairings
begin

text \<open>
  The session reducer (\<^verbatim>\<open>src/crates/draft-core/src/session.rs\<close>): a new session, the shape of its packs,
  the import check on snapshots, the start of a draft in its three distributions, deck submission and
  the dispatcher \<open>apply\<close>, which composes them with the operations of the other draft theories.
  The lemmas show the life cycle of a session, that the reducer keeps sessions well formed and does
  not panic, that cards are conserved from the deal to deck building, and what the import check
  accepts.
\<close>

subsection \<open>Sessions and the shape of their packs\<close>

definition new_session :: "draft_config \<Rightarrow> draft_seat list \<Rightarrow> string \<Rightarrow> draft_session" where
  "new_session cfg the_seats code =
     (let pod_size = length the_seats in
      \<lparr>booster_pack_pool = None, shared_stack = None, draft_code = code, set_code = cfg_set_code cfg,
       draft_kind_of = cfg_kind cfg, status = Lobby, config = cfg, seats = the_seats,
       current_pack_number = 0, pack_sizes = [], pick_number = 0,
       seats_picked_this_round = sf_all_false (as_u8 pod_size),
       connected_seats = sf_all_true (as_u8 pod_size),
       pass_direction = pass_for_pack 0,
       packs_by_seat = replicate pod_size [], current_pack = replicate pod_size None,
       current_pack_origins = replicate pod_size None, pools = replicate pod_size [],
       submitted_decks = Map.empty, match_records = Map.empty, pairings = [], current_round = 0,
       created_at = 0, updated_at = 0\<rparr>)"

fun is_cube :: "draft_source \<Rightarrow> bool" where
  "is_cube (CubeSource ident name) = True"
| "is_cube (SetSource layout) = False"

definition booster_pack_pool_for_game :: "draft_session \<Rightarrow> string list option" where
  "booster_pack_pool_for_game s =
     (case booster_pack_pool s of
        Some pool \<Rightarrow> Some pool
      | None \<Rightarrow> if is_cube (cfg_source (config s)) then Some [] else None)"

definition cards_in_pack :: "draft_session \<Rightarrow> u8 \<Rightarrow> u8" where
  "cards_in_pack s pack_number =
     (case entry_for_pack (pack_sizes s) pack_number of
        Some n \<Rightarrow> n
      | None \<Rightarrow> cfg_cards_per_pack (config s))"

definition total_pack_cards :: "draft_session \<Rightarrow> usize" where
  "total_pack_cards s =
     (if pack_sizes s = [] then unat (cfg_pack_count (config s)) * unat (cfg_cards_per_pack (config s))
      else sum_list (map unat (pack_sizes s)))"

definition pack_size_sequence :: "draft_session \<Rightarrow> u8 list" where
  "pack_size_sequence s = map (\<lambda>pack. cards_in_pack s (as_u8 pack)) [0..<unat (cfg_pack_count (config s))]"

definition pack_set_code_sequence :: "draft_session \<Rightarrow> string list" where
  "pack_set_code_sequence s =
     map (\<lambda>pack. source_set_code_for_pack (cfg_source (config s)) (as_u8 pack)) [0..<unat (cfg_pack_count (config s))]"

text \<open>\<open>None\<close> is the division by zero of \<open>pick_steps_per_pack\<close>.\<close>

definition pack_pick_step_sequence :: "draft_session \<Rightarrow> u8 list option" where
  "pack_pick_step_sequence s =
     those (map (\<lambda>pack. pick_steps_per_pack (kind_procedure (draft_kind_of s)) (cards_in_pack s (as_u8 pack)))
       [0..<unat (cfg_pack_count (config s))])"

subsection \<open>The import check\<close>

definition layout_check :: "draft_session \<Rightarrow> (unit, draft_error) rust_result" where
  "layout_check s =
     (case cfg_source (config s) of
        SetSource layout \<Rightarrow>
          (case validate_for_draft layout (as_u8 (length (seats s))) (cfg_pack_count (config s)) of
             Ok _ \<Rightarrow> Ok ()
           | Err reason \<Rightarrow> Err (InvalidPackSequence reason)
           | Panic \<Rightarrow> Panic)
      | CubeSource _ _ \<Rightarrow> Ok ())"

definition pod_size_allowed :: "draft_session \<Rightarrow> bool" where
  "pod_size_allowed s \<longleftrightarrow>
     (let procedure = kind_procedure (draft_kind_of s); fmt = cfg_tournament_format (config s);
          n = as_u8 (length (seats s))
      in allows_pod_size procedure fmt n
         \<or> (is_cube (cfg_source (config s)) \<and> allows_local_cube_pod_size procedure fmt n))"

text \<open>The checks of a shared-stack snapshot in the order the source makes them.\<close>

definition stack_snapshot_error :: "draft_session \<Rightarrow> usize \<Rightarrow> shared_stack_state \<Rightarrow> string option" where
  "stack_snapshot_error s n st =
     (if length (piles st) \<noteq> n \<or> length (inspected st) \<noteq> n
      then Some (''a shared-stack session has exactly '' @ show_nat n @ '' piles'')
      else if length (seats s) \<le> unat (active_seat st) \<or> n \<le> unat (stack_cursor st)
      then Some ''active seat and cursor must be in range''
      else if list_ex (\<lambda>(seen, pile). length pile < seen) (zip (inspected st) (piles st))
      then Some ''a seat cannot have inspected more cards than a pile holds''
      else if forced_draws st \<noteq> [] \<and> length (forced_draws st) \<noteq> length (seats s)
      then Some ''a shared-stack session keeps one forced-draw notice per seat''
      else if SHARED_STACK_HISTORY_CAPACITY < length (stack_history st)
      then Some (''a shared-stack history keeps at most '' @ show_nat SHARED_STACK_HISTORY_CAPACITY @ '' decisions'')
      else if list_ex (\<lambda>r. n \<le> unat (rec_pile r)) (stack_history st)
      then Some ''a history record names a pile the session does not have''
      else if list_ex (\<lambda>r. length (seats s) \<le> unat (rec_seat r)) (stack_history st)
      then Some ''a history record names a seat the session does not have''
      else if length (pools s) \<noteq> length (seats s) \<or> unat (cfg_pod_size (config s)) \<noteq> length (seats s)
      then Some ''per-seat vectors do not match the core seats''
      else if length (seats s) \<le> unat (starting_seat st)
      then Some ''the starting seat must be a seat the session has''
      else if list_ex (\<lambda>seen. seen \<noteq> 0) (drop (unat (stack_cursor st) + 1) (inspected st))
      then Some ''a seat cannot have inspected a pile beyond its cursor''
      else if status s = Drafting \<and> forced_decision st (active_seat st) = None
      then Some ''a drafting shared-stack session must admit a legal decision''
      else None)"

definition validate_stack_snapshot :: "draft_session \<Rightarrow> u8 \<Rightarrow> (unit, draft_error) rust_result" where
  "validate_stack_snapshot s pile_count =
     (case piles_needed pile_count of
        Panic \<Rightarrow> Panic
      | Err e \<Rightarrow> Err e
      | Ok n \<Rightarrow>
          (case shared_stack s of
             None \<Rightarrow>
               if status s = Drafting
               then Err (InvalidSharedStackConfiguration ''a drafting shared-stack session must carry its stack'')
               else Ok ()
           | Some st \<Rightarrow>
               (case stack_snapshot_error s n st of
                  Some reason \<Rightarrow> Err (InvalidSharedStackConfiguration reason)
                | None \<Rightarrow> Ok ())))"

definition validate_sealed_snapshot :: "draft_session \<Rightarrow> (unit, draft_error) rust_result" where
  "validate_sealed_snapshot s =
     (let procedure = kind_procedure (draft_kind_of s); n = length (seats s) in
      if is_cube (cfg_source (config s)) then Err SealedRequiresSetSource
      else if source_set_code (cfg_source (config s)) \<noteq> cfg_set_code (config s) \<or> set_code s \<noteq> cfg_set_code (config s)
      then Err (InvalidSealedSnapshot ''set source and session codes must match'')
      else if cfg_pack_count (config s) \<noteq> proc_packs_per_player procedure
        \<or> cfg_min_deck_size (config s) \<noteq> proc_min_deck_size procedure
      then Err (InvalidSealedSnapshot ''sealed requires six packs and a 40-card minimum deck'')
      else if status s = Drafting
      then Err (InvalidSealedSnapshot ''sealed sessions cannot be in drafting status'')
      else if unat (cfg_pod_size (config s)) \<noteq> n \<or> length (pools s) \<noteq> n \<or> length (current_pack s) \<noteq> n
        \<or> length (packs_by_seat s) \<noteq> n
      then Err (InvalidSealedSnapshot ''per-seat vectors do not match the core seats'')
      else if status s \<noteq> Lobby \<and> list_ex (\<lambda>pool. length pool \<noteq> total_pack_cards s) (pools s)
      then Err (InvalidSealedSnapshot ''started sealed pools must contain exactly one card from each configured pack'')
      else if status s \<noteq> Lobby
        \<and> (list_ex (\<lambda>slot. slot \<noteq> None) (current_pack s) \<or> list_ex (\<lambda>packs. packs \<noteq> []) (packs_by_seat s))
      then Err (InvalidSealedSnapshot ''sealed packs must be retained only in player pools'')
      else Ok ())"

definition validate_persisted_snapshot :: "draft_session \<Rightarrow> (unit, draft_error) rust_result" where
  "validate_persisted_snapshot s =
     (let procedure = kind_procedure (draft_kind_of s) in
      if draft_kind_of s \<noteq> cfg_kind (config s)
      then Err (InvalidSealedSnapshot ''session kind does not match configuration'')
      else (case layout_check s of
          Panic \<Rightarrow> Panic
        | Err e \<Rightarrow> Err e
        | Ok _ \<Rightarrow>
            (case validate_source procedure (cfg_source (config s)) of
               Panic \<Rightarrow> Panic
             | Err e \<Rightarrow> Err e
             | Ok _ \<Rightarrow>
                 if \<not> pod_size_allowed s
                 then Err (InvalidSealedSnapshot ''pod size does not satisfy the draft procedure'')
                 else (case proc_distribution procedure of
                     PickAndPass \<Rightarrow> Ok ()
                   | AllAtOnce \<Rightarrow> validate_sealed_snapshot s
                   | SharedStackPiles pile_count \<Rightarrow> validate_stack_snapshot s pile_count))))"

subsection \<open>Seats\<close>

definition apply_replace_seat_with_bot :: "draft_session \<Rightarrow> u8 \<Rightarrow> string option \<Rightarrow> draft_outcome" where
  "apply_replace_seat_with_bot s seat name =
     (let pod_size = as_u8 (length (seats s)) in
      if pod_size \<le> seat then (s, Err (SeatOutOfRange seat pod_size))
      else (s\<lparr>seats := (seats s)[unat seat :=
              Bot (case name of Some given \<Rightarrow> given | None \<Rightarrow> ''Seat '' @ show_u8 (seat + 1))]\<rparr>,
            Ok [SeatReplacedWithBot seat]))"

fun is_bot :: "draft_seat \<Rightarrow> bool" where
  "is_bot (Bot name) = True"
| "is_bot (Human p name) = False"

definition apply_set_seat_connected :: "draft_session \<Rightarrow> u8 \<Rightarrow> bool \<Rightarrow> draft_outcome" where
  "apply_set_seat_connected s seat connected =
     (let pod_size = as_u8 (length (seats s)) in
      if pod_size \<le> seat then (s, Err (SeatOutOfRange seat pod_size))
      else if is_bot (seats s ! unat seat) then (s, Err (SeatIsBot seat))
      else (s\<lparr>connected_seats := sf_set (sf_ensure_len (connected_seats s) pod_size True) seat connected\<rparr>,
            Ok [SeatConnectionChanged seat connected]))"

subsection \<open>Starting a draft\<close>

text \<open>The last pre-flight block: what each distribution asks of the configuration.\<close>

definition distribution_check :: "draft_session \<Rightarrow> (unit, draft_error) rust_result" where
  "distribution_check s =
     (let procedure = kind_procedure (draft_kind_of s); cfg = config s;
          wrong_table = (cfg_pack_count cfg \<noteq> proc_packs_per_player procedure
            \<or> cfg_min_deck_size cfg \<noteq> proc_min_deck_size procedure)
      in case proc_distribution procedure of
           AllAtOnce \<Rightarrow>
             if is_cube (cfg_source cfg) then Err SealedRequiresSetSource
             else if source_set_code (cfg_source cfg) \<noteq> cfg_set_code cfg \<or> set_code s \<noteq> cfg_set_code cfg
             then Err (InvalidSealedConfiguration ''set source and session codes must match'')
             else if wrong_table
             then Err (InvalidSealedConfiguration ''sealed requires six packs and a 40-card minimum deck'')
             else Ok ()
         | SharedStackPiles pile_count \<Rightarrow>
             (case piles_needed pile_count of
                Panic \<Rightarrow> Panic
              | Err e \<Rightarrow> Err e
              | Ok _ \<Rightarrow>
                  if wrong_table
                  then Err (InvalidSharedStackConfiguration
                    (''shared-stack drafts require '' @ show_u8 (proc_packs_per_player procedure)
                     @ '' packs per seat and a '' @ show_nat (proc_min_deck_size procedure) @ ''-card minimum deck''))
                  else Ok ())
         | PickAndPass \<Rightarrow> Ok ())"

definition start_preflight :: "draft_session \<Rightarrow> (unit, draft_error) rust_result" where
  "start_preflight s =
     (let seat_count = as_u8 (length (seats s)); procedure = kind_procedure (draft_kind_of s);
          fmt = cfg_tournament_format (config s)
      in case layout_check s of
           Panic \<Rightarrow> Panic
         | Err e \<Rightarrow> Err e
         | Ok _ \<Rightarrow>
             (case validate_source procedure (cfg_source (config s)) of
                Panic \<Rightarrow> Panic
              | Err e \<Rightarrow> Err e
              | Ok _ \<Rightarrow>
                  if \<not> pod_size_allowed s
                  then (if seat_count < proc_min_pod_size procedure
                        then Err (PodBelowMinimumSize (draft_kind_of s) (proc_min_pod_size procedure) seat_count)
                        else Err (UnsupportedTournamentSize fmt (fst (allowed_pod_size_range procedure fmt)) seat_count))
                  else if proc_distribution procedure \<noteq> proc_distribution (kind_procedure (cfg_kind (config s)))
                  then Err (InvalidSealedConfiguration ''session kind does not match configuration'')
                  else distribution_check s))"

text \<open>\<^verbatim>\<open>u8::try_from(len).unwrap_or(u8::MAX)\<close>.\<close>

definition len_u8 :: "nat \<Rightarrow> u8" where
  "len_u8 n = (if n < 256 then as_u8 n else 255)"

definition opened_sizes :: "draft_pack list list \<Rightarrow> u8 list" where
  "opened_sizes all_packs =
     (case all_packs of [] \<Rightarrow> [] | seat_packs # _ \<Rightarrow> map (\<lambda>pack. len_u8 (length pack)) seat_packs)"

definition wrong_pack_counts :: "draft_session \<Rightarrow> draft_pack list list \<Rightarrow> bool" where
  "wrong_pack_counts s all_packs \<longleftrightarrow>
     length all_packs \<noteq> length (seats s)
     \<or> list_ex (\<lambda>packs. length packs \<noteq> unat (proc_packs_per_player (kind_procedure (draft_kind_of s)))) all_packs"

definition deal_all_at_once :: "draft_session \<Rightarrow> draft_pack list list \<Rightarrow> draft_outcome" where
  "deal_all_at_once s all_packs =
     (if wrong_pack_counts s all_packs
      then (s, Err (InvalidSealedConfiguration ''pack source did not generate six packs per seat''))
      else (s\<lparr>pools := map concat all_packs, current_pack := map (\<lambda>_. None) (current_pack s),
              current_pack_origins := map (\<lambda>_. None) (current_pack_origins s),
              packs_by_seat := map (\<lambda>_. []) (packs_by_seat s), status := Deckbuilding\<rparr>,
            Ok [DraftStarted, TransitionedTo Deckbuilding]))"

text \<open>The top of the stack is its last card; every pile is dealt one card. \<open>None\<close> is an empty stack.\<close>

fun deal_piles :: "nat \<Rightarrow> draft_card list \<Rightarrow> (draft_card list list \<times> draft_card list) option" where
  "deal_piles 0 stack = Some ([], stack)"
| "deal_piles (Suc n) stack =
     (case vec_pop stack of
        None \<Rightarrow> None
      | Some (top_card, rest) \<Rightarrow> map_option (\<lambda>(ps, stack'). ([top_card] # ps, stack')) (deal_piles n rest))"

definition dealt_stack :: "nat \<Rightarrow> u8 \<Rightarrow> draft_card list \<Rightarrow> u8 \<Rightarrow> shared_stack_state option" where
  "dealt_stack n seat_count stack starting =
     (case deal_piles n stack of
        None \<Rightarrow> None
      | Some ([], _) \<Rightarrow> None
      | Some (pile # ps, rest) \<Rightarrow>
          Some \<lparr>main_stack = rest, piles = pile # ps, starting_seat = starting, active_seat = starting,
                stack_cursor = 0, inspected = (replicate n 0)[0 := length pile], decisions = 0,
                stack_history = [], forced_draws = replicate (unat seat_count) None\<rparr>)"

definition deal_shared_stack ::
  "'r rng \<Rightarrow> draft_session \<Rightarrow> u8 \<Rightarrow> draft_pack list list \<Rightarrow> 'r \<Rightarrow> draft_outcome" where
  "deal_shared_stack g s pile_count all_packs r =
     (let seat_count = as_u8 (length (seats s)) in
      if wrong_pack_counts s all_packs
      then (s, Err (InvalidSharedStackConfiguration (''pack source did not generate ''
        @ show_u8 (proc_packs_per_player (kind_procedure (draft_kind_of s))) @ '' packs per seat'')))
      else (let stack = concat (concat all_packs) in
        case piles_needed pile_count of
          Panic \<Rightarrow> (s, Panic)
        | Err e \<Rightarrow> (s, Err e)
        | Ok n \<Rightarrow>
            if length stack < n then (s, Err (InsufficientCards (length stack) n))
            else if seat_count = 0 then (s, Panic)
            else (let (shuffled, r1) = shuffle g stack r; (starting, r2) = random_range g seat_count r1
              in case dealt_stack n seat_count shuffled starting of
                   None \<Rightarrow> (s, Panic)
                 | Some st \<Rightarrow> (s\<lparr>shared_stack := Some st, status := Drafting\<rparr>, Ok [DraftStarted]))))"

text \<open>\<open>None\<close>: a seat without packs, or more seats of packs than seats.\<close>

fun deal_seats :: "(nat \<times> draft_pack list) list \<Rightarrow> draft_session \<Rightarrow> draft_session option" where
  "deal_seats [] s = Some s"
| "deal_seats ((seat, seat_packs) # rest) s =
     (case seat_packs of
        [] \<Rightarrow> None
      | first # others \<Rightarrow>
          if seat < length (current_pack s) \<and> seat < length (current_pack_origins s) \<and> seat < length (packs_by_seat s)
          then deal_seats rest (s\<lparr>current_pack := (current_pack s)[seat := Some first],
            current_pack_origins := (current_pack_origins s)[seat := Some (as_u8 seat)],
            packs_by_seat := (packs_by_seat s)[seat := others]\<rparr>)
          else None)"

definition deal_pick_and_pass :: "draft_session \<Rightarrow> draft_pack list list \<Rightarrow> draft_outcome" where
  "deal_pick_and_pass s all_packs =
     (let pod_size = as_u8 (length (seats s));
          s1 = s\<lparr>current_pack_origins := vec_resize (unat pod_size) None (current_pack_origins s)\<rparr>
      in case deal_seats (enumerate 0 all_packs) s1 of
           None \<Rightarrow> (s1, Panic)
         | Some s2 \<Rightarrow>
             (s2\<lparr>status := Drafting, pass_direction := pass_for_pack 0, current_pack_number := 0,
                 pick_number := 0, seats_picked_this_round := sf_all_false pod_size\<rparr>,
              Ok [DraftStarted]))"

definition apply_start_draft :: "'r rng \<Rightarrow> draft_session \<Rightarrow> 'r pack_source option \<Rightarrow> draft_outcome" where
  "apply_start_draft g s source =
     (if status s \<noteq> Lobby then (s, Err (InvalidTransition (status s) ''StartDraft''))
      else (case start_preflight s of
          Panic \<Rightarrow> (s, Panic)
        | Err e \<Rightarrow> (s, Err e)
        | Ok _ \<Rightarrow>
            (case source of
               None \<Rightarrow> (s, Panic)
             | Some src \<Rightarrow>
                 (let (generated, r) = generate_packs src (seed_from_u64 g (cfg_rng_seed (config s))) (config s)
                        (as_u8 (length (seats s)))
                  in case generated of
                       Panic \<Rightarrow> (s, Panic)
                     | Err e \<Rightarrow> (s, Err e)
                     | Ok all_packs \<Rightarrow>
                         (let s1 = s\<lparr>booster_pack_pool := source_booster_pack_pool src,
                                    pack_sizes := opened_sizes all_packs\<rparr>
                          in case proc_distribution (kind_procedure (draft_kind_of s)) of
                               AllAtOnce \<Rightarrow> deal_all_at_once s1 all_packs
                             | SharedStackPiles pile_count \<Rightarrow> deal_shared_stack g s1 pile_count all_packs r
                             | PickAndPass \<Rightarrow> deal_pick_and_pass s1 all_packs)))))"

subsection \<open>Deck submission\<close>

definition concession_set_codes :: "draft_session \<Rightarrow> string list" where
  "concession_set_codes s =
     (case draft_kind_of s of
        CommanderDraft \<Rightarrow>
          (case cfg_source (config s) of
             SetSource _ \<Rightarrow> source_actual_set_codes (cfg_source (config s))
           | CubeSource _ _ \<Rightarrow> [])
      | Quick \<Rightarrow> [] | Premier \<Rightarrow> [] | Traditional \<Rightarrow> [] | Sealed \<Rightarrow> [] | Winston \<Rightarrow> [])"

definition session_concessions :: "draft_session \<Rightarrow> set_concessions" where
  "session_concessions s = draft_set_concessions_for (concession_set_codes s)"

definition human_player :: "draft_seat \<Rightarrow> player_id option" where
  "human_player seat = (case seat of Human p _ \<Rightarrow> Some p | Bot _ \<Rightarrow> None)"

definition all_humans_submitted :: "draft_session \<Rightarrow> bool" where
  "all_humans_submitted s \<longleftrightarrow>
     (let humans = filter (\<lambda>seat. \<not> is_bot seat) (seats s);
          submitted = filter (\<lambda>seat. case human_player seat of
              None \<Rightarrow> False | Some p \<Rightarrow> submitted_decks s p \<noteq> None) humans
      in length humans \<le> length submitted)"

definition status_after_drafting :: "draft_kind \<Rightarrow> draft_status" where
  "status_after_drafting k =
     (case proc_post_draft_play (kind_procedure k) of
        CompleteImmediately \<Rightarrow> Complete
      | TournamentPairings \<Rightarrow> Pairing)"

definition record_submission :: "draft_session \<Rightarrow> u8 \<Rightarrow> string list \<Rightarrow> string list \<Rightarrow> player_id \<Rightarrow> draft_outcome" where
  "record_submission s seat main_deck commanders p =
     (let s1 = s\<lparr>submitted_decks := (submitted_decks s)(p \<mapsto>
                 \<lparr>sub_seat = seat, sub_main_deck = main_deck, sub_commanders = commanders\<rparr>)\<rparr>
      in if all_humans_submitted s1
         then (let next_status = status_after_drafting (draft_kind_of s1)
               in (s1\<lparr>status := next_status\<rparr>, Ok [DeckSubmitted seat, TransitionedTo next_status]))
         else (s1, Ok [DeckSubmitted seat]))"

definition apply_submit_deck ::
  "hash_iteration \<Rightarrow> draft_session \<Rightarrow> u8 \<Rightarrow> string list \<Rightarrow> string list \<Rightarrow> draft_outcome" where
  "apply_submit_deck ho s seat main_deck commanders =
     (if status s \<noteq> Deckbuilding then (s, Err (InvalidTransition (status s) ''SubmitDeck''))
      else (let pod_size = as_u8 (length (seats s)) in
        if pod_size \<le> seat then (s, Err (SeatOutOfRange seat pod_size))
        else if MAX_COMMANDER_DESIGNATIONS < length commanders
        then (s, Err (ValidationFailed [TooManyCommanders (length commanders) MAX_COMMANDER_DESIGNATIONS]))
        else (case vec_get (pools s) (unat seat) of
            None \<Rightarrow> (s, Panic)
          | Some pool \<Rightarrow>
              (case validate_limited_deck ho main_deck (map card_name pool) (cfg_addable_cards (config s))
                      (cfg_min_deck_size (config s)) (con_fillers (session_concessions s)) commanders
                      (unat (proc_commanders_required (kind_procedure (draft_kind_of s)))) of
                 Panic \<Rightarrow> (s, Panic)
               | Err errors \<Rightarrow> (s, Err (ValidationFailed errors))
               | Ok _ \<Rightarrow>
                   (case seat_player_id s seat of
                      None \<Rightarrow> (s, Panic)
                    | Some p \<Rightarrow> record_submission s seat main_deck commanders p)))))"

subsection \<open>The reducer\<close>

definition apply_action ::
  "'r rng \<Rightarrow> hash_iteration \<Rightarrow> 'r pack_source option \<Rightarrow> draft_session \<Rightarrow> draft_action \<Rightarrow> draft_outcome" where
  "apply_action g ho source s action =
     (case action of
        StartDraft \<Rightarrow> apply_start_draft g s source
      | Pick seat ids \<Rightarrow> apply_pick s seat ids
      | PickWithDraftEffect seat effect_id ids \<Rightarrow> apply_pick_with_draft_effect s seat effect_id ids
      | SubmitDeck seat main_deck commanders \<Rightarrow> apply_submit_deck ho s seat main_deck commanders
      | GeneratePairings \<Rightarrow> apply_generate_pairings g s
      | ReportMatchResult mid winner_seat \<Rightarrow> apply_report_match_result s mid winner_seat
      | AdvanceRound \<Rightarrow> apply_advance_round s
      | ReplaceSeatWithBot seat name \<Rightarrow> apply_replace_seat_with_bot s seat name
      | SetSeatConnected seat connected \<Rightarrow> apply_set_seat_connected s seat connected
      | SharedStackDecision seat pile decision \<Rightarrow> apply_shared_stack_decision s seat pile decision)"

subsection \<open>Well-formed sessions\<close>

definition session_wf :: "draft_session \<Rightarrow> bool" where
  "session_wf s \<longleftrightarrow>
     pod_wf s \<and> (case shared_stack s of None \<Rightarrow> True | Some st \<Rightarrow> stack_wf (length (seats s)) st)"

text \<open>An outcome that keeps sessions well formed, does not panic and changes nothing when it refuses.\<close>

definition safe_outcome :: "draft_session \<Rightarrow> draft_outcome \<Rightarrow> bool" where
  "safe_outcome s out \<longleftrightarrow>
     session_wf (fst out) \<and> length (seats (fst out)) = length (seats s) \<and> snd out \<noteq> Panic
     \<and> (is_ok (snd out) \<or> fst out = s)"

definition same_cards :: "draft_session \<Rightarrow> draft_session \<Rightarrow> bool" where
  "same_cards s s' \<longleftrightarrow> cards_in_event s' = cards_in_event s"

text \<open>The operations outside the draft itself touch no card and no per-seat vector.\<close>

definition table_frame :: "draft_session \<Rightarrow> draft_session \<Rightarrow> bool" where
  "table_frame s s' \<longleftrightarrow>
     length (seats s') = length (seats s) \<and> pools s' = pools s \<and> current_pack s' = current_pack s \<and>
     packs_by_seat s' = packs_by_seat s \<and> current_pack_origins s' = current_pack_origins s \<and>
     seats_picked_this_round s' = seats_picked_this_round s \<and>
     length (flag_list (connected_seats s')) = length (flag_list (connected_seats s)) \<and>
     shared_stack s' = shared_stack s"

lemma table_frame_wf: "session_wf s \<Longrightarrow> table_frame s s' \<Longrightarrow> session_wf s'"
  by (cases "shared_stack s") (simp_all add: session_wf_def table_frame_def pod_wf_def)

lemma table_frame_cards: "table_frame s s' \<Longrightarrow> same_cards s s'"
  by (simp add: same_cards_def table_frame_def cards_in_event_def pool_cards_def)

lemma table_frame_refl [simp]: "table_frame s s"
  by (simp add: table_frame_def)

lemma safe_refusal: "session_wf s \<Longrightarrow> safe_outcome s (s, Err e)"
  by (simp add: safe_outcome_def)

lemma safe_accept: "session_wf s \<Longrightarrow> table_frame s s' \<Longrightarrow> safe_outcome s (s', Ok ds)"
  by (simp add: safe_outcome_def table_frame_wf) (simp add: table_frame_def)

lemma seat_player_id_ok: "unat seat < length (seats s) \<Longrightarrow> \<exists>p. seat_player_id s seat = Some p"
  by (auto simp: seat_player_id_def split: draft_seat.splits)

lemma validate_limited_deck_total: "validate_limited_deck ho d p a m f c r \<noteq> Panic"
  by (simp add: validate_limited_deck_def Let_def)

lemma submit_deck_outcome:
  assumes "session_wf s"
  shows "safe_outcome s (apply_submit_deck ho s seat main_deck commanders)"
    and "table_frame s (fst (apply_submit_deck ho s seat main_deck commanders))"
proof -
  have rec: "\<exists>ds. snd (record_submission s seat main_deck commanders p) = Ok ds"
    "table_frame s (fst (record_submission s seat main_deck commanders p))" for p
    by (simp_all add: record_submission_def Let_def table_frame_def)
  have "safe_outcome s (apply_submit_deck ho s seat main_deck commanders)
      \<and> table_frame s (fst (apply_submit_deck ho s seat main_deck commanders))"
  proof (cases "status s \<noteq> Deckbuilding \<or> as_u8 (length (seats s)) \<le> seat \<or> MAX_COMMANDER_DESIGNATIONS < length commanders")
    case True
    with assms show ?thesis by (auto simp: apply_submit_deck_def Let_def safe_refusal)
  next
    case False
    then have seat: "unat seat < length (seats s)" by (meson less_as_u8_in_range not_le)
    then obtain p where p: "seat_player_id s seat = Some p" using seat_player_id_ok by blast
    have pool: "vec_get (pools s) (unat seat) = Some (pools s ! unat seat)"
      using seat assms by (simp add: session_wf_def pod_wf_def)
    have ok: "safe_outcome s (record_submission s seat main_deck commanders p)"
      using rec(1) [of p] safe_accept [OF assms rec(2) [of p]] by (metis prod.collapse)
    show ?thesis
      using False p pool assms ok rec(2) validate_limited_deck_total
      by (auto simp: apply_submit_deck_def Let_def safe_refusal split: rust_result.split)
  qed
  then show "safe_outcome s (apply_submit_deck ho s seat main_deck commanders)"
    "table_frame s (fst (apply_submit_deck ho s seat main_deck commanders))" by blast+
qed

lemma se_pod_even:
  "proc_post_draft_play (kind_procedure k) = TournamentPairings \<Longrightarrow> allows_pod_size (kind_procedure k) SingleElimination n
    \<Longrightarrow> even (unat n)"
  by (cases k) (auto simp: allows_pod_size_def allowed_pod_size_range_def)

lemma generate_pairings_some:
  assumes "pod_wf s" and "proc_post_draft_play (kind_procedure (draft_kind_of s)) = TournamentPairings"
    and "allows_pod_size (kind_procedure (draft_kind_of s)) fmt (as_u8 (length (seats s)))"
  shows "\<exists>ps bye paired. (case fmt of
      Swiss \<Rightarrow> generate_swiss_pairings g s round r
    | SingleElimination \<Rightarrow> map_option (\<lambda>ps. (ps, None)) (generate_se_pairings s round)) = Some (ps, bye)
    \<and> ps = number_tables round paired"
proof (cases fmt)
  case Swiss
  obtain players where "players_with_wins s = Some players" using players_with_wins_ids by blast
  with Swiss show ?thesis
    by (auto simp: generate_swiss_pairings_def swiss_pool_def split_beta)
next
  case SingleElimination
  have "even (length (seats s))" "length (seats s) < 256"
    using se_pod_even [OF assms(2), of "as_u8 (length (seats s))"] assms(1,3) SingleElimination by (simp_all add: pod_wf_def)
  then have "\<exists>ps. generate_se_pairings s round = Some ps"
    using se_first_round [of s] se_next_round [of round s] by (cases "round = 1") auto
  with SingleElimination show ?thesis by (auto simp: generate_se_pairings_def split: if_splits)
qed

lemma generate_pairings_outcome:
  assumes "session_wf s"
  shows "safe_outcome s (apply_generate_pairings g s)" and "table_frame s (fst (apply_generate_pairings g s))"
proof -
  let ?p = "kind_procedure (draft_kind_of s)" and ?fmt = "cfg_tournament_format (config s)"
  have "safe_outcome s (apply_generate_pairings g s) \<and> table_frame s (fst (apply_generate_pairings g s))"
  proof (cases "status s \<in> {Deckbuilding, Pairing, RoundComplete} \<and> proc_post_draft_play ?p = TournamentPairings
      \<and> allows_pod_size ?p ?fmt (as_u8 (length (seats s)))")
    case True
    with generate_pairings_some [of s ?fmt g "next_pairing_round s" "seed_from_u64 g (pairing_seed s (next_pairing_round s))"] assms
    obtain ps bye where gen: "(case ?fmt of
        Swiss \<Rightarrow> generate_swiss_pairings g s (next_pairing_round s) (seed_from_u64 g (pairing_seed s (next_pairing_round s)))
      | SingleElimination \<Rightarrow> map_option (\<lambda>ps. (ps, None)) (generate_se_pairings s (next_pairing_round s))) = Some (ps, bye)"
      by (auto simp: session_wf_def)
    have "apply_generate_pairings g s = (s\<lparr>pairings := pairings s @ ps, match_records := credit_bye bye (match_records s),
         status := MatchInProgress, current_round := next_pairing_round s\<rparr>,
       Ok [PairingsGenerated (next_pairing_round s), TransitionedTo MatchInProgress])"
      using True by (simp add: apply_generate_pairings_def Let_def gen)
    then show ?thesis using safe_accept [OF assms] by (simp add: table_frame_def)
  next
    case False
    then show ?thesis using assms by (auto simp: apply_generate_pairings_def Let_def safe_refusal)
  qed
  then show "safe_outcome s (apply_generate_pairings g s)" "table_frame s (fst (apply_generate_pairings g s))" by blast+
qed

lemma report_outcome:
  assumes "session_wf s"
  shows "safe_outcome s (apply_report_match_result s mid w)" and "table_frame s (fst (apply_report_match_result s mid w))"
proof -
  have frame: "table_frame s (fst (settle_round (record_result s idx v) ds))"
    "\<exists>ds'. snd (settle_round (record_result s idx v) ds) = Ok ds'" for idx v ds
    by (simp_all add: settle_round_def record_result_def Let_def table_frame_def)
  have ok: "safe_outcome s (settle_round (record_result s idx v) ds)" for idx v ds
    using frame [of idx v ds] safe_accept [OF assms] by (metis prod.collapse)
  have total: "result_winner_seat s ps mid w \<noteq> Panic" for ps
  proof (cases w)
    case (Some x)
    show ?thesis
    proof (cases "as_u8 (length (seats s)) \<le> x")
      case False
      then obtain p where "seat_player_id s x = Some p"
        using seat_player_id_ok [of x s] less_as_u8_in_range [of x "length (seats s)"] by (auto simp: not_le)
      with Some False show ?thesis by (simp add: result_winner_seat_def)
    qed (simp add: Some result_winner_seat_def)
  qed (simp add: result_winner_seat_def)
  have "safe_outcome s (apply_report_match_result s mid w) \<and> table_frame s (fst (apply_report_match_result s mid w))"
    using assms total ok frame(1)
    by (auto simp: apply_report_match_result_def Let_def safe_refusal split: option.split rust_result.split)
  then show "safe_outcome s (apply_report_match_result s mid w)" "table_frame s (fst (apply_report_match_result s mid w))"
    by blast+
qed

lemma seat_admin_outcome:
  assumes "session_wf s"
  shows "safe_outcome s (apply_advance_round s)" "table_frame s (fst (apply_advance_round s))"
    "safe_outcome s (apply_replace_seat_with_bot s seat name)" "table_frame s (fst (apply_replace_seat_with_bot s seat name))"
    "safe_outcome s (apply_set_seat_connected s seat b)" "table_frame s (fst (apply_set_seat_connected s seat b))"
proof -
  show frames: "table_frame s (fst (apply_advance_round s))" "table_frame s (fst (apply_replace_seat_with_bot s seat name))"
    by (simp_all add: apply_advance_round_def apply_replace_seat_with_bot_def Let_def table_frame_def)
  have "sf_ensure_len (connected_seats s) (as_u8 (length (seats s))) True = connected_seats s"
    using assms by (simp add: session_wf_def pod_wf_def)
  then show c: "table_frame s (fst (apply_set_seat_connected s seat b))"
    by (simp add: apply_set_seat_connected_def Let_def table_frame_def)
  show "safe_outcome s (apply_advance_round s)" "safe_outcome s (apply_replace_seat_with_bot s seat name)"
    using assms frames by (auto simp: apply_advance_round_def apply_replace_seat_with_bot_def Let_def safe_refusal intro: safe_accept)
  show "safe_outcome s (apply_set_seat_connected s seat b)"
    using assms c by (auto simp: apply_set_seat_connected_def Let_def safe_refusal intro: safe_accept)
qed

lemma moved_outcome:
  assumes wf: "session_wf s" and i: "i < length (seats s)" and slot: "current_pack s ! i = Some pack"
    and cards: "mset pool' + mset pack' = mset (pools s ! i) + mset pack"
  shows "safe_outcome s (finish_pick (s\<lparr>current_pack := (current_pack s)[i := Some pack'], pools := (pools s)[i := pool']\<rparr>) seat ids)"
    and "pod_passes (pass_direction s) (length (seats s)) \<Longrightarrow>
      same_cards s (fst (finish_pick (s\<lparr>current_pack := (current_pack s)[i := Some pack'], pools := (pools s)[i := pool']\<rparr>) seat ids))"
proof -
  let ?m = "s\<lparr>current_pack := (current_pack s)[i := Some pack'], pools := (pools s)[i := pool']\<rparr>"
  have pod: "pod_wf s" using wf by (simp add: session_wf_def)
  note mv = move_cards [OF pod i slot cards]
  obtain s' ds where f: "finish_pick ?m seat ids = (s', Ok (map (CardPicked seat) ids @ ds))" "pod_wf s'" "same_event ?m s'"
    "pod_passes (pass_direction ?m) (length (seats ?m)) \<Longrightarrow> cards_in_event s' = cards_in_event ?m"
    using finish_pick_outcome [OF mv(1)] by metis
  from f wf show "safe_outcome s (finish_pick ?m seat ids)"
    by (cases "shared_stack s") (simp_all add: safe_outcome_def session_wf_def same_event_def)
  assume "pod_passes (pass_direction s) (length (seats s))"
  with f mv(2) show "same_cards s (fst (finish_pick ?m seat ids))" by (simp add: same_cards_def)
qed

lemma pick_outcome:
  assumes wf: "session_wf s"
  shows "safe_outcome s (apply_pick s seat ids)"
    and "pod_passes (pass_direction s) (length (seats s)) \<Longrightarrow> same_cards s (fst (apply_pick s seat ids))"
proof -
  have pod: "pod_wf s" using wf by (simp add: session_wf_def)
  have "safe_outcome s (apply_pick s seat ids)
    \<and> (pod_passes (pass_direction s) (length (seats s)) \<longrightarrow> same_cards s (fst (apply_pick s seat ids)))"
  proof (cases "legal_pick s seat ids")
    case False
    with apply_pick_illegal [OF pod] obtain e where "apply_pick s seat ids = (s, Err e)" by blast
    then show ?thesis using wf by (simp add: safe_refusal same_cards_def)
  next
    case True
    then have i: "unat seat < length (seats s)" by (simp add: legal_pick_def)
    obtain pack picked pack' where *: "current_pack s ! unat seat = Some pack" "mset picked + mset pack' = mset pack"
      "apply_pick s seat ids = finish_pick (s\<lparr>current_pack := (current_pack s)[unat seat := Some pack'],
         pools := (pools s)[unat seat := pools s ! unat seat @ picked]\<rparr>) seat ids"
      using apply_pick_legal [OF pod True] by metis
    have "mset (pools s ! unat seat @ picked) + mset pack' = mset (pools s ! unat seat) + mset pack"
      by (simp add: *(2) [symmetric] ac_simps)
    from moved_outcome [OF wf i *(1) this, of seat ids] show ?thesis unfolding *(3) by blast
  qed
  then show "safe_outcome s (apply_pick s seat ids)"
    "pod_passes (pass_direction s) (length (seats s)) \<Longrightarrow> same_cards s (fst (apply_pick s seat ids))" by blast+
qed

lemma effect_pick_outcome:
  assumes wf: "session_wf s"
  shows "safe_outcome s (apply_pick_with_draft_effect s seat effect_id ids)"
    and "pod_passes (pass_direction s) (length (seats s)) \<Longrightarrow> same_cards s (fst (apply_pick_with_draft_effect s seat effect_id ids))"
proof -
  have pod: "pod_wf s" using wf by (simp add: session_wf_def)
  let ?out = "apply_pick_with_draft_effect s seat effect_id ids"
  have "safe_outcome s ?out \<and> (pod_passes (pass_direction s) (length (seats s)) \<longrightarrow> same_cards s (fst ?out))"
  proof (cases "legal_effect_pick s seat effect_id ids")
    case False
    with apply_effect_illegal [OF pod] obtain e where "?out = (s, Err e)" by blast
    then show ?thesis using wf by (simp add: safe_refusal same_cards_def)
  next
    case True
    then have i: "unat seat < length (seats s)" by (simp add: legal_effect_pick_def)
    obtain pack picked pack' effect rest where *: "current_pack s ! unat seat = Some pack"
      "add_mset effect (mset rest) = mset (pools s ! unat seat)" "mset picked + mset pack' = mset pack"
      "?out = finish_pick (s\<lparr>current_pack := (current_pack s)[unat seat := Some (pack' @ [effect])],
           pools := (pools s)[unat seat := rest @ picked]\<rparr>) seat ids"
      using apply_effect_legal [OF pod True] by metis
    have "mset (rest @ picked) + mset (pack' @ [effect]) = mset (pools s ! unat seat) + mset pack"
      by (simp add: *(2,3) [symmetric] ac_simps)
    from moved_outcome [OF wf i *(1) this, of seat ids] show ?thesis unfolding *(4) by blast
  qed
  then show "safe_outcome s ?out"
    "pod_passes (pass_direction s) (length (seats s)) \<Longrightarrow> same_cards s (fst ?out)" by blast+
qed

lemma decision_outcome:
  assumes wf: "session_wf s"
  shows "safe_outcome s (apply_shared_stack_decision s seat pile d)"
    and "same_cards s (fst (apply_shared_stack_decision s seat pile d))"
proof -
  let ?out = "apply_shared_stack_decision s seat pile d"
  have "safe_outcome s ?out \<and> same_cards s (fst ?out)"
  proof (cases "shared_stack s")
    case None
    then have "\<exists>e. ?out = (s, Err e)"
      by (simp add: apply_shared_stack_decision_def session_shared_stack_def Let_def)
    then show ?thesis using wf by (auto simp: safe_refusal same_cards_def)
  next
    case (Some st)
    then show ?thesis
    proof (cases rule: apply_decision_cases [where seat = seat and pile = pile and d = d])
      case (refused e)
      then show ?thesis using wf by (simp add: safe_refusal same_cards_def)
    next
      case accepted
      have pod: "pod_wf s" "stack_wf (length (seats s)) st" using wf Some by (simp_all add: session_wf_def)
      from apply_decision_accepted [OF pod accepted(1) Some accepted(2)] obtain st' pool' ds where
        app: "?out = (s\<lparr>shared_stack := Some st', pools := (pools s)[unat seat := pool'],
           status := (if stack_exhausted st' then Deckbuilding else Drafting)\<rparr>, Ok ds)"
        and seat: "unat seat < length (seats s)"
        and tp: "turn_promise (length (seats s)) st (pools s ! unat seat) st' pool'"
        by blast
      have "same_cards s (fst ?out)"
        unfolding same_cards_def app fst_conv using seat pod tp Some
        by (intro decision_pools_cards) (auto simp: turn_promise_def pod_wf_def)
      moreover have "safe_outcome s ?out"
        using tp pod by (simp add: app safe_outcome_def session_wf_def turn_promise_def pod_wf_def)
      ultimately show ?thesis by blast
    qed
  qed
  then show "safe_outcome s ?out" "same_cards s (fst ?out)" by blast+
qed

subsection \<open>The reducer on started sessions\<close>

definition started_wf :: "draft_session \<Rightarrow> bool" where
  "started_wf s \<longleftrightarrow> session_wf s \<and> status s \<noteq> Lobby \<and> length (seats s) \<le> 128"

lemma start_refused_when_started:
  "status s \<noteq> Lobby \<Longrightarrow> apply_start_draft g s source = (s, Err (InvalidTransition (status s) ''StartDraft''))"
  by (simp add: apply_start_draft_def)

lemmas op_outcomes = pick_outcome effect_pick_outcome decision_outcome submit_deck_outcome generate_pairings_outcome
  report_outcome seat_admin_outcome

lemma apply_action_outcome:
  assumes "session_wf s" and "status s \<noteq> Lobby"
  shows "safe_outcome s (apply_action g ho source s a)"
    and "pod_passes (pass_direction s) (length (seats s)) \<Longrightarrow> same_cards s (fst (apply_action g ho source s a))"
proof -
  note cards = table_frame_cards [OF submit_deck_outcome(2) [OF assms(1)]]
    table_frame_cards [OF generate_pairings_outcome(2) [OF assms(1)]] table_frame_cards [OF report_outcome(2) [OF assms(1)]]
    table_frame_cards [OF seat_admin_outcome(2) [OF assms(1)]] table_frame_cards [OF seat_admin_outcome(4) [OF assms(1)]]
    table_frame_cards [OF seat_admin_outcome(6) [OF assms(1)]]
  show "safe_outcome s (apply_action g ho source s a)"
    using assms by (cases a) (simp_all add: apply_action_def start_refused_when_started safe_refusal op_outcomes)
  assume "pod_passes (pass_direction s) (length (seats s))"
  then show "same_cards s (fst (apply_action g ho source s a))"
    using assms by (cases a)
      (simp_all add: apply_action_def start_refused_when_started op_outcomes cards table_frame_cards)
qed

subsection \<open>The life cycle of a session\<close>

text \<open>The transitions the reducer makes; \<open>Paused\<close> and \<open>Abandoned\<close> belong to the hosts.\<close>

inductive status_moves :: "draft_status \<Rightarrow> draft_status \<Rightarrow> bool" where
  start_draft: "status_moves Lobby Drafting"
| start_sealed: "status_moves Lobby Deckbuilding"
| drafted: "status_moves Drafting Deckbuilding"
| no_play: "status_moves Deckbuilding Complete"
| to_play: "status_moves Deckbuilding Pairing"
| pair_early: "status_moves Deckbuilding MatchInProgress"
| pair: "status_moves Pairing MatchInProgress"
| pair_again: "status_moves RoundComplete MatchInProgress"
| round_over: "status_moves MatchInProgress RoundComplete"
| event_over: "status_moves MatchInProgress Complete"
| correction_over: "status_moves RoundComplete Complete"
| next_round: "status_moves RoundComplete Pairing"

inductive_simps status_moves_from:
  "status_moves Lobby t" "status_moves Drafting t" "status_moves Paused t" "status_moves Deckbuilding t" "status_moves Pairing t"
  "status_moves MatchInProgress t" "status_moves RoundComplete t" "status_moves Complete t" "status_moves Abandoned t"

definition status_step_ok :: "draft_session \<Rightarrow> draft_outcome \<Rightarrow> bool" where
  "status_step_ok s out \<longleftrightarrow>
     status (fst out) = status s \<or> (is_ok (snd out) \<and> status_moves (status s) (status (fst out)))"

lemma open_packs_status: "open_packs is s = Some s' \<Longrightarrow> status s' = status s"
  by (induction "is" s rule: open_packs.induct) (auto split: option.splits list.splits if_splits)

lemma deal_seats_status: "deal_seats xs s = Some s' \<Longrightarrow> status s' = status s"
  by (induction xs s rule: deal_seats.induct) (auto split: list.splits if_splits)

lemma advance_pack_round_status:
  "advance_pack_round n s = Some (s', d) \<Longrightarrow> status s' = status s \<or> status s' = Deckbuilding"
  by (auto simp: advance_pack_round_def Let_def start_pack_round_def pass_round_def dest!: open_packs_status split: if_splits)

lemma finish_pick_status:
  "status s = Drafting \<Longrightarrow> status_step_ok s (finish_pick s seat ids)"
  by (auto simp: finish_pick_def Let_def status_step_ok_def mark_picked_def status_moves_from
      dest!: advance_pack_round_status split: option.splits bool.splits)

lemma ensure_flags_status [simp]: "status (ensure_flags s) = status s"
  by (simp add: ensure_flags_def Let_def)

lemma step_ok_refused: "status t = status s \<Longrightarrow> status_step_ok s (t, r)"
  by (simp add: status_step_ok_def)

lemma status_step_ok_cong: "status_step_ok t out \<Longrightarrow> status t = status s \<Longrightarrow> status_step_ok s out"
  by (simp add: status_step_ok_def)

lemma pick_status: "status_step_ok s (apply_pick s seat ids)"
proof (cases "status s = Drafting")
  case True
  have "status_step_ok s (finish_pick t seat ids)" if "status t = status s" for t
    using that True finish_pick_status status_step_ok_cong by metis
  then show ?thesis
    by (simp add: apply_pick_def apply_pick_inner_def Let_def step_ok_refused split: option.split rust_result.split prod.split)
qed (simp add: apply_pick_def apply_pick_inner_def step_ok_refused)

lemma effect_pick_status: "status_step_ok s (apply_pick_with_draft_effect s seat effect_id ids)"
proof (cases "status s = Drafting")
  case True
  have "status_step_ok s (finish_pick t seat ids)" if "status t = status s" for t
    using that True finish_pick_status status_step_ok_cong by metis
  then show ?thesis
    by (simp add: apply_pick_with_draft_effect_def apply_pick_with_effect_inner_def exchange_effect_card_def Let_def
        step_ok_refused split: option.split rust_result.split prod.split)
qed (simp add: apply_pick_with_draft_effect_def apply_pick_with_effect_inner_def step_ok_refused)

lemma decision_status: "status_step_ok s (apply_shared_stack_decision s seat pile d)"
  by (auto simp: apply_shared_stack_decision_def Let_def status_step_ok_def status_moves_from
      split: option.split rust_result.split prod.split)

lemma submit_status: "status_step_ok s (apply_submit_deck ho s seat main_deck commanders)"
  by (auto simp: apply_submit_deck_def record_submission_def status_after_drafting_def Let_def status_step_ok_def status_moves_from
      split: option.split rust_result.split post_draft_play.split)

lemma pairings_status:
  "status_step_ok s (apply_generate_pairings g s)" "status_step_ok s (apply_report_match_result s mid w)"
  "status_step_ok s (apply_advance_round s)"
proof -
  show "status_step_ok s (apply_generate_pairings g s)"
    by (auto simp: apply_generate_pairings_def Let_def status_step_ok_def status_moves_from split: option.split)
  show "status_step_ok s (apply_report_match_result s mid w)"
    by (auto simp: apply_report_match_result_def settle_round_def Let_def status_step_ok_def status_moves_from
        split: option.split rust_result.split)
  show "status_step_ok s (apply_advance_round s)"
    by (simp add: apply_advance_round_def status_step_ok_def status_moves_from)
qed

lemma seat_status:
  "status_step_ok s (apply_replace_seat_with_bot s seat name)" "status_step_ok s (apply_set_seat_connected s seat b)"
  by (simp_all add: apply_replace_seat_with_bot_def apply_set_seat_connected_def Let_def status_step_ok_def)

lemma start_status: "status_step_ok s (apply_start_draft g s source)"
proof (cases "status s = Lobby")
  case True
  have deal: "status_step_ok s (deal_all_at_once t packs)" "status_step_ok s (deal_shared_stack g t k packs r)"
    "status_step_ok s (deal_pick_and_pass t packs)" if "status t = Lobby" for t packs k r
    using that True
    by (auto simp: deal_all_at_once_def deal_shared_stack_def deal_pick_and_pass_def Let_def status_step_ok_def
        status_moves_from split: option.split rust_result.split prod.split)
  then show ?thesis
    using True
    by (auto simp: apply_start_draft_def Let_def step_ok_refused split: option.split rust_result.split prod.split pack_distribution.split)
qed (simp add: start_refused_when_started step_ok_refused)

lemma apply_action_status: "status_step_ok s (apply_action g ho source s a)"
  by (cases a) (simp_all add: apply_action_def pick_status effect_pick_status decision_status submit_status pairings_status
      seat_status start_status)

text \<open>What no action undoes, along any run of the reducer.\<close>

inductive session_reach :: "'r rng \<Rightarrow> hash_iteration \<Rightarrow> 'r pack_source option \<Rightarrow> draft_session \<Rightarrow> draft_session \<Rightarrow> bool"
  for g ho source s where
  reach_refl: "session_reach g ho source s s"
| reach_step: "session_reach g ho source s t \<Longrightarrow> session_reach g ho source s (fst (apply_action g ho source t a))"

fun status_rank :: "draft_status \<Rightarrow> nat" where
  "status_rank Lobby = 0"
| "status_rank Drafting = 1"
| "status_rank Paused = 1"
| "status_rank Deckbuilding = 2"
| "status_rank Pairing = 3"
| "status_rank MatchInProgress = 3"
| "status_rank RoundComplete = 3"
| "status_rank Complete = 4"
| "status_rank Abandoned = 4"

lemma status_moves_rank: "status_moves a b \<Longrightarrow> status_rank a \<le> status_rank b \<and> a \<notin> {Complete, Paused, Abandoned} \<and> b \<notin> {Lobby, Paused, Abandoned}"
  by (cases rule: status_moves.cases) auto

lemma session_reach_status:
  assumes "session_reach g ho source s t"
  shows "status_rank (status s) \<le> status_rank (status t)"
    and "status s \<in> {Complete, Paused, Abandoned} \<Longrightarrow> status t = status s"
    and "status t \<in> {Lobby, Paused, Abandoned} \<Longrightarrow> status t = status s"
  using assms
proof (induction rule: session_reach.induct)
  case (reach_step t a)
  have "status (fst (apply_action g ho source t a)) = status t
      \<or> status_moves (status t) (status (fst (apply_action g ho source t a)))"
    using apply_action_status [of t g ho source a] by (auto simp: status_step_ok_def)
  then consider "status (fst (apply_action g ho source t a)) = status t"
    | "status_moves (status t) (status (fst (apply_action g ho source t a)))" by blast
  note c = this
  {
    case 1
    from c show ?case using 1 reach_step.IH(1) status_moves_rank by cases fastforce+
  next
    case 2
    from c show ?case using reach_step.IH(2) [OF 2] status_moves_rank 2 by cases fastforce+
  next
    case 3
    from c show ?case using reach_step.IH(3) status_moves_rank 3 by cases fastforce+
  }
qed simp_all

lemma started_preserved:
  assumes "started_wf s"
  shows "started_wf (fst (apply_action g ho source s a))"
proof -
  from assms have wf: "session_wf s" "status s \<noteq> Lobby" by (simp_all add: started_wf_def)
  have "status (fst (apply_action g ho source s a)) \<noteq> Lobby"
    using apply_action_status [of s g ho source a] status_moves_rank wf(2) by (fastforce simp: status_step_ok_def)
  with apply_action_outcome(1) [OF wf, of g ho source a] assms show ?thesis
    by (simp add: started_wf_def safe_outcome_def)
qed

interpretation started: conserving_reducer "apply_action g ho source" started_wf cards_in_event for g ho source
proof (unfold_locales)
  fix s a
  assume s: "started_wf s"
  then have wf: "session_wf s" "status s \<noteq> Lobby" and n: "length (seats s) \<le> 128" by (simp_all add: started_wf_def)
  note out = apply_action_outcome [OF wf, of g ho source a]
  show "started_wf (fst (apply_action g ho source s a))" by (rule started_preserved [OF s])
  show "snd (apply_action g ho source s a) \<noteq> Panic" using out(1) by (simp add: safe_outcome_def)
  show "fst (apply_action g ho source s a) = s" if "\<not> is_ok (snd (apply_action g ho source s a))"
    using out(1) that by (simp add: safe_outcome_def)
  have "pod_passes (pass_direction s) (length (seats s))" using n by (simp add: pod_passes_def)
  from out(2) [OF this] show "cards_in_event (fst (apply_action g ho source s a)) = cards_in_event s"
    by (simp add: same_cards_def)
qed

subsection \<open>Dealing the packs\<close>

lemma new_session_fields:
  "config (new_session cfg the_seats code) = cfg" "seats (new_session cfg the_seats code) = the_seats"
  "draft_kind_of (new_session cfg the_seats code) = cfg_kind cfg" "status (new_session cfg the_seats code) = Lobby"
  by (simp_all add: new_session_def Let_def)

lemma new_session_wf:
  assumes "length the_seats < 256"
  shows "session_wf (new_session cfg the_seats code)" "cards_in_event (new_session cfg the_seats code) = {#}"
proof -
  show "session_wf (new_session cfg the_seats code)"
    using assms by (simp add: session_wf_def pod_wf_def new_session_def Let_def sf_all_false_def sf_all_true_def)
  have "concat (map slot_cards (replicate n None)) = []" "concat (concat (replicate n [])) = []" "concat (replicate n []) = []" for n
    by (induction n) (simp_all add: slot_cards_def)
  then show "cards_in_event (new_session cfg the_seats code) = {#}"
    by (simp add: cards_in_event_def new_session_def Let_def pool_cards_def stack_cards_def slot_cards_def)
qed

lemma held_cards_update: "i < length xs \<Longrightarrow> xs ! i = None \<Longrightarrow> held_cards (xs[i := Some p]) = held_cards xs + mset p"
  using mset_concat_update [of i "map slot_cards xs" p] by (simp add: held_cards_def map_update slot_cards_def)

lemma unopened_cards_update: "i < length xs \<Longrightarrow> xs ! i = [] \<Longrightarrow> unopened_cards (xs[i := ps]) = unopened_cards xs + mset (concat ps)"
proof -
  assume i: "i < length xs" "xs ! i = []"
  have flat: "concat (concat ys) = concat (map concat ys)" for ys :: "draft_pack list list" by (induction ys) simp_all
  show ?thesis
    using mset_concat_update [of i "map concat xs" "concat ps"] i by (simp add: unopened_cards_def flat map_update)
qed

lemma deal_seats_cards:
  assumes "deal_seats xs s = Some s'" and "distinct (map fst xs)"
    and "\<forall>i\<in>fst ` set xs. current_pack s ! i = None \<and> packs_by_seat s ! i = []"
  shows "held_cards (current_pack s') + unopened_cards (packs_by_seat s')
      = held_cards (current_pack s) + unopened_cards (packs_by_seat s) + mset (concat (concat (map snd xs)))
    \<and> pools s' = pools s \<and> shared_stack s' = shared_stack s \<and> seats s' = seats s \<and> connected_seats s' = connected_seats s
    \<and> length (current_pack s') = length (current_pack s) \<and> length (packs_by_seat s') = length (packs_by_seat s)
    \<and> length (current_pack_origins s') = length (current_pack_origins s)"
  using assms
proof (induction xs s rule: deal_seats.induct)
  case (1 s)
  then show ?case by simp
next
  case (2 seat seat_packs rest s)
  then obtain p ps where row: "seat_packs = p # ps" by (auto split: list.splits)
  let ?s = "s\<lparr>current_pack := (current_pack s)[seat := Some p],
            current_pack_origins := (current_pack_origins s)[seat := Some (as_u8 seat)],
            packs_by_seat := (packs_by_seat s)[seat := ps]\<rparr>"
  have r: "seat < length (current_pack s)" "seat < length (current_pack_origins s)" "seat < length (packs_by_seat s)"
    and rest: "deal_seats rest ?s = Some s'"
    using "2.prems"(1) row by (auto split: if_splits)
  have empty: "\<forall>i\<in>fst ` set rest. current_pack ?s ! i = None \<and> packs_by_seat ?s ! i = []"
  proof
    fix i
    assume i: "i \<in> fst ` set rest"
    with "2.prems"(2) have "seat \<noteq> i" by auto
    with i "2.prems"(3) show "current_pack ?s ! i = None \<and> packs_by_seat ?s ! i = []" by auto
  qed
  have slot: "current_pack s ! seat = None" "packs_by_seat s ! seat = []" using "2.prems"(3) by simp_all
  have IH: "held_cards (current_pack s') + unopened_cards (packs_by_seat s')
      = held_cards (current_pack ?s) + unopened_cards (packs_by_seat ?s) + mset (concat (concat (map snd rest)))
    \<and> pools s' = pools ?s \<and> shared_stack s' = shared_stack ?s \<and> seats s' = seats ?s \<and> connected_seats s' = connected_seats ?s
    \<and> length (current_pack s') = length (current_pack ?s) \<and> length (packs_by_seat s') = length (packs_by_seat ?s)
    \<and> length (current_pack_origins s') = length (current_pack_origins ?s)"
    by (rule "2.IH" [OF row _ rest _ empty]) (use r "2.prems"(2) in simp_all)
  then show ?case
    using held_cards_update [OF r(1) slot(1), of p] unopened_cards_update [OF r(3) slot(2), of ps] by (simp add: row ac_simps)
qed

lemma deal_seats_rows:
  assumes "deal_seats xs s = Some s'" and "distinct (map fst xs)"
  shows "\<forall>(i, row)\<in>set xs. current_pack s' ! i = Some (hd row) \<and> packs_by_seat s' ! i = tl row"
    and "\<forall>i. i \<notin> fst ` set xs \<longrightarrow> current_pack s' ! i = current_pack s ! i \<and> packs_by_seat s' ! i = packs_by_seat s ! i"
    and "config s' = config s \<and> draft_kind_of s' = draft_kind_of s"
  using assms
proof (induction xs s rule: deal_seats.induct)
  case (2 seat seat_packs rest s)
  {
    case 1
    then show ?case using "2.IH" by (auto split: list.splits if_splits)
  next
    case 2
    then show ?case using "2.IH" by (auto split: list.splits if_splits)
  next
    case 3
    then show ?case using "2.IH" by (auto split: list.splits if_splits)
  }
qed simp_all

lemma map_snd_enumerate_fst: "distinct (map fst (enumerate 0 xs))"
  by simp

text \<open>A session nobody has dealt to: the shape \<open>new_session\<close> creates.\<close>

definition undealt :: "draft_session \<Rightarrow> bool" where
  "undealt s \<longleftrightarrow>
     session_wf s \<and> status s = Lobby \<and> shared_stack s = None \<and> cards_in_event s = {#} \<and>
     (\<forall>i<length (seats s). current_pack s ! i = None \<and> packs_by_seat s ! i = [])"

lemma new_session_undealt: "length the_seats < 256 \<Longrightarrow> undealt (new_session cfg the_seats code)"
  using new_session_wf [of the_seats cfg code] by (simp add: undealt_def) (simp add: new_session_def Let_def)

lemma undealt_empty:
  assumes "undealt s"
  shows "pool_cards s = {#}" "held_cards (current_pack s) = {#}" "unopened_cards (packs_by_seat s) = {#}"
  using assms by (simp_all add: undealt_def cards_in_event_alt)

lemma deal_pick_and_pass_cards:
  assumes un: "undealt s" and res: "deal_pick_and_pass (s\<lparr>booster_pack_pool := b, pack_sizes := ps\<rparr>) all_packs = (s', Ok ds)"
  shows "session_wf s'" "cards_in_event s' = mset (concat (concat all_packs))" "status s' = Drafting" "seats s' = seats s"
proof -
  let ?s0 = "s\<lparr>booster_pack_pool := b, pack_sizes := ps\<rparr>"
  have pod: "pod_wf s" and none: "shared_stack s = None" using un by (simp_all add: undealt_def session_wf_def)
  note w = pod_wfD [OF pod]
  let ?s1 = "?s0\<lparr>current_pack_origins := current_pack_origins s\<rparr>"
  from res obtain s2 where s2: "deal_seats (enumerate 0 all_packs) ?s1 = Some s2"
    and s': "s' = s2\<lparr>status := Drafting, pass_direction := pass_for_pack 0, current_pack_number := 0,
       pick_number := 0, seats_picked_this_round := sf_all_false (as_u8 (length (seats s)))\<rparr>"
    using w by (auto simp: deal_pick_and_pass_def Let_def split: option.splits)
  have empty: "\<forall>i\<in>fst ` set (enumerate 0 all_packs). i < length (seats s)" 
  proof -
    have "deal_seats xs t = Some t' \<Longrightarrow> \<forall>i\<in>fst ` set xs. i < length (current_pack t)" for xs t t'
      by (induction xs t rule: deal_seats.induct) (auto split: list.splits if_splits)
    from this [OF s2] w show ?thesis by simp
  qed
  have "\<forall>i\<in>fst ` set (enumerate 0 all_packs). current_pack ?s1 ! i = None \<and> packs_by_seat ?s1 ! i = []"
    using empty un by (simp add: undealt_def)
  note d = deal_seats_cards [OF s2 map_snd_enumerate_fst this]
  from d w none show "session_wf s'" "status s' = Drafting" "seats s' = seats s"
    by (simp_all add: s' session_wf_def pod_wf_def sf_all_false_def)
  have "pool_cards s' = pool_cards s" "stack_cards (shared_stack s') = {#}"
    using d none by (simp_all add: s' pool_cards_def stack_cards_def)
  moreover have "held_cards (current_pack s') + unopened_cards (packs_by_seat s') = mset (concat (concat all_packs))"
    using d undealt_empty [OF un] by (simp add: s')
  ultimately show "cards_in_event s' = mset (concat (concat all_packs))"
    using undealt_empty(1) [OF un] by (simp add: cards_in_event_alt)
qed

text \<open>A source that deals every seat the configured number of packs, none of them empty.\<close>

definition deals_full :: "draft_session \<Rightarrow> draft_pack list list \<Rightarrow> bool" where
  "deals_full s all_packs \<longleftrightarrow>
     length all_packs = length (seats s) \<and>
     (\<forall>row\<in>set all_packs. length row = unat (cfg_pack_count (config s)) \<and> [] \<notin> set row)"

lemma deal_pick_and_pass_live:
  assumes un: "undealt s" and n: "0 < length (seats s)" "length (seats s) \<le> 128" and full: "deals_full s all_packs"
    and packs: "0 < unat (cfg_pack_count (config s))" and uniq: "unique_ids (mset (concat (concat all_packs)))"
  obtains s' where "deal_pick_and_pass (s\<lparr>booster_pack_pool := b, pack_sizes := ps\<rparr>) all_packs = (s', Ok [DraftStarted])"
    "pick_session s'" "status s' = Drafting" "cards_in_event s' = mset (concat (concat all_packs))" "shared_stack s' = None"
proof -
  have pod: "pod_wf s" using un by (simp add: undealt_def session_wf_def)
  note w = pod_wfD [OF pod]
  let ?s0 = "s\<lparr>booster_pack_pool := b, pack_sizes := ps\<rparr>"
  let ?s1 = "?s0\<lparr>current_pack_origins := current_pack_origins s\<rparr>"
  have some: "\<exists>t'. deal_seats xs t = Some t'"
    if "\<forall>(i, row)\<in>set xs. i < n \<and> row \<noteq> []" "length (current_pack t) = n" "length (current_pack_origins t) = n"
      "length (packs_by_seat t) = n" for xs t n
    using that by (induction xs t rule: deal_seats.induct) (auto split: list.splits)
  have rows: "\<forall>(i, row)\<in>set (enumerate 0 all_packs). i < length (seats s) \<and> row \<noteq> []"
    using full packs by (auto simp: deals_full_def in_set_enumerate_eq) (metis list.size(3) not_gr_zero nth_mem)
  have "\<exists>s2. deal_seats (enumerate 0 all_packs) ?s1 = Some s2" by (rule some [OF rows]) (use w in simp_all)
  then obtain s2 where s2: "deal_seats (enumerate 0 all_packs) ?s1 = Some s2" by blast
  let ?s' = "s2\<lparr>status := Drafting, pass_direction := pass_for_pack 0, current_pack_number := 0,
       pick_number := 0, seats_picked_this_round := sf_all_false (as_u8 (length (seats s)))\<rparr>"
  have res: "deal_pick_and_pass ?s0 all_packs = (?s', Ok [DraftStarted])"
    using s2 w by (simp add: deal_pick_and_pass_def Let_def)
  note d = deal_pick_and_pass_cards [OF un res]
  note rws = deal_seats_rows [OF s2 map_snd_enumerate_fst]
  have row: "current_pack s2 ! i = Some (hd (all_packs ! i))" "packs_by_seat s2 ! i = tl (all_packs ! i)"
    "all_packs ! i \<in> set all_packs" if "i < length (seats s)" for i
    using rws(1) that full by (force simp: deals_full_def in_set_enumerate_eq)+
  have cfg: "config s2 = config s" using rws(3) by simp
  have "rounds_left ?s'"
    unfolding rounds_left_def
  proof (intro allI impI)
    fix i
    assume "i < length (seats ?s')"
    then have i: "i < length (seats s)" using d(4) by simp
    with row(3) full have "length (all_packs ! i) = unat (cfg_pack_count (config s))" "[] \<notin> set (all_packs ! i)"
      by (auto simp: deals_full_def)
    then show "length (packs_by_seat ?s' ! i) + unat (current_pack_number ?s') + 1 = unat (cfg_pack_count (config ?s'))
        \<and> (\<forall>p\<in>set (packs_by_seat ?s' ! i). p \<noteq> [])"
      using row(2) [OF i] cfg packs by (cases "all_packs ! i") auto
  qed
  moreover have "pending_seat ?s' 0"
  proof -
    have "all_packs ! 0 \<noteq> []" "[] \<notin> set (all_packs ! 0)" using row(3) [OF n(1)] full packs by (auto simp: deals_full_def)
    then have "hd (all_packs ! 0) \<noteq> []" by (metis list.set_sel(1))
    moreover have "0 < length (current_pack s2)" using d(1,4) n(1) by (simp add: session_wf_def pod_wf_def)
    ultimately show ?thesis
      using row(1) [OF n(1)] by (simp add: pending_seat_def owes_pick_def sf_get_def sf_all_false_def vec_get_def)
  qed
  ultimately have "pick_session ?s'"
    using d n uniq by (auto simp: pick_session_def pick_live_def session_wf_def)
  moreover have "shared_stack ?s' = None"
  proof -
    have "deal_seats xs t = Some t' \<Longrightarrow> shared_stack t' = shared_stack t" for xs t t'
      by (induction xs t rule: deal_seats.induct) (auto split: list.splits if_splits)
    from this [OF s2] un show ?thesis by (simp add: undealt_def)
  qed
  ultimately show thesis using res d by (intro that [of ?s']) simp_all
qed

lemma deal_piles_outcome:
  assumes "n \<le> length stack"
  obtains ps rest where "deal_piles n stack = Some (ps, rest)" "length ps = n" "\<forall>p\<in>set ps. length p = 1"
    "mset (concat ps) + mset rest = mset stack"
proof -
  have "\<exists>ps rest. deal_piles n stack = Some (ps, rest) \<and> length ps = n \<and> (\<forall>p\<in>set ps. length p = 1)
      \<and> mset (concat ps) + mset rest = mset stack"
    using assms
  proof (induction n arbitrary: stack)
    case (Suc n)
    then obtain xs x where st: "stack = xs @ [x]" by (cases stack rule: rev_cases) auto
    with Suc.prems have "n \<le> length xs" by simp
    from Suc.IH [OF this] obtain ps rest where "deal_piles n xs = Some (ps, rest)" "length ps = n"
      "\<forall>p\<in>set ps. length p = 1" "mset (concat ps) + mset rest = mset xs" by blast
    then show ?case by (intro exI [of _ "[x] # ps"] exI [of _ rest]) (simp add: st)
  qed simp
  then show thesis using that by blast
qed

lemma dealt_stack_outcome:
  assumes n: "0 < n" "n < 256" "n \<le> length stack" and seats: "0 < k" "k < 256" "unat starting < k"
  obtains st where "dealt_stack n (as_u8 k) stack starting = Some st" "stack_wf k st" "stack_live st"
    "table_cards st = mset stack" "length (piles st) = n" "active_seat st = starting"
proof -
  from deal_piles_outcome [OF n(3)] obtain ps rest where d: "deal_piles n stack = Some (ps, rest)" "length ps = n"
    "\<forall>p\<in>set ps. length p = 1" "mset (concat ps) + mset rest = mset stack" by blast
  from n(1) d(2) obtain p qs where ps: "ps = p # qs" by (cases ps) auto
  let ?st = "\<lparr>main_stack = rest, piles = p # qs, starting_seat = starting, active_seat = starting,
      stack_cursor = 0, inspected = (replicate n 0)[0 := length p], decisions = 0,
      stack_history = [], forced_draws = replicate (unat (as_u8 k)) None\<rparr>"
  have ne: "\<forall>x\<in>set ps. x \<noteq> []" using d(3) by auto
  have "dealt_stack n (as_u8 k) stack starting = Some ?st" using d(1) ps by (simp add: dealt_stack_def)
  moreover have "stack_core k ?st" using n seats d(2) ps ne by (auto simp: stack_core_def)
  moreover have "inspected_ok ?st" using n d(2) ps by (auto simp: inspected_ok_def nth_list_update nth_Cons')
  moreover have "stack_live ?st" using ne ps by (auto simp: stack_live_def intro!: exI [of _ 0])
  moreover have "table_cards ?st = mset stack" using d(4) ps by (simp add: table_cards_def ac_simps)
  ultimately show thesis using d(2) ps by (intro that [of ?st]) (simp_all add: stack_wf_def)
qed

lemma deal_shared_stack_live:
  assumes un: "undealt s" and g: "rng_shuffles g" "rng_in_range g" and n: "0 < length (seats s)"
    and counts: "\<not> wrong_pack_counts s all_packs" and k: "0 < pile_count" and enough: "unat pile_count \<le> length (concat (concat all_packs))"
  obtains s' where "deal_shared_stack g (s\<lparr>booster_pack_pool := b, pack_sizes := ps\<rparr>) pile_count all_packs r = (s', Ok [DraftStarted])"
    "stack_session s'" "status s' = Drafting" "cards_in_event s' = mset (concat (concat all_packs))"
    "seats s' = seats s" "config s' = config s" "draft_kind_of s' = draft_kind_of s"
    "\<exists>st. shared_stack s' = Some st \<and> length (piles st) = unat pile_count"
proof -
  let ?s0 = "s\<lparr>booster_pack_pool := b, pack_sizes := ps\<rparr>"
  let ?n = "length (seats s)" and ?stack = "concat (concat all_packs)"
  have pod: "pod_wf s" and none: "shared_stack s = None" using un by (simp_all add: undealt_def session_wf_def)
  have n256: "?n < 256" using pod by (simp add: pod_wf_def)
  have seat_count: "0 < as_u8 ?n" using n n256 by (simp add: word_less_nat_alt)
  obtain shuffled r1 where sh: "shuffle g ?stack r = (shuffled, r1)" by fastforce
  have m: "mset shuffled = mset ?stack" using mset_shuffle [OF g(1), of ?stack r] sh by simp
  then have len: "length shuffled = length ?stack" by (metis size_mset)
  obtain starting r2 where rr: "random_range g (as_u8 ?n) r1 = (starting, r2)" by fastforce
  have "starting < as_u8 ?n" using g(2) seat_count rr by (metis rng_in_range_def fst_conv)
  then have start: "unat starting < ?n" by (rule less_as_u8_in_range)
  have kn: "0 < unat pile_count" using k by (simp add: word_less_nat_alt)
  obtain st where st: "dealt_stack (unat pile_count) (as_u8 ?n) shuffled starting = Some st" "stack_wf ?n st" "stack_live st"
    "table_cards st = mset shuffled" "length (piles st) = unat pile_count"
    using dealt_stack_outcome [of "unat pile_count" shuffled ?n starting] kn unat_u8_bound [of pile_count] enough len n n256 start by metis
  let ?s' = "?s0\<lparr>shared_stack := Some st, status := Drafting\<rparr>"
  have "wrong_pack_counts ?s0 all_packs = wrong_pack_counts s all_packs" by (simp add: wrong_pack_counts_def)
  then have "deal_shared_stack g ?s0 pile_count all_packs r = (?s', Ok [DraftStarted])"
    using counts k enough seat_count st(1) by (auto simp: deal_shared_stack_def Let_def piles_needed_def sh rr)
  moreover have "no_packs ?s'"
    using undealt_empty(2,3) [OF un] by (simp add: no_packs_def held_cards_def unopened_cards_def)
  then have "stack_session ?s'" using pod st by (simp add: stack_session_def pod_wf_def)
  moreover have "cards_in_event ?s' = mset ?stack"
    using undealt_empty [OF un] st(4) m by (simp add: cards_in_event_alt stack_cards_def table_cards_def pool_cards_def)
  ultimately show thesis using st(5) by (intro that [of ?s']) simp_all
qed

lemma deal_all_at_once_cards:
  assumes un: "undealt s" and counts: "\<not> wrong_pack_counts s all_packs"
  shows "deal_all_at_once (s\<lparr>booster_pack_pool := b, pack_sizes := ps\<rparr>) all_packs =
      (s\<lparr>booster_pack_pool := b, pack_sizes := ps, pools := map concat all_packs, current_pack := map (\<lambda>_. None) (current_pack s),
         current_pack_origins := map (\<lambda>_. None) (current_pack_origins s), packs_by_seat := map (\<lambda>_. []) (packs_by_seat s),
         status := Deckbuilding\<rparr>, Ok [DraftStarted, TransitionedTo Deckbuilding])"
    and "session_wf (fst (deal_all_at_once (s\<lparr>booster_pack_pool := b, pack_sizes := ps\<rparr>) all_packs))"
    and "cards_in_event (fst (deal_all_at_once (s\<lparr>booster_pack_pool := b, pack_sizes := ps\<rparr>) all_packs)) = mset (concat (concat all_packs))"
proof -
  let ?s0 = "s\<lparr>booster_pack_pool := b, pack_sizes := ps\<rparr>"
  have "wrong_pack_counts ?s0 all_packs = wrong_pack_counts s all_packs" by (simp add: wrong_pack_counts_def)
  with counts show res: "deal_all_at_once ?s0 all_packs =
      (s\<lparr>booster_pack_pool := b, pack_sizes := ps, pools := map concat all_packs, current_pack := map (\<lambda>_. None) (current_pack s),
         current_pack_origins := map (\<lambda>_. None) (current_pack_origins s), packs_by_seat := map (\<lambda>_. []) (packs_by_seat s),
         status := Deckbuilding\<rparr>, Ok [DraftStarted, TransitionedTo Deckbuilding])"
    by (simp add: deal_all_at_once_def)
  from un counts show "session_wf (fst (deal_all_at_once ?s0 all_packs))"
    by (simp add: res undealt_def session_wf_def pod_wf_def wrong_pack_counts_def)
  have flat: "concat (map concat xs) = concat (concat xs)" for xs :: "draft_pack list list" by (induction xs) simp_all
  have "concat (map slot_cards (map (\<lambda>_. None) xs)) = []" for xs :: "draft_pack option list"
    by (induction xs) (simp_all add: slot_cards_def)
  moreover have "concat (concat (map (\<lambda>_. []) xs)) = []" for xs :: "draft_pack list list" by (induction xs) simp_all
  ultimately show "cards_in_event (fst (deal_all_at_once ?s0 all_packs)) = mset (concat (concat all_packs))"
    using un by (simp add: res cards_in_event_def pool_cards_def flat stack_cards_def undealt_def)
qed

subsection \<open>Accepted starts\<close>

lemma start_draft_accepted:
  assumes "apply_start_draft g s (Some src) = (s', Ok ds)"
  obtains all_packs r where "status s = Lobby" "start_preflight s = Ok ()"
    "generate_packs src (seed_from_u64 g (cfg_rng_seed (config s))) (config s) (as_u8 (length (seats s))) = (Ok all_packs, r)"
    "(case proc_distribution (kind_procedure (draft_kind_of s)) of
        AllAtOnce \<Rightarrow> deal_all_at_once (s\<lparr>booster_pack_pool := source_booster_pack_pool src, pack_sizes := opened_sizes all_packs\<rparr>) all_packs
      | SharedStackPiles k \<Rightarrow> deal_shared_stack g (s\<lparr>booster_pack_pool := source_booster_pack_pool src, pack_sizes := opened_sizes all_packs\<rparr>) k all_packs r
      | PickAndPass \<Rightarrow> deal_pick_and_pass (s\<lparr>booster_pack_pool := source_booster_pack_pool src, pack_sizes := opened_sizes all_packs\<rparr>) all_packs)
     = (s', Ok ds)"
  using assms
  by (auto simp: apply_start_draft_def Let_def split: if_splits rust_result.splits prod.splits)

lemma deal_shared_stack_accepted:
  assumes "deal_shared_stack g s k all_packs r = (s', Ok ds)"
  shows "\<not> wrong_pack_counts s all_packs" "0 < k" "unat k \<le> length (concat (concat all_packs))" "seats s \<noteq> []"
proof -
  show "\<not> wrong_pack_counts s all_packs" using assms by (auto simp: deal_shared_stack_def Let_def split: if_splits)
  show "0 < k" using assms
    by (cases "k = 0") (auto simp: deal_shared_stack_def Let_def piles_needed_def word_gt_0 split: if_splits)
  then show "unat k \<le> length (concat (concat all_packs))" using assms
    by (auto simp: deal_shared_stack_def Let_def piles_needed_def split: if_splits)
  have "as_u8 0 = 0" by (simp add: as_u8_def)
  then show "seats s \<noteq> []" using assms \<open>0 < k\<close>
    by (auto simp: deal_shared_stack_def Let_def piles_needed_def split: if_splits)
qed

lemma start_draft_deals:
  assumes un: "undealt s" and g: "rng_shuffles g" "rng_in_range g"
    and acc: "apply_start_draft g s (Some src) = (s', Ok ds)"
  obtains all_packs r where
    "generate_packs src (seed_from_u64 g (cfg_rng_seed (config s))) (config s) (as_u8 (length (seats s))) = (Ok all_packs, r)"
    "cards_in_event s' = mset (concat (concat all_packs))" "session_wf s'" "status s' \<noteq> Lobby" "length (seats s') = length (seats s)"
proof -
  from start_draft_accepted [OF acc] obtain all_packs r where
    gen: "generate_packs src (seed_from_u64 g (cfg_rng_seed (config s))) (config s) (as_u8 (length (seats s))) = (Ok all_packs, r)"
    and deal: "(case proc_distribution (kind_procedure (draft_kind_of s)) of
        AllAtOnce \<Rightarrow> deal_all_at_once (s\<lparr>booster_pack_pool := source_booster_pack_pool src, pack_sizes := opened_sizes all_packs\<rparr>) all_packs
      | SharedStackPiles k \<Rightarrow> deal_shared_stack g (s\<lparr>booster_pack_pool := source_booster_pack_pool src, pack_sizes := opened_sizes all_packs\<rparr>) k all_packs r
      | PickAndPass \<Rightarrow> deal_pick_and_pass (s\<lparr>booster_pack_pool := source_booster_pack_pool src, pack_sizes := opened_sizes all_packs\<rparr>) all_packs)
     = (s', Ok ds)" by metis
  show thesis
  proof (cases "proc_distribution (kind_procedure (draft_kind_of s))")
    case PickAndPass
    with deal deal_pick_and_pass_cards [OF un, of _ _ all_packs s' ds] gen that show ?thesis by simp
  next
    case AllAtOnce
    with deal have d: "deal_all_at_once (s\<lparr>booster_pack_pool := source_booster_pack_pool src, pack_sizes := opened_sizes all_packs\<rparr>) all_packs = (s', Ok ds)"
      by simp
    then have "\<not> wrong_pack_counts s all_packs"
      by (auto simp: deal_all_at_once_def wrong_pack_counts_def split: if_splits)
    from deal_all_at_once_cards [OF un this, where b = "source_booster_pack_pool src" and ps = "opened_sizes all_packs"] d gen that show ?thesis by auto
  next
    case (SharedStackPiles k)
    with deal have d: "deal_shared_stack g (s\<lparr>booster_pack_pool := source_booster_pack_pool src, pack_sizes := opened_sizes all_packs\<rparr>) k all_packs r = (s', Ok ds)"
      by simp
    note a = deal_shared_stack_accepted [OF d]
    have counts: "\<not> wrong_pack_counts s all_packs" using a(1) by (simp add: wrong_pack_counts_def)
    obtain t where t: "deal_shared_stack g (s\<lparr>booster_pack_pool := source_booster_pack_pool src, pack_sizes := opened_sizes all_packs\<rparr>) k all_packs r = (t, Ok [DraftStarted])"
      "stack_session t" "status t = Drafting" "cards_in_event t = mset (concat (concat all_packs))" "seats t = seats s"
      by (rule deal_shared_stack_live [OF un g _ counts a(2,3)]) (use a(4) in auto)
    with d have s': "s' = t" by simp
    have "session_wf s'" using t(2) s' by (auto simp: session_wf_def elim: stack_sessionE)
    with t s' gen that show ?thesis by simp
  qed
qed

lemma start_winston:
  assumes un: "undealt s" and g: "rng_shuffles g" "rng_in_range g"
    and dist: "proc_distribution (kind_procedure (draft_kind_of s)) = SharedStackPiles k"
    and acc: "apply_start_draft g s (Some src) = (s', Ok ds)"
  shows "stack_session s'" "status s' = Drafting" "seats s' = seats s" "config s' = config s" "draft_kind_of s' = draft_kind_of s"
    "\<exists>st. shared_stack s' = Some st \<and> length (piles st) = unat k" "0 < k" "start_preflight s = Ok ()"
proof -
  obtain all_packs r where pre: "start_preflight s = Ok ()" and
    d: "deal_shared_stack g (s\<lparr>booster_pack_pool := source_booster_pack_pool src, pack_sizes := opened_sizes all_packs\<rparr>) k all_packs r = (s', Ok ds)"
    by (rule start_draft_accepted [OF acc]) (simp add: dist)
  note a = deal_shared_stack_accepted [OF d]
  have counts: "\<not> wrong_pack_counts s all_packs" using a(1) by (simp add: wrong_pack_counts_def)
  obtain t where "deal_shared_stack g (s\<lparr>booster_pack_pool := source_booster_pack_pool src, pack_sizes := opened_sizes all_packs\<rparr>) k all_packs r = (t, Ok [DraftStarted])"
    "stack_session t" "status t = Drafting" "seats t = seats s" "config t = config s" "draft_kind_of t = draft_kind_of s"
    "\<exists>st. shared_stack t = Some st \<and> length (piles st) = unat k"
    by (rule deal_shared_stack_live [OF un g _ counts a(2,3)]) (use a(4) in auto)
  with d pre a(2) show "stack_session s'" "status s' = Drafting" "seats s' = seats s" "config s' = config s" "draft_kind_of s' = draft_kind_of s"
    "\<exists>st. shared_stack s' = Some st \<and> length (piles st) = unat k" "0 < k" "start_preflight s = Ok ()" by simp_all
qed

lemma start_pick_and_pass:
  assumes un: "undealt s" and dist: "proc_distribution (kind_procedure (draft_kind_of s)) = PickAndPass"
    and pre: "start_preflight s = Ok ()"
    and gen: "generate_packs src (seed_from_u64 g (cfg_rng_seed (config s))) (config s) (as_u8 (length (seats s))) = (Ok all_packs, r)"
    and full: "deals_full s all_packs" and uniq: "unique_ids (mset (concat (concat all_packs)))"
    and n: "0 < length (seats s)" "length (seats s) \<le> 128" and packs: "0 < unat (cfg_pack_count (config s))"
  obtains s' where "apply_start_draft g s (Some src) = (s', Ok [DraftStarted])"
    "pick_session s'" "status s' = Drafting" "cards_in_event s' = mset (concat (concat all_packs))" "shared_stack s' = None"
proof -
  let ?s0 = "s\<lparr>booster_pack_pool := source_booster_pack_pool src, pack_sizes := opened_sizes all_packs\<rparr>"
  have "apply_start_draft g s (Some src) = deal_pick_and_pass ?s0 all_packs"
    using un pre dist gen by (simp add: apply_start_draft_def undealt_def Let_def)
  with deal_pick_and_pass_live [OF un n full packs uniq] that show thesis by metis
qed

subsection \<open>Snapshots\<close>

definition snapshot_ready :: "u8 \<Rightarrow> draft_session \<Rightarrow> bool" where
  "snapshot_ready k s \<longleftrightarrow>
     draft_kind_of s = cfg_kind (config s) \<and> layout_check s = Ok () \<and>
     validate_source (kind_procedure (draft_kind_of s)) (cfg_source (config s)) = Ok () \<and> pod_size_allowed s \<and>
     proc_distribution (kind_procedure (draft_kind_of s)) = SharedStackPiles k \<and> 0 < k \<and>
     unat (cfg_pod_size (config s)) = length (seats s) \<and>
     (\<forall>st. shared_stack s = Some st \<longrightarrow> length (piles st) = unat k)"

lemma config_checks_cong:
  assumes "seats s' = seats s" "config s' = config s" "draft_kind_of s' = draft_kind_of s"
  shows "layout_check s' = layout_check s" "pod_size_allowed s' = pod_size_allowed s"
  unfolding layout_check_def pod_size_allowed_def assms by simp_all

lemma preflight_Ok:
  assumes "start_preflight s = Ok ()"
  shows "layout_check s = Ok ()" "validate_source (kind_procedure (draft_kind_of s)) (cfg_source (config s)) = Ok ()"
    "pod_size_allowed s" "distribution_check s = Ok ()"
  using assms by (auto simp: start_preflight_def Let_def split: rust_result.splits if_splits)

lemma stack_snapshot_ok:
  assumes inv: "stack_session s" and ready: "snapshot_ready k s"
  shows "validate_persisted_snapshot s = Ok ()"
proof -
  let ?n = "unat k"
  from inv obtain st where st: "shared_stack s = Some st" "stack_wf (length (seats s)) st" "pod_wf s"
    "status s = Drafting \<Longrightarrow> stack_live st" by (rule stack_sessionE) blast
  have core: "stack_core (length (seats s)) st" and insp: "inspected_ok st" using st(2) by (simp_all add: stack_wf_def)
  have len: "length (piles st) = ?n" "length (inspected st) = ?n" using ready st(1) core by (auto simp: snapshot_ready_def stack_core_def)
  have "\<not> list_ex (\<lambda>(seen, pile). length pile < seen) (zip (inspected st) (piles st))"
    using insp len by (fastforce simp: list_ex_iff in_set_zip inspected_ok_def not_less)
  moreover have "\<not> list_ex (\<lambda>seen. seen \<noteq> 0) (drop (unat (stack_cursor st) + 1) (inspected st))"
    using insp len by (auto simp: list_ex_length inspected_ok_def)
  moreover have "\<not> list_ex (\<lambda>r. ?n \<le> unat (rec_pile r)) (stack_history st)"
    "\<not> list_ex (\<lambda>r. length (seats s) \<le> unat (rec_seat r)) (stack_history st)"
    using core len by (auto simp: list_ex_iff stack_core_def not_le)
  moreover have "\<not> (status s = Drafting \<and> forced_decision st (active_seat st) = None)"
    using stack_live_decision [of st] st(4) core by (auto simp: stack_core_def)
  moreover have "length (pools s) = length (seats s)" using st(3) by (simp add: pod_wf_def)
  ultimately have "stack_snapshot_error s ?n st = None"
    using core len ready by (auto simp: stack_snapshot_error_def stack_core_def snapshot_ready_def)
  then show ?thesis
    using ready st(1)
    by (auto simp: validate_persisted_snapshot_def validate_stack_snapshot_def snapshot_ready_def piles_needed_def Let_def word_gt_0)
qed

lemma snapshot_ready_step:
  assumes inv: "stack_session s" and ready: "snapshot_ready k s" and step: "decision_step s (seat, pile, d) = Some s'"
  shows "snapshot_ready k s'"
proof -
  note f = decision_step_frame [OF step]
  from inv obtain st where st: "shared_stack s = Some st" "stack_wf (length (seats s)) st" "pod_wf s" by (rule stack_sessionE)
  from step obtain ds where ok: "apply_shared_stack_decision s seat pile d = (s', Ok ds)"
    by (auto simp: decision_step_def accepted_iff)
  have "length (piles st') = unat k" if "shared_stack s' = Some st'" for st'
    using st(1)
  proof (cases rule: apply_decision_cases [where seat = seat and pile = pile and d = d])
    case (refused e)
    with ok show ?thesis by simp
  next
    case accepted
    from apply_decision_accepted [OF st(3,2) accepted(1) st(1) accepted(2)] ok that ready st(1)
    show ?thesis by (auto simp: turn_promise_def snapshot_ready_def)
  qed
  with ready config_checks_cong [OF f(1-3)] show ?thesis unfolding snapshot_ready_def f by auto
qed

lemma winston_run_snapshot:
  "stack_session s \<Longrightarrow> snapshot_ready k s \<Longrightarrow> run_steps decision_step s as = Some s' \<Longrightarrow> snapshot_ready k s'"
proof (induction "as" arbitrary: s)
  case (Cons a "as")
  obtain seat pile d where a: "a = (seat, pile, d)" by (metis prod_cases3)
  with Cons.prems obtain s1 where "decision_step s (seat, pile, d) = Some s1" "run_steps decision_step s1 as = Some s'"
    by (auto split: option.splits)
  with Cons.IH Cons.prems decision_step_accepted(1) snapshot_ready_step show ?case by blast
qed simp

lemma sum_len_u8: "\<forall>p\<in>set row. length p < 256 \<Longrightarrow> sum_list (map unat (map (\<lambda>p. len_u8 (length p)) row)) = length (concat row)"
  by (induction row) (simp_all add: len_u8_def)

text \<open>
  A started sealed session passes the import check exactly when every seat opened as many cards as
  seat 0, although \<open>allowed_set_layouts\<close> admits Chaos layouts, whose seats open different sets.
\<close>

lemma sealed_snapshot:
  assumes un: "undealt s" and kind: "draft_kind_of s = cfg_kind (config s)"
    and dist: "proc_distribution (kind_procedure (draft_kind_of s)) = AllAtOnce"
    and pod: "unat (cfg_pod_size (config s)) = length (seats s)" "0 < length (seats s)"
    and acc: "apply_start_draft g s (Some src) = (s', Ok ds)"
    and gen: "generate_packs src (seed_from_u64 g (cfg_rng_seed (config s))) (config s) (as_u8 (length (seats s))) = (Ok all_packs, r)"
    and small: "\<forall>row\<in>set all_packs. \<forall>p\<in>set row. length p < 256"
  shows "validate_persisted_snapshot s' = Ok () \<longleftrightarrow> (\<forall>row\<in>set all_packs. length (concat row) = length (concat (hd all_packs)))"
proof -
  let ?s0 = "s\<lparr>booster_pack_pool := source_booster_pack_pool src, pack_sizes := opened_sizes all_packs\<rparr>"
  obtain packs2 r2 where pre: "start_preflight s = Ok ()"
    and d2: "generate_packs src (seed_from_u64 g (cfg_rng_seed (config s))) (config s) (as_u8 (length (seats s))) = (Ok packs2, r2)"
      "deal_all_at_once (s\<lparr>booster_pack_pool := source_booster_pack_pool src, pack_sizes := opened_sizes packs2\<rparr>) packs2 = (s', Ok ds)"
    by (rule start_draft_accepted [OF acc]) (simp add: dist)
  then have d: "deal_all_at_once ?s0 all_packs = (s', Ok ds)" using gen by simp
  then have counts: "\<not> wrong_pack_counts s all_packs"
    by (auto simp: deal_all_at_once_def wrong_pack_counts_def split: if_splits)
  from deal_all_at_once_cards(1) [OF un counts, where b = "source_booster_pack_pool src" and ps = "opened_sizes all_packs"] d
  have s': "s' = ?s0\<lparr>pools := map concat all_packs, current_pack := map (\<lambda>_. None) (current_pack s),
         current_pack_origins := map (\<lambda>_. None) (current_pack_origins s), packs_by_seat := map (\<lambda>_. []) (packs_by_seat s),
         status := Deckbuilding\<rparr>" by simp
  have wf: "pod_wf s" using un by (simp add: undealt_def session_wf_def)
  have n: "length all_packs = length (seats s)" using counts by (simp add: wrong_pack_counts_def)
  obtain row rows where ap: "all_packs = row # rows" using n pod(2) by (cases all_packs) auto
  have "length row = unat (proc_packs_per_player (kind_procedure (draft_kind_of s)))"
    using counts ap by (simp add: wrong_pack_counts_def)
  moreover have "0 < unat (proc_packs_per_player (kind_procedure k))" for k by (cases k) simp_all
  ultimately have "0 < length row" by metis
  then have "row \<noteq> []" by simp
  then have total: "total_pack_cards s' = length (concat row)"
    using sum_len_u8 [of row] small by (simp add: total_pack_cards_def s' opened_sizes_def ap)
  note p = preflight_Ok [OF pre]
  have head: "draft_kind_of s' = cfg_kind (config s')" "layout_check s' = Ok ()"
    "validate_source (kind_procedure (draft_kind_of s')) (cfg_source (config s')) = Ok ()" "pod_size_allowed s'"
    "proc_distribution (kind_procedure (draft_kind_of s')) = AllAtOnce"
    using p kind dist config_checks_cong [of s' s] by (simp_all add: s')
  have "validate_persisted_snapshot s' = validate_sealed_snapshot s'"
    using head by (simp add: validate_persisted_snapshot_def)
  also have "\<dots> = (if list_ex (\<lambda>pool. length pool \<noteq> total_pack_cards s') (pools s')
      then Err (InvalidSealedSnapshot ''started sealed pools must contain exactly one card from each configured pack'') else Ok ())"
    using p(4) dist pod n pod_wfD [OF wf]
    by (auto simp: validate_sealed_snapshot_def distribution_check_def Let_def s' list_ex_iff split: if_splits)
  finally show ?thesis
    unfolding total by (simp add: s' list_ex_iff ap)
qed

subsection \<open>Deck submission\<close>

lemma all_humans_submitted_iff:
  "all_humans_submitted s \<longleftrightarrow> (\<forall>seat\<in>set (seats s). \<forall>p. human_player seat = Some p \<longrightarrow> submitted_decks s p \<noteq> None)"
proof -
  have all: "length xs \<le> length (filter P xs) \<longleftrightarrow> (\<forall>x\<in>set xs. P x)" for P and xs :: "draft_seat list"
    by (induction xs) (auto simp: Suc_le_eq dest: order_trans [OF _ length_filter_le])
  have bot: "\<not> is_bot seat \<longleftrightarrow> human_player seat \<noteq> None" for seat
    by (cases seat) (simp_all add: human_player_def)
  show ?thesis unfolding all_humans_submitted_def Let_def all by (auto simp: bot split: option.splits)
qed

definition submission_legal :: "draft_session \<Rightarrow> u8 \<Rightarrow> string list \<Rightarrow> string list \<Rightarrow> bool" where
  "submission_legal s seat main_deck commanders \<longleftrightarrow>
     status s = Deckbuilding \<and> unat seat < length (seats s) \<and> length commanders \<le> MAX_COMMANDER_DESIGNATIONS \<and>
     legal_deck main_deck (map card_name (pools s ! unat seat)) (cfg_addable_cards (config s)) (cfg_min_deck_size (config s))
       (con_fillers (session_concessions s)) commanders (unat (proc_commanders_required (kind_procedure (draft_kind_of s))))"

lemma submit_deck_decides:
  assumes wf: "session_wf s" and ho: "hash_order ho"
    and fits: "fits_counts main_deck" "fits_counts (map card_name (pools s ! unat seat))"
  shows "is_ok (snd (apply_submit_deck ho s seat main_deck commanders)) \<longleftrightarrow> submission_legal s seat main_deck commanders"
proof (cases "status s = Deckbuilding \<and> unat seat < length (seats s) \<and> length commanders \<le> MAX_COMMANDER_DESIGNATIONS")
  case False
  then have "\<exists>e. apply_submit_deck ho s seat main_deck commanders = (s, Err e)"
    using wf seat_bounds [of s seat] by (auto simp: apply_submit_deck_def Let_def session_wf_def)
  then show ?thesis using False by (auto simp: submission_legal_def)
next
  case True
  have pod: "pod_wf s" using wf by (simp add: session_wf_def)
  have "fits_counts commanders" using True by (simp add: fits_counts_def MAX_COMMANDER_DESIGNATIONS_def)
  note dec = validate_limited_deck_decides [OF ho fits this]
  obtain p where p: "seat_player_id s seat = Some p" using seat_player_id_ok True by blast
  have pool: "vec_get (pools s) (unat seat) = Some (pools s ! unat seat)" using True pod by (simp add: pod_wf_def)
  have rec: "is_ok (snd (record_submission s seat main_deck commanders p))" by (simp add: record_submission_def Let_def)
  have okv: "x = Ok () \<longleftrightarrow> is_ok x" for x :: "(unit, limited_deck_error list) rust_result" by (cases x) simp_all
  show ?thesis
    using True p pool rec seat_bounds [OF pod, of seat] validate_limited_deck_total
    by (auto simp: apply_submit_deck_def Let_def submission_legal_def dec [symmetric] not_less split: rust_result.split)
qed

lemma submit_deck_effect:
  assumes "apply_submit_deck ho s seat main_deck commanders = (s', Ok ds)"
  obtains p where "seat_player_id s seat = Some p"
    "submitted_decks s' = (submitted_decks s)(p \<mapsto> \<lparr>sub_seat = seat, sub_main_deck = main_deck, sub_commanders = commanders\<rparr>)"
    "pools s' = pools s" "seats s' = seats s"
    "status s' = (if \<forall>x\<in>set (seats s). \<forall>q. human_player x = Some q \<longrightarrow> submitted_decks s' q \<noteq> None
       then status_after_drafting (draft_kind_of s) else Deckbuilding)"
proof -
  from assms have dk: "status s = Deckbuilding" by (auto simp: apply_submit_deck_def split: if_splits)
  from assms obtain p where p: "seat_player_id s seat = Some p" and r: "record_submission s seat main_deck commanders p = (s', Ok ds)"
    by (auto simp: apply_submit_deck_def Let_def split: if_splits option.splits rust_result.splits)
  show thesis
    by (rule that [OF p]) (use r dk in \<open>auto simp: record_submission_def Let_def all_humans_submitted_iff split: if_splits\<close>)
qed

end
