(* ===== verification/Draft_Pool_View.thy ===== *)
theory Draft_Pool_View
  imports Draft_Types "HOL-Library.Product_Lexorder"
begin

text \<open>
  The presentation of a limited pool (\<^verbatim>\<open>src/crates/draft-core/src/view.rs\<close>): the classification of
  cards by colour, type, mana value and rarity, the ordered groups with their collapsed duplicates,
  and the pool filter with the options it offers. The lemmas are proved once for an arbitrary
  exclusive axis and for an arbitrary filtering axis, and interpreted on the axes of the code: every
  card is in exactly one group of an axis, and a filter is offered exactly when it keeps some card.

  Lowercasing and trimming of full Unicode text (\<^verbatim>\<open>str::to_lowercase\<close>, \<^verbatim>\<open>str::trim\<close>) depend on the
  character tables of the standard library and are given as the record \<open>text_ops\<close>. Comparison,
  \<^verbatim>\<open>str::contains\<close> and \<^verbatim>\<open>to_ascii_lowercase\<close> act on the bytes of the UTF-8 encoding.
\<close>

subsection \<open>Kinds, entries and groups\<close>

datatype draft_pool_group_kind =
    WhiteGroup | BlueGroup | BlackGroup | RedGroup | GreenGroup | MulticolorGroup | ColorlessGroup
  | CreatureGroup | InstantGroup | SorceryGroup | EnchantmentGroup | ArtifactGroup | PlaneswalkerGroup
  | LandGroup | OtherGroup
  | MythicGroup | RareGroup | UncommonGroup | CommonGroup | RarityOtherGroup
  | ManaValue0 | ManaValue1 | ManaValue2 | ManaValue3 | ManaValue4 | ManaValue5 | ManaValue6Plus

datatype draft_rarity_group_kind = MythicKind | RareKind | UncommonKind | CommonKind | RarityOtherKind

record draft_pool_entry =
  entry_card :: draft_card
  entry_count :: usize
  entry_instance_ids :: "string list"

record draft_pool_group =
  group_kind :: draft_pool_group_kind
  group_total :: usize
  group_cards :: "draft_pool_entry list"

record draft_pool_color_counts =
  white_count :: usize
  blue_count :: usize
  black_count :: usize
  red_count :: usize
  green_count :: usize

record draft_workspace_capabilities =
  rarity_group_order :: "draft_rarity_group_kind list option"

record draft_workspace_row_classification =
  creature_instance_ids :: "string list"
  noncreature_instance_ids :: "string list"

record draft_pool_groups =
  color_groups :: "draft_pool_group list"
  type_groups :: "draft_pool_group list"
  cmc_groups :: "draft_pool_group list"
  rarity_groups :: "draft_pool_group list"
  pg_type_filter_options :: "draft_pool_group_kind list"
  pg_color_filter_options :: "draft_pool_group_kind list"
  pg_color_counts :: draft_pool_color_counts
  workspace_capabilities :: draft_workspace_capabilities
  workspace_row_classification :: draft_workspace_row_classification

definition COLOR_GROUP_ORDER :: "draft_pool_group_kind list" where
  "COLOR_GROUP_ORDER =
     [WhiteGroup, BlueGroup, BlackGroup, RedGroup, GreenGroup, MulticolorGroup, ColorlessGroup]"

definition TYPE_GROUP_ORDER :: "draft_pool_group_kind list" where
  "TYPE_GROUP_ORDER =
     [CreatureGroup, InstantGroup, SorceryGroup, EnchantmentGroup, ArtifactGroup, PlaneswalkerGroup,
      LandGroup, OtherGroup]"

definition RARITY_GROUP_ORDER :: "draft_pool_group_kind list" where
  "RARITY_GROUP_ORDER = [MythicGroup, RareGroup, UncommonGroup, CommonGroup, RarityOtherGroup]"

definition RARITY_CAPABILITY_ORDER :: "draft_rarity_group_kind list" where
  "RARITY_CAPABILITY_ORDER = [MythicKind, RareKind, UncommonKind, CommonKind, RarityOtherKind]"

definition CMC_GROUP_ORDER :: "draft_pool_group_kind list" where
  "CMC_GROUP_ORDER =
     [ManaValue0, ManaValue1, ManaValue2, ManaValue3, ManaValue4, ManaValue5, ManaValue6Plus]"

subsection \<open>Classification\<close>

text \<open>\<^verbatim>\<open>str::to_ascii_lowercase\<close> and \<^verbatim>\<open>str::contains\<close>.\<close>

definition to_ascii_lowercase :: "string \<Rightarrow> string" where
  "to_ascii_lowercase s = map ascii_lower s"

fun contains_text :: "string \<Rightarrow> string \<Rightarrow> bool" where
  "contains_text [] needle = (needle = [])"
| "contains_text (c # cs) needle =
     (take (length needle) (c # cs) = needle \<or> contains_text cs needle)"

definition color_group :: "draft_card \<Rightarrow> draft_pool_group_kind" where
  "color_group c =
     (case card_colors c of
        [] \<Rightarrow> ColorlessGroup
      | _ # _ # _ \<Rightarrow> MulticolorGroup
      | [color] \<Rightarrow>
          (if color = ''W'' then WhiteGroup
           else if color = ''U'' then BlueGroup
           else if color = ''B'' then BlackGroup
           else if color = ''R'' then RedGroup
           else if color = ''G'' then GreenGroup
           else ColorlessGroup))"

definition color_memberships :: "draft_card \<Rightarrow> draft_pool_group_kind list" where
  "color_memberships c =
     (if card_colors c = [] then [ColorlessGroup]
      else (let single = map fst (filter (\<lambda>(kind, symbol). list_ex (\<lambda>color. color = symbol) (card_colors c))
                  [(WhiteGroup, ''W''), (BlueGroup, ''U''), (BlackGroup, ''B''), (RedGroup, ''R''), (GreenGroup, ''G'')]);
                memberships = (if 2 \<le> length (card_colors c) then single @ [MulticolorGroup] else single)
            in if memberships = [] then [ColorlessGroup] else memberships))"

definition type_memberships :: "draft_card \<Rightarrow> draft_pool_group_kind list" where
  "type_memberships c =
     (let line = to_ascii_lowercase (type_line c);
          memberships = map fst (filter (\<lambda>(kind, needle). contains_text line needle)
            [(CreatureGroup, ''creature''), (InstantGroup, ''instant''), (SorceryGroup, ''sorcery''),
             (EnchantmentGroup, ''enchantment''), (ArtifactGroup, ''artifact''),
             (PlaneswalkerGroup, ''planeswalker''), (LandGroup, ''land'')])
      in if memberships = [] then [OtherGroup] else memberships)"

text \<open>The first membership; the list is never empty (\<open>type_memberships_nonempty\<close> below).\<close>

definition type_group :: "draft_card \<Rightarrow> draft_pool_group_kind" where
  "type_group c = hd (type_memberships c)"

definition rarity_group :: "draft_card \<Rightarrow> draft_pool_group_kind" where
  "rarity_group c =
     (let r = to_ascii_lowercase (rarity c)
      in if r = ''mythic'' then MythicGroup
         else if r = ''rare'' then RareGroup
         else if r = ''uncommon'' then UncommonGroup
         else if r = ''common'' then CommonGroup
         else RarityOtherGroup)"

definition mana_value_group :: "draft_card \<Rightarrow> draft_pool_group_kind" where
  "mana_value_group c =
     (if cmc c = 0 then ManaValue0
      else if cmc c = 1 then ManaValue1
      else if cmc c = 2 then ManaValue2
      else if cmc c = 3 then ManaValue3
      else if cmc c = 4 then ManaValue4
      else if cmc c = 5 then ManaValue5
      else ManaValue6Plus)"

subsection \<open>Groups\<close>

text \<open>The body of the loop that collapses neighbours of the same name.\<close>

definition push_entry :: "draft_pool_entry list \<Rightarrow> draft_card \<Rightarrow> draft_pool_entry list" where
  "push_entry entries c =
     (if entries \<noteq> [] \<and> card_name (entry_card (last entries)) = card_name c
      then butlast entries
        @ [(last entries)\<lparr>entry_count := entry_count (last entries) + 1,
             entry_instance_ids := entry_instance_ids (last entries) @ [instance_id c]\<rparr>]
      else entries @ [\<lparr>entry_card = c, entry_count = 1, entry_instance_ids = [instance_id c]\<rparr>])"

definition source_order_entries :: "draft_card list \<Rightarrow> draft_pool_entry list" where
  "source_order_entries cards = foldl push_entry [] cards"

definition sorted_entries :: "draft_card list \<Rightarrow> bool \<Rightarrow> draft_pool_entry list" where
  "sorted_entries cards sort_by_cmc =
     foldl push_entry []
       (if sort_by_cmc then sort_key (\<lambda>c. (cmc c, card_name c)) cards else sort_key card_name cards)"

definition groups_for ::
  "draft_card list \<Rightarrow> draft_pool_group_kind list \<Rightarrow> (draft_card \<Rightarrow> draft_pool_group_kind) \<Rightarrow> bool
    \<Rightarrow> draft_pool_group list" where
  "groups_for pool order classify sort_by_cmc =
     List.map_filter (\<lambda>kind.
       let cards = filter (\<lambda>c. classify c = kind) pool
       in if cards = [] then None
          else Some \<lparr>group_kind = kind, group_total = length cards, group_cards = sorted_entries cards sort_by_cmc\<rparr>) order"

definition source_order_groups_for ::
  "draft_card list \<Rightarrow> draft_pool_group_kind list \<Rightarrow> (draft_card \<Rightarrow> draft_pool_group_kind)
    \<Rightarrow> draft_pool_group list" where
  "source_order_groups_for pool order classify =
     List.map_filter (\<lambda>kind.
       let cards = filter (\<lambda>c. classify c = kind) pool
       in if cards = [] then None
          else Some \<lparr>group_kind = kind, group_total = length cards, group_cards = source_order_entries cards\<rparr>) order"

definition set_pack_in_rarity_order :: "draft_card list \<Rightarrow> draft_card list" where
  "set_pack_in_rarity_order pack =
     concat (map (\<lambda>kind. filter (\<lambda>c. rarity_group c = kind) pack) RARITY_GROUP_ORDER)"

definition face_up_draft_cards :: "draft_card list \<Rightarrow> draft_card list" where
  "face_up_draft_cards pool = filter (\<lambda>c. card_draft_effect c \<noteq> None) pool"

subsection \<open>Filter options and colour counts\<close>

text \<open>The loop that collects the kinds present in a pool, each once.\<close>

definition present_kinds :: "(draft_card \<Rightarrow> draft_pool_group_kind list) \<Rightarrow> draft_card list \<Rightarrow> draft_pool_group_kind list" where
  "present_kinds memberships pool =
     foldl (\<lambda>present kind. if kind \<in> set present then present else present @ [kind]) []
       (concat (map memberships pool))"

definition color_filter_options :: "draft_card list \<Rightarrow> draft_pool_group_kind list" where
  "color_filter_options pool =
     (let present = present_kinds color_memberships pool
      in filter (\<lambda>kind. kind \<in> set present) COLOR_GROUP_ORDER)"

definition type_filter_options :: "draft_card list \<Rightarrow> draft_pool_group_kind list" where
  "type_filter_options pool =
     (let present = present_kinds type_memberships pool
      in filter (\<lambda>kind. kind \<in> set present) TYPE_GROUP_ORDER)"

definition rarity_filter_options :: "draft_card list \<Rightarrow> draft_pool_group_kind list" where
  "rarity_filter_options pool =
     filter (\<lambda>kind. list_ex (\<lambda>c. rarity_group c = kind) pool) RARITY_GROUP_ORDER"

record pool_filter_options_view =
  option_types :: "draft_pool_group_kind list"
  option_colors :: "draft_pool_group_kind list"
  option_rarities :: "draft_pool_group_kind list"

definition pool_filter_options :: "draft_card list \<Rightarrow> pool_filter_options_view" where
  "pool_filter_options pool =
     \<lparr>option_types = type_filter_options pool, option_colors = color_filter_options pool,
      option_rarities = rarity_filter_options pool\<rparr>"

definition count_color :: "draft_pool_color_counts \<Rightarrow> string \<Rightarrow> draft_pool_color_counts" where
  "count_color counts color =
     (if color = ''W'' then counts\<lparr>white_count := white_count counts + 1\<rparr>
      else if color = ''U'' then counts\<lparr>blue_count := blue_count counts + 1\<rparr>
      else if color = ''B'' then counts\<lparr>black_count := black_count counts + 1\<rparr>
      else if color = ''R'' then counts\<lparr>red_count := red_count counts + 1\<rparr>
      else if color = ''G'' then counts\<lparr>green_count := green_count counts + 1\<rparr>
      else counts)"

definition color_counts :: "draft_card list \<Rightarrow> draft_pool_color_counts" where
  "color_counts pool =
     foldl count_color
       \<lparr>white_count = 0, blue_count = 0, black_count = 0, red_count = 0, green_count = 0\<rparr>
       (concat (map card_colors pool))"

definition is_creature_card :: "draft_card \<Rightarrow> bool" where
  "is_creature_card c \<longleftrightarrow> CreatureGroup \<in> set (type_memberships c)"

definition from_pool :: "draft_card list \<Rightarrow> draft_source \<Rightarrow> draft_pool_groups" where
  "from_pool pool source =
     (let (rarities, capability) =
        (case source of
           SetSource _ \<Rightarrow> (source_order_groups_for pool RARITY_GROUP_ORDER rarity_group, Some RARITY_CAPABILITY_ORDER)
         | CubeSource _ _ \<Rightarrow> ([], None))
      in \<lparr>color_groups = groups_for pool COLOR_GROUP_ORDER color_group True,
          type_groups = groups_for pool TYPE_GROUP_ORDER type_group True,
          cmc_groups = groups_for pool CMC_GROUP_ORDER mana_value_group False,
          rarity_groups = rarities,
          pg_type_filter_options = type_filter_options pool,
          pg_color_filter_options = color_filter_options pool,
          pg_color_counts = color_counts pool,
          workspace_capabilities = \<lparr>rarity_group_order = capability\<rparr>,
          workspace_row_classification =
            \<lparr>creature_instance_ids = map instance_id (filter is_creature_card pool),
             noncreature_instance_ids = map instance_id (filter (\<lambda>c. \<not> is_creature_card c) pool)\<rparr>\<rparr>)"

subsection \<open>The pool filter\<close>

record text_ops =
  to_lowercase :: "string \<Rightarrow> string"
  trim_text :: "string \<Rightarrow> string"

record pool_filter =
  filter_query :: string
  filter_types :: "draft_pool_group_kind list"
  filter_colors :: "draft_pool_group_kind list"
  filter_rarities :: "draft_pool_group_kind list"

definition filter_is_active :: "text_ops \<Rightarrow> pool_filter \<Rightarrow> bool" where
  "filter_is_active ops f \<longleftrightarrow>
     trim_text ops (filter_query f) \<noteq> [] \<or> filter_types f \<noteq> [] \<or> filter_colors f \<noteq> [] \<or> filter_rarities f \<noteq> []"

definition axis_matches :: "draft_pool_group_kind list \<Rightarrow> draft_pool_group_kind \<Rightarrow> bool" where
  "axis_matches selected kind \<longleftrightarrow> selected = [] \<or> kind \<in> set selected"

definition card_matches :: "text_ops \<Rightarrow> pool_filter \<Rightarrow> draft_card \<Rightarrow> bool" where
  "card_matches ops f c \<longleftrightarrow>
     (let query = to_lowercase ops (trim_text ops (filter_query f))
      in (query = [] \<or> contains_text (to_lowercase ops (card_name c)) query)
       \<and> (filter_types f = [] \<or> list_ex (\<lambda>kind. kind \<in> set (filter_types f)) (type_memberships c))
       \<and> (filter_colors f = [] \<or> list_ex (\<lambda>kind. kind \<in> set (filter_colors f)) (color_memberships c))
       \<and> axis_matches (filter_rarities f) (rarity_group c))"

definition filter_pool_listing :: "text_ops \<Rightarrow> draft_card list \<Rightarrow> pool_filter \<Rightarrow> string list" where
  "filter_pool_listing ops listing f =
     (if \<not> filter_is_active ops f then map instance_id listing
      else map instance_id (filter (card_matches ops f) listing))"

subsection \<open>Classification is total\<close>

lemma type_memberships_nonempty [simp]: "type_memberships c \<noteq> []"
  by (simp add: type_memberships_def Let_def)

lemma color_memberships_nonempty [simp]: "color_memberships c \<noteq> []"
  by (simp add: color_memberships_def Let_def)

lemma type_memberships_in_order: "set (type_memberships c) \<subseteq> set TYPE_GROUP_ORDER"
  by (auto simp: type_memberships_def TYPE_GROUP_ORDER_def Let_def)

lemma color_memberships_in_order: "set (color_memberships c) \<subseteq> set COLOR_GROUP_ORDER"
  by (auto simp: color_memberships_def COLOR_GROUP_ORDER_def Let_def)

lemma color_group_member: "color_group c \<in> set (color_memberships c)"
  by (auto simp: color_group_def color_memberships_def Let_def split: list.splits)

lemma type_group_member: "type_group c \<in> set (type_memberships c)"
  by (simp add: type_group_def)

lemma rarity_group_in_order: "rarity_group c \<in> set RARITY_GROUP_ORDER"
  by (simp add: rarity_group_def RARITY_GROUP_ORDER_def Let_def)

lemma mana_value_group_in_order: "mana_value_group c \<in> set CMC_GROUP_ORDER"
  by (simp add: mana_value_group_def CMC_GROUP_ORDER_def)

subsection \<open>Collapsed entries are runs of equal names\<close>

definition entry_of_run :: "draft_card list \<Rightarrow> draft_pool_entry" where
  "entry_of_run r = \<lparr>entry_card = hd r, entry_count = length r, entry_instance_ids = map instance_id r\<rparr>"

definition name_run :: "draft_card list \<Rightarrow> bool" where
  "name_run r \<longleftrightarrow> r \<noteq> [] \<and> (\<exists>n. \<forall>c\<in>set r. card_name c = n)"

lemma name_run_snoc: "name_run r \<Longrightarrow> card_name (hd r) = card_name c \<Longrightarrow> name_run (r @ [c])"
  by (cases r) (auto simp: name_run_def)

lemma name_runD: "name_run r \<Longrightarrow> c \<in> set r \<Longrightarrow> card_name c = card_name (hd r)"
  by (cases r) (auto simp: name_run_def)

lemma name_run_hd: "name_run r \<Longrightarrow> hd r \<in> set r"
  by (simp add: name_run_def)

definition runs_of :: "draft_card list list \<Rightarrow> draft_card list \<Rightarrow> bool" where
  "runs_of runs cards \<longleftrightarrow>
     concat runs = cards \<and> (\<forall>r\<in>set runs. name_run r) \<and> distinct_adj (map (\<lambda>r. card_name (hd r)) runs)"

lemma push_entry_runs:
  assumes "runs_of runs cards"
  shows "\<exists>runs'. runs_of runs' (cards @ [c]) \<and> push_entry (map entry_of_run runs) c = map entry_of_run runs'"
proof (cases "runs \<noteq> [] \<and> card_name (hd (last runs)) = card_name c")
  case True
  then obtain front r where runs: "runs = front @ [r]" by (metis append_butlast_last_id)
  from assms have r: "name_run r" by (simp add: runs runs_of_def)
  then have hd: "hd (r @ [c]) = hd r" by (simp add: name_run_def)
  have "map (\<lambda>r. card_name (hd r)) (front @ [r @ [c]]) = map (\<lambda>r. card_name (hd r)) runs"
    using hd by (simp add: runs)
  moreover have "name_run (r @ [c])" using r True by (simp add: runs name_run_snoc)
  ultimately have "runs_of (front @ [r @ [c]]) (cards @ [c])"
    using assms by (simp add: runs runs_of_def)
  moreover have "push_entry (map entry_of_run runs) c = map entry_of_run (front @ [r @ [c]])"
    using True hd by (simp add: runs push_entry_def entry_of_run_def)
  ultimately show ?thesis by blast
next
  case False
  have "runs_of (runs @ [[c]]) (cards @ [c])"
    using assms False by (auto simp: runs_of_def name_run_def distinct_adj_append_iff last_map)
  moreover have "push_entry (map entry_of_run runs) c = map entry_of_run (runs @ [[c]])"
    using False by (auto simp: push_entry_def entry_of_run_def last_map)
  ultimately show ?thesis by blast
qed

lemma collapse_runs: "\<exists>runs. runs_of runs cards \<and> foldl push_entry [] cards = map entry_of_run runs"
proof (induction cards rule: rev_induct)
  case Nil
  show ?case by (intro exI [of _ "[]"]) (simp add: runs_of_def)
next
  case (snoc c cards)
  then show ?case using push_entry_runs [of _ cards c] by auto
qed

text \<open>What a display may rely on: the entries of a group account for its cards, copy for copy.\<close>

definition entry_ids :: "draft_pool_entry list \<Rightarrow> string list" where
  "entry_ids entries = concat (map entry_instance_ids entries)"

definition entries_for :: "draft_card list \<Rightarrow> draft_pool_entry list \<Rightarrow> bool" where
  "entries_for cards entries \<longleftrightarrow>
     mset (entry_ids entries) = mset (map instance_id cards)
   \<and> (\<forall>e\<in>set entries. entry_count e = length (entry_instance_ids e) \<and> entry_card e \<in> set cards
        \<and> set (entry_instance_ids e) \<subseteq> instance_id ` {c \<in> set cards. card_name c = card_name (entry_card e)})"

lemma entry_of_run_simps [simp]:
  "entry_card (entry_of_run r) = hd r" "entry_count (entry_of_run r) = length r"
  "entry_instance_ids (entry_of_run r) = map instance_id r"
  by (simp_all add: entry_of_run_def)

lemma entry_ids_runs: "entry_ids (map entry_of_run runs) = map instance_id (concat runs)"
  by (induction runs) (simp_all add: entry_ids_def)

lemma collapse_entries_for: "entries_for cards (foldl push_entry [] cards)"
proof -
  from collapse_runs obtain runs where runs: "runs_of runs cards" "foldl push_entry [] cards = map entry_of_run runs"
    by blast
  have cards: "set r \<subseteq> set cards" and run: "name_run r" if "r \<in> set runs" for r
    using runs(1) that by (auto simp: runs_of_def)
  have "hd r \<in> set cards" if "r \<in> set runs" for r
    using cards [OF that] name_run_hd [OF run [OF that]] by blast
  moreover have "set r \<subseteq> {c \<in> set cards. card_name c = card_name (hd r)}" if "r \<in> set runs" for r
    using cards [OF that] name_runD [OF run [OF that]] by blast
  ultimately have "\<forall>e\<in>set (map entry_of_run runs). entry_count e = length (entry_instance_ids e) \<and> entry_card e \<in> set cards
      \<and> set (entry_instance_ids e) \<subseteq> instance_id ` {c \<in> set cards. card_name c = card_name (entry_card e)}"
    by (simp add: image_mono)
  moreover have "mset (entry_ids (map entry_of_run runs)) = mset (map instance_id cards)"
    using runs(1) by (simp add: entry_ids_runs runs_of_def)
  ultimately show ?thesis by (simp only: entries_for_def runs(2))
qed

lemma entries_for_mset: "mset cards = mset cards' \<Longrightarrow> entries_for cards es = entries_for cards' es"
  using mset_eq_setD [of cards cards'] by (simp add: entries_for_def)

lemma sorted_entries_for: "entries_for cards (sorted_entries cards b)"
  using collapse_entries_for [of "if b then sort_key (\<lambda>c. (cmc c, card_name c)) cards else sort_key card_name cards"]
  by (simp add: sorted_entries_def entries_for_mset [of "sort_key _ cards" cards] split: if_splits)

lemma source_order_entries_for: "entries_for cards (source_order_entries cards)"
  by (simp add: source_order_entries_def collapse_entries_for)

subsection \<open>Exclusive axes\<close>

definition group_ids :: "draft_pool_group \<Rightarrow> string list" where
  "group_ids g = entry_ids (group_cards g)"

text \<open>
  The groups of an axis partition a pool: one group per class that occurs, in the order of the axis,
  each with exactly the cards of its class.
\<close>

definition groups_partition ::
  "draft_pool_group_kind list \<Rightarrow> (draft_card \<Rightarrow> draft_pool_group_kind) \<Rightarrow> draft_card list \<Rightarrow> draft_pool_group list \<Rightarrow> bool" where
  "groups_partition order classify pool gs \<longleftrightarrow>
     map group_kind gs = filter (\<lambda>k. k \<in> classify ` set pool) order
   \<and> (\<forall>g\<in>set gs. entries_for (filter (\<lambda>c. classify c = group_kind g) pool) (group_cards g)
        \<and> group_total g = length (filter (\<lambda>c. classify c = group_kind g) pool))
   \<and> mset (concat (map group_ids gs)) = mset (map instance_id pool)
   \<and> sum_list (map group_total gs) = length pool"

definition grouped ::
  "(draft_card list \<Rightarrow> draft_pool_entry list) \<Rightarrow> draft_card list \<Rightarrow> (draft_card \<Rightarrow> draft_pool_group_kind)
    \<Rightarrow> draft_pool_group_kind \<Rightarrow> draft_pool_group" where
  "grouped render pool classify k =
     (let cards = filter (\<lambda>c. classify c = k) pool
      in \<lparr>group_kind = k, group_total = length cards, group_cards = render cards\<rparr>)"

lemma map_filter_grouped:
  "List.map_filter (\<lambda>kind.
      let cards = filter (\<lambda>c. classify c = kind) pool
      in if cards = [] then None
         else Some \<lparr>group_kind = kind, group_total = length cards, group_cards = render cards\<rparr>) order
   = map (grouped render pool classify) (filter (\<lambda>k. k \<in> classify ` set pool) order)"
  by (induction order) (auto simp: List.map_filter_def grouped_def Let_def filter_empty_conv)

lemma mset_concat_classes:
  "distinct ks \<Longrightarrow> mset (concat (map (\<lambda>k. filter (\<lambda>c. f c = k) xs) ks)) = filter_mset (\<lambda>c. f c \<in> set ks) (mset xs)"
proof (induction ks)
  case Nil
  then show ?case by simp
next
  case (Cons k ks)
  have "filter_mset (\<lambda>c. f c = k) M + filter_mset (\<lambda>c. f c \<in> set ks) M = filter_mset (\<lambda>c. f c \<in> set (k # ks)) M" for M
    using Cons.prems by (induction M) auto
  with Cons show ?case by simp
qed

locale pool_axis =
  fixes order :: "draft_pool_group_kind list"
    and classify :: "draft_card \<Rightarrow> draft_pool_group_kind"
  assumes order_distinct: "distinct order"
    and classify_in_order: "classify c \<in> set order"
begin

lemma classes_cover: "mset (concat (map (\<lambda>k. filter (\<lambda>c. classify c = k) pool) order)) = mset pool"
  by (simp add: mset_concat_classes [OF order_distinct] classify_in_order filter_mset_True)

lemma used_classes_cover:
  "mset (concat (map (\<lambda>k. filter (\<lambda>c. classify c = k) pool) (filter (\<lambda>k. k \<in> classify ` set pool) order))) = mset pool"
proof -
  have "filter_mset (\<lambda>c. classify c \<in> set (filter (\<lambda>k. k \<in> classify ` set pool) order)) (mset pool) = mset pool"
    by (rule filter_mset_eq_conv [THEN iffD2]) (auto simp: classify_in_order)
  then show ?thesis by (simp add: mset_concat_classes order_distinct)
qed

lemma grouped_partition:
  assumes render: "\<And>cards. entries_for cards (render cards)"
  shows "groups_partition order classify pool (map (grouped render pool classify) (filter (\<lambda>k. k \<in> classify ` set pool) order))"
proof -
  let ?ks = "filter (\<lambda>k. k \<in> classify ` set pool) order"
  let ?part = "\<lambda>k. filter (\<lambda>c. classify c = k) pool"
  have ids: "mset (group_ids (grouped render pool classify k)) = mset (map instance_id (?part k))" for k
    using render [of "?part k"] by (simp add: group_ids_def grouped_def Let_def entries_for_def)
  have "mset (concat (map group_ids (map (grouped render pool classify) ks))) = image_mset instance_id (mset (concat (map ?part ks)))" for ks
    by (induction ks) (simp_all add: ids)
  moreover have "sum_list (map group_total (map (grouped render pool classify) ks)) = length (concat (map ?part ks))" for ks
    by (induction ks) (simp_all add: grouped_def Let_def)
  moreover have "length (concat (map ?part ?ks)) = length pool"
    using used_classes_cover [of pool] by (metis mset_eq_length)
  ultimately show ?thesis
    using render by (auto simp: groups_partition_def used_classes_cover grouped_def Let_def comp_def simp del: mset_concat size_mset)
qed

lemma groups_for_partition: "groups_partition order classify pool (groups_for pool order classify b)"
  using grouped_partition [of "\<lambda>cards. sorted_entries cards b" pool]
  by (simp add: groups_for_def map_filter_grouped sorted_entries_for)

lemma source_order_groups_partition: "groups_partition order classify pool (source_order_groups_for pool order classify)"
  using grouped_partition [of source_order_entries pool]
  by (simp add: source_order_groups_for_def map_filter_grouped source_order_entries_for)

end

subsection \<open>Filtering axes\<close>

locale filter_axis =
  fixes order :: "draft_pool_group_kind list"
    and memberships :: "draft_card \<Rightarrow> draft_pool_group_kind list"
  assumes memberships_in_order: "set (memberships c) \<subseteq> set order"
begin

lemma offered_iff:
  "k \<in> set (filter (\<lambda>k. k \<in> (\<Union>c\<in>set pool. set (memberships c))) order) \<longleftrightarrow> (\<exists>c\<in>set pool. k \<in> set (memberships c))"
  using memberships_in_order by auto

end

text \<open>An axis that is shown as exclusive groups and filtered by membership.\<close>

locale shown_axis = pool_axis order classify + filter_axis order memberships
  for order classify memberships +
  assumes classify_member: "classify c \<in> set (memberships c)"
begin

lemma shown_is_offered:
  assumes "groups_partition order classify pool gs" and "g \<in> set gs"
  shows "\<exists>c\<in>set pool. group_kind g \<in> set (memberships c)"
proof -
  from assms have "group_kind g \<in> set (filter (\<lambda>k. k \<in> classify ` set pool) order)"
    by (metis groups_partition_def image_eqI set_map)
  then show ?thesis using classify_member by fastforce
qed

lemma shown_ids_members:
  assumes "groups_partition order classify pool gs" and "g \<in> set gs"
  shows "set (group_ids g) \<subseteq> instance_id ` {c \<in> set pool. group_kind g \<in> set (memberships c)}"
proof -
  from assms have "mset (group_ids g) = mset (map instance_id (filter (\<lambda>c. classify c = group_kind g) pool))"
    by (simp add: groups_partition_def entries_for_def group_ids_def)
  then have "set (group_ids g) = instance_id ` {c \<in> set pool. classify c = group_kind g}"
    using mset_eq_setD by fastforce
  also have "\<dots> \<subseteq> instance_id ` {c \<in> set pool. group_kind g \<in> set (memberships c)}"
    using classify_member by (metis (mono_tags, lifting) Collect_mono image_mono)
  finally show ?thesis .
qed

end

interpretation colors: shown_axis COLOR_GROUP_ORDER color_group color_memberships
  using color_memberships_in_order color_group_member
  by unfold_locales (auto simp: COLOR_GROUP_ORDER_def)

interpretation types: shown_axis TYPE_GROUP_ORDER type_group type_memberships
  using type_memberships_in_order type_group_member
  by unfold_locales (auto simp: TYPE_GROUP_ORDER_def)

interpretation rarities: shown_axis RARITY_GROUP_ORDER rarity_group "\<lambda>c. [rarity_group c]"
  using rarity_group_in_order by unfold_locales (auto simp: RARITY_GROUP_ORDER_def)

interpretation mana_values: pool_axis CMC_GROUP_ORDER mana_value_group
  using mana_value_group_in_order by unfold_locales (auto simp: CMC_GROUP_ORDER_def)

lemma foldl_collect: "set (foldl (\<lambda>present kind. if kind \<in> set present then present else present @ [kind]) ks xs) = set ks \<union> set xs"
  by (induction xs arbitrary: ks) auto

lemma present_kinds_set: "set (present_kinds memberships pool) = (\<Union>c\<in>set pool. set (memberships c))"
  by (simp add: present_kinds_def foldl_collect)

lemma type_options_iff: "k \<in> set (type_filter_options pool) \<longleftrightarrow> (\<exists>c\<in>set pool. k \<in> set (type_memberships c))"
  using types.offered_iff [of k pool] by (simp add: type_filter_options_def present_kinds_set)

lemma color_options_iff: "k \<in> set (color_filter_options pool) \<longleftrightarrow> (\<exists>c\<in>set pool. k \<in> set (color_memberships c))"
  using colors.offered_iff [of k pool] by (simp add: color_filter_options_def present_kinds_set)

lemma rarity_options_iff: "k \<in> set (rarity_filter_options pool) \<longleftrightarrow> (\<exists>c\<in>set pool. k = rarity_group c)"
  using rarity_group_in_order by (auto simp: rarity_filter_options_def list_ex_iff)

lemma set_pack_in_rarity_order_mset: "mset (set_pack_in_rarity_order pack) = mset pack"
  by (simp add: set_pack_in_rarity_order_def rarities.classes_cover del: mset_concat)

lemma from_pool_partition:
  "groups_partition COLOR_GROUP_ORDER color_group pool (color_groups (from_pool pool source))
   \<and> groups_partition TYPE_GROUP_ORDER type_group pool (type_groups (from_pool pool source))
   \<and> groups_partition CMC_GROUP_ORDER mana_value_group pool (cmc_groups (from_pool pool source))
   \<and> (case source of
        SetSource _ \<Rightarrow> groups_partition RARITY_GROUP_ORDER rarity_group pool (rarity_groups (from_pool pool source))
      | CubeSource _ _ \<Rightarrow> rarity_groups (from_pool pool source) = [])"
  using colors.groups_for_partition types.groups_for_partition mana_values.groups_for_partition
    rarities.source_order_groups_partition
  by (simp add: from_pool_def split: draft_source.split)

lemma from_pool_rows:
  "mset (creature_instance_ids (workspace_row_classification (from_pool pool source))
      @ noncreature_instance_ids (workspace_row_classification (from_pool pool source))) = mset (map instance_id pool)"
proof -
  have "image_mset instance_id (filter_mset is_creature_card (mset pool))
      + image_mset instance_id (filter_mset (\<lambda>c. \<not> is_creature_card c) (mset pool)) = image_mset instance_id (mset pool)"
    by (metis image_mset_union multiset_partition)
  then show ?thesis by (simp add: from_pool_def split: draft_source.split)
qed

text \<open>Filters that select one kind on one axis, with no query.\<close>

definition only_type :: "draft_pool_group_kind \<Rightarrow> pool_filter" where
  "only_type k = \<lparr>filter_query = [], filter_types = [k], filter_colors = [], filter_rarities = []\<rparr>"

definition only_color :: "draft_pool_group_kind \<Rightarrow> pool_filter" where
  "only_color k = \<lparr>filter_query = [], filter_types = [], filter_colors = [k], filter_rarities = []\<rparr>"

definition only_rarity :: "draft_pool_group_kind \<Rightarrow> pool_filter" where
  "only_rarity k = \<lparr>filter_query = [], filter_types = [], filter_colors = [], filter_rarities = [k]\<rparr>"

text \<open>What the code relies on of the standard library: an empty text stays empty.\<close>

definition keeps_empty_text :: "text_ops \<Rightarrow> bool" where
  "keeps_empty_text ops \<longleftrightarrow> trim_text ops [] = [] \<and> to_lowercase ops [] = []"

lemmas one_axis_defs = filter_pool_listing_def filter_is_active_def card_matches_def axis_matches_def
  keeps_empty_text_def only_type_def only_color_def only_rarity_def

lemma only_type_listing: "keeps_empty_text ops \<Longrightarrow>
    filter_pool_listing ops pool (only_type k) = map instance_id (filter (\<lambda>c. k \<in> set (type_memberships c)) pool)"
  by (simp add: one_axis_defs list_ex_iff cong: filter_cong)

lemma only_color_listing: "keeps_empty_text ops \<Longrightarrow>
    filter_pool_listing ops pool (only_color k) = map instance_id (filter (\<lambda>c. k \<in> set (color_memberships c)) pool)"
  by (simp add: one_axis_defs list_ex_iff cong: filter_cong)

lemma only_rarity_listing: "keeps_empty_text ops \<Longrightarrow>
    filter_pool_listing ops pool (only_rarity k) = map instance_id (filter (\<lambda>c. rarity_group c = k) pool)"
  by (simp add: one_axis_defs cong: filter_cong)

text \<open>A pool of three cards: two copies of a name at different rarities and one multicoloured card.\<close>

definition sample_pool :: "draft_card list" where
  "sample_pool =
     [(sample_card ''Bear'' None)\<lparr>instance_id := ''i1''\<rparr>,
      (sample_card ''Bear'' None)\<lparr>instance_id := ''i2'', rarity := ''Rare''\<rparr>,
      (sample_card ''Sphinx'' None)\<lparr>instance_id := ''i3'', card_colors := [''W'', ''U''], type_line := ''Artifact Creature'', cmc := 5\<rparr>]"

definition ascii_ops :: text_ops where
  "ascii_ops = \<lparr>to_lowercase = map ascii_lower, trim_text = \<lambda>s. rev (dropWhile (\<lambda>c. c = CHR '' '') (rev (dropWhile (\<lambda>c. c = CHR '' '') s)))\<rparr>"

subsection \<open>Properties\<close>

text \<open>
  The groups a pool is displayed in are a partition of the pool on every axis: colour, type, mana value
  and, for set sources, rarity. One group per class that occurs, in the engine's order, whose entries list the
  instance ids of exactly the cards of that class, copy for copy, and whose totals add up to the pool. A cube
  has no rarity groups. The two rows of the workspace split the pool as well.
\<close>

theorem pool_groups_partition:
  "groups_partition COLOR_GROUP_ORDER color_group pool (color_groups (from_pool pool source))
   \<and> groups_partition TYPE_GROUP_ORDER type_group pool (type_groups (from_pool pool source))
   \<and> groups_partition CMC_GROUP_ORDER mana_value_group pool (cmc_groups (from_pool pool source))
   \<and> (case source of
        SetSource _ \<Rightarrow> groups_partition RARITY_GROUP_ORDER rarity_group pool (rarity_groups (from_pool pool source))
      | CubeSource _ _ \<Rightarrow> rarity_groups (from_pool pool source) = [])
   \<and> mset (creature_instance_ids (workspace_row_classification (from_pool pool source))
        @ noncreature_instance_ids (workspace_row_classification (from_pool pool source))) = mset (map instance_id pool)"
  using from_pool_partition from_pool_rows by blast

text \<open>
  The filter controls offer exactly what the filter can find: a type, colour or rarity is among the options
  of a pool if and only if filtering the pool by it keeps some card. And what a heading shows its filter finds:
  the cards of every displayed colour, type or rarity group are kept by the filter for that group's kind.
  (Lowercasing and trimming are arbitrary functions that keep the empty text empty.)
\<close>

theorem filter_options_exact:
  assumes "keeps_empty_text ops"
  shows "(k \<in> set (option_types (pool_filter_options pool)) \<longleftrightarrow> filter_pool_listing ops pool (only_type k) \<noteq> [])
    \<and> (k \<in> set (option_colors (pool_filter_options pool)) \<longleftrightarrow> filter_pool_listing ops pool (only_color k) \<noteq> [])
    \<and> (k \<in> set (option_rarities (pool_filter_options pool)) \<longleftrightarrow> filter_pool_listing ops pool (only_rarity k) \<noteq> [])
    \<and> (\<forall>g\<in>set (type_groups (from_pool pool source)).
         set (group_ids g) \<subseteq> set (filter_pool_listing ops pool (only_type (group_kind g))))
    \<and> (\<forall>g\<in>set (color_groups (from_pool pool source)).
         set (group_ids g) \<subseteq> set (filter_pool_listing ops pool (only_color (group_kind g))))
    \<and> (\<forall>g\<in>set (rarity_groups (from_pool pool source)).
         set (group_ids g) \<subseteq> set (filter_pool_listing ops pool (only_rarity (group_kind g))))"
proof (intro conjI ballI)
  show "k \<in> set (option_types (pool_filter_options pool)) \<longleftrightarrow> filter_pool_listing ops pool (only_type k) \<noteq> []"
    by (auto simp: pool_filter_options_def type_options_iff only_type_listing [OF assms] filter_empty_conv)
  show "k \<in> set (option_colors (pool_filter_options pool)) \<longleftrightarrow> filter_pool_listing ops pool (only_color k) \<noteq> []"
    by (auto simp: pool_filter_options_def color_options_iff only_color_listing [OF assms] filter_empty_conv)
  show "k \<in> set (option_rarities (pool_filter_options pool)) \<longleftrightarrow> filter_pool_listing ops pool (only_rarity k) \<noteq> []"
    by (auto simp: pool_filter_options_def rarity_options_iff only_rarity_listing [OF assms] filter_empty_conv)
next
  fix g
  assume "g \<in> set (type_groups (from_pool pool source))"
  from types.shown_ids_members [OF conjunct1 [OF conjunct2 [OF from_pool_partition]] this]
  show "set (group_ids g) \<subseteq> set (filter_pool_listing ops pool (only_type (group_kind g)))"
    by (simp add: only_type_listing [OF assms])
next
  fix g
  assume "g \<in> set (color_groups (from_pool pool source))"
  from colors.shown_ids_members [OF conjunct1 [OF from_pool_partition] this]
  show "set (group_ids g) \<subseteq> set (filter_pool_listing ops pool (only_color (group_kind g)))"
    by (simp add: only_color_listing [OF assms])
next
  fix g
  assume g: "g \<in> set (rarity_groups (from_pool pool source))"
  then have "groups_partition RARITY_GROUP_ORDER rarity_group pool (rarity_groups (from_pool pool source))"
    using from_pool_partition [of pool source] by (auto split: draft_source.splits)
  from rarities.shown_ids_members [OF this g]
  show "set (group_ids g) \<subseteq> set (filter_pool_listing ops pool (only_rarity (group_kind g)))"
    by (auto simp: only_rarity_listing [OF assms])
qed

end
