(* ===== verification/Draft_View.thy ===== *)
theory Draft_View
  imports Draft_Session Draft_Pool_View
begin

text \<open>
  The projections of a session that leave the host (\<^verbatim>\<open>src/crates/draft-core/src/view.rs\<close>): what one seat
  sees (\<open>filter_for_player\<close>) and what a spectator sees (\<open>filter_for_spectator\<close>), with the shared-stack
  view, the view of the pack source, the standings and the pairings. A builder that indexes a vector
  out of range panics; \<open>None\<close> stands for that.

  The lemmas are about information: two sessions that agree on what a viewer is entitled to know give
  the same view, so a view reveals no other seat's cards, no unopened booster, no face-down pile and no
  seed. They also show that the views of well-formed sessions are total and that the published legality is
  the one the reducer enforces.
\<close>

subsection \<open>View records\<close>

datatype pick_status = PickPending | PickPicked | PickWaiting | PickTimedOut | PickNotDrafting

record standing_entry =
  se_seat_index :: u8
  se_display_name :: string
  se_match_wins :: u8
  se_match_losses :: u8
  se_game_wins :: u8
  se_game_losses :: u8

record pairing_view =
  pw_round :: u8
  pw_table :: u8
  pw_seat_a :: u8
  pw_name_a :: string
  pw_seat_b :: u8
  pw_name_b :: string
  pw_match_id :: string
  pw_status :: pairing_status
  pw_winner_seat :: "u8 option"
  pw_score_a :: "u8 option"
  pw_score_b :: "u8 option"

record seat_public_view =
  sv_seat_index :: u8
  sv_display_name :: string
  sv_is_bot :: bool
  sv_connected :: bool
  sv_has_submitted_deck :: bool
  sv_pick_status :: pick_status
  sv_active_pack_count :: u8
  sv_drafted_card_count :: usize
  sv_face_up_draft_cards :: "draft_card list"

datatype set_layout_view =
    UniformByRoundView "string list"
  | ChaosView (cv_candidate_codes: "string list") (cv_current_pack_code: "string option")
      (cv_completed_own_pack_codes: "string list option") (cv_actual_set_codes: "string list option")

datatype draft_source_view = SetView set_layout_view | CubeView string string

record shared_stack_decision_view =
  dv_decision :: shared_stack_pile_decision
  dv_refusal :: "shared_stack_refusal option"

record shared_stack_pile_view =
  pile_index :: u8
  pile_total :: usize
  pile_revealed :: "draft_card list"
  pile_legality :: "shared_stack_decision_view list"

record shared_stack_view =
  ssv_main_stack_remaining :: usize
  ssv_total_cards :: usize
  ssv_active_seat :: u8
  ssv_active_pile :: u8
  ssv_piles :: "shared_stack_pile_view list"
  ssv_decisions :: u32
  ssv_history :: "shared_stack_decision_record list"
  ssv_forced_draw :: "draft_card option"

record draft_player_view =
  pv_status :: draft_status
  pv_kind :: draft_kind
  pv_source :: draft_source_view
  pv_launch_capability :: draft_launch_capability
  pv_distribution :: pack_distribution
  pv_commanders_required :: u8
  pv_current_pack_number :: u8
  pv_pick_number :: u8
  pv_pass_direction :: pass_direction
  pv_current_pack :: "draft_card list option"
  pv_required_pick_count :: usize
  pv_pick_selection_mode :: pick_selection_mode
  pv_pool :: "draft_card list"
  pv_draft_effects :: "draft_card list"
  pv_pool_groups :: draft_pool_groups
  pv_sealed_packs :: "draft_card list list option"
  pv_seats :: "seat_public_view list"
  pv_cards_per_pack :: u8
  pv_pack_sizes :: "u8 list"
  pv_pack_set_codes :: "string list"
  pv_pack_pick_steps :: "u8 list"
  pv_pick_steps_per_pack :: u8
  pv_pack_count :: u8
  pv_min_deck_size :: usize
  pv_addable_cards :: "string list"
  pv_grantable_commander_fillers :: "grantable_commander_filler list"
  pv_draft_set_codes :: "string list"
  pv_timer_remaining_ms :: "u32 option"
  pv_standings :: "standing_entry list"
  pv_current_round :: u8
  pv_next_pairing_round :: u8
  pv_tournament_format :: tournament_format
  pv_pod_policy :: pod_policy
  pv_pairings :: "pairing_view list"
  pv_match_config :: match_config
  pv_shared_stack :: "shared_stack_view option"
  pv_play_first_chooser :: "u8 option"

record spectator_draft_view =
  spv_status :: draft_status
  spv_kind :: draft_kind
  spv_source :: draft_source_view
  spv_current_pack_number :: u8
  spv_pick_number :: u8
  spv_pass_direction :: pass_direction
  spv_seats :: "seat_public_view list"
  spv_cards_per_pack :: u8
  spv_pack_sizes :: "u8 list"
  spv_pack_set_codes :: "string list"
  spv_pack_pick_steps :: "u8 list"
  spv_pick_steps_per_pack :: u8
  spv_pack_count :: u8
  spv_min_deck_size :: usize
  spv_addable_cards :: "string list"
  spv_grantable_commander_fillers :: "grantable_commander_filler list"
  spv_standings :: "standing_entry list"
  spv_current_round :: u8
  spv_tournament_format :: tournament_format
  spv_pod_policy :: pod_policy
  spv_pairings :: "pairing_view list"
  spv_match_config :: match_config
  spv_pools :: "draft_card list list option"
  spv_current_packs :: "draft_card list option list option"
  spv_shared_stack :: "shared_stack_view option"

subsection \<open>The pack source\<close>

definition chaos_assignments_are_complete :: "draft_status \<Rightarrow> bool" where
  "chaos_assignments_are_complete st \<longleftrightarrow>
     st \<in> {Deckbuilding, Pairing, MatchInProgress, RoundComplete, Complete}"

fun set_source_view_for_player ::
  "set_layout \<Rightarrow> draft_status \<Rightarrow> u8 \<Rightarrow> u8 \<Rightarrow> u8 option \<Rightarrow> set_layout_view" where
  "set_source_view_for_player (UniformByRound codes) st seat pack_number origin = UniformByRoundView codes"
| "set_source_view_for_player (Chaos candidates assignments) st seat pack_number origin =
     ChaosView candidates
       (if st = Drafting
        then (case origin of
                None \<Rightarrow> None
              | Some o' \<Rightarrow> (case vec_get assignments (unat o') of
                    None \<Rightarrow> None
                  | Some rounds \<Rightarrow> vec_get rounds (unat pack_number)))
        else None)
       (if chaos_assignments_are_complete st then vec_get assignments (unat seat) else None)
       (if chaos_assignments_are_complete st
        then Some (layout_actual_set_codes (Chaos candidates assignments)) else None)"

definition current_pack_origin :: "draft_session \<Rightarrow> u8 \<Rightarrow> u8 option" where
  "current_pack_origin s seat =
     (case vec_get (current_pack s) (unat seat) of
        Some (Some pack) \<Rightarrow>
          (if pack = [] then None
           else (case vec_get (current_pack_origins s) (unat seat) of Some o' \<Rightarrow> o' | None \<Rightarrow> None))
      | _ \<Rightarrow> None)"

definition source_view_for_player :: "draft_session \<Rightarrow> u8 \<Rightarrow> draft_source_view" where
  "source_view_for_player s seat =
     (case cfg_source (config s) of
        SetSource layout \<Rightarrow>
          SetView (set_source_view_for_player layout (status s) seat (current_pack_number s) (current_pack_origin s seat))
      | CubeSource ident name \<Rightarrow> CubeView ident name)"

definition source_view_for_spectator :: "draft_session \<Rightarrow> draft_source_view" where
  "source_view_for_spectator s =
     (case cfg_source (config s) of
        SetSource layout \<Rightarrow>
          SetView (case layout of
              UniformByRound codes \<Rightarrow> UniformByRoundView codes
            | Chaos candidates _ \<Rightarrow> ChaosView candidates None None None)
      | CubeSource ident name \<Rightarrow> CubeView ident name)"

fun is_chaos :: "draft_source \<Rightarrow> bool" where
  "is_chaos (SetSource (Chaos _ _)) = True"
| "is_chaos (SetSource (UniformByRound _)) = False"
| "is_chaos (CubeSource _ _) = False"

definition visible_pack_set_codes :: "draft_session \<Rightarrow> string list" where
  "visible_pack_set_codes s = (if is_chaos (cfg_source (config s)) then [] else pack_set_code_sequence s)"

definition visible_chaos_concessions :: "draft_session \<Rightarrow> bool" where
  "visible_chaos_concessions s \<longleftrightarrow>
     \<not> is_chaos (cfg_source (config s)) \<or> chaos_assignments_are_complete (status s)"

subsection \<open>The shared stack\<close>

definition pile_view :: "shared_stack_state \<Rightarrow> bool \<Rightarrow> nat \<Rightarrow> draft_card list \<Rightarrow> shared_stack_pile_view" where
  "pile_view st is_active_viewer i pile =
     \<lparr>pile_index = as_u8 i, pile_total = length pile,
      pile_revealed =
        (if is_active_viewer
         then take (min (case vec_get (inspected st) i of Some n \<Rightarrow> n | None \<Rightarrow> 0) (length pile)) pile
         else []),
      pile_legality =
        map (\<lambda>decision. \<lparr>dv_decision = decision,
               dv_refusal = refusal_for st (active_seat st) (as_u8 i) decision\<rparr>) ALL_pile_decisions\<rparr>"

definition shared_stack_view_of :: "shared_stack_state \<Rightarrow> u8 option \<Rightarrow> shared_stack_view" where
  "shared_stack_view_of st viewer =
     (let the_piles = map (\<lambda>(i, pile). pile_view st (viewer = Some (active_seat st)) i pile)
            (enumerate 0 (piles st))
      in \<lparr>ssv_main_stack_remaining = length (main_stack st),
          ssv_total_cards = length (main_stack st) + sum_list (map pile_total the_piles),
          ssv_active_seat = active_seat st, ssv_active_pile = stack_cursor st, ssv_piles = the_piles,
          ssv_decisions = decisions st, ssv_history = stack_history st,
          ssv_forced_draw =
            (case viewer of
               None \<Rightarrow> None
             | Some seat \<Rightarrow> (case vec_get (forced_draws st) (unat seat) of Some d \<Rightarrow> d | None \<Rightarrow> None))\<rparr>)"

definition shared_stack_view_for :: "draft_session \<Rightarrow> bool \<Rightarrow> u8 option \<Rightarrow> shared_stack_view option" where
  "shared_stack_view_for s is_drafting viewer =
     (case shared_stack s of
        None \<Rightarrow> None
      | Some st \<Rightarrow> if is_drafting then Some (shared_stack_view_of st viewer) else None)"

definition play_first_chooser :: "draft_session \<Rightarrow> u8 option" where
  "play_first_chooser s =
     (case shared_stack s of
        None \<Rightarrow> None
      | Some st \<Rightarrow> if length (seats s) = 2 then Some ((starting_seat st + 1) mod 2) else None)"

subsection \<open>Seats\<close>

definition pick_status_for :: "draft_session \<Rightarrow> nat \<Rightarrow> bool \<Rightarrow> pick_status option" where
  "pick_status_for s i is_drafting =
     (if \<not> is_drafting then Some PickNotDrafting
      else (case proc_distribution (kind_procedure (draft_kind_of s)) of
          SharedStackPiles _ \<Rightarrow>
            Some (case shared_stack s of
                Some st \<Rightarrow> if active_seat st = as_u8 i then PickPending else PickWaiting
              | None \<Rightarrow> PickNotDrafting)
        | _ \<Rightarrow> map_option (\<lambda>slot. if slot \<noteq> None then PickPending else PickPicked) (vec_get (current_pack s) i)))"

text \<open>\<^verbatim>\<open>&&\<close> reads the pack of a seat only while the session is drafting.\<close>

definition active_pack_count_for :: "draft_session \<Rightarrow> nat \<Rightarrow> bool \<Rightarrow> u8 option" where
  "active_pack_count_for s i is_drafting =
     (if \<not> is_drafting then Some 0
      else map_option (\<lambda>slot.
          if (case slot of None \<Rightarrow> False | Some pack \<Rightarrow> pack \<noteq> []) \<and> \<not> sf_get (seats_picked_this_round s) (as_u8 i)
          then 1 else 0)
        (vec_get (current_pack s) i))"

fun seat_display_name :: "draft_seat \<Rightarrow> string" where
  "seat_display_name (Human _ name) = name"
| "seat_display_name (Bot name) = name"

definition seat_public_view_of :: "draft_session \<Rightarrow> bool \<Rightarrow> nat \<Rightarrow> draft_seat \<Rightarrow> seat_public_view option" where
  "seat_public_view_of s is_drafting i seat =
     (case (pick_status_for s i is_drafting, active_pack_count_for s i is_drafting, vec_get (pools s) i) of
        (Some pick, Some active, Some pool) \<Rightarrow>
          Some \<lparr>sv_seat_index = as_u8 i, sv_display_name = seat_display_name seat, sv_is_bot = is_bot seat,
                sv_connected = (if is_bot seat then True else sf_get_or (connected_seats s) (as_u8 i) True),
                sv_has_submitted_deck =
                  (case human_player seat of None \<Rightarrow> False | Some p \<Rightarrow> submitted_decks s p \<noteq> None),
                sv_pick_status = pick, sv_active_pack_count = active,
                sv_drafted_card_count = length pool, sv_face_up_draft_cards = face_up_draft_cards pool\<rparr>
      | _ \<Rightarrow> None)"

definition seat_views :: "draft_session \<Rightarrow> bool \<Rightarrow> seat_public_view list option" where
  "seat_views s is_drafting =
     those (map (\<lambda>(i, seat). seat_public_view_of s is_drafting i seat) (enumerate 0 (seats s)))"

subsection \<open>Standings and pairings\<close>

definition seat_pid :: "nat \<Rightarrow> draft_seat \<Rightarrow> player_id" where
  "seat_pid i seat = (case seat of Human p _ \<Rightarrow> p | Bot _ \<Rightarrow> as_u8 i)"

definition standing_for :: "draft_session \<Rightarrow> nat \<Rightarrow> draft_seat \<Rightarrow> standing_entry" where
  "standing_for s i seat =
     (let rec = match_records s (seat_pid i seat);
          field = (\<lambda>f. case rec of None \<Rightarrow> 0 | Some r \<Rightarrow> f r)
      in \<lparr>se_seat_index = as_u8 i, se_display_name = seat_display_name seat,
          se_match_wins = field mr_match_wins, se_match_losses = field mr_match_losses,
          se_game_wins = field mr_wins, se_game_losses = field mr_losses\<rparr>)"

text \<open>A stable sort by descending match wins.\<close>

definition compute_standings :: "draft_session \<Rightarrow> standing_entry list" where
  "compute_standings s =
     (if pairings s = [] then []
      else sort_key (\<lambda>e. - uint (se_match_wins e))
        (map (\<lambda>(i, seat). standing_for s i seat) (enumerate 0 (seats s))))"

text \<open>Collecting into a hash map keeps the last entry of a key.\<close>

definition player_seat_map :: "draft_session \<Rightarrow> player_id \<rightharpoonup> u8 \<times> string" where
  "player_seat_map s =
     map_of (rev (map (\<lambda>(i, seat). (seat_pid i seat, (as_u8 i, seat_display_name seat))) (enumerate 0 (seats s))))"

definition seat_or_unknown :: "(player_id \<rightharpoonup> u8 \<times> string) \<Rightarrow> player_id \<Rightarrow> u8 \<times> string" where
  "seat_or_unknown m p = (case m p of Some x \<Rightarrow> x | None \<Rightarrow> (0, ''Unknown''))"

definition pairing_view_of :: "draft_session \<Rightarrow> draft_pairing \<Rightarrow> pairing_view" where
  "pairing_view_of s p =
     (let (seat_a, name_a) = seat_or_unknown (player_seat_map s) (fst (pairing_players p));
          (seat_b, name_b) = seat_or_unknown (player_seat_map s) (snd (pairing_players p));
          winner_seat = (case result_winner p (match_records s) of
              None \<Rightarrow> None
            | Some winner \<Rightarrow>
                (if winner = fst (pairing_players p) then Some seat_a
                 else if winner = snd (pairing_players p) then Some seat_b
                 else None))
      in \<lparr>pw_round = pairing_round p, pw_table = pairing_table p, pw_seat_a = seat_a, pw_name_a = name_a,
          pw_seat_b = seat_b, pw_name_b = name_b, pw_match_id = match_id p, pw_status = pairing_state p,
          pw_winner_seat = winner_seat, pw_score_a = None, pw_score_b = None\<rparr>)"

definition compute_pairing_views :: "draft_session \<Rightarrow> pairing_view list" where
  "compute_pairing_views s =
     (if current_round s = 0 then []
      else map (pairing_view_of s) (filter (\<lambda>p. pairing_round p = current_round s) (pairings s)))"

subsection \<open>The two views\<close>

fun split_at_sizes :: "u8 list \<Rightarrow> draft_card list \<Rightarrow> draft_card list list" where
  "split_at_sizes [] rest = (if rest = [] then [] else [rest])"
| "split_at_sizes (n # sizes) rest =
     (if rest = [] then []
      else (let mid = min (unat n) (length rest) in take mid rest # split_at_sizes sizes (drop mid rest)))"

definition split_by_pack_size :: "draft_card list \<Rightarrow> draft_session \<Rightarrow> draft_card list list" where
  "split_by_pack_size pool s = split_at_sizes (pack_size_sequence s) pool"

definition steps_in_current_pack :: "draft_session \<Rightarrow> u8 option" where
  "steps_in_current_pack s =
     pick_steps_per_pack (kind_procedure (draft_kind_of s)) (cards_in_pack s (current_pack_number s))"

definition filter_for_spectator :: "draft_session \<Rightarrow> spectator_visibility \<Rightarrow> spectator_draft_view option" where
  "filter_for_spectator s visibility =
     (let is_drafting = (status s = Drafting);
          exposed = (visibility = Omniscient \<and> \<not> is_chaos (cfg_source (config s)))
      in case (seat_views s is_drafting, pack_pick_step_sequence s, steps_in_current_pack s) of
           (Some views, Some steps, Some step_count) \<Rightarrow>
             Some \<lparr>spv_status = status s, spv_kind = draft_kind_of s, spv_source = source_view_for_spectator s,
               spv_current_pack_number = current_pack_number s, spv_pick_number = pick_number s,
               spv_pass_direction = pass_direction s, spv_seats = views,
               spv_cards_per_pack = cards_in_pack s (current_pack_number s), spv_pack_sizes = pack_size_sequence s,
               spv_pack_set_codes = visible_pack_set_codes s, spv_pack_pick_steps = steps,
               spv_pick_steps_per_pack = step_count, spv_pack_count = cfg_pack_count (config s),
               spv_min_deck_size = cfg_min_deck_size (config s),
               spv_addable_cards = display_names (cfg_addable_cards (config s)),
               spv_grantable_commander_fillers =
                 (if is_chaos (cfg_source (config s)) then [] else con_fillers (session_concessions s)),
               spv_standings = compute_standings s, spv_current_round = current_round s,
               spv_tournament_format = cfg_tournament_format (config s), spv_pod_policy = cfg_pod_policy (config s),
               spv_pairings = compute_pairing_views s, spv_match_config = kind_match_config (draft_kind_of s),
               spv_pools = (if exposed then Some (pools s) else None),
               spv_current_packs = (if exposed then Some (current_pack s) else None),
               spv_shared_stack = shared_stack_view_for s is_drafting None\<rparr>
         | _ \<Rightarrow> None)"

definition viewer_pack :: "draft_session \<Rightarrow> u8 \<Rightarrow> draft_card list option" where
  "viewer_pack s seat =
     (case vec_get (current_pack s) (unat seat) of
        Some (Some pack) \<Rightarrow>
          Some (case cfg_source (config s) of
              SetSource _ \<Rightarrow> set_pack_in_rarity_order pack
            | CubeSource _ _ \<Rightarrow> pack)
      | _ \<Rightarrow> None)"

definition viewer_pool :: "draft_session \<Rightarrow> u8 \<Rightarrow> draft_card list" where
  "viewer_pool s seat = (case vec_get (pools s) (unat seat) of Some pool \<Rightarrow> pool | None \<Rightarrow> [])"

definition filter_for_player :: "draft_session \<Rightarrow> u8 \<Rightarrow> draft_player_view option" where
  "filter_for_player s seat =
     (let pool = viewer_pool s seat;
          is_drafting = (status s = Drafting);
          proc = kind_procedure (draft_kind_of s)
      in case (seat_views s is_drafting, pack_pick_step_sequence s, steps_in_current_pack s) of
           (Some views, Some steps, Some step_count) \<Rightarrow>
             Some \<lparr>pv_status = status s, pv_kind = draft_kind_of s, pv_source = source_view_for_player s seat,
               pv_launch_capability = launch_capability proc, pv_distribution = proc_distribution proc,
               pv_commanders_required = proc_commanders_required proc,
               pv_current_pack_number = current_pack_number s, pv_pick_number = pick_number s,
               pv_pass_direction = pass_direction s, pv_current_pack = viewer_pack s seat,
               pv_required_pick_count = required_pick_count s seat,
               pv_pick_selection_mode = proc_pick_selection_mode proc, pv_pool = pool,
               pv_draft_effects = face_up_draft_cards pool, pv_pool_groups = from_pool pool (cfg_source (config s)),
               pv_sealed_packs =
                 (case proc_distribution proc of AllAtOnce \<Rightarrow> Some (split_by_pack_size pool s) | _ \<Rightarrow> None),
               pv_seats = views, pv_cards_per_pack = cards_in_pack s (current_pack_number s),
               pv_pack_sizes = pack_size_sequence s, pv_pack_set_codes = visible_pack_set_codes s,
               pv_pack_pick_steps = steps, pv_pick_steps_per_pack = step_count,
               pv_pack_count = cfg_pack_count (config s), pv_min_deck_size = cfg_min_deck_size (config s),
               pv_addable_cards = display_names (cfg_addable_cards (config s)),
               pv_grantable_commander_fillers =
                 (if visible_chaos_concessions s then con_fillers (session_concessions s) else []),
               pv_draft_set_codes = (if visible_chaos_concessions s then concession_set_codes s else []),
               pv_timer_remaining_ms = None, pv_standings = compute_standings s,
               pv_current_round = current_round s, pv_next_pairing_round = next_pairing_round s,
               pv_tournament_format = cfg_tournament_format (config s), pv_pod_policy = cfg_pod_policy (config s),
               pv_pairings = compute_pairing_views s, pv_match_config = kind_match_config (draft_kind_of s),
               pv_shared_stack = shared_stack_view_for s is_drafting (Some seat),
               pv_play_first_chooser = play_first_chooser s\<rparr>
         | _ \<Rightarrow> None)"

subsection \<open>What a viewer is entitled to know\<close>

text \<open>
  Public knowledge of a session. Of a pool its size and its face-up cards, of a held booster whether it is
  there and whether it is empty, of the shared stack the heights, the turn and the record of decisions, of the
  deck submissions who has submitted, of a Chaos layout the candidate sets.
\<close>

definition pool_face :: "draft_card list \<Rightarrow> usize \<times> draft_card list" where
  "pool_face pool = (length pool, face_up_draft_cards pool)"

definition slot_face :: "draft_pack option \<Rightarrow> bool option" where
  "slot_face slot = map_option (\<lambda>pack. pack = []) slot"

definition stack_face ::
  "shared_stack_state \<Rightarrow> usize \<times> usize list \<times> u8 \<times> u8 \<times> u8 \<times> u32 \<times> shared_stack_decision_record list" where
  "stack_face st = (length (main_stack st), map length (piles st), starting_seat st, active_seat st, stack_cursor st,
     decisions st, stack_history st)"

fun source_face :: "draft_source \<Rightarrow> draft_source" where
  "source_face (SetSource (Chaos candidates assignments)) = SetSource (Chaos candidates [])"
| "source_face (SetSource (UniformByRound codes)) = SetSource (UniformByRound codes)"
| "source_face (CubeSource ident name) = CubeSource ident name"

definition config_face :: "draft_config \<Rightarrow> draft_source \<times> u8 \<times> u8 \<times> usize \<times> deck_addable_cards \<times> tournament_format \<times> pod_policy" where
  "config_face c = (source_face (cfg_source c), cfg_cards_per_pack c, cfg_pack_count c, cfg_min_deck_size c,
     cfg_addable_cards c, cfg_tournament_format c, cfg_pod_policy c)"

definition public_same :: "draft_session \<Rightarrow> draft_session \<Rightarrow> bool" where
  "public_same s t \<longleftrightarrow>
     draft_kind_of s = draft_kind_of t \<and> status s = status t \<and> seats s = seats t
   \<and> current_pack_number s = current_pack_number t \<and> pack_sizes s = pack_sizes t \<and> pick_number s = pick_number t
   \<and> pass_direction s = pass_direction t \<and> seats_picked_this_round s = seats_picked_this_round t
   \<and> connected_seats s = connected_seats t \<and> match_records s = match_records t \<and> pairings s = pairings t
   \<and> current_round s = current_round t \<and> dom (submitted_decks s) = dom (submitted_decks t)
   \<and> config_face (config s) = config_face (config t)
   \<and> map pool_face (pools s) = map pool_face (pools t)
   \<and> map slot_face (current_pack s) = map slot_face (current_pack t)
   \<and> map_option stack_face (shared_stack s) = map_option stack_face (shared_stack t)"

text \<open>
  Knowledge of one seat: its own pool and booster, the set of the booster it holds, once the draft is over its
  own sequence of sets and the sets that were opened at all, the card of its last forced draw and, on its
  turn, the cards it has looked at.
\<close>

fun assignments_of :: "draft_source \<Rightarrow> string list list" where
  "assignments_of (SetSource (Chaos candidates assignments)) = assignments"
| "assignments_of (SetSource (UniformByRound codes)) = []"
| "assignments_of (CubeSource ident name) = []"

definition held_booster_code :: "draft_session \<Rightarrow> u8 \<Rightarrow> string option" where
  "held_booster_code s seat =
     (case current_pack_origin s seat of
        None \<Rightarrow> None
      | Some o' \<Rightarrow> (case vec_get (assignments_of (cfg_source (config s))) (unat o') of
            None \<Rightarrow> None
          | Some rounds \<Rightarrow> vec_get rounds (unat (current_pack_number s))))"

definition looked_at :: "shared_stack_state \<Rightarrow> draft_card list list" where
  "looked_at st =
     map (\<lambda>(i, pile). take (case vec_get (inspected st) i of Some n \<Rightarrow> n | None \<Rightarrow> 0) pile) (enumerate 0 (piles st))"

definition own_notice :: "shared_stack_state \<Rightarrow> u8 \<Rightarrow> draft_card option" where
  "own_notice st seat = (case vec_get (forced_draws st) (unat seat) of Some d \<Rightarrow> d | None \<Rightarrow> None)"

definition stack_same_for :: "u8 \<Rightarrow> shared_stack_state \<Rightarrow> shared_stack_state \<Rightarrow> bool" where
  "stack_same_for seat a b \<longleftrightarrow>
     own_notice a seat = own_notice b seat \<and> (active_seat a = seat \<longrightarrow> looked_at a = looked_at b)"

definition player_same :: "u8 \<Rightarrow> draft_session \<Rightarrow> draft_session \<Rightarrow> bool" where
  "player_same seat s t \<longleftrightarrow>
     public_same s t
   \<and> vec_get (pools s) (unat seat) = vec_get (pools t) (unat seat)
   \<and> vec_get (current_pack s) (unat seat) = vec_get (current_pack t) (unat seat)
   \<and> (status s = Drafting \<longrightarrow>
        held_booster_code s seat = held_booster_code t seat
      \<and> rel_option (stack_same_for seat) (shared_stack s) (shared_stack t))
   \<and> (chaos_assignments_are_complete (status s) \<longrightarrow>
        vec_get (assignments_of (cfg_source (config s))) (unat seat) = vec_get (assignments_of (cfg_source (config t))) (unat seat)
      \<and> distinct_set_codes (concat (assignments_of (cfg_source (config s))))
          = distinct_set_codes (concat (assignments_of (cfg_source (config t)))))"

subsection \<open>Views depend on that knowledge only\<close>

lemma source_face_cases:
  assumes "source_face a = source_face b"
  obtains (same) "a = b" "\<not> is_chaos a" | (chaos) c x y where "a = SetSource (Chaos c x)" "b = SetSource (Chaos c y)"
  using assms by (cases a rule: source_face.cases; cases b rule: source_face.cases) auto

lemma source_face_chaos: "source_face a = source_face b \<Longrightarrow> is_chaos a = is_chaos b"
  by (erule source_face_cases) auto

lemma public_same_config:
  assumes "public_same s t"
  shows "source_face (cfg_source (config s)) = source_face (cfg_source (config t))"
    and "cfg_cards_per_pack (config s) = cfg_cards_per_pack (config t)"
    and "cfg_pack_count (config s) = cfg_pack_count (config t)"
    and "cfg_min_deck_size (config s) = cfg_min_deck_size (config t)"
    and "cfg_addable_cards (config s) = cfg_addable_cards (config t)"
    and "cfg_tournament_format (config s) = cfg_tournament_format (config t)"
    and "cfg_pod_policy (config s) = cfg_pod_policy (config t)"
  using assms by (simp_all add: public_same_def config_face_def)

lemma public_same_fields:
  assumes "public_same s t"
  shows "draft_kind_of s = draft_kind_of t" "status s = status t" "seats s = seats t"
    "current_pack_number s = current_pack_number t" "pack_sizes s = pack_sizes t" "pick_number s = pick_number t"
    "pass_direction s = pass_direction t" "seats_picked_this_round s = seats_picked_this_round t"
    "connected_seats s = connected_seats t" "match_records s = match_records t" "pairings s = pairings t"
    "current_round s = current_round t"
  using assms by (simp_all add: public_same_def)

lemmas public_same_rules = public_same_fields public_same_config(2-)

lemma sequences_same:
  assumes "public_same s t"
  shows "cards_in_pack s = cards_in_pack t" and "pack_size_sequence s = pack_size_sequence t"
    and "pack_pick_step_sequence s = pack_pick_step_sequence t" and "steps_in_current_pack s = steps_in_current_pack t"
    and "split_by_pack_size pool s = split_by_pack_size pool t"
proof -
  show cards: "cards_in_pack s = cards_in_pack t"
    by (rule ext) (simp add: cards_in_pack_def public_same_rules [OF assms] split: option.split)
  show sizes: "pack_size_sequence s = pack_size_sequence t"
    by (simp add: pack_size_sequence_def public_same_rules [OF assms] cards)
  show "pack_pick_step_sequence s = pack_pick_step_sequence t" "steps_in_current_pack s = steps_in_current_pack t"
    "split_by_pack_size pool s = split_by_pack_size pool t"
    by (simp_all add: pack_pick_step_sequence_def steps_in_current_pack_def split_by_pack_size_def
        public_same_rules [OF assms] cards sizes)
qed

lemma tables_same:
  assumes "public_same s t"
  shows "compute_standings s = compute_standings t" and "compute_pairing_views s = compute_pairing_views t"
    and "next_pairing_round s = next_pairing_round t"
proof -
  have "standing_for s = standing_for t" "player_seat_map s = player_seat_map t"
    by (intro ext, simp add: standing_for_def public_same_rules [OF assms])
      (simp add: player_seat_map_def public_same_rules [OF assms])
  moreover from this(2) have "pairing_view_of s = pairing_view_of t"
    by (intro ext) (simp add: pairing_view_of_def public_same_rules [OF assms])
  ultimately show "compute_standings s = compute_standings t" "compute_pairing_views s = compute_pairing_views t"
    "next_pairing_round s = next_pairing_round t"
    by (simp_all add: compute_standings_def compute_pairing_views_def next_pairing_round_def public_same_rules [OF assms])
qed

lemma map_vec_get:
  assumes "map f xs = map f ys"
  shows "map_option f (vec_get xs i) = map_option f (vec_get ys i)"
proof -
  from assms have "length xs = length ys" by (metis length_map)
  with assms show ?thesis
    by (simp add: vec_get_def) (metis nth_map)
qed

lemma seat_views_same:
  assumes "public_same s t"
  shows "seat_views s b = seat_views t b"
proof -
  have pools: "map_option pool_face (vec_get (pools s) i) = map_option pool_face (vec_get (pools t) i)" for i
    using assms by (intro map_vec_get) (simp add: public_same_def)
  have slots: "map_option slot_face (vec_get (current_pack s) i) = map_option slot_face (vec_get (current_pack t) i)" for i
    using assms by (intro map_vec_get) (simp add: public_same_def)
  have stack: "map_option active_seat (shared_stack s) = map_option active_seat (shared_stack t)"
  proof -
    from assms have "map_option stack_face (shared_stack s) = map_option stack_face (shared_stack t)"
      by (simp add: public_same_def)
    then show ?thesis
      by (cases "shared_stack s"; cases "shared_stack t") (simp_all add: stack_face_def)
  qed
  have "dom (submitted_decks s) = dom (submitted_decks t)" using assms by (simp add: public_same_def)
  then have decks: "submitted_decks s p = None \<longleftrightarrow> submitted_decks t p = None" for p
    by (metis domIff)
  have "pick_status_for s i b = pick_status_for t i b" for i
    using slots [of i] stack
    by (auto simp: pick_status_for_def public_same_rules [OF assms] slot_face_def map_option_case
        split: option.splits pack_distribution.splits)
  moreover have "active_pack_count_for s i b = active_pack_count_for t i b" for i
    using slots [of i]
    by (auto simp: active_pack_count_for_def public_same_rules [OF assms] slot_face_def map_option_case
        split: option.splits)
  ultimately have "seat_public_view_of s b i seat = seat_public_view_of t b i seat" for i seat
    using pools [of i]
    by (auto simp: seat_public_view_of_def public_same_rules [OF assms] pool_face_def decks map_option_case
        split: option.splits)
  then show ?thesis by (simp add: seat_views_def public_same_rules [OF assms])
qed

lemma refusal_for_face:
  assumes "stack_face a = stack_face b"
  shows "refusal_for a = refusal_for b"
proof -
  have lens: "map length (piles a) = map length (piles b)" using assms by (simp add: stack_face_def)
  have "list_ex (\<lambda>p. p \<noteq> []) (drop n (piles a)) = list_ex (\<lambda>k. k \<noteq> 0) (drop n (map length (piles a)))" for n a
    by (simp add: drop_map list_ex_iff)
  then have "list_ex (\<lambda>p. p \<noteq> []) (drop n (piles a)) = list_ex (\<lambda>p. p \<noteq> []) (drop n (piles b))" for n
    by (metis lens)
  moreover have n: "length (piles a) = length (piles b)" by (metis lens length_map)
  moreover have "piles a ! i = [] \<longleftrightarrow> piles b ! i = []" if "i < length (piles b)" for i
    using lens n that by (metis length_0_conv nth_map)
  ultimately have "refusal_for a seat pile d = refusal_for b seat pile d" for seat pile d
    using assms by (cases "unat pile < length (piles b)") (auto simp: refusal_for_def stack_face_def vec_get_def Let_def split: shared_stack_pile_decision.split)
  then show ?thesis by (intro ext)
qed

lemma enumerate_map_cong:
  assumes "length xs = length ys" and "\<And>i. i < length xs \<Longrightarrow> f (i, xs ! i) = g (i, ys ! i)"
  shows "map f (enumerate 0 xs) = map g (enumerate 0 ys)"
  using assms by (intro nth_equalityI) (simp_all add: nth_enumerate_eq)

lemma take_min_length: "take (min n (length xs)) xs = take n xs"
  by (simp add: min_def)

lemma stack_view_same:
  assumes face: "stack_face a = stack_face b"
    and own: "\<And>seat. viewer = Some seat \<Longrightarrow> stack_same_for seat a b"
  shows "shared_stack_view_of a viewer = shared_stack_view_of b viewer"
proof -
  have lens: "map length (piles a) = map length (piles b)" using face by (simp add: stack_face_def)
  then have n: "length (piles a) = length (piles b)" by (metis length_map)
  have len: "length (piles a ! i) = length (piles b ! i)" if "i < length (piles a)" for i
    using lens n that by (metis nth_map)
  have active: "active_seat a = active_seat b" using face by (simp add: stack_face_def)
  have seen: "pile_revealed (pile_view a (viewer = Some (active_seat a)) i (piles a ! i))
      = pile_revealed (pile_view b (viewer = Some (active_seat b)) i (piles b ! i))" if "i < length (piles a)" for i
  proof (cases "viewer = Some (active_seat a)")
    case True
    with own have "looked_at a ! i = looked_at b ! i" by (simp add: stack_same_for_def)
    with True that n active show ?thesis
      by (simp add: looked_at_def nth_enumerate_eq pile_view_def take_min_length)
  next
    case False
    with active show ?thesis by (simp add: pile_view_def)
  qed
  have "pile_view a (viewer = Some (active_seat a)) i (piles a ! i) = pile_view b (viewer = Some (active_seat b)) i (piles b ! i)"
    if "i < length (piles a)" for i
    using seen [OF that] len [OF that] active refusal_for_face [OF face] by (simp add: pile_view_def)
  with n have "map (\<lambda>(i, pile). pile_view a (viewer = Some (active_seat a)) i pile) (enumerate 0 (piles a))
      = map (\<lambda>(i, pile). pile_view b (viewer = Some (active_seat b)) i pile) (enumerate 0 (piles b))"
    by (intro enumerate_map_cong) simp_all
  moreover have "(case viewer of None \<Rightarrow> None | Some seat \<Rightarrow> (case vec_get (forced_draws a) (unat seat) of Some d \<Rightarrow> d | None \<Rightarrow> None))
      = (case viewer of None \<Rightarrow> None | Some seat \<Rightarrow> (case vec_get (forced_draws b) (unat seat) of Some d \<Rightarrow> d | None \<Rightarrow> None))"
    using own by (simp add: stack_same_for_def own_notice_def split: option.split)
  ultimately show ?thesis
    using face by (simp add: shared_stack_view_of_def stack_face_def)
qed

lemma stack_view_for_same:
  assumes "public_same s t"
    and "\<And>seat. b \<Longrightarrow> viewer = Some seat \<Longrightarrow> rel_option (stack_same_for seat) (shared_stack s) (shared_stack t)"
  shows "shared_stack_view_for s b viewer = shared_stack_view_for t b viewer"
proof -
  from assms(1) have face: "map_option stack_face (shared_stack s) = map_option stack_face (shared_stack t)"
    by (simp add: public_same_def)
  show ?thesis
  proof (cases "shared_stack s")
    case None
    with face show ?thesis by (simp add: shared_stack_view_for_def)
  next
    case (Some x)
    with face obtain y where y: "shared_stack t = Some y" "stack_face x = stack_face y"
      by (cases "shared_stack t") auto
    show ?thesis
    proof (cases b)
      case True
      with assms(2) Some y(1) have "stack_same_for seat x y" if "viewer = Some seat" for seat
        using that by (metis option.rel_inject(2))
      from stack_view_same [OF y(2) this] Some y(1) show ?thesis by (simp add: shared_stack_view_for_def)
    next
      case False
      with Some y(1) show ?thesis by (simp add: shared_stack_view_for_def)
    qed
  qed
qed

lemma chooser_same:
  assumes "public_same s t"
  shows "play_first_chooser s = play_first_chooser t"
proof -
  from assms have "map_option stack_face (shared_stack s) = map_option stack_face (shared_stack t)"
    by (simp add: public_same_def)
  then show ?thesis
    by (cases "shared_stack s"; cases "shared_stack t")
      (simp_all add: play_first_chooser_def public_same_rules [OF assms] stack_face_def)
qed

lemma spectator_source_same:
  assumes "public_same s t"
  shows "source_view_for_spectator s = source_view_for_spectator t"
    and "visible_pack_set_codes s = visible_pack_set_codes t"
    and "\<not> is_chaos (cfg_source (config s)) \<Longrightarrow> session_concessions s = session_concessions t"
proof -
  from public_same_config(1) [OF assms]
  have "source_view_for_spectator s = source_view_for_spectator t \<and> visible_pack_set_codes s = visible_pack_set_codes t
      \<and> (\<not> is_chaos (cfg_source (config s)) \<longrightarrow> session_concessions s = session_concessions t)"
  proof (cases rule: source_face_cases)
    case same
    then show ?thesis
      by (simp add: source_view_for_spectator_def visible_pack_set_codes_def pack_set_code_sequence_def
          session_concessions_def concession_set_codes_def public_same_rules [OF assms] split: draft_kind.split draft_source.split)
  next
    case (chaos c x y)
    then show ?thesis by (simp add: source_view_for_spectator_def visible_pack_set_codes_def)
  qed
  then show "source_view_for_spectator s = source_view_for_spectator t" "visible_pack_set_codes s = visible_pack_set_codes t"
    "\<not> is_chaos (cfg_source (config s)) \<Longrightarrow> session_concessions s = session_concessions t"
    by blast+
qed

lemma player_source_same:
  assumes "player_same seat s t"
  shows "source_view_for_player s seat = source_view_for_player t seat"
proof -
  from assms have pub: "public_same s t" by (simp add: player_same_def)
  from public_same_config(1) [OF pub] show ?thesis
  proof (cases rule: source_face_cases)
    case same
    then have "(\<exists>codes. cfg_source (config t) = SetSource (UniformByRound codes)) \<or> (\<exists>i n. cfg_source (config t) = CubeSource i n)"
      by (cases "cfg_source (config t)" rule: is_chaos.cases) auto
    with same show ?thesis by (auto simp: source_view_for_player_def)
  next
    case (chaos c x y)
    from assms have "status s = Drafting \<longrightarrow> held_booster_code s seat = held_booster_code t seat"
      and "chaos_assignments_are_complete (status s) \<longrightarrow>
        vec_get x (unat seat) = vec_get y (unat seat) \<and> distinct_set_codes (concat x) = distinct_set_codes (concat y)"
      by (simp_all add: player_same_def chaos)
    with chaos show ?thesis
      by (auto simp: source_view_for_player_def held_booster_code_def public_same_rules [OF pub] chaos
          split: option.splits)
  qed
qed

lemma player_concessions_same:
  assumes "player_same seat s t"
  shows "visible_chaos_concessions s = visible_chaos_concessions t"
    and "visible_chaos_concessions s \<Longrightarrow> concession_set_codes s = concession_set_codes t"
proof -
  from assms have pub: "public_same s t" by (simp add: player_same_def)
  show "visible_chaos_concessions s = visible_chaos_concessions t"
    using source_face_chaos [OF public_same_config(1) [OF pub]]
    by (simp add: visible_chaos_concessions_def public_same_rules [OF pub])
  assume vis: "visible_chaos_concessions s"
  from public_same_config(1) [OF pub] show "concession_set_codes s = concession_set_codes t"
  proof (cases rule: source_face_cases)
    case same
    then show ?thesis by (simp add: concession_set_codes_def public_same_rules [OF pub] split: draft_kind.split draft_source.split)
  next
    case (chaos c x y)
    with vis assms have "distinct_set_codes (concat x) = distinct_set_codes (concat y)"
      by (simp add: player_same_def visible_chaos_concessions_def)
    then show ?thesis by (simp add: concession_set_codes_def public_same_rules [OF pub] chaos split: draft_kind.split draft_source.split)
  qed
qed

lemma from_pool_face:
  assumes "source_face a = source_face b"
  shows "from_pool pool a = from_pool pool b"
  using assms by (cases rule: source_face_cases) (simp_all add: from_pool_def)

lemma player_pack_same:
  assumes "player_same seat s t"
  shows "viewer_pack s seat = viewer_pack t seat" and "required_pick_count s seat = required_pick_count t seat"
    and "viewer_pool s seat = viewer_pool t seat"
proof -
  from assms have pub: "public_same s t" and eqs: "vec_get (pools s) (unat seat) = vec_get (pools t) (unat seat)"
    "vec_get (current_pack s) (unat seat) = vec_get (current_pack t) (unat seat)"
    by (simp_all add: player_same_def)
  from eqs show "viewer_pool s seat = viewer_pool t seat" by (simp add: viewer_pool_def)
  from eqs show "required_pick_count s seat = required_pick_count t seat"
    by (simp add: required_pick_count_def public_same_rules [OF pub])
  from public_same_config(1) [OF pub] show "viewer_pack s seat = viewer_pack t seat"
    by (cases rule: source_face_cases) (simp_all add: viewer_pack_def eqs split: option.split draft_source.split)
qed

lemma player_view_same:
  assumes "player_same seat s t"
  shows "filter_for_player s seat = filter_for_player t seat"
proof -
  from assms have pub: "public_same s t" by (simp add: player_same_def)
  have stack: "shared_stack_view_for s (status t = Drafting) (Some seat) = shared_stack_view_for t (status t = Drafting) (Some seat)"
    using assms public_same_fields(2) [OF pub] by (intro stack_view_for_same [OF pub]) (simp add: player_same_def)
  have con: "(if visible_chaos_concessions s then concession_set_codes s else [])
      = (if visible_chaos_concessions t then concession_set_codes t else [])"
    "(if visible_chaos_concessions s then con_fillers (session_concessions s) else [])
      = (if visible_chaos_concessions t then con_fillers (session_concessions t) else [])"
    using player_concessions_same [OF assms] by (simp_all add: session_concessions_def)
  show ?thesis
    unfolding filter_for_player_def Let_def public_same_rules [OF pub] sequences_same [OF pub] tables_same [OF pub]
      seat_views_same [OF pub] chooser_same [OF pub] spectator_source_same(2) [OF pub] player_source_same [OF assms]
      player_pack_same [OF assms] from_pool_face [OF public_same_config(1) [OF pub]] stack con ..
qed

lemma spectator_view_same:
  assumes "public_same s t"
    and "visibility = Omniscient \<Longrightarrow> \<not> is_chaos (cfg_source (config s)) \<Longrightarrow> pools s = pools t \<and> current_pack s = current_pack t"
  shows "filter_for_spectator s visibility = filter_for_spectator t visibility"
proof -
  have chaos: "is_chaos (cfg_source (config s)) = is_chaos (cfg_source (config t))"
    by (rule source_face_chaos [OF public_same_config(1) [OF assms(1)]])
  have stack: "shared_stack_view_for s (status t = Drafting) None = shared_stack_view_for t (status t = Drafting) None"
    by (rule stack_view_for_same [OF assms(1)]) simp
  have con: "(if is_chaos (cfg_source (config t)) then [] else con_fillers (session_concessions s))
      = (if is_chaos (cfg_source (config t)) then [] else con_fillers (session_concessions t))"
    using spectator_source_same(3) [OF assms(1)] chaos by simp
  have cards: "(if visibility = Omniscient \<and> \<not> is_chaos (cfg_source (config t)) then Some (pools s) else None)
      = (if visibility = Omniscient \<and> \<not> is_chaos (cfg_source (config t)) then Some (pools t) else None)"
    "(if visibility = Omniscient \<and> \<not> is_chaos (cfg_source (config t)) then Some (current_pack s) else None)
      = (if visibility = Omniscient \<and> \<not> is_chaos (cfg_source (config t)) then Some (current_pack t) else None)"
    using assms(2) chaos by simp_all
  show ?thesis
    unfolding filter_for_spectator_def Let_def public_same_rules [OF assms(1)] sequences_same [OF assms(1)]
      tables_same [OF assms(1)] seat_views_same [OF assms(1)] spectator_source_same(1,2) [OF assms(1)] chaos stack con cards ..
qed

subsection \<open>Views of well-formed sessions are total\<close>

lemma kind_picks_cards: "proc_cards_per_pick (kind_procedure k) \<noteq> 0"
  by (cases k) simp_all

lemma pick_steps_total: "pick_steps_per_pack (kind_procedure k) n \<noteq> None"
  by (simp add: pick_steps_per_pack_def div_ceil_def kind_picks_cards)

lemma those_total: "(\<And>x. x \<in> set xs \<Longrightarrow> f x \<noteq> None) \<Longrightarrow> those (map f xs) \<noteq> None"
  by (induction xs) (fastforce split: option.split)+

lemma pick_step_sequence_total: "pack_pick_step_sequence s \<noteq> None"
  unfolding pack_pick_step_sequence_def by (rule those_total) (rule pick_steps_total)

lemma seat_views_total: "pod_wf s \<Longrightarrow> seat_views s b \<noteq> None"
  unfolding seat_views_def
  by (rule those_total)
    (auto simp: in_set_enumerate_eq seat_public_view_of_def pick_status_for_def active_pack_count_for_def pod_wf_def
      split: pack_distribution.split)

lemma views_total:
  assumes "pod_wf s"
  shows "filter_for_player s seat \<noteq> None" and "filter_for_spectator s visibility \<noteq> None"
  using seat_views_total [OF assms, of "status s = Drafting"] pick_step_sequence_total [of s]
    pick_steps_total [of "draft_kind_of s" "cards_in_pack s (current_pack_number s)"]
  by (auto simp: filter_for_player_def filter_for_spectator_def Let_def steps_in_current_pack_def)

subsection \<open>Picks of other seats are hidden\<close>

lemma pick_leaves_round_open:
  assumes wf: "pod_wf s" and legal: "legal_pick s seat ids"
    and other: "i \<noteq> unat seat" "i < length (seats s)" "pending_seat s i"
  obtains pack picked pack' where "current_pack s ! unat seat = Some pack" "map instance_id picked = ids"
    "mset picked + mset pack' = mset pack"
    "apply_pick s seat ids =
       (mark_picked seat (s\<lparr>current_pack := (current_pack s)[unat seat := Some pack'],
          pools := (pools s)[unat seat := pools s ! unat seat @ picked]\<rparr>), Ok (map (CardPicked seat) ids))"
proof -
  from apply_pick_legal [OF wf legal] obtain pack picked pack' where
    p: "current_pack s ! unat seat = Some pack" "map instance_id picked = ids" "mset picked + mset pack' = mset pack"
    "apply_pick s seat ids = finish_pick (s\<lparr>current_pack := (current_pack s)[unat seat := Some pack'],
       pools := (pools s)[unat seat := pools s ! unat seat @ picked]\<rparr>) seat ids" by metis
  let ?s = "mark_picked seat (s\<lparr>current_pack := (current_pack s)[unat seat := Some pack'],
    pools := (pools s)[unat seat := pools s ! unat seat @ picked]\<rparr>)"
  note w = pod_wfD [OF wf]
  have "unat (as_u8 i) = i" using other(2) w(1) by simp
  with other(1) have "unat (as_u8 i) \<noteq> unat seat" by simp
  then have "pending_seat ?s i"
    using other w by (auto simp: pending_seat_def mark_picked_def sf_get_def sf_set_def vec_get_def)
  then have "round_complete_from ?s [0..<unat (as_u8 (length (seats s)))] = Some False"
    using other w by (subst round_complete_from_spec) (auto simp: mark_picked_def)
  then have "finish_pick (s\<lparr>current_pack := (current_pack s)[unat seat := Some pack'],
       pools := (pools s)[unat seat := pools s ! unat seat @ picked]\<rparr>) seat ids = (?s, Ok (map (CardPicked seat) ids))"
    by (simp add: finish_pick_def Let_def)
  with p show thesis by (intro that [of pack picked pack']) simp_all
qed

lemma face_up_none: "\<forall>c\<in>set picked. card_draft_effect c = None \<Longrightarrow> face_up_draft_cards (pool @ picked) = face_up_draft_cards pool"
  by (simp add: face_up_draft_cards_def filter_empty_conv)

lemma held_booster_cong:
  assumes "vec_get (current_pack s) (unat seat) = vec_get (current_pack t) (unat seat)"
    and "current_pack_origins s = current_pack_origins t" "config s = config t" "current_pack_number s = current_pack_number t"
  shows "held_booster_code s seat = held_booster_code t seat"
  unfolding held_booster_code_def current_pack_origin_def assms ..

lemma picks_player_same:
  assumes wf: "pod_wf s" and picks: "legal_pick s seat ids" "legal_pick s seat ids'"
    and other: "i \<noteq> unat seat" "i < length (seats s)" "pending_seat s i"
    and plain: "\<forall>c\<in>set (slot_cards (current_pack s ! unat seat)). card_draft_effect c = None"
    and viewer: "viewer \<noteq> seat"
  shows "player_same viewer (fst (apply_pick s seat ids)) (fst (apply_pick s seat ids'))"
proof -
  from pick_leaves_round_open [OF wf picks(1) other] obtain pack picked rest where
    p: "current_pack s ! unat seat = Some pack" "map instance_id picked = ids" "mset picked + mset rest = mset pack"
    "fst (apply_pick s seat ids) = mark_picked seat (s\<lparr>current_pack := (current_pack s)[unat seat := Some rest],
       pools := (pools s)[unat seat := pools s ! unat seat @ picked]\<rparr>)" by (metis fst_conv)
  from pick_leaves_round_open [OF wf picks(2) other] obtain picked' rest' where
    q: "map instance_id picked' = ids'" "mset picked' + mset rest' = mset pack"
    "fst (apply_pick s seat ids') = mark_picked seat (s\<lparr>current_pack := (current_pack s)[unat seat := Some rest'],
       pools := (pools s)[unat seat := pools s ! unat seat @ picked']\<rparr>)" by (metis fst_conv option.inject p(1))
  have "length ids = length ids'" using picks by (simp add: legal_pick_def)
  then have n: "length picked = length picked'" using p(2) q(1) by (metis length_map)
  have "length picked + length rest = length picked' + length rest'"
    using p(3) q(2) by (metis size_mset size_union)
  with n have r: "rest = [] \<longleftrightarrow> rest' = []" by (metis add_left_cancel length_0_conv)
  have "set picked \<subseteq> set pack" "set picked' \<subseteq> set pack"
    using p(3) q(2) by (metis UnCI set_mset_mset set_mset_union subsetI)+
  with plain p(1) have "\<forall>c\<in>set picked. card_draft_effect c = None" "\<forall>c\<in>set picked'. card_draft_effect c = None"
    by (auto simp: slot_cards_def)
  note up = this [THEN face_up_none]
  have v: "unat viewer \<noteq> unat seat" using viewer by (metis as_u8_unat)
  have refl_stack: "rel_option (stack_same_for viewer) x x" for x
    by (cases x) (simp_all add: stack_same_for_def)
  let ?t = "\<lambda>r c. mark_picked seat (s\<lparr>current_pack := (current_pack s)[unat seat := Some r],
    pools := (pools s)[unat seat := pools s ! unat seat @ c]\<rparr>)"
  have "held_booster_code (?t rest picked) viewer = held_booster_code (?t rest' picked') viewer"
    using v by (intro held_booster_cong) (simp_all add: mark_picked_def vec_get_def)
  moreover have "public_same (?t rest picked) (?t rest' picked')"
    using n r up by (simp add: public_same_def mark_picked_def map_update pool_face_def slot_face_def)
  ultimately show ?thesis
    unfolding p(4) q(3) using v refl_stack by (simp add: player_same_def mark_picked_def vec_get_def)
qed

subsection \<open>The published legality\<close>

lemma shown_stack:
  assumes "filter_for_player s seat = Some v" and "status s = Drafting" and "shared_stack s = Some st"
  shows "pv_shared_stack v = Some (shared_stack_view_of st (Some seat))"
  using assms by (auto simp: filter_for_player_def shared_stack_view_for_def Let_def split: option.splits)

lemma shown_pile:
  "i < length (piles st) \<Longrightarrow>
    ssv_piles (shared_stack_view_of st viewer) ! i = pile_view st (viewer = Some (active_seat st)) i (piles st ! i)"
  by (simp add: shared_stack_view_of_def Let_def nth_enumerate_eq)

lemma shown_piles_length: "length (ssv_piles (shared_stack_view_of st viewer)) = length (piles st)"
  by (simp add: shared_stack_view_of_def Let_def)

lemma shown_active_seat: "ssv_active_seat (shared_stack_view_of st viewer) = active_seat st"
  by (simp add: shared_stack_view_of_def Let_def)

lemma refused_decision:
  assumes "stack_session s" and "status s = Drafting" and "shared_stack s = Some st"
    and "refusal_for st (active_seat st) pile d = Some reason"
  shows "apply_shared_stack_decision s (active_seat st) pile d = (s, Err (SharedStackDecisionRefused (active_seat st) pile reason))"
proof -
  from assms(1,3) have wf: "stack_wf (length (seats s)) st" "pod_wf s" by (auto elim!: stack_sessionE)
  then have "unat (active_seat st) < length (seats s)" by (simp add: stack_wf_def stack_core_def)
  then have "\<not> as_u8 (length (seats s)) \<le> active_seat st" using seat_bounds [OF wf(2)] by blast
  moreover have "session_shared_stack s = Ok st" using assms(3) by (simp add: session_shared_stack_def)
  ultimately show ?thesis using assms(2,4) by (simp add: apply_shared_stack_decision_def Let_def)
qed

lemma shown_legality:
  assumes inv: "stack_session s" and dr: "status s = Drafting" and st: "shared_stack s = Some st"
    and e: "e \<in> set (pile_legality (pile_view st b i pile))"
  shows "case dv_refusal e of
      None \<Rightarrow> is_ok (snd (apply_shared_stack_decision s (active_seat st) (as_u8 i) (dv_decision e)))
    | Some reason \<Rightarrow> apply_shared_stack_decision s (active_seat st) (as_u8 i) (dv_decision e)
        = (s, Err (SharedStackDecisionRefused (active_seat st) (as_u8 i) reason))"
proof -
  from e have refusal: "dv_refusal e = refusal_for st (active_seat st) (as_u8 i) (dv_decision e)"
    by (auto simp: pile_view_def)
  from inv st have wf: "stack_wf (length (seats s)) st" "pod_wf s" by (auto elim!: stack_sessionE)
  show ?thesis
  proof (cases "dv_refusal e")
    case None
    with refusal have "refusal_for st (active_seat st) (as_u8 i) (dv_decision e) = None" by simp
    from apply_decision_accepted [OF wf(2,1) dr st this] None show ?thesis by auto
  next
    case (Some reason)
    with refusal have "refusal_for st (active_seat st) (as_u8 i) (dv_decision e) = Some reason" by simp
    from refused_decision [OF inv dr st this] Some show ?thesis by simp
  qed
qed

subsection \<open>Sealed boosters\<close>

lemma split_at_sizes_concat: "concat (split_at_sizes sizes pool) = pool"
  by (induction sizes pool rule: split_at_sizes.induct) (auto simp: Let_def)

lemma split_at_sizes_packs:
  "\<forall>p\<in>set packs. 0 < length p \<and> length p < 256 \<Longrightarrow>
    split_at_sizes (map (\<lambda>p. len_u8 (length p)) packs) (concat packs) = packs"
  by (induction packs) (auto simp: len_u8_def Let_def)

lemma pack_size_sequence_recorded:
  assumes "length (pack_sizes s) = unat (cfg_pack_count (config s))"
  shows "pack_size_sequence s = pack_sizes s"
proof -
  have "length (pack_sizes s) < 256" using assms by simp
  then have "cards_in_pack s (as_u8 i) = pack_sizes s ! i" if "i < length (pack_sizes s)" for i
    using that by (auto simp: cards_in_pack_def entry_for_pack_def min_def)
  with assms show ?thesis
    unfolding pack_size_sequence_def by (intro nth_equalityI) simp_all
qed

lemma sealed_view_packs:
  assumes un: "undealt s" and dist: "proc_distribution (kind_procedure (draft_kind_of s)) = AllAtOnce"
    and acc: "apply_start_draft g s (Some src) = (s', Ok ds)"
    and gen: "generate_packs src (seed_from_u64 g (cfg_rng_seed (config s))) (config s) (as_u8 (length (seats s))) = (Ok all_packs, r)"
    and seat: "unat seat < length (seats s)"
    and sizes: "map length (all_packs ! unat seat) = map length (hd all_packs)" "\<forall>p\<in>set (hd all_packs). 0 < length p \<and> length p < 256"
  shows "\<exists>v. filter_for_player s' seat = Some v \<and> pv_sealed_packs v = Some (all_packs ! unat seat)"
proof -
  let ?s0 = "s\<lparr>booster_pack_pool := source_booster_pack_pool src, pack_sizes := opened_sizes all_packs\<rparr>"
  obtain packs2 r2 where pre: "start_preflight s = Ok ()"
    and d2: "generate_packs src (seed_from_u64 g (cfg_rng_seed (config s))) (config s) (as_u8 (length (seats s))) = (Ok packs2, r2)"
      "deal_all_at_once (s\<lparr>booster_pack_pool := source_booster_pack_pool src, pack_sizes := opened_sizes packs2\<rparr>) packs2 = (s', Ok ds)"
    by (rule start_draft_accepted [OF acc]) (simp add: dist)
  then have d: "deal_all_at_once ?s0 all_packs = (s', Ok ds)" using gen by simp
  then have counts: "\<not> wrong_pack_counts s all_packs"
    by (auto simp: deal_all_at_once_def wrong_pack_counts_def split: if_splits)
  from deal_all_at_once_cards(1) [OF un counts, where b = "source_booster_pack_pool src" and ps = "opened_sizes all_packs"] d
  have s': "s' = ?s0\<lparr>pools := map concat all_packs, current_pack := map (\<lambda>_. None) (current_pack s),
         current_pack_origins := map (\<lambda>_. None) (current_pack_origins s), packs_by_seat := map (\<lambda>_. []) (packs_by_seat s),
         status := Deckbuilding\<rparr>" by simp
  have wf: "pod_wf s" using un by (simp add: undealt_def session_wf_def)
  have n: "length all_packs = length (seats s)" using counts by (simp add: wrong_pack_counts_def)
  then obtain row rows where ap: "all_packs = row # rows" using seat by (cases all_packs) auto
  have "unat (cfg_pack_count (config s)) = unat (proc_packs_per_player (kind_procedure (draft_kind_of s)))"
    using preflight_Ok(4) [OF pre] dist by (simp add: distribution_check_def Let_def split: if_splits)
  then have len: "length (pack_sizes s') = unat (cfg_pack_count (config s'))"
    using counts by (simp add: s' opened_sizes_def ap wrong_pack_counts_def)
  let ?packs = "all_packs ! unat seat"
  have "pack_size_sequence s' = map (\<lambda>p. len_u8 (length p)) row"
    using pack_size_sequence_recorded [OF len] by (simp add: s' opened_sizes_def ap)
  also have "\<dots> = map len_u8 (map length ?packs)" using sizes(1) by (simp add: ap)
  finally have seq: "pack_size_sequence s' = map (\<lambda>p. len_u8 (length p)) ?packs" by simp
  have "set (map length ?packs) = set (map length row)" using sizes(1) by (metis ap list.sel(1))
  then have "\<forall>p\<in>set ?packs. 0 < length p \<and> length p < 256"
    using sizes(2) by (metis ap imageE image_eqI list.sel(1) list.set_map)
  then have "split_by_pack_size (concat ?packs) s' = ?packs"
    by (simp add: split_by_pack_size_def seq split_at_sizes_packs)
  moreover have "viewer_pool s' seat = concat ?packs" using seat n by (simp add: viewer_pool_def s')
  moreover have "pod_wf s'" using pod_wfD [OF wf] n by (simp add: s' pod_wf_def)
  from views_total(1) [OF this, of seat] obtain v where v: "filter_for_player s' seat = Some v" by blast
  moreover have "proc_distribution (kind_procedure (draft_kind_of s')) = AllAtOnce" using dist by (simp add: s')
  ultimately have "pv_sealed_packs v = Some ?packs"
    by (auto simp: filter_for_player_def Let_def split: option.splits)
  with v show ?thesis by blast
qed

subsection \<open>Standings and pairings\<close>

lemma standings_sorted:
  assumes "pairings s \<noteq> []"
  shows "sorted_wrt (\<lambda>a b. se_match_wins b \<le> se_match_wins a) (compute_standings s)"
    and "mset (compute_standings s) = mset (map (\<lambda>(i, seat). standing_for s i seat) (enumerate 0 (seats s)))"
    and "filter (\<lambda>e. se_match_wins e = w) (compute_standings s)
      = filter (\<lambda>e. se_match_wins e = w) (map (\<lambda>(i, seat). standing_for s i seat) (enumerate 0 (seats s)))"
proof -
  let ?es = "map (\<lambda>(i, seat). standing_for s i seat) (enumerate 0 (seats s))"
  let ?key = "\<lambda>e. - uint (se_match_wins e)"
  have st: "compute_standings s = sort_key ?key ?es" using assms by (simp add: compute_standings_def)
  have "sorted (map ?key (sort_key ?key ?es))" by simp
  then show "sorted_wrt (\<lambda>a b. se_match_wins b \<le> se_match_wins a) (compute_standings s)"
    unfolding st sorted_map by (simp add: word_le_def)
  show "mset (compute_standings s) = mset ?es" by (simp add: st)
  have "filter (\<lambda>e. ?key e = ?key x) (sort_key ?key ?es) = filter (\<lambda>e. ?key e = ?key x) ?es" for x
    by (rule sort_key_stable)
  from this [of "\<lparr>se_seat_index = 0, se_display_name = [], se_match_wins = w, se_match_losses = 0, se_game_wins = 0, se_game_losses = 0\<rparr>"]
  show "filter (\<lambda>e. se_match_wins e = w) (compute_standings s) = filter (\<lambda>e. se_match_wins e = w) ?es"
    by (simp add: st word_uint_eq_iff)
qed

lemma player_ids_seats:
  assumes "length (seats s) < 256"
  shows "player_ids s = map (\<lambda>(i, seat). seat_pid i seat) (enumerate 0 (seats s))"
  using assms by (intro nth_equalityI) (auto simp: player_ids_def seat_pid_def nth_enumerate_eq split: draft_seat.split)

lemma player_seat_map_seat:
  assumes small: "length (seats s) < 256" and dist: "distinct (player_ids s)" and p: "p \<in> set (player_ids s)"
  shows "\<exists>i<length (seats s). seat_pid i (seats s ! i) = p
    \<and> player_seat_map s p = Some (as_u8 i, seat_display_name (seats s ! i))"
proof -
  let ?kv = "map (\<lambda>(i, seat). (seat_pid i seat, (as_u8 i, seat_display_name seat))) (enumerate 0 (seats s))"
  have keys: "map fst ?kv = player_ids s" using player_ids_seats [OF small] by (simp add: comp_def split_def)
  with p obtain i where i: "i < length (seats s)" "p = seat_pid i (seats s ! i)"
    by (auto simp: player_ids_seats [OF small] in_set_enumerate_eq)
  have "(p, (as_u8 i, seat_display_name (seats s ! i))) \<in> set (rev ?kv)"
    using i by (force simp: in_set_enumerate_eq)
  moreover have "distinct (map fst (rev ?kv))" using keys dist by (simp add: rev_map [symmetric])
  ultimately have "player_seat_map s p = Some (as_u8 i, seat_display_name (seats s ! i))"
    unfolding player_seat_map_def by (intro map_of_is_SomeI)
  with i show ?thesis by auto
qed

lemma seat_player_id_pid:
  "length (seats s) < 256 \<Longrightarrow> i < length (seats s) \<Longrightarrow> seat_player_id s (as_u8 i) = Some (seat_pid i (seats s ! i))"
  by (simp add: seat_player_id_in_range seat_pid_def)

lemma pairing_view_seats:
  assumes small: "length (seats s) < 256" and dist: "distinct (player_ids s)"
    and a: "fst (pairing_players p) \<in> set (player_ids s)" and b: "snd (pairing_players p) \<in> set (player_ids s)"
  shows "seat_player_id s (pw_seat_a (pairing_view_of s p)) = Some (fst (pairing_players p))
    \<and> seat_player_id s (pw_seat_b (pairing_view_of s p)) = Some (snd (pairing_players p))
    \<and> (case pw_winner_seat (pairing_view_of s p) of
         Some w \<Rightarrow> seat_player_id s w = result_winner p (match_records s)
       | None \<Rightarrow> result_winner p (match_records s) \<notin> {Some (fst (pairing_players p)), Some (snd (pairing_players p))})"
proof -
  from player_seat_map_seat [OF small dist a] obtain i where
    i: "i < length (seats s)" "seat_pid i (seats s ! i) = fst (pairing_players p)"
    "player_seat_map s (fst (pairing_players p)) = Some (as_u8 i, seat_display_name (seats s ! i))" by blast
  from player_seat_map_seat [OF small dist b] obtain j where
    j: "j < length (seats s)" "seat_pid j (seats s ! j) = snd (pairing_players p)"
    "player_seat_map s (snd (pairing_players p)) = Some (as_u8 j, seat_display_name (seats s ! j))" by blast
  have "seat_player_id s (as_u8 i) = Some (fst (pairing_players p))" "seat_player_id s (as_u8 j) = Some (snd (pairing_players p))"
    using seat_player_id_pid [OF small] i j by simp_all
  with i(3) j(3) show ?thesis
    by (simp add: pairing_view_of_def seat_or_unknown_def Let_def split: option.split)
qed

subsection \<open>Properties\<close>

text \<open>The sample pod with another hand for seat 1, other unopened boosters, another seed and other clocks.\<close>

definition sample_secret :: draft_session where
  "sample_secret =
     sample_pod\<lparr>current_pack := [current_pack sample_pod ! 0, Some [sample_card ''z'' None]],
       packs_by_seat := [[[sample_card ''u'' None]], []], created_at := 5,
       config := (config sample_pod)\<lparr>cfg_rng_seed := 99\<rparr>\<rparr>"

lemma sample_secret_same: "player_same 0 sample_pod sample_secret" "public_same sample_pod sample_secret"
  by (simp_all add: player_same_def public_same_def sample_secret_def sample_pod_def sample_config_def single_set_def config_face_def
      slot_face_def held_booster_code_def current_pack_origin_def vec_get_def chaos_assignments_are_complete_def)

text \<open>
  C10. What a seat sees depends only on what it is entitled to know: if two sessions agree on the public
  facts (names, connection, counters, sizes of pools and their face-up cards, which seats hold a booster,
  the heights and the turn of the shared stack, results), on the seat's own pool and booster, on the sets it has
  opened and on the cards it has looked at, then its view of both is the same, whatever the other hands,
  the unopened boosters, the face-down piles, the order of the stack, the submitted lists, the Chaos assignments of
  other seats and the seed are. The view of a well-formed session always exists.
\<close>

theorem player_view_secrecy:
  assumes "player_same seat s t"
  shows "filter_for_player s seat = filter_for_player t seat \<and> (pod_wf s \<longrightarrow> filter_for_player s seat \<noteq> None)"
  using player_view_same [OF assms] views_total(1) by blast

theorem player_view_secrecy_witness:
  "sample_pod \<noteq> sample_secret \<and> (\<exists>v. filter_for_player sample_pod 0 = Some v \<and> filter_for_player sample_secret 0 = Some v)"
proof -
  have "created_at sample_pod \<noteq> created_at sample_secret" by (simp add: sample_secret_def sample_pod_def)
  with player_view_secrecy [OF sample_secret_same(1)] sample_pod_wf show ?thesis by (metis not_None_eq)
qed

text \<open>
  C18. A public spectator learns public facts only: sessions that agree on them look the same. An omniscient
  spectator additionally sees all pools and held boosters, but in a Chaos draft no more than a public one, and
  in no case a card of a face-down pile, the order of the stack, an unopened booster, a submitted list or the seed.
\<close>

theorem spectator_view_secrecy:
  assumes "public_same s t"
    and "visibility = PublicView \<or> is_chaos (cfg_source (config s)) \<or> (pools s = pools t \<and> current_pack s = current_pack t)"
  shows "filter_for_spectator s visibility = filter_for_spectator t visibility
    \<and> (pod_wf s \<longrightarrow> filter_for_spectator s visibility \<noteq> None)"
  using spectator_view_same [OF assms(1), of visibility] assms(2) views_total(2) by blast

theorem spectator_view_secrecy_witness:
  "\<exists>v. filter_for_spectator sample_pod PublicView = Some v \<and> filter_for_spectator sample_secret PublicView = Some v"
  using spectator_view_secrecy [OF sample_secret_same(2), of PublicView] sample_pod_wf by (metis not_None_eq)

text \<open>
  Which card another seat picks stays hidden while the pick round is open: whatever legal choices a seat
  makes from a booster without draft-matters cards, every other seat sees the same afterwards, as long as some
  seat still owes a pick.
\<close>

theorem other_picks_hidden:
  assumes "pod_wf s" and "legal_pick s seat ids" "legal_pick s seat ids'"
    and "i \<noteq> unat seat" "i < length (seats s)" "pending_seat s i"
    and "\<forall>c\<in>set (slot_cards (current_pack s ! unat seat)). card_draft_effect c = None"
    and "viewer \<noteq> seat"
  shows "filter_for_player (fst (apply_pick s seat ids)) viewer = filter_for_player (fst (apply_pick s seat ids')) viewer"
  by (rule player_view_same [OF picks_player_same [OF assms]])

text \<open>
  C25. The legality a view publishes is the one the reducer enforces: in a running Winston draft every view shows
  a verdict for both decisions on every pile; a decision shown as legal is accepted from the seat to move, and a
  decision shown with a refusal is answered with exactly that refusal, leaving the session as it was.
\<close>

theorem published_legality_enforced:
  assumes "stack_session s" and "status s = Drafting" and "filter_for_player s seat = Some v"
  shows "\<exists>sv. pv_shared_stack v = Some sv \<and> ssv_piles sv \<noteq> [] \<and>
    (\<forall>pile\<in>set (ssv_piles sv). map dv_decision (pile_legality pile) = [Take, Decline] \<and>
       (\<forall>e\<in>set (pile_legality pile). case dv_refusal e of
            None \<Rightarrow> is_ok (snd (apply_shared_stack_decision s (ssv_active_seat sv) (pile_index pile) (dv_decision e)))
          | Some reason \<Rightarrow> apply_shared_stack_decision s (ssv_active_seat sv) (pile_index pile) (dv_decision e)
              = (s, Err (SharedStackDecisionRefused (ssv_active_seat sv) (pile_index pile) reason))))"
proof -
  from assms(1) obtain st where st: "shared_stack s = Some st" "stack_wf (length (seats s)) st" by (rule stack_sessionE)
  let ?sv = "shared_stack_view_of st (Some seat)"
  have "map dv_decision (pile_legality pile) = [Take, Decline] \<and>
       (\<forall>e\<in>set (pile_legality pile). case dv_refusal e of
            None \<Rightarrow> is_ok (snd (apply_shared_stack_decision s (ssv_active_seat ?sv) (pile_index pile) (dv_decision e)))
          | Some reason \<Rightarrow> apply_shared_stack_decision s (ssv_active_seat ?sv) (pile_index pile) (dv_decision e)
              = (s, Err (SharedStackDecisionRefused (ssv_active_seat ?sv) (pile_index pile) reason)))"
    if "pile \<in> set (ssv_piles ?sv)" for pile
  proof -
    from that obtain i where pile: "pile = pile_view st (Some seat = Some (active_seat st)) i (piles st ! i)"
      by (metis in_set_conv_nth shown_pile shown_piles_length)
    have index: "pile_index pile = as_u8 i" by (simp add: pile pile_view_def)
    have "map dv_decision (pile_legality pile) = [Take, Decline]" by (simp add: pile pile_view_def ALL_pile_decisions_def)
    then show ?thesis
      unfolding shown_active_seat index using shown_legality [OF assms(1,2) st(1)] pile by blast
  qed
  moreover have "ssv_piles ?sv \<noteq> []"
    using st(2) shown_piles_length [of st "Some seat"] by (auto simp: stack_wf_def stack_core_def)
  ultimately show ?thesis
    using shown_stack [OF assms(3,2) st(1)] by blast
qed

theorem published_legality_enforced_witness:
  "\<exists>v sv. filter_for_player sample_winston 1 = Some v \<and> pv_shared_stack v = Some sv \<and> ssv_piles sv \<noteq> []"
proof -
  have "pod_wf sample_winston" using sample_winston_session(1) by (rule stack_sessionE)
  from views_total(1) [OF this] obtain v where "filter_for_player sample_winston 1 = Some v" by blast
  with published_legality_enforced [OF sample_winston_session(1,2) this] show ?thesis by blast
qed

text \<open>
  Once there are pairings, the standings list every seat exactly once, with its match record, by descending
  match wins, and seats with equally many match wins in seat order.
\<close>

theorem standings_rank_seats:
  assumes "pairings s \<noteq> []"
  shows "sorted_wrt (\<lambda>a b. se_match_wins b \<le> se_match_wins a) (compute_standings s)
    \<and> mset (compute_standings s) = mset (map (\<lambda>(i, seat). standing_for s i seat) (enumerate 0 (seats s)))
    \<and> filter (\<lambda>e. se_match_wins e = w) (compute_standings s)
        = filter (\<lambda>e. se_match_wins e = w) (map (\<lambda>(i, seat). standing_for s i seat) (enumerate 0 (seats s)))"
  using standings_sorted [OF assms] by blast

text \<open>
  In a pod whose players have distinct ids, the view of a pairing between two of them names the seats they sit
  in, and its winner is the seat of the player who won; it names no winner exactly when neither has won.
\<close>

theorem pairing_views_name_players:
  assumes "length (seats s) < 256" and "distinct (player_ids s)"
    and "p \<in> set (pairings s)" "pairing_round p = current_round s" "current_round s \<noteq> 0"
    and "fst (pairing_players p) \<in> set (player_ids s)" "snd (pairing_players p) \<in> set (player_ids s)"
  shows "\<exists>v\<in>set (compute_pairing_views s). pw_match_id v = match_id p
    \<and> seat_player_id s (pw_seat_a v) = Some (fst (pairing_players p))
    \<and> seat_player_id s (pw_seat_b v) = Some (snd (pairing_players p))
    \<and> (case pw_winner_seat v of
         Some w \<Rightarrow> seat_player_id s w = result_winner p (match_records s)
       | None \<Rightarrow> result_winner p (match_records s) \<notin> {Some (fst (pairing_players p)), Some (snd (pairing_players p))})"
proof -
  have "pairing_view_of s p \<in> set (compute_pairing_views s)"
    using assms(3-5) by (simp add: compute_pairing_views_def)
  moreover have "pw_match_id (pairing_view_of s p) = match_id p" by (simp add: pairing_view_of_def split_beta Let_def)
  ultimately show ?thesis using pairing_view_seats [OF assms(1,2,6,7)] by blast
qed

end
