(* ===== verification/Seat_Reducer.thy ===== *)
theory Seat_Reducer
  imports Prelude
begin

text \<open>
  The pre-game seat lobby (\<^verbatim>\<open>src/crates/seat-reducer/src\<close>): seats that wait for a human, hold one or
  hold an AI, the tokens that let a human back in, the host's mutations, and the team each seat
  plays in. Of the engine's \<^verbatim>\<open>FormatConfig\<close> the record keeps the fields this crate reads.

  Deck lists are opaque here: \<open>'d\<close> is the engine's \<^verbatim>\<open>DeckData\<close>, \<open>'p\<close> its \<^verbatim>\<open>PlayerDeckList\<close>. The deck
  resolver is a trait object supplied by the caller and is a parameter.
\<close>

subsection \<open>Formats and seats\<close>

datatype game_format =
    Standard | Limited | CommanderFormat | Pioneer | Modern | Premodern | Legacy | Vintage | Historic
  | Timeless | Pauper | PauperCommander | DuelCommander | TinyLeaders | Oathbreaker | Brawl
  | HistoricBrawl | FreeForAll | TwoHeadedGiant | Archenemy | Planechase | Momir
  | CommanderDraftFormat | Freeform | FreeformCommander | Custom "16 word"

datatype turn_structure = IndividualTurns | SharedTeamTurns

datatype format_topology =
    IndividualSeats
  | FixedTeams u8 u8 turn_structure
  | OneVsMany u8 turn_structure

record format_config =
  fc_format :: game_format
  fc_min_players :: u8
  fc_max_players :: u8
  fc_team_based :: bool
  fc_archenemy_player :: "u8 option"

definition topology :: "format_config \<Rightarrow> format_topology" where
  "topology fc =
     (case fc_format fc of
        TwoHeadedGiant \<Rightarrow> FixedTeams 2 2 SharedTeamTurns
      | Archenemy \<Rightarrow> OneVsMany (case fc_archenemy_player fc of Some p \<Rightarrow> p | None \<Rightarrow> 0) SharedTeamTurns
      | _ \<Rightarrow> if fc_team_based fc then FixedTeams 2 2 SharedTeamTurns else IndividualSeats)"

datatype ai_difficulty = VeryEasy | Easy | Medium | Hard | VeryHard | CEDH

datatype 'd deck_choice = RandomDeck | Named string | DeckList 'd

datatype 'd seat_kind = HostHuman | JoinedHuman | WaitingHuman | Ai ai_difficulty "'d deck_choice"

record seat_team_info =
  team_index :: u8
  position_in_team :: u8

definition seat_team_info_of :: "format_config \<Rightarrow> u8 \<Rightarrow> seat_team_info option" where
  "seat_team_info_of fc seat =
     (case topology fc of
        IndividualSeats \<Rightarrow> None
      | FixedTeams team_size team_count _ \<Rightarrow>
          if team_size * team_count \<le> seat then None
          else Some \<lparr>team_index = seat div team_size, position_in_team = seat mod team_size\<rparr>
      | OneVsMany archenemy _ \<Rightarrow>
          if fc_max_players fc \<le> seat then None
          else if seat = archenemy then Some \<lparr>team_index = 0, position_in_team = 0\<rparr>
          else Some \<lparr>team_index = 1,
            position_in_team = as_u8 (length (filter (\<lambda>k. as_u8 k \<noteq> archenemy) [0..<unat seat]))\<rparr>)"

definition seat_team_info_for_seats :: "format_config \<Rightarrow> usize \<Rightarrow> seat_team_info option list" where
  "seat_team_info_for_seats fc seat_count =
     (case topology fc of
        IndividualSeats \<Rightarrow> []
      | _ \<Rightarrow> map (\<lambda>i. seat_team_info_of fc (as_u8 i)) [0..<seat_count])"

datatype 'd seat_mutation = SetKind u8 "'d seat_kind" | Remove u8 | Start

record 'd seat_state =
  seat_kinds :: "'d seat_kind list"
  seat_tokens :: "string list"
  seat_format :: format_config
  game_started :: bool

definition occupied :: "'d seat_kind \<Rightarrow> bool" where
  "occupied k = (case k of HostHuman \<Rightarrow> True | JoinedHuman \<Rightarrow> True | WaitingHuman \<Rightarrow> False | Ai _ _ \<Rightarrow> True)"

definition is_full :: "'d seat_state \<Rightarrow> bool" where
  "is_full s \<longleftrightarrow> list_all occupied (seat_kinds s)"

definition is_pregame :: "'d seat_state \<Rightarrow> bool" where
  "is_pregame s \<longleftrightarrow> \<not> game_started s"

record 'd seat_view =
  view_seats :: "'d seat_kind list"
  view_format :: format_config
  view_team_info :: "seat_team_info option list"
  view_is_full :: bool
  view_game_started :: bool

definition to_view :: "'d seat_state \<Rightarrow> 'd seat_view" where
  "to_view s =
     \<lparr>view_seats = seat_kinds s, view_format = seat_format s,
      view_team_info = seat_team_info_for_seats (seat_format s) (length (seat_kinds s)),
      view_is_full = is_full s, view_game_started = game_started s\<rparr>"

record renumbering =
  removed_index :: u8
  remapping :: "(u8 \<times> u8) list"

record 'p seat_delta =
  mutated_seats :: "u8 list"
  invalidated_tokens :: "string list"
  removed_ai :: "u8 list"
  new_ai :: "(u8 \<times> ai_difficulty \<times> 'p) list"
  delta_renumbering :: "renumbering option"
  now_started :: bool

definition empty_delta :: "'p seat_delta" where
  "empty_delta =
     \<lparr>mutated_seats = [], invalidated_tokens = [], removed_ai = [], new_ai = [],
      delta_renumbering = None, now_started = False\<rparr>"

datatype seat_error =
    GameStarted | SeatImmutable | InvalidSeatTransition | BelowFormatMin | SeatClaimed | NotFull
  | DeckResolutionFailed string

type_synonym ('d, 'p) deck_resolver = "'d deck_choice \<Rightarrow> ('p, string) rust_result"
type_synonym ('d, 'p) seat_outcome = "'d seat_state \<times> ('p seat_delta, seat_error) rust_result"

subsection \<open>Mutations\<close>

definition apply_start :: "'d seat_state \<Rightarrow> ('d, 'p) seat_outcome" where
  "apply_start s =
     (if \<not> is_full s then (s, Err NotFull)
      else (s\<lparr>game_started := True\<rparr>, Ok (empty_delta\<lparr>now_started := True\<rparr>)))"

text \<open>A seat gets its new occupant and an empty token; the token vector may be too short.\<close>

definition put_seat :: "'d seat_state \<Rightarrow> nat \<Rightarrow> 'd seat_kind \<Rightarrow> 'p seat_delta \<Rightarrow> ('d, 'p) seat_outcome" where
  "put_seat s seat kind delta =
     (if seat < length (seat_tokens s)
      then (s\<lparr>seat_kinds := (seat_kinds s)[seat := kind], seat_tokens := (seat_tokens s)[seat := []]\<rparr>, Ok delta)
      else (s, Panic))"

definition with_deck ::
  "('d, 'p) deck_resolver \<Rightarrow> 'd deck_choice \<Rightarrow> 'd seat_state \<Rightarrow> ('p \<Rightarrow> ('d, 'p) seat_outcome) \<Rightarrow> ('d, 'p) seat_outcome" where
  "with_deck resolve deck s k =
     (case resolve deck of
        Ok resolved \<Rightarrow> k resolved
      | Err e \<Rightarrow> (s, Err (DeckResolutionFailed e))
      | Panic \<Rightarrow> (s, Panic))"

definition apply_set_kind ::
  "('d, 'p) deck_resolver \<Rightarrow> 'd seat_state \<Rightarrow> u8 \<Rightarrow> 'd seat_kind \<Rightarrow> ('d, 'p) seat_outcome" where
  "apply_set_kind resolve s seat_index kind =
     (let seat = unat seat_index in
      if seat = 0 \<or> length (seat_kinds s) \<le> seat then (s, Err SeatImmutable)
      else (let current = seat_kinds s ! seat in
        if current = kind then (s, Ok empty_delta)
        else (let delta = empty_delta\<lparr>mutated_seats := [seat_index]\<rparr>; token = seat_tokens s ! seat in
          case current of
            HostHuman \<Rightarrow> (s, Err SeatImmutable)
          | WaitingHuman \<Rightarrow>
              (case kind of
                 JoinedHuman \<Rightarrow> (s, Err InvalidSeatTransition)
               | HostHuman \<Rightarrow> (s, Err InvalidSeatTransition)
               | WaitingHuman \<Rightarrow> (s, Ok delta)
               | Ai difficulty deck \<Rightarrow>
                   with_deck resolve deck s (\<lambda>resolved.
                     put_seat s seat kind (delta\<lparr>new_ai := [(seat_index, difficulty, resolved)]\<rparr>)))
          | Ai _ _ \<Rightarrow>
              (case kind of
                 JoinedHuman \<Rightarrow> (s, Err InvalidSeatTransition)
               | HostHuman \<Rightarrow> (s, Err InvalidSeatTransition)
               | WaitingHuman \<Rightarrow> put_seat s seat WaitingHuman (delta\<lparr>removed_ai := [seat_index]\<rparr>)
               | Ai difficulty deck \<Rightarrow>
                   with_deck resolve deck s (\<lambda>resolved.
                     put_seat s seat kind (delta\<lparr>removed_ai := [seat_index], new_ai := [(seat_index, difficulty, resolved)]\<rparr>)))
          | JoinedHuman \<Rightarrow>
              (case kind of
                 JoinedHuman \<Rightarrow> (s, Ok delta)
               | HostHuman \<Rightarrow> (s, Err InvalidSeatTransition)
               | WaitingHuman \<Rightarrow> put_seat s seat WaitingHuman (delta\<lparr>invalidated_tokens := [token]\<rparr>)
               | Ai difficulty deck \<Rightarrow>
                   with_deck resolve deck s (\<lambda>resolved.
                     put_seat s seat kind
                       (delta\<lparr>invalidated_tokens := [token], new_ai := [(seat_index, difficulty, resolved)]\<rparr>))))))"

text \<open>A range of \<^verbatim>\<open>u8\<close> values, the upper bound excluded.\<close>

definition u8_range :: "u8 \<Rightarrow> u8 \<Rightarrow> u8 list" where
  "u8_range a b = map as_u8 [unat a..<unat b]"

definition is_ai :: "'d seat_kind \<Rightarrow> bool" where
  "is_ai k = (case k of Ai _ _ \<Rightarrow> True | _ \<Rightarrow> False)"

definition removal_delta :: "u8 \<Rightarrow> nat \<Rightarrow> bool \<Rightarrow> 'p seat_delta" where
  "removal_delta seat_index left was_ai =
     empty_delta\<lparr>mutated_seats := u8_range seat_index (as_u8 left),
       removed_ai := (if was_ai then [seat_index] else []),
       delta_renumbering := Some \<lparr>removed_index = seat_index,
         remapping = map (\<lambda>old. (as_u8 old, as_u8 old - 1)) [unat (seat_index + 1)..<Suc (unat (as_u8 left))]\<rparr>\<rparr>"

definition apply_remove :: "'d seat_state \<Rightarrow> u8 \<Rightarrow> ('d, 'p) seat_outcome" where
  "apply_remove s seat_index =
     (let seat = unat seat_index in
      if seat = 0 \<or> length (seat_kinds s) \<le> seat then (s, Err SeatImmutable)
      else if length (seat_kinds s) \<le> unat (fc_min_players (seat_format s)) then (s, Err BelowFormatMin)
      else (case seat_kinds s ! seat of
          JoinedHuman \<Rightarrow> (s, Err SeatClaimed)
        | HostHuman \<Rightarrow> (s, Err SeatImmutable)
        | removed \<Rightarrow>
            if seat < length (seat_tokens s)
            then (s\<lparr>seat_kinds := vec_remove seat (seat_kinds s), seat_tokens := vec_remove seat (seat_tokens s)\<rparr>,
                  Ok (removal_delta seat_index (length (seat_kinds s) - 1) (is_ai removed)))
            else (s, Panic)))"

definition apply_seat :: "('d, 'p) deck_resolver \<Rightarrow> 'd seat_state \<Rightarrow> 'd seat_mutation \<Rightarrow> ('d, 'p) seat_outcome" where
  "apply_seat resolve s mutation =
     (if \<not> is_pregame s then (s, Err GameStarted)
      else (case mutation of
          Start \<Rightarrow> apply_start s
        | SetKind seat_index kind \<Rightarrow> apply_set_kind resolve s seat_index kind
        | Remove seat_index \<Rightarrow> apply_remove s seat_index))"

subsection \<open>Lobby invariant\<close>

text \<open>
  One token per seat, the host sits on seat 0 and nowhere else, only seated humans hold tokens, and
  no two seats hold the same one.
\<close>

definition lobby_wf :: "'d seat_state \<Rightarrow> bool" where
  "lobby_wf s \<longleftrightarrow>
     seat_kinds s \<noteq> [] \<and> length (seat_kinds s) < 256 \<and> length (seat_tokens s) = length (seat_kinds s) \<and>
     (\<forall>i<length (seat_kinds s). seat_kinds s ! i = HostHuman \<longleftrightarrow> i = 0) \<and>
     (\<forall>i<length (seat_kinds s). seat_tokens s ! i \<noteq> [] \<longrightarrow> seat_kinds s ! i \<in> {HostHuman, JoinedHuman}) \<and>
     (\<forall>i j. i < j \<longrightarrow> j < length (seat_kinds s) \<longrightarrow> seat_tokens s ! i \<noteq> [] \<longrightarrow> seat_tokens s ! i \<noteq> seat_tokens s ! j)"

definition resolver_total :: "('d, 'p) deck_resolver \<Rightarrow> bool" where
  "resolver_total resolve \<longleftrightarrow> (\<forall>deck. resolve deck \<noteq> Panic)"

definition lobby_safe :: "'d seat_state \<Rightarrow> ('d, 'p) seat_outcome \<Rightarrow> bool" where
  "lobby_safe s out \<longleftrightarrow> lobby_wf (fst out) \<and> snd out \<noteq> Panic \<and> (is_ok (snd out) \<or> fst out = s)"

lemma put_seat_safe:
  assumes "lobby_wf s" and "0 < i" "i < length (seat_kinds s)" and "k \<noteq> HostHuman"
  shows "lobby_safe s (put_seat s i k d)"
  using assms by (auto simp: put_seat_def lobby_safe_def lobby_wf_def nth_list_update)

lemma with_deck_safe:
  assumes "resolver_total resolve" and "lobby_wf s" and "\<And>p. lobby_safe s (k p)"
  shows "lobby_safe s (with_deck resolve deck s k)"
  using assms by (auto simp: with_deck_def lobby_safe_def resolver_total_def split: rust_result.split)

lemma set_kind_safe:
  assumes "resolver_total resolve" and "lobby_wf s"
  shows "lobby_safe s (apply_set_kind resolve s seat kind)"
proof (cases "unat seat = 0 \<or> length (seat_kinds s) \<le> unat seat \<or> seat_kinds s ! unat seat = kind")
  case True
  with assms show ?thesis by (auto simp: apply_set_kind_def Let_def lobby_safe_def)
next
  case False
  note put = put_seat_safe [OF assms(2), of "unat seat"]
  from False assms show ?thesis
    by (auto simp: apply_set_kind_def Let_def lobby_safe_def [of s "(s, _)"] put
        intro!: with_deck_safe split: seat_kind.split)
qed

lemma nth_vec_remove: "i < length xs \<Longrightarrow> j < length xs - 1 \<Longrightarrow> vec_remove i xs ! j = (if j < i then xs ! j else xs ! Suc j)"
  by (auto simp: vec_remove_def nth_append)

lemma lobby_wf_remove:
  assumes wf: "lobby_wf s" and i: "0 < i" "i < length (seat_kinds s)"
  shows "lobby_wf (s\<lparr>seat_kinds := vec_remove i (seat_kinds s), seat_tokens := vec_remove i (seat_tokens s)\<rparr>)"
proof -
  let ?n = "length (seat_kinds s)"
  define old where "old j = (if j < i then j else Suc j)" for j
  have tok: "length (seat_tokens s) = ?n" and host: "\<And>j. j < ?n \<Longrightarrow> seat_kinds s ! j = HostHuman \<longleftrightarrow> j = 0"
    and humans: "\<And>j. j < ?n \<Longrightarrow> seat_tokens s ! j \<noteq> [] \<Longrightarrow> seat_kinds s ! j \<in> {HostHuman, JoinedHuman}"
    and uniq: "\<And>j k. j < k \<Longrightarrow> k < ?n \<Longrightarrow> seat_tokens s ! j \<noteq> [] \<Longrightarrow> seat_tokens s ! j \<noteq> seat_tokens s ! k"
    and n: "?n < 256"
    using wf unfolding lobby_wf_def by blast+
  have old: "old j < ?n" "old j = 0 \<longleftrightarrow> j = 0" if "j < ?n - 1" for j using that i by (auto simp: old_def)
  have mono: "old j < old k" if "j < k" for j k using that by (simp add: old_def)
  have nth: "vec_remove i (seat_kinds s) ! j = seat_kinds s ! old j" "vec_remove i (seat_tokens s) ! j = seat_tokens s ! old j"
    if "j < ?n - 1" for j using that i tok by (simp_all add: nth_vec_remove old_def)
  have len: "length (vec_remove i (seat_kinds s)) = ?n - 1" "length (vec_remove i (seat_tokens s)) = ?n - 1"
    using i tok by (simp_all add: rust_len)
  have "vec_remove i (seat_kinds s) \<noteq> []" using len(1) i by (cases "vec_remove i (seat_kinds s)") auto
  moreover have "seat_tokens s ! old j \<noteq> [] \<longrightarrow> seat_kinds s ! old j \<in> {HostHuman, JoinedHuman}"
    "seat_kinds s ! old j = HostHuman \<longleftrightarrow> j = 0" if "j < ?n - 1" for j
    using humans host old that by blast+
  moreover have "seat_tokens s ! old j \<noteq> [] \<longrightarrow> seat_tokens s ! old j \<noteq> seat_tokens s ! old k" if "j < k" "k < ?n - 1" for j k
    using uniq old mono that by blast
  ultimately show ?thesis
    unfolding lobby_wf_def using n by (simp add: len nth del: insert_iff)
qed

lemma remove_safe:
  assumes wf: "lobby_wf s"
  shows "lobby_safe s (apply_remove s seat)"
proof (cases "unat seat = 0 \<or> length (seat_kinds s) \<le> unat seat \<or> length (seat_kinds s) \<le> unat (fc_min_players (seat_format s))")
  case True
  with wf show ?thesis by (auto simp: apply_remove_def Let_def lobby_safe_def)
next
  case False
  let ?s = "s\<lparr>seat_kinds := vec_remove (unat seat) (seat_kinds s), seat_tokens := vec_remove (unat seat) (seat_tokens s)\<rparr>"
  have i: "0 < unat seat" "unat seat < length (seat_kinds s)" "unat seat < length (seat_tokens s)"
    using False wf by (auto simp: lobby_wf_def)
  have "lobby_wf ?s" by (rule lobby_wf_remove [OF wf i(1,2)])
  with False wf i show ?thesis by (auto simp: apply_remove_def Let_def lobby_safe_def split: seat_kind.split)
qed

lemma apply_seat_safe:
  assumes "resolver_total resolve" and "lobby_wf s"
  shows "lobby_safe s (apply_seat resolve s m)"
proof -
  have "lobby_safe s (apply_start s)" using assms(2) by (auto simp: apply_start_def lobby_safe_def lobby_wf_def)
  with assms show ?thesis
    by (cases m) (auto simp: apply_seat_def lobby_safe_def [of s "(s, _)"] set_kind_safe remove_safe)
qed

text \<open>The resolver is fixed for the life of a lobby; a host supplies one that answers or fails.\<close>

definition answering :: "('d, 'p) deck_resolver \<Rightarrow> ('d, 'p) deck_resolver" where
  "answering resolve deck = (case resolve deck of Panic \<Rightarrow> Err [] | r \<Rightarrow> r)"

lemma answering_total: "resolver_total (answering resolve)"
  by (simp add: resolver_total_def answering_def split: rust_result.split)

lemma answering_id: "resolver_total resolve \<Longrightarrow> answering resolve = resolve"
  by (rule ext) (auto simp: resolver_total_def answering_def split: rust_result.split)

interpretation lobby: validating_reducer "apply_seat (answering resolve)" lobby_wf for resolve
  using apply_seat_safe [OF answering_total] by unfold_locales (auto simp: lobby_safe_def)

subsection \<open>Tokens, removals and teams\<close>

lemma put_seat_Ok:
  "put_seat s i k d = (s', Ok d') \<longleftrightarrow>
     i < length (seat_tokens s) \<and> d' = d \<and> s' = s\<lparr>seat_kinds := (seat_kinds s)[i := k], seat_tokens := (seat_tokens s)[i := []]\<rparr>"
  by (auto simp: put_seat_def)

text \<open>A token that a mutation reports as invalid opens no seat any more.\<close>

lemma invalidated_token_gone:
  assumes wf: "lobby_wf s" and acc: "apply_seat resolve s m = (s', Ok d)" and tok: "t \<in> set (invalidated_tokens d)" "t \<noteq> []"
  shows "t \<in> set (seat_tokens s)" "t \<notin> set (seat_tokens s')"
proof -
  obtain seat kind where m: "m = SetKind seat kind"
    using acc tok(1) by (cases m)
      (auto simp: apply_seat_def apply_start_def apply_remove_def removal_delta_def empty_delta_def Let_def split: if_splits seat_kind.splits)
  let ?i = "unat seat"
  have i: "?i < length (seat_kinds s)" "length (seat_tokens s) = length (seat_kinds s)"
    using acc m wf by (auto simp: apply_seat_def apply_set_kind_def lobby_wf_def Let_def split: if_splits)
  have res: "t = seat_tokens s ! ?i \<and> seat_tokens s' = (seat_tokens s)[?i := []]"
    using acc tok(1) m
    by (auto simp: apply_seat_def apply_set_kind_def with_deck_def put_seat_Ok empty_delta_def Let_def
        split: if_splits seat_kind.splits rust_result.splits)
  then show "t \<in> set (seat_tokens s)" using i by simp
  show "t \<notin> set (seat_tokens s')"
  proof
    assume "t \<in> set (seat_tokens s')"
    then obtain j where j: "j < length (seat_kinds s)" "(seat_tokens s)[?i := []] ! j = seat_tokens s ! ?i"
      using res i by (auto simp: in_set_conv_nth)
    with res tok(2) i have "j \<noteq> ?i" by auto
    with j have "seat_tokens s ! j = seat_tokens s ! ?i" by simp
    then show False using wf res tok(2) i j \<open>j \<noteq> ?i\<close> unfolding lobby_wf_def by (metis linorder_neqE_nat)
  qed
qed

text \<open>After a removal every later seat is found where the renumbering says.\<close>

lemma removal_renumbers:
  assumes wf: "lobby_wf s" and acc: "apply_seat resolve s (Remove seat) = (s', Ok d)"
  obtains r where "delta_renumbering d = Some r" "removed_index r = seat"
    "length (seat_kinds s') + 1 = length (seat_kinds s)" "unat (fc_min_players (seat_format s)) \<le> length (seat_kinds s')"
    "map (\<lambda>(old, new). (unat old, unat new)) (remapping r) = map (\<lambda>k. (Suc k, k)) [unat seat..<length (seat_kinds s')]"
    "\<And>old new. (old, new) \<in> set (remapping r) \<Longrightarrow>
       seat_kinds s' ! unat new = seat_kinds s ! unat old \<and> seat_tokens s' ! unat new = seat_tokens s ! unat old"
    "\<And>k. k < unat seat \<Longrightarrow> seat_kinds s' ! k = seat_kinds s ! k \<and> seat_tokens s' ! k = seat_tokens s ! k"
proof -
  let ?n = "length (seat_kinds s)" and ?i = "unat seat"
  from wf have n: "?n < 256" "length (seat_tokens s) = ?n" by (simp_all add: lobby_wf_def)
  from acc have i: "0 < ?i" "?i < ?n" "unat (fc_min_players (seat_format s)) < ?n"
    and s': "s' = s\<lparr>seat_kinds := vec_remove ?i (seat_kinds s), seat_tokens := vec_remove ?i (seat_tokens s)\<rparr>"
    and d: "d = removal_delta seat (?n - 1) (is_ai (seat_kinds s ! ?i))"
    by (auto simp: apply_seat_def apply_remove_def Let_def split: if_splits seat_kind.splits)
  have suc: "unat (seat + 1) = Suc ?i" using i n by (simp add: unat_word_ariths)
  have rem: "map (\<lambda>(old, new). (unat old, unat new)) (map (\<lambda>old. (as_u8 old, as_u8 old - 1)) [Suc ?i..<?n])
      = map (\<lambda>k. (Suc k, k)) [?i..<?n - 1]"
  proof -
    have "Suc (?n - 1) = ?n" using i by simp
    then have "[Suc ?i..<?n] = map Suc [?i..<?n - 1]" by (simp only: map_Suc_upt)
    moreover have "unat (as_u8 (Suc k)) = Suc k" "unat (as_u8 (Suc k) - 1) = k" if "k < ?n - 1" for k
    proof -
      show u: "unat (as_u8 (Suc k)) = Suc k" using that n by simp
      have "1 \<le> as_u8 (Suc k)" using u by (simp add: word_le_nat_alt)
      then show "unat (as_u8 (Suc k) - 1) = k" using u by (simp add: unat_sub)
    qed
    ultimately show ?thesis by simp
  qed
  let ?r = "\<lparr>removed_index = seat, remapping = map (\<lambda>old. (as_u8 old, as_u8 old - 1)) [Suc ?i..<?n]\<rparr>"
  have "Suc (unat (as_u8 (?n - 1))) = ?n" using i n by simp
  then have r: "delta_renumbering d = Some ?r" by (simp add: d removal_delta_def suc del: upt_Suc)
  have len: "length (seat_kinds s') = ?n - 1" using i by (simp add: s' rust_len)
  have nth: "seat_kinds s' ! k = seat_kinds s ! (if k < ?i then k else Suc k)" "seat_tokens s' ! k = seat_tokens s ! (if k < ?i then k else Suc k)"
    if "k < ?n - 1" for k using that i n by (simp_all add: s' nth_vec_remove)
  have moved: "seat_kinds s' ! unat new = seat_kinds s ! unat old \<and> seat_tokens s' ! unat new = seat_tokens s ! unat old"
    if "(old, new) \<in> set (remapping ?r)" for old new
  proof -
    from that have "(unat old, unat new) \<in> set (map (\<lambda>(old, new). (unat old, unat new)) (remapping ?r))" by force
    then have "(unat old, unat new) \<in> set (map (\<lambda>k. (Suc k, k)) [?i..<?n - 1])" unfolding renumbering.simps rem .
    then obtain k where k: "unat old = Suc k" "unat new = k" "?i \<le> k" "k < ?n - 1" by auto
    then show ?thesis using nth [of k] by simp
  qed
  show thesis
    by (rule that [OF r]) (use i len rem nth moved in auto)
qed

text \<open>No two seats of a lobby share a place in a team.\<close>

lemma heroes_counted:
  "length (filter (\<lambda>k. as_u8 k \<noteq> a) [0..<m]) = (if unat a < m then m - 1 else m)" if "m \<le> 256"
  using that
proof (induction m)
  case (Suc m)
  then have "as_u8 m = a \<longleftrightarrow> unat a = m" by (auto simp: word_unat_eq_iff)
  with Suc show ?case by auto
qed simp

lemma seat_team_info_inj:
  assumes "seat_team_info_of fc a = Some i" and "seat_team_info_of fc b = Some i"
  shows "a = b"
proof (cases "topology fc")
  case IndividualSeats
  with assms show ?thesis by (simp add: seat_team_info_of_def)
next
  case (FixedTeams k m t)
  with assms have e: "i = \<lparr>team_index = a div k, position_in_team = a mod k\<rparr>" "i = \<lparr>team_index = b div k, position_in_team = b mod k\<rparr>"
    by (auto simp: seat_team_info_of_def split: if_splits)
  have "a div k * k + a mod k = a" "b div k * k + b mod k = b" by (rule div_mult_mod_eq)+
  with e show ?thesis by (metis seat_team_info.ext_inject)
next
  case (OneVsMany x t)
  let ?h = "\<lambda>s. as_u8 (length (filter (\<lambda>k. as_u8 k \<noteq> x) [0..<unat s]))"
  have h: "unat (?h s) = (if unat x < unat s then unat s - 1 else unat s)" for s :: u8
  proof -
    have "unat s < 256" "unat s - 1 < 256" using unat_u8_bound [of s] by linarith+
    then show ?thesis using heroes_counted [of "unat s" x] by simp
  qed
  have ab: "(a = x \<longleftrightarrow> b = x) \<and> (a \<noteq> x \<longrightarrow> ?h a = ?h b)"
    using assms OneVsMany by (auto simp: seat_team_info_of_def split: if_splits)
  show ?thesis
  proof (cases "a = x")
    case False
    with ab have "unat (?h a) = unat (?h b)" "unat a \<noteq> unat x" "unat b \<noteq> unat x" by (auto simp: word_unat_eq_iff)
    then show ?thesis unfolding h by (auto simp: word_unat_eq_iff split: if_splits)
  qed (use ab in simp)
qed

subsection \<open>Properties\<close>

text \<open>A lobby with a host, an open seat and a guest, and a resolver that knows every deck.\<close>

definition sample_lobby :: "unit seat_state" where
  "sample_lobby =
     \<lparr>seat_kinds = [HostHuman, WaitingHuman, JoinedHuman], seat_tokens = [''host'', [], ''guest''],
      seat_format = \<lparr>fc_format = TwoHeadedGiant, fc_min_players = 2, fc_max_players = 4, fc_team_based = True,
        fc_archenemy_player = None\<rparr>, game_started = False\<rparr>"

definition sample_resolver :: "(unit, unit) deck_resolver" where
  "sample_resolver deck = Ok ()"

lemma sample_lobby_wf: "lobby_wf sample_lobby"
  by (auto simp: lobby_wf_def sample_lobby_def less_Suc_eq numeral_3_eq_3)

text \<open>
  C37. Whatever sequence of mutations a host sends to a well-formed lobby, no call panics (as long as
  the deck resolver does not), a refused mutation changes nothing, and the lobby stays well-formed:
  one host on seat 0, a token per seat, tokens with seated humans only and never shared.
\<close>

theorem lobby_never_panics:
  assumes "lobby_wf s" and "resolver_total resolve" and "s' = foldl (\<lambda>t m. fst (apply_seat resolve t m)) s ms"
  shows "lobby_wf s' \<and> snd (apply_seat resolve s' m) \<noteq> Panic \<and>
    (is_ok (snd (apply_seat resolve s' m)) \<or> fst (apply_seat resolve s' m) = s')"
proof -
  have wf: "lobby_wf s'"
    using lobby.play_inv [OF assms(1), of resolve ms] unfolding lobby.play_def unfolding assms(3) answering_id [OF assms(2)] .
  with apply_seat_safe [OF assms(2) wf, of m] show ?thesis by (simp add: lobby_safe_def)
qed

theorem lobby_never_panics_witness:
  "lobby_wf (foldl (\<lambda>t m. fst (apply_seat sample_resolver t m)) sample_lobby [SetKind 1 (Ai Easy RandomDeck), Start, Remove 2])"
  using lobby_never_panics [OF sample_lobby_wf _ refl, of sample_resolver "[SetKind 1 (Ai Easy RandomDeck), Start, Remove 2]"]
  by (simp add: resolver_total_def sample_resolver_def del: foldl_Cons)

text \<open>
  A token that an accepted mutation reports as invalidated belonged to a seat of the lobby and
  belongs to none afterwards, so the player it was given to cannot come back with it.
\<close>

theorem evicted_token_is_dead:
  assumes "lobby_wf s" and "apply_seat resolve s m = (s', Ok d)" and "t \<in> set (invalidated_tokens d)" and "t \<noteq> []"
  shows "t \<in> set (seat_tokens s) \<and> t \<notin> set (seat_tokens s')"
  using invalidated_token_gone [OF assms] by blast

text \<open>
  Removing a seat keeps at least the format's minimum of seats, moves every later seat down by
  one with its token, leaves the earlier ones, and reports exactly these moves as the renumbering.
\<close>

theorem removal_renumbering_exact:
  assumes "lobby_wf s" and "apply_seat resolve s (Remove seat) = (s', Ok d)"
  shows "\<exists>r. delta_renumbering d = Some r \<and> removed_index r = seat \<and>
    length (seat_kinds s') + 1 = length (seat_kinds s) \<and> unat (fc_min_players (seat_format s)) \<le> length (seat_kinds s') \<and>
    map (\<lambda>(old, new). (unat old, unat new)) (remapping r) = map (\<lambda>k. (Suc k, k)) [unat seat..<length (seat_kinds s')] \<and>
    (\<forall>(old, new)\<in>set (remapping r). seat_kinds s' ! unat new = seat_kinds s ! unat old \<and> seat_tokens s' ! unat new = seat_tokens s ! unat old) \<and>
    (\<forall>k<unat seat. seat_kinds s' ! k = seat_kinds s ! k \<and> seat_tokens s' ! k = seat_tokens s ! k)"
  by (rule removal_renumbers [OF assms]) (auto simp: split_beta)

text \<open>
  In a team format no two seats of a lobby share a place: the team and the position in it
  determine the seat, for two-headed teams and for an archenemy on any seat.
\<close>

theorem team_places_unique:
  assumes "seat_team_info_of fc a = Some i" and "seat_team_info_of fc b = Some i"
  shows "a = b"
  by (rule seat_team_info_inj [OF assms])

end
