(* ===== verification/Tournament_Credential.thy ===== *)
theory Tournament_Credential
  imports Prelude
begin

text \<open>
  Bearer credentials of tournaments (\<^verbatim>\<open>src/crates/lobby-broker/src/tournament.rs\<close>, lines 48 to 445): minting,
  the verdict on a presented secret, and renewal with its idempotent replay. The lemmas show what a
  holder of an old secret can and cannot do.

  \<^verbatim>\<open>BrokerEnv\<close> (\<^verbatim>\<open>env.rs\<close>) is injected: \<open>clock env i\<close> is the \<open>i\<close>-th reading of the clock in one operation, and
  \<open>fresh_token env\<close> the token it mints; no operation mints more than one. Milliseconds are \<^verbatim>\<open>u64\<close> values.
\<close>

unbundle bit_operations_syntax

subsection \<open>Time windows\<close>

definition REGISTRATION_TIMEOUT_SECS :: u64 where
  "REGISTRATION_TIMEOUT_SECS = 300"

definition IN_PROGRESS_ABANDON_SECS :: u64 where
  "IN_PROGRESS_ABANDON_SECS = 7 * 24 * 60 * 60"

definition TERMINAL_RETENTION_SECS :: u64 where
  "TERMINAL_RETENTION_SECS = 30 * 24 * 60 * 60"

definition TOURNAMENT_CREDENTIAL_TTL_MS :: u64 where
  "TOURNAMENT_CREDENTIAL_TTL_MS = IN_PROGRESS_ABANDON_SECS * 1000"

record broker_env =
  clock :: "nat \<Rightarrow> u64"
  fresh_token :: string

subsection \<open>Credentials\<close>

datatype tournament_role = Organizer | Player

datatype credential_verdict = Accepted | ExpiredVerdict | MismatchVerdict

record minted_credential =
  minted_secret :: string
  minted_expires_at_ms :: u64

datatype renew_outcome = Minted minted_credential | Replayed minted_credential | RenewExpired | RenewMismatch

datatype renew_kind = Mintable | Replayable | ExpiredKind | MismatchKind

record rotation_record =
  superseded_secret :: string
  rotation_nonce :: string

record tournament_credential =
  secret :: string
  expires_at_ms :: u64
  last_rotation :: "rotation_record option"

text \<open>The accumulator of \<^verbatim>\<open>constant_time_eq\<close> is the disjunction of the bitwise differences of the bytes.\<close>

definition byte_diff :: "char \<Rightarrow> char \<Rightarrow> u8" where
  "byte_diff x y = (of_nat (of_char x) :: u8) XOR of_nat (of_char y)"

definition constant_time_eq :: "string \<Rightarrow> string \<Rightarrow> bool" where
  "constant_time_eq a b =
     (if length a \<noteq> length b then False
      else foldl (\<lambda>diff (x, y). diff OR byte_diff x y) 0 (zip a b) = 0)"

definition mint :: "broker_env \<Rightarrow> nat \<Rightarrow> tournament_credential \<times> minted_credential" where
  "mint env i =
     (let token = fresh_token env; expires = clock env i + TOURNAMENT_CREDENTIAL_TTL_MS
      in (\<lparr>secret = token, expires_at_ms = expires, last_rotation = None\<rparr>,
          \<lparr>minted_secret = token, minted_expires_at_ms = expires\<rparr>))"

definition verdict :: "tournament_credential \<Rightarrow> string \<Rightarrow> u64 \<Rightarrow> credential_verdict" where
  "verdict c presented now_ms =
     (if secret c = [] \<or> presented = [] then MismatchVerdict
      else if \<not> constant_time_eq (secret c) presented then MismatchVerdict
      else if expires_at_ms c \<le> now_ms then ExpiredVerdict
      else Accepted)"

definition accepts :: "tournament_credential \<Rightarrow> string \<Rightarrow> u64 \<Rightarrow> bool" where
  "accepts c presented now_ms \<longleftrightarrow> verdict c presented now_ms = Accepted"

definition renew_kind_of :: "tournament_credential \<Rightarrow> string \<Rightarrow> string \<Rightarrow> u64 \<Rightarrow> renew_kind" where
  "renew_kind_of c presented nonce now_ms =
     (case verdict c presented now_ms of
        Accepted \<Rightarrow> Mintable
      | ExpiredVerdict \<Rightarrow> ExpiredKind
      | MismatchVerdict \<Rightarrow>
          (if nonce \<noteq> []
           then (case last_rotation c of
               None \<Rightarrow> MismatchKind
             | Some rec \<Rightarrow>
                 (if constant_time_eq (superseded_secret rec) presented \<and> constant_time_eq (rotation_nonce rec) nonce
                  then (if expires_at_ms c \<le> now_ms then ExpiredKind else Replayable)
                  else MismatchKind))
           else MismatchKind))"

text \<open>\<open>i\<close> is the number of clock readings the operation has made before.\<close>

definition renew ::
  "tournament_credential \<Rightarrow> string \<Rightarrow> string \<Rightarrow> broker_env \<Rightarrow> nat \<Rightarrow> tournament_credential \<times> renew_outcome" where
  "renew c presented nonce env i =
     (let now_ms = clock env i in
      case renew_kind_of c presented nonce now_ms of
        Mintable \<Rightarrow>
          (let token = fresh_token env; expires = now_ms + TOURNAMENT_CREDENTIAL_TTL_MS
           in (\<lparr>secret = token, expires_at_ms = expires,
                last_rotation = (if nonce = [] then None
                  else Some \<lparr>superseded_secret = secret c, rotation_nonce = nonce\<rparr>)\<rparr>,
               Minted \<lparr>minted_secret = token, minted_expires_at_ms = expires\<rparr>))
      | Replayable \<Rightarrow> (c, Replayed \<lparr>minted_secret = secret c, minted_expires_at_ms = expires_at_ms c\<rparr>)
      | ExpiredKind \<Rightarrow> (c, RenewExpired)
      | MismatchKind \<Rightarrow> (c, RenewMismatch))"

subsection \<open>The comparison decides equality\<close>

lemma xor_zero: "(x :: u8) XOR y = 0 \<longleftrightarrow> x = y"
proof
  assume "x XOR y = 0"
  then have "(x XOR y) XOR y = 0 XOR y" by (simp only:)
  then show "x = y" by (simp add: xor.assoc)
qed simp

lemma byte_diff_zero: "byte_diff x y = 0 \<longleftrightarrow> x = y"
  using nat_of_char_less_256 [of x] nat_of_char_less_256 [of y]
  by (simp add: byte_diff_def xor_zero word_of_nat_eq_iff take_bit_nat_eq_self)

lemma foldl_diff_zero: "foldl (\<lambda>diff (x, y). diff OR byte_diff x y) d xs = 0 \<longleftrightarrow> d = 0 \<and> (\<forall>(x, y)\<in>set xs. x = y)"
  by (induction xs arbitrary: d) (auto simp: byte_diff_zero or_eq_0_iff)

lemma constant_time_eq_iff [simp]: "constant_time_eq a b \<longleftrightarrow> a = b"
  by (auto simp: constant_time_eq_def foldl_diff_zero list_eq_iff_zip_eq)

subsection \<open>Renewal\<close>

lemma accepts_iff: "accepts c presented now_ms \<longleftrightarrow> secret c \<noteq> [] \<and> presented = secret c \<and> now_ms < expires_at_ms c"
  by (auto simp: accepts_def verdict_def)

lemma renew_kind_iff:
  "renew_kind_of c presented nonce now_ms = Mintable \<longleftrightarrow> accepts c presented now_ms"
  "renew_kind_of c presented nonce now_ms = Replayable \<Longrightarrow>
     last_rotation c = Some \<lparr>superseded_secret = presented, rotation_nonce = nonce\<rparr> \<and> nonce \<noteq> [] \<and> now_ms < expires_at_ms c"
  by (auto simp: renew_kind_of_def accepts_def split: credential_verdict.splits option.splits if_splits)

lemma renew_without_secret:
  assumes "\<not> accepts c presented (clock env i)"
  shows "fst (renew c presented nonce env i) = c" and "snd (renew c presented nonce env i) \<noteq> Minted m"
    and "snd (renew c presented nonce env i) = Replayed m \<Longrightarrow>
      last_rotation c = Some \<lparr>superseded_secret = presented, rotation_nonce = nonce\<rparr> \<and> nonce \<noteq> []
      \<and> m = \<lparr>minted_secret = secret c, minted_expires_at_ms = expires_at_ms c\<rparr>"
  using assms renew_kind_iff [of c presented nonce "clock env i"]
  by (auto simp: renew_def Let_def split: renew_kind.splits)

lemma renew_mints:
  assumes "accepts c presented (clock env i)"
  shows "renew c presented nonce env i =
    (\<lparr>secret = fresh_token env, expires_at_ms = clock env i + TOURNAMENT_CREDENTIAL_TTL_MS,
      last_rotation = (if nonce = [] then None else Some \<lparr>superseded_secret = presented, rotation_nonce = nonce\<rparr>)\<rparr>,
     Minted \<lparr>minted_secret = fresh_token env, minted_expires_at_ms = clock env i + TOURNAMENT_CREDENTIAL_TTL_MS\<rparr>)"
  using assms renew_kind_iff(1) [of c presented nonce "clock env i"] by (simp add: renew_def Let_def accepts_iff)

lemma renew_replays:
  assumes "last_rotation c = Some \<lparr>superseded_secret = presented, rotation_nonce = nonce\<rparr>" and "nonce \<noteq> []"
    and "presented \<noteq> secret c" and "clock env i < expires_at_ms c"
  shows "renew c presented nonce env i = (c, Replayed \<lparr>minted_secret = secret c, minted_expires_at_ms = expires_at_ms c\<rparr>)"
  using assms by (auto simp: renew_def renew_kind_of_def verdict_def Let_def)

text \<open>A history of renewal requests, each a presented secret, a nonce and the environment it is handled in.\<close>

definition renew_all :: "tournament_credential \<Rightarrow> (string \<times> string \<times> broker_env) list \<Rightarrow> tournament_credential" where
  "renew_all c requests = foldl (\<lambda>c (presented, nonce, env). fst (renew c presented nonce env 1)) c requests"

lemma renew_all_without_secret:
  "\<forall>(presented, nonce, env)\<in>set requests. presented \<noteq> secret c \<Longrightarrow> renew_all c requests = c"
proof (induction requests)
  case Nil
  then show ?case by (simp add: renew_all_def)
next
  case (Cons r requests)
  obtain presented nonce env where r: "r = (presented, nonce, env)" by (metis prod_cases3)
  from Cons.prems have "\<not> accepts c presented (clock env 1)" by (auto simp: r accepts_iff)
  from renew_without_secret(1) [OF this] Cons show ?case by (simp add: renew_all_def r)
qed

text \<open>C39. Renewing a credential is safe and can be retried. A renewal with the live secret mints the fresh token for a full
  term. Afterwards the old secret opens nothing; no series of requests that does not present the new secret changes the credential; the
  same request sent again before the new term ends, as after a lost reply, answers the token that was already minted; and the old secret
  with any other nonce is refused.\<close>

theorem renewal_safe_and_retryable:
  assumes "accepts c presented (clock env i)" and "nonce \<noteq> []" and "fresh_token env \<noteq> presented" and "renew c presented nonce env i = (c', outcome)"
  shows "outcome = Minted \<lparr>minted_secret = fresh_token env, minted_expires_at_ms = clock env i + TOURNAMENT_CREDENTIAL_TTL_MS\<rparr>
    \<and> \<not> accepts c' presented now
    \<and> ((\<forall>(s, n, e)\<in>set requests. s \<noteq> fresh_token env) \<longrightarrow> renew_all c' requests = c')
    \<and> (clock env' j < expires_at_ms c' \<longrightarrow> renew c' presented nonce env' j
        = (c', Replayed \<lparr>minted_secret = fresh_token env, minted_expires_at_ms = clock env i + TOURNAMENT_CREDENTIAL_TTL_MS\<rparr>))
    \<and> (other \<noteq> nonce \<longrightarrow> renew c' presented other env' j = (c', RenewMismatch))"
proof -
  let ?c = "\<lparr>secret = fresh_token env, expires_at_ms = clock env i + TOURNAMENT_CREDENTIAL_TTL_MS,
      last_rotation = Some \<lparr>superseded_secret = presented, rotation_nonce = nonce\<rparr>\<rparr>"
  from assms renew_mints [OF assms(1), of nonce] have c': "c' = ?c"
    and out: "outcome = Minted \<lparr>minted_secret = fresh_token env, minted_expires_at_ms = clock env i + TOURNAMENT_CREDENTIAL_TTL_MS\<rparr>"
    by auto
  have "renew_all c' requests = c'" if "\<forall>(s, n, e)\<in>set requests. s \<noteq> fresh_token env"
    using that by (intro renew_all_without_secret) (auto simp: c')
  moreover have "renew c' presented nonce env' j
      = (c', Replayed \<lparr>minted_secret = fresh_token env, minted_expires_at_ms = clock env i + TOURNAMENT_CREDENTIAL_TTL_MS\<rparr>)"
    if "clock env' j < expires_at_ms c'"
    using renew_replays [of c' presented nonce env' j] that assms(2,3) by (simp add: c')
  moreover have "renew c' presented other env' j = (c', RenewMismatch)" if "other \<noteq> nonce"
    using that assms(3) by (auto simp: c' renew_def renew_kind_of_def verdict_def Let_def)
  moreover have "\<not> accepts c' presented now" using assms(3) by (auto simp: c' accepts_iff)
  ultimately show ?thesis using out by blast
qed

theorem renewal_safe_and_retryable_witness:
  "renew (fst (renew \<lparr>secret = ''old'', expires_at_ms = 1000, last_rotation = None\<rparr> ''old'' ''n'' \<lparr>clock = (\<lambda>_. 5), fresh_token = ''new''\<rparr> 1))
     ''old'' ''m'' \<lparr>clock = (\<lambda>_. 6), fresh_token = ''x''\<rparr> 1
   = (fst (renew \<lparr>secret = ''old'', expires_at_ms = 1000, last_rotation = None\<rparr> ''old'' ''n'' \<lparr>clock = (\<lambda>_. 5), fresh_token = ''new''\<rparr> 1), RenewMismatch)"
proof -
  let ?c = "\<lparr>secret = ''old'', expires_at_ms = 1000, last_rotation = None\<rparr>" and ?env = "\<lparr>clock = (\<lambda>_. 5), fresh_token = ''new''\<rparr>"
  have "accepts ?c ''old'' (clock ?env 1)" by (simp add: accepts_iff)
  from renewal_safe_and_retryable [OF this, of "''n''" "fst (renew ?c ''old'' ''n'' ?env 1)" "snd (renew ?c ''old'' ''n'' ?env 1)" 0 "[]"
      "\<lparr>clock = (\<lambda>_. 6), fresh_token = ''x''\<rparr>" 1 "''m''"]
  show ?thesis by simp
qed

end
