(* ===== verification/Tournament_Rounds.thy ===== *)
theory Tournament_Rounds
  imports Prelude
begin

text \<open>
  Round construction for tournaments (\<^verbatim>\<open>src/crates/lobby-broker/src/tournament.rs\<close>): pod sizes, pairings and
  their outcomes, the queries over the pairing history, the partition of a field into pods, the fair
  selection of byes and short pods, the greedy assignment with its repair pass, and the two round builders.
  The lemmas show that a Swiss round seats every player exactly once, that the repair pass ends in a local
  optimum and never makes a round worse, and how a single-elimination bracket halves.
\<close>

subsection \<open>Pod sizes\<close>

datatype match_arity = MatchArity (arity_get: u8)

definition HEAD_TO_HEAD :: match_arity where
  "HEAD_TO_HEAD = MatchArity 2"

definition COMMANDER_POD :: match_arity where
  "COMMANDER_POD = MatchArity 4"

datatype arity_error = ArityTooSmall u8 | ArityTooLarge u8

definition arity_new :: "u8 \<Rightarrow> (match_arity, arity_error) rust_result" where
  "arity_new n =
     (if n < 2 then Err (ArityTooSmall n) else if 128 < n then Err (ArityTooLarge n) else Ok (MatchArity n))"

definition short_pod_size :: "match_arity \<Rightarrow> u8" where
  "short_pod_size a = arity_get a - 1"

datatype bracket_shape = SwissBracket | SingleEliminationBracket

subsection \<open>Pairings\<close>

text \<open>A \<^verbatim>\<open>HashMap<String, u8>\<close> of game wins is the list of its entries.\<close>

datatype pod_outcome = Decisive string "(string \<times> u8) list" | Draw

datatype pairing_outcome = Bye | Forfeit string | Reported pod_outcome

record tournament_pairing =
  tp_id :: u32
  tp_round :: u32
  tp_players :: "string list"
  tp_outcome :: "pairing_outcome option"

definition pairing_winner_of :: "tournament_pairing \<Rightarrow> string option" where
  "pairing_winner_of p =
     (case tp_outcome p of
        Some Bye \<Rightarrow> (case tp_players p of [] \<Rightarrow> None | k # _ \<Rightarrow> Some k)
      | Some (Forfeit winner) \<Rightarrow> Some winner
      | Some (Reported (Decisive winner _)) \<Rightarrow> Some winner
      | Some (Reported Draw) \<Rightarrow> None
      | None \<Rightarrow> None)"

definition seats_player :: "tournament_pairing \<Rightarrow> string \<Rightarrow> bool" where
  "seats_player p key \<longleftrightarrow> key \<in> set (tp_players p)"

definition had_bye :: "string \<Rightarrow> tournament_pairing list \<Rightarrow> bool" where
  "had_bye key history \<longleftrightarrow> list_ex (\<lambda>p. tp_players p = [key] \<and> tp_outcome p = Some Bye) history"

definition had_short_pod :: "string \<Rightarrow> match_arity \<Rightarrow> tournament_pairing list \<Rightarrow> bool" where
  "had_short_pod key arity history =
     (let short = unat (short_pod_size arity) in
      if short < 2 then False
      else list_ex (\<lambda>p. length (tp_players p) = short \<and> seats_player p key) history)"

definition prior_opponents :: "string \<Rightarrow> tournament_pairing list \<Rightarrow> string set" where
  "prior_opponents key history =
     set (concat (map (\<lambda>p. filter (\<lambda>k. k \<noteq> key) (tp_players p)) (filter (\<lambda>p. seats_player p key) history)))"

subsection \<open>The partition of a field\<close>

record round_partition =
  full_pods :: usize
  short_pods :: usize
  partition_byes :: usize

text \<open>The inner loop over the number of short pods; \<open>None\<close> when it is exhausted or breaks.\<close>

fun short_search :: "nat \<Rightarrow> nat \<Rightarrow> nat \<Rightarrow> nat list \<Rightarrow> (nat \<times> nat) option" where
  "short_search seated seats short_size [] = None"
| "short_search seated seats short_size (short # rest) =
     (if seated < short * short_size then None
      else if (seated - short * short_size) mod seats = 0
      then Some ((seated - short * short_size) div seats, short)
      else short_search seated seats short_size rest)"

fun bye_loop :: "nat \<Rightarrow> nat \<Rightarrow> nat \<Rightarrow> nat list \<Rightarrow> round_partition option" where
  "bye_loop n seats short_size [] = None"
| "bye_loop n seats short_size (byes # rest) =
     (case short_search (n - byes) seats short_size [0..<seats] of
        Some (full, short) \<Rightarrow>
          Some (if short_size < 2
            then \<lparr>full_pods = full, short_pods = 0, partition_byes = byes + short\<rparr>
            else \<lparr>full_pods = full, short_pods = short, partition_byes = byes\<rparr>)
      | None \<Rightarrow> bye_loop n seats short_size rest)"

definition partition_round :: "nat \<Rightarrow> match_arity \<Rightarrow> round_partition" where
  "partition_round n arity =
     (case bye_loop n (unat (arity_get arity)) (unat (short_pod_size arity)) [0..<Suc n] of
        Some p \<Rightarrow> p
      | None \<Rightarrow> \<lparr>full_pods = 0, short_pods = 0, partition_byes = n\<rparr>)"

subsection \<open>Rematches\<close>

definition faced_map :: "tournament_pairing list \<Rightarrow> string \<Rightarrow> string set" where
  "faced_map history seat =
     set (concat (map (\<lambda>p. filter (\<lambda>other. other \<noteq> seat) (tp_players p))
       (filter (\<lambda>p. 1 < length (tp_players p) \<and> seat \<in> set (tp_players p)) history)))"

definition have_faced :: "(string \<Rightarrow> string set) \<Rightarrow> string \<Rightarrow> string \<Rightarrow> bool" where
  "have_faced faced a b \<longleftrightarrow> b \<in> faced a"

fun pod_conflicts :: "string list \<Rightarrow> (string \<Rightarrow> string set) \<Rightarrow> nat" where
  "pod_conflicts [] faced = 0"
| "pod_conflicts (left # rest) faced =
     length (filter (\<lambda>right. have_faced faced left right) rest) + pod_conflicts rest faced"

subsection \<open>Fair selection\<close>

fun choose_indices :: "(nat list \<Rightarrow> nat \<Rightarrow> bool) \<Rightarrow> nat \<Rightarrow> nat list \<Rightarrow> nat list \<Rightarrow> nat list" where
  "choose_indices eligible wanted chosen [] = chosen"
| "choose_indices eligible wanted chosen (i # is) =
     (if length chosen = wanted then chosen
      else if eligible chosen i then choose_indices eligible wanted (chosen @ [i]) is
      else choose_indices eligible wanted chosen is)"

text \<open>Removal from the highest index down; the first component collects in the order of removal.\<close>

fun remove_indices :: "nat list \<Rightarrow> 'a list \<Rightarrow> 'a list \<times> 'a list" where
  "remove_indices [] pool = ([], pool)"
| "remove_indices (i # is) pool =
     (let (picked, rest) = remove_indices is (vec_remove i pool) in (pool ! i # picked, rest))"

definition select_fair :: "string list \<Rightarrow> nat \<Rightarrow> (string \<Rightarrow> bool) \<Rightarrow> string list \<times> string list" where
  "select_fair pool wanted already =
     (let down = rev [0..<length pool];
          chosen1 = choose_indices (\<lambda>_ i. \<not> already (pool ! i)) wanted [] down;
          chosen = (if length chosen1 < wanted then choose_indices (\<lambda>cs i. i \<notin> set cs) wanted chosen1 down else chosen1);
          (picked, rest) = remove_indices (rev (sort chosen)) pool
      in (rev picked, rest))"

subsection \<open>Greedy assignment and repair\<close>

definition next_seat_index :: "string list \<Rightarrow> string list \<Rightarrow> (string \<Rightarrow> string set) \<Rightarrow> nat" where
  "next_seat_index remaining pod faced =
     (if pod = [] then 0
      else (case position (\<lambda>candidate. list_all (\<lambda>seated. \<not> have_faced faced seated candidate) pod) remaining of
          Some i \<Rightarrow> i
        | None \<Rightarrow> 0))"

lemma next_seat_index_in_range: "remaining \<noteq> [] \<Longrightarrow> next_seat_index remaining pod faced < length remaining"
  using position_Some by (fastforce simp: next_seat_index_def split: option.split)

function fill_pod :: "string list \<Rightarrow> string list \<Rightarrow> nat \<Rightarrow> (string \<Rightarrow> string set) \<Rightarrow> string list \<times> string list" where
  "fill_pod remaining pod seats faced =
     (if length pod < seats \<and> remaining \<noteq> []
      then (let i = next_seat_index remaining pod faced
            in fill_pod (vec_remove i remaining) (pod @ [remaining ! i]) seats faced)
      else (pod, remaining))"
  by pat_completeness auto
termination
  by (relation "measure (\<lambda>(remaining, _, _, _). length remaining)")
    (auto simp: length_vec_remove next_seat_index_in_range)

declare fill_pod.simps [simp del]

fun greedy_assign :: "string list \<Rightarrow> nat list \<Rightarrow> (string \<Rightarrow> string set) \<Rightarrow> string list list" where
  "greedy_assign remaining [] faced = []"
| "greedy_assign remaining (seats # sizes) faced =
     (let (pod, rest) = fill_pod remaining [] seats faced in pod # greedy_assign rest sizes faced)"

definition swap_players :: "string list list \<Rightarrow> nat \<Rightarrow> nat \<Rightarrow> nat \<Rightarrow> nat \<Rightarrow> string list list" where
  "swap_players pods i j x y =
     pods[i := (pods ! i)[x := pods ! j ! y], j := (pods ! j)[y := pods ! i ! x]]"

text \<open>The exchanges the search tries, in its order.\<close>

definition swap_candidates :: "string list list \<Rightarrow> (string \<Rightarrow> string set) \<Rightarrow> (nat \<times> nat \<times> nat \<times> nat) list" where
  "swap_candidates pods faced =
     concat (map (\<lambda>i. if pod_conflicts (pods ! i) faced = 0 then []
       else concat (map (\<lambda>j. if i = j then []
         else concat (map (\<lambda>x. map (\<lambda>y. (i, j, x, y)) [0..<length (pods ! j)]) [0..<length (pods ! i)]))
         [0..<length pods])) [0..<length pods])"

definition swap_improves :: "string list list \<Rightarrow> (string \<Rightarrow> string set) \<Rightarrow> nat \<times> nat \<times> nat \<times> nat \<Rightarrow> bool" where
  "swap_improves pods faced = (\<lambda>(i, j, x, y).
     let before = pod_conflicts (pods ! i) faced + pod_conflicts (pods ! j) faced;
         swapped = swap_players pods i j x y
     in pod_conflicts (swapped ! i) faced + pod_conflicts (swapped ! j) faced < before)"

definition find_swap :: "string list list \<Rightarrow> (string \<Rightarrow> string set) \<Rightarrow> string list list option" where
  "find_swap pods faced =
     map_option (\<lambda>(i, j, x, y). swap_players pods i j x y)
       (find (swap_improves pods faced) (swap_candidates pods faced))"

definition total_conflicts :: "string list list \<Rightarrow> (string \<Rightarrow> string set) \<Rightarrow> nat" where
  "total_conflicts pods faced = sum_list (map (\<lambda>pod. pod_conflicts pod faced) pods)"


text \<open>Every accepted exchange lowers the number of repeated pairs of the round, which bounds the loop.\<close>

lemma sum_list_update2:
  fixes f :: "'a \<Rightarrow> nat"
  assumes "i < length xs" and "j < length xs" and "i \<noteq> j"
  shows "sum_list (map f (xs[i := u, j := v])) + f (xs ! i) + f (xs ! j) = sum_list (map f xs) + f u + f v"
proof -
  have one: "sum_list (map f (ys[k := w])) + f (ys ! k) = sum_list (map f ys) + f w" if "k < length ys" for ys k w
    using that by (induction ys arbitrary: k) (auto split: nat.split)
  from one [of i xs u] one [of j "xs[i := u]" v] assms show ?thesis by simp
qed

lemma swap_candidates_iff:
  "(i, j, x, y) \<in> set (swap_candidates pods faced) \<longleftrightarrow>
     i < length pods \<and> j < length pods \<and> i \<noteq> j \<and> pod_conflicts (pods ! i) faced \<noteq> 0
     \<and> x < length (pods ! i) \<and> y < length (pods ! j)"
  unfolding swap_candidates_def by (fastforce simp: image_iff split: if_splits)

lemma find_swap_Some:
  assumes "find_swap pods faced = Some pods'"
  obtains i j x y where "i < length pods" "j < length pods" "i \<noteq> j" "x < length (pods ! i)" "y < length (pods ! j)"
    "pods' = swap_players pods i j x y" "swap_improves pods faced (i, j, x, y)"
proof -
  from assms obtain i j x y where f: "find (swap_improves pods faced) (swap_candidates pods faced) = Some (i, j, x, y)"
    "pods' = swap_players pods i j x y" by (auto simp: find_swap_def)
  from f(1) have "(i, j, x, y) \<in> set (swap_candidates pods faced)" "swap_improves pods faced (i, j, x, y)"
    by (auto simp: find_Some_iff)
  then show thesis using f(2) by (intro that) (simp_all add: swap_candidates_iff)
qed

lemma find_swap_decreases:
  assumes "find_swap pods faced = Some pods'"
  shows "total_conflicts pods' faced < total_conflicts pods faced"
proof -
  from find_swap_Some [OF assms] obtain i j x y where s: "i < length pods" "j < length pods" "i \<noteq> j"
    "pods' = swap_players pods i j x y" "swap_improves pods faced (i, j, x, y)" by metis
  with sum_list_update2 [OF s(1-3), of "\<lambda>pod. pod_conflicts pod faced"
      "(pods ! i)[x := pods ! j ! y]" "(pods ! j)[y := pods ! i ! x]"]
  show ?thesis by (simp add: total_conflicts_def swap_players_def swap_improves_def Let_def)
qed

function repair_rematches :: "string list list \<Rightarrow> (string \<Rightarrow> string set) \<Rightarrow> string list list" where
  "repair_rematches pods faced =
     (case find_swap pods faced of
        Some pods' \<Rightarrow> repair_rematches pods' faced
      | None \<Rightarrow> pods)"
  by pat_completeness auto
termination
  by (relation "measure (\<lambda>(pods, faced). total_conflicts pods faced)") (auto simp: find_swap_decreases)

declare repair_rematches.simps [simp del]

subsection \<open>Round builders\<close>

text \<open>\<^verbatim>\<open>next_id\<close> counts up from the first identifier; \<^verbatim>\<open>u32\<close> addition wraps.\<close>

definition number_pairings :: "u32 \<Rightarrow> (u32 \<Rightarrow> 'a \<Rightarrow> tournament_pairing) \<Rightarrow> 'a list \<Rightarrow> tournament_pairing list" where
  "number_pairings first_id seat xs = map (\<lambda>(offset, x). seat (first_id + of_nat offset) x) (zip [0..<length xs] xs)"

definition build_swiss_round ::
  "string list \<Rightarrow> match_arity \<Rightarrow> tournament_pairing list \<Rightarrow> u32 \<Rightarrow> u32 \<Rightarrow> tournament_pairing list" where
  "build_swiss_round standings_order arity history round_no first_id =
     (let partition = partition_round (length standings_order) arity;
          seats = unat (arity_get arity);
          short_size = unat (short_pod_size arity);
          (bye_players, pool1) = select_fair standings_order (partition_byes partition) (\<lambda>key. had_bye key history);
          (short_players, pool2) =
            select_fair pool1 (short_pods partition * short_size) (\<lambda>key. had_short_pod key arity history);
          order = pool2 @ short_players;
          sizes = vec_resize (full_pods partition + short_pods partition) short_size
            (replicate (full_pods partition) seats);
          faced = faced_map history;
          pods = repair_rematches (greedy_assign order sizes faced) faced
      in number_pairings first_id
           (\<lambda>i pod. \<lparr>tp_id = i, tp_round = round_no, tp_players = pod, tp_outcome = None\<rparr>) pods
         @ number_pairings (first_id + of_nat (length pods))
           (\<lambda>i player. \<lparr>tp_id = i, tp_round = round_no, tp_players = [player], tp_outcome = Some Bye\<rparr>) bye_players)"

definition SINGLE_ELIMINATION_MIN_PLAYERS :: nat where
  "SINGLE_ELIMINATION_MIN_PLAYERS = 2"

definition SINGLE_ELIMINATION_MAX_PLAYERS :: nat where
  "SINGLE_ELIMINATION_MAX_PLAYERS = 8"

text \<open>\<^verbatim>\<open>next_power_of_two\<close> and \<^verbatim>\<open>trailing_zeros\<close> on values far below \<^verbatim>\<open>2^63\<close>, and \<^verbatim>\<open>slice::chunks\<close>.\<close>

fun ceil_log2 :: "nat \<Rightarrow> nat" where
  "ceil_log2 n = (if n \<le> 1 then 0 else Suc (ceil_log2 ((n + 1) div 2)))"

declare ceil_log2.simps [simp del]

definition next_power_of_two :: "nat \<Rightarrow> nat" where
  "next_power_of_two n = 2 ^ ceil_log2 n"

fun trailing_zeros :: "nat \<Rightarrow> nat" where
  "trailing_zeros n = (if n = 0 then 64 else if odd n then 0 else Suc (trailing_zeros (n div 2)))"

declare trailing_zeros.simps [simp del]

fun chunks2 :: "'a list \<Rightarrow> 'a list list" where
  "chunks2 [] = []"
| "chunks2 [a] = [[a]]"
| "chunks2 (a # b # xs) = [a, b] # chunks2 xs"

datatype bracket_error = UnsupportedField nat | BracketDecided | NoWinnerYet u32

fun winners_of :: "tournament_pairing list \<Rightarrow> (string list, bracket_error) rust_result" where
  "winners_of [] = Ok []"
| "winners_of (p # ps) =
     (case pairing_winner_of p of
        None \<Rightarrow> Err (NoWinnerYet (tp_id p))
      | Some winner \<Rightarrow>
          (case winners_of ps of Ok ws \<Rightarrow> Ok (winner # ws) | Err e \<Rightarrow> Err e | Panic \<Rightarrow> Panic))"

text \<open>Seed \<open>i\<close> against slot \<open>slots - 1 - i\<close>; a slot past the end of the field is empty.\<close>

definition seed_bracket :: "string list \<Rightarrow> string list list" where
  "seed_bracket order =
     (let slots = next_power_of_two (length order) in
      map (\<lambda>i. case vec_get order (slots - 1 - i) of
          Some lower_seed \<Rightarrow> [order ! i, lower_seed]
        | None \<Rightarrow> [order ! i]) [0..<slots div 2])"

definition elimination_pods ::
  "string list \<Rightarrow> tournament_pairing list \<Rightarrow> u32 \<Rightarrow> (string list list, bracket_error) rust_result" where
  "elimination_pods standings_order history round_no =
     (if round_no \<le> 1
      then (let n = length standings_order in
        if SINGLE_ELIMINATION_MIN_PLAYERS \<le> n \<and> n \<le> SINGLE_ELIMINATION_MAX_PLAYERS
        then Ok (seed_bracket standings_order)
        else Err (UnsupportedField n))
      else (let previous = filter (\<lambda>p. tp_round p = round_no - 1) history in
        if length previous < 2 then Err BracketDecided
        else (case winners_of previous of
            Ok winners \<Rightarrow> Ok (chunks2 winners)
          | Err e \<Rightarrow> Err e
          | Panic \<Rightarrow> Panic)))"

definition build_single_elimination_round ::
  "string list \<Rightarrow> tournament_pairing list \<Rightarrow> u32 \<Rightarrow> u32 \<Rightarrow> (tournament_pairing list, bracket_error) rust_result" where
  "build_single_elimination_round standings_order history round_no first_id =
     (case elimination_pods standings_order history round_no of
        Ok pods \<Rightarrow> Ok (number_pairings first_id
          (\<lambda>i players. \<lparr>tp_id = i, tp_round = round_no, tp_players = players,
             tp_outcome = (if length players = 1 then Some Bye else None)\<rparr>) pods)
      | Err e \<Rightarrow> Err e
      | Panic \<Rightarrow> Panic)"

text \<open>The \<^verbatim>\<open>while\<close> loop of the Swiss round count.\<close>

function doubling_rounds :: "nat \<Rightarrow> nat \<Rightarrow> nat" where
  "doubling_rounds rounds target = (if 2 ^ rounds < target then doubling_rounds (Suc rounds) target else rounds)"
  by pat_completeness auto
termination
  by (relation "measure (\<lambda>(rounds, target). target - 2 ^ rounds)") (auto simp: diff_less_mono2)

declare doubling_rounds.simps [simp del]

definition default_total_rounds :: "bracket_shape \<Rightarrow> match_arity \<Rightarrow> u32 \<Rightarrow> u32" where
  "default_total_rounds bracket arity player_count =
     (case bracket of
        SingleEliminationBracket \<Rightarrow> of_nat (trailing_zeros (next_power_of_two (unat player_count)))
      | SwissBracket \<Rightarrow>
          (if arity = HEAD_TO_HEAD then of_nat (doubling_rounds 0 (unat (max player_count 8)))
           else if player_count \<le> 16 then 2
           else if player_count \<le> 24 then 3
           else if player_count \<le> 32 then 4
           else 5))"

subsection \<open>The partition is optimal\<close>

definition arity_ok :: "match_arity \<Rightarrow> bool" where
  "arity_ok a \<longleftrightarrow> 2 \<le> arity_get a \<and> arity_get a \<le> 128"

lemma arity_new_ok: "arity_new n = Ok a \<longleftrightarrow> a = MatchArity n \<and> arity_ok a"
  by (auto simp: arity_new_def arity_ok_def)

lemma arity_sizes:
  assumes "arity_ok a"
  shows "2 \<le> unat (arity_get a)" and "unat (short_pod_size a) = unat (arity_get a) - 1"
proof -
  from assms have "(2 :: u8) \<le> arity_get a" by (simp add: arity_ok_def)
  then show "2 \<le> unat (arity_get a)" by (simp add: word_le_nat_alt)
  from \<open>2 \<le> arity_get a\<close> have "1 \<le> arity_get a" by (simp add: word_le_nat_alt)
  then show "unat (short_pod_size a) = unat (arity_get a) - 1" by (simp add: short_pod_size_def unat_sub)
qed

definition pods_fit :: "nat \<Rightarrow> nat \<Rightarrow> nat \<Rightarrow> nat \<Rightarrow> bool" where
  "pods_fit seated seats short_size short \<longleftrightarrow> (\<exists>full. seated = full * seats + short * short_size)"

lemma pods_fit_iff:
  "0 < seats \<Longrightarrow> pods_fit m seats ss t \<longleftrightarrow> t * ss \<le> m \<and> (m - t * ss) mod seats = 0"
  unfolding pods_fit_def by (metis add.commute diff_add_inverse2 div_mod_decomp add_0_right le_add2 le_add_diff_inverse2 mod_mult_self2_is_0)

lemma short_search_spec:
  assumes "0 < seats"
  shows "short_search m seats ss [k..<b] = Some (full, short) \<Longrightarrow>
      m = full * seats + short * ss \<and> k \<le> short \<and> short < b \<and> (\<forall>t. k \<le> t \<and> t < short \<longrightarrow> \<not> pods_fit m seats ss t)"
    and "short_search m seats ss [k..<b] = None \<Longrightarrow> k \<le> t \<Longrightarrow> t < b \<Longrightarrow> \<not> pods_fit m seats ss t"
proof (induction "b - k" arbitrary: k)
  case 0
  { case 1 with 0 show ?case by simp
  next case 2 with 0 show ?case by simp }
next
  case (Suc d)
  from Suc.hyps(3) have up: "[k..<b] = k # [Suc k..<b]" and d: "d = b - Suc k" and kb: "k < b" by (auto simp: upt_conv_Cons)
  note IH = Suc.hyps(1) [OF d] Suc.hyps(2) [OF d]
  have mono: "\<not> pods_fit m seats ss t" if "m < k * ss" "k \<le> t" for t
  proof -
    have "\<not> t * ss \<le> m" using that(1) mult_le_mono1 [OF that(2), of ss] by linarith
    then show ?thesis by (simp add: pods_fit_iff [OF assms])
  qed
  { case 1
    show ?case
    proof (cases "pods_fit m seats ss k")
      case True
      with 1 up assms kb show ?thesis
        by (auto simp: pods_fit_iff [OF assms] split: if_splits)
    next
      case False
      with 1 up have "short_search m seats ss [Suc k..<b] = Some (full, short)"
        by (auto simp: pods_fit_iff [OF assms] split: if_splits)
      from IH(1) [OF this] False show ?thesis by (metis Suc_leD le_antisym not_less_eq_eq)
    qed
  next
    case 2
    show ?case
    proof (cases "m < k * ss")
      case True
      with mono 2 show ?thesis by blast
    next
      case False
      with 2 up have "\<not> pods_fit m seats ss k" "short_search m seats ss [Suc k..<b] = None"
        by (auto simp: pods_fit_iff [OF assms] split: if_splits)
      with IH(2) 2 show ?thesis by (metis Suc_leI le_neq_implies_less)
    qed }
qed

lemma pods_fit_reduce:
  assumes "pods_fit m seats (seats - 1) t" and "0 < seats"
  shows "pods_fit m seats (seats - 1) (t mod seats)"
proof -
  from assms(1) obtain full where m: "m = full * seats + t * (seats - 1)" by (auto simp: pods_fit_def)
  have "t * (seats - 1) = (t div seats * seats + t mod seats) * (seats - 1)" by simp
  also have "\<dots> = (t div seats * (seats - 1)) * seats + t mod seats * (seats - 1)"
    by (simp only: add_mult_distrib mult.assoc mult.commute [of seats])
  finally have "m = (full + t div seats * (seats - 1)) * seats + t mod seats * (seats - 1)"
    using m by (simp only: add_mult_distrib add.assoc)
  then show ?thesis by (auto simp: pods_fit_def)
qed

text \<open>What the outer search returns: the least number of byes, and for it the least number of short pods.\<close>

lemma bye_loop_spec:
  assumes "2 \<le> seats" and "k \<le> n"
  obtains full short byes where
    "bye_loop n seats (seats - 1) [k..<Suc n] = Some (if seats - 1 < 2
       then \<lparr>full_pods = full, short_pods = 0, partition_byes = byes + short\<rparr>
       else \<lparr>full_pods = full, short_pods = short, partition_byes = byes\<rparr>)"
    "byes \<le> n" "n - byes = full * seats + short * (seats - 1)" "short < seats" "k \<le> byes"
    "\<And>t. t < short \<Longrightarrow> \<not> pods_fit (n - byes) seats (seats - 1) t"
    "\<And>b t. k \<le> b \<Longrightarrow> b < byes \<Longrightarrow> \<not> pods_fit (n - b) seats (seats - 1) t"
  using assms(2)
proof (induction "n - k" arbitrary: k thesis)
  case 0
  then have k: "k = n" by simp
  have pos: "0 < seats" using assms(1) by simp
  have "short_search 0 seats (seats - 1) [0..<seats] = Some (0, 0)" using assms(1) by (simp add: upt_conv_Cons)
  with k pos show ?case by (intro "0.prems"(1) [of 0 n 0]) auto
next
  case (Suc d)
  have pos: "0 < seats" using assms(1) by simp
  from Suc.hyps(2) have up: "[k..<Suc n] = k # [Suc k..<Suc n]" and d: "d = n - Suc k" "Suc k \<le> n"
    by (auto simp: upt_conv_Cons)
  show ?case
  proof (cases "short_search (n - k) seats (seats - 1) [0..<seats]")
    case None
    have no: "\<not> pods_fit (n - k) seats (seats - 1) t" for t
      using short_search_spec(2) [OF pos None, of "t mod seats"] pods_fit_reduce [OF _ pos] pos by auto
    show ?thesis
    proof (rule Suc.hyps(1) [OF d(1) _ d(2)])
      fix full short byes
      assume loop: "bye_loop n seats (seats - 1) [Suc k..<Suc n] = Some (if seats - 1 < 2
       then \<lparr>full_pods = full, short_pods = 0, partition_byes = byes + short\<rparr>
       else \<lparr>full_pods = full, short_pods = short, partition_byes = byes\<rparr>)"
        and rest: "byes \<le> n" "n - byes = full * seats + short * (seats - 1)" "short < seats" "Suc k \<le> byes"
          "\<And>t. t < short \<Longrightarrow> \<not> pods_fit (n - byes) seats (seats - 1) t"
        and least: "\<And>b t. Suc k \<le> b \<Longrightarrow> b < byes \<Longrightarrow> \<not> pods_fit (n - b) seats (seats - 1) t"
      have "\<not> pods_fit (n - b) seats (seats - 1) t" if "k \<le> b" "b < byes" for b t
        using no least that by (cases "b = k") auto
      with loop rest None up show thesis by (intro Suc.prems(1) [of full byes short]) auto
    qed
  next
    case (Some r)
    then obtain full short where r: "short_search (n - k) seats (seats - 1) [0..<seats] = Some (full, short)"
      by (cases r) auto
    from short_search_spec(1) [OF pos r] r up Suc.prems(2) show ?thesis
      by (intro Suc.prems(1) [of full k short]) auto
  qed
qed

lemma partition_round_sums:
  assumes "arity_ok a"
  shows "full_pods (partition_round n a) * unat (arity_get a)
    + short_pods (partition_round n a) * unat (short_pod_size a) + partition_byes (partition_round n a) = n"
    and "unat (arity_get a) = 2 \<longrightarrow> short_pods (partition_round n a) = 0"
proof -
  from bye_loop_spec [OF arity_sizes(1) [OF assms], of 0 n] obtain full short byes where b:
    "bye_loop n (unat (arity_get a)) (unat (arity_get a) - 1) [0..<Suc n] = Some (if unat (arity_get a) - 1 < 2
       then \<lparr>full_pods = full, short_pods = 0, partition_byes = byes + short\<rparr>
       else \<lparr>full_pods = full, short_pods = short, partition_byes = byes\<rparr>)"
    "byes \<le> n" "n - byes = full * unat (arity_get a) + short * (unat (arity_get a) - 1)" by (metis le0)
  have "unat (arity_get a) = 2" if "unat (arity_get a) - 1 < 2" using that arity_sizes [OF assms] by simp
  with b arity_sizes [OF assms] show "full_pods (partition_round n a) * unat (arity_get a)
    + short_pods (partition_round n a) * unat (short_pod_size a) + partition_byes (partition_round n a) = n"
    and "unat (arity_get a) = 2 \<longrightarrow> short_pods (partition_round n a) = 0"
    by (auto simp: partition_round_def)
qed

lemma partition_round_least:
  assumes "arity_ok a" and "unat (arity_get a) = 2 \<Longrightarrow> s = 0"
    and "f * unat (arity_get a) + s * unat (short_pod_size a) + b = n"
  shows "partition_byes (partition_round n a) \<le> b"
    and "b = partition_byes (partition_round n a) \<Longrightarrow> short_pods (partition_round n a) \<le> s"
proof -
  let ?A = "unat (arity_get a)"
  note sz = arity_sizes [OF assms(1)]
  from bye_loop_spec [OF sz(1), of 0 n] obtain full short byes where loop:
    "bye_loop n ?A (?A - 1) [0..<Suc n] = Some (if ?A - 1 < 2
       then \<lparr>full_pods = full, short_pods = 0, partition_byes = byes + short\<rparr>
       else \<lparr>full_pods = full, short_pods = short, partition_byes = byes\<rparr>)"
    and sums: "byes \<le> n" "n - byes = full * ?A + short * (?A - 1)" "short < ?A"
    and shortest: "\<And>t. t < short \<Longrightarrow> \<not> pods_fit (n - byes) ?A (?A - 1) t"
    and least: "\<And>b t. 0 \<le> b \<Longrightarrow> b < byes \<Longrightarrow> \<not> pods_fit (n - b) ?A (?A - 1) t" by (metis le0)
  have fit: "pods_fit (n - b) ?A (?A - 1) s" using assms(3) sz(2) by (auto simp: pods_fit_def)
  from fit least have "byes \<le> b" by (metis le0 not_less)
  have short_le: "short \<le> s" if "b = byes" using fit shortest that by (metis not_less)
  have two: "byes + short \<le> b" if "?A = 2"
  proof -
    from that assms have "n = 2 * f + b" by auto
    moreover from that sums have "n = byes + (2 * full + short)" "short < 2" by auto
    moreover have "pods_fit (n - 0) ?A (?A - 1) (n mod 2)"
      unfolding pods_fit_def using that by (intro exI [of _ "n div 2"]) simp
    with least [of 0] have "byes = 0" by auto
    ultimately show ?thesis by presburger
  qed
  from loop two \<open>byes \<le> b\<close> sz show "partition_byes (partition_round n a) \<le> b"
    by (auto simp: partition_round_def)
  show "short_pods (partition_round n a) \<le> s" if "b = partition_byes (partition_round n a)"
    using that loop short_le sz by (auto simp: partition_round_def split: if_splits)
qed

subsection \<open>Fair selection\<close>

lemma choose_by_predicate:
  "length chosen \<le> w \<Longrightarrow> choose_indices (\<lambda>_. P) w chosen is = chosen @ take (w - length chosen) (filter P is)"
proof (induction "is" arbitrary: chosen)
  case Nil
  then show ?case by simp
next
  case (Cons i "is")
  then show ?case by (cases "length chosen = w") (auto simp: Suc_diff_Suc [symmetric] take_Suc_Cons)
qed

lemma choose_fresh:
  "length chosen \<le> w \<Longrightarrow> distinct is \<Longrightarrow>
   choose_indices (\<lambda>cs i. i \<notin> set cs) w chosen is = chosen @ take (w - length chosen) (filter (\<lambda>i. i \<notin> set chosen) is)"
proof (induction "is" arbitrary: chosen)
  case Nil
  then show ?case by simp
next
  case (Cons i "is")
  have same: "filter (\<lambda>j. j \<notin> set (chosen @ [i])) is = filter (\<lambda>j. j \<notin> set chosen) is"
    using Cons.prems(2) by (intro filter_cong) auto
  show ?case
  proof (cases "length chosen = w \<or> i \<in> set chosen")
    case True
    with Cons show ?thesis by auto
  next
    case False
    with Cons.prems(1) have "Suc (length chosen) \<le> w" by simp
    with Cons.IH [of "chosen @ [i]"] Cons.prems False same show ?thesis
      by (simp add: Suc_diff_Suc [symmetric] take_Suc_Cons)
  qed
qed

text \<open>The indices \<open>select_fair\<close> takes out: the last eligible ones, then the last others.\<close>

definition fair_indices :: "string list \<Rightarrow> nat \<Rightarrow> (string \<Rightarrow> bool) \<Rightarrow> nat list" where
  "fair_indices pool wanted already =
     (let down = rev [0..<length pool]; c1 = take wanted (filter (\<lambda>i. \<not> already (pool ! i)) down)
      in c1 @ take (wanted - length c1) (filter (\<lambda>i. i \<notin> set c1) down))"

lemma remove_indices_descending:
  assumes "sorted_wrt (>) is" and "\<forall>i\<in>set is. i < length pool"
  shows "remove_indices is pool = (map ((!) pool) is, nths pool (- set is))"
  using assms
proof (induction "is" arbitrary: pool)
  case Nil
  then show ?case by (simp add: nths_all)
next
  case (Cons i "is")
  have len: "\<forall>j\<in>set is. j < length (vec_remove i pool)" using Cons.prems by (fastforce simp: length_vec_remove)
  have keep: "map ((!) (vec_remove i pool)) is = map ((!) pool) is"
    using Cons.prems by (auto intro: vec_remove_nth_below)
  from Cons.prems have "nths (vec_remove i pool) (- set is) = nths pool (- insert i (set is))"
    by (intro nths_vec_remove) auto
  with Cons.IH [OF _ len] Cons.prems keep show ?case by simp
qed

lemma distinct_fair_indices: "distinct (fair_indices pool w already)"
  and fair_indices_range: "set (fair_indices pool w already) \<subseteq> {..<length pool}"
  by (auto simp: fair_indices_def Let_def dest: in_set_takeD)

lemma length_fair_indices: "length (fair_indices pool w already) = min w (length pool)"
proof -
  let ?down = "rev [0..<length pool]"
  let ?c1 = "take w (filter (\<lambda>i. \<not> already (pool ! i)) ?down)"
  have sub: "set ?c1 \<subseteq> set ?down" by (auto dest: in_set_takeD)
  have "length (filter (\<lambda>i. i \<notin> set ?c1) ?down) = card (set ?down - set ?c1)"
    by (subst distinct_card [symmetric]) (auto simp: Diff_eq intro!: arg_cong [where f = card])
  also have "\<dots> = length pool - length ?c1"
    using sub by (simp add: card_Diff_subset distinct_card)
  finally have "length (filter (\<lambda>i. i \<notin> set ?c1) ?down) = length pool - length ?c1" .
  moreover have "length ?c1 \<le> length pool"
    using length_filter_le [of "\<lambda>i. \<not> already (pool ! i)" ?down] by simp
  moreover have "length ?c1 \<le> w" by simp
  moreover have "length (fair_indices pool w already)
      = length ?c1 + min (length (filter (\<lambda>i. i \<notin> set ?c1) ?down)) (w - length ?c1)"
    by (simp only: fair_indices_def Let_def length_append length_take [of "w - length ?c1"])
  ultimately show ?thesis by (auto simp: min_def simp del: length_take)
qed

lemma select_fair_nths:
  "select_fair pool w already =
     (nths pool (set (fair_indices pool w already)), nths pool (- set (fair_indices pool w already)))"
proof -
  let ?down = "rev [0..<length pool]"
  let ?c1 = "choose_indices (\<lambda>_ i. \<not> already (pool ! i)) w [] ?down"
  let ?C = "fair_indices pool w already"
  have c1: "?c1 = take w (filter (\<lambda>i. \<not> already (pool ! i)) ?down)"
    using choose_by_predicate [of "[]" w "\<lambda>i. \<not> already (pool ! i)" ?down] by simp
  have C: "(if length ?c1 < w then choose_indices (\<lambda>cs i. i \<notin> set cs) w ?c1 ?down else ?c1) = ?C"
    using choose_fresh [of ?c1 w ?down] by (auto simp: c1 fair_indices_def Let_def)
  have srt: "sort ?C = sorted_list_of_set (set ?C)"
    by (simp add: sorted_list_of_set_sort_remdups distinct_remdups_id [OF distinct_fair_indices])
  have "sorted_wrt (<) (sort ?C)" unfolding srt by (rule strict_sorted_list_of_set)
  then have "remove_indices (rev (sort ?C)) pool = (map ((!) pool) (rev (sort ?C)), nths pool (- set ?C))"
    using fair_indices_range [of pool w already] by (subst remove_indices_descending) (auto simp: sorted_wrt_rev)
  moreover have "rev (map ((!) pool) (rev (sort ?C))) = nths pool (set ?C)"
    using nths_sorted_indices [OF fair_indices_range] by (simp add: srt rev_map)
  ultimately show ?thesis unfolding select_fair_def Let_def by (simp only: C) simp
qed

lemma take_descending:
  assumes "sorted_wrt (>) xs" and "i \<in> set (take k xs)" and "j \<in> set xs" and "j \<notin> set (take k xs)"
  shows "j < (i :: nat)"
proof -
  have "j \<in> set (drop k xs)" using assms(3,4) by (metis Un_iff append_take_drop_id set_append)
  with assms(1,2) show ?thesis by (metis append_take_drop_id sorted_wrt_append)
qed

text \<open>Nobody is taken a second time while somebody who was never taken is left, and otherwise the lower standing goes first.\<close>

lemma fair_indices_fair:
  assumes "i \<in> set (fair_indices pool w already)" and "j < length pool" and "j \<notin> set (fair_indices pool w already)"
  shows "already (pool ! i) \<Longrightarrow> already (pool ! j)" and "already (pool ! i) = already (pool ! j) \<Longrightarrow> j < i"
proof -
  let ?down = "rev [0..<length pool]"
  let ?E = "filter (\<lambda>i. \<not> already (pool ! i)) ?down"
  let ?c1 = "take w ?E"
  let ?R = "filter (\<lambda>i. i \<notin> set ?c1) ?down"
  have down: "sorted_wrt (>) ?down" by (simp add: sorted_wrt_rev)
  then have desc: "sorted_wrt (>) ?E" "sorted_wrt (>) ?R" by (simp_all add: sorted_wrt_filter)
  from assms(1,3) have i: "i \<in> set ?c1 \<or> i \<in> set (take (w - length ?c1) ?R)"
    and j: "j \<notin> set ?c1" "j \<notin> set (take (w - length ?c1) ?R)" by (auto simp: fair_indices_def Let_def)
  have jR: "j \<in> set ?R" using j(1) assms(2) by simp
  have all: "k \<in> set ?c1" if "length ?c1 < w" "k < length pool" "\<not> already (pool ! k)" for k
    using that by simp
  have second: "length ?c1 < w" if "i \<notin> set ?c1" using i that by (cases "w - length ?c1") auto
  have c1: "\<not> already (pool ! k)" if "k \<in> set ?c1" for k using that by (auto dest: in_set_takeD)
  show "already (pool ! j)" if "already (pool ! i)"
  proof (rule ccontr)
    assume fresh: "\<not> already (pool ! j)"
    from that c1 [of i] have "i \<notin> set ?c1" by meson
    from all [OF second [OF this] assms(2) fresh] j(1) show False by (rule notE [rotated])
  qed
  show "j < i" if "already (pool ! i) = already (pool ! j)"
  proof (cases "i \<in> set ?c1")
    case True
    from c1 [OF True] that have "\<not> already (pool ! j)" by simp
    with assms(2) have "j \<in> set ?E" by simp
    from take_descending [OF desc(1) True this j(1)] show ?thesis .
  next
    case False
    with i have "i \<in> set (take (w - length ?c1) ?R)" by blast
    from take_descending [OF desc(2) this jR j(2)] show ?thesis .
  qed
qed

subsection \<open>Seating\<close>

lemma fill_pod_seats:
  assumes "fill_pod remaining pod n faced = (pod', rest)" and "length pod \<le> n"
  shows "mset pod' + mset rest = mset pod + mset remaining" and "length pod' = min n (length pod + length remaining)"
  using assms
proof (induction remaining pod n faced arbitrary: pod' rest rule: fill_pod.induct)
  case (1 remaining pod n faced)
  let ?i = "next_seat_index remaining pod faced"
  {
    case 1
    show ?case
    proof (cases "length pod < n \<and> remaining \<noteq> []")
      case True
      then have i: "?i < length remaining" by (simp add: next_seat_index_in_range)
      from True 1 have "fill_pod (vec_remove ?i remaining) (pod @ [remaining ! ?i]) n faced = (pod', rest)"
        by (simp add: fill_pod.simps [of remaining] Let_def)
      from "1.IH"(1) [OF True refl this] True mset_vec_remove [OF i] show ?thesis by simp
    next
      case False
      with 1 show ?thesis by (auto simp: fill_pod.simps [of remaining])
    qed
  next
    case 2
    show ?case
    proof (cases "length pod < n \<and> remaining \<noteq> []")
      case True
      then have i: "?i < length remaining" by (simp add: next_seat_index_in_range)
      from True 2 have "fill_pod (vec_remove ?i remaining) (pod @ [remaining ! ?i]) n faced = (pod', rest)"
        by (simp add: fill_pod.simps [of remaining] Let_def)
      from "1.IH"(2) [OF True refl this] True i show ?thesis by (cases remaining) (auto simp: length_vec_remove)
    next
      case False
      with 2 show ?thesis by (auto simp: fill_pod.simps [of remaining])
    qed
  }
qed

lemma greedy_assign_seats:
  assumes "sum_list sizes = length remaining"
  shows "map length (greedy_assign remaining sizes faced) = sizes
    \<and> mset (concat (greedy_assign remaining sizes faced)) = mset remaining"
  using assms
proof (induction sizes arbitrary: remaining)
  case Nil
  then show ?case by simp
next
  case (Cons n sizes)
  obtain pod rest where f: "fill_pod remaining [] n faced = (pod, rest)" by fastforce
  from fill_pod_seats [OF f] Cons.prems
  have "mset pod + mset rest = mset remaining" "length pod = n" by auto
  moreover from this Cons.prems have "sum_list sizes = length rest"
    using size_union [of "mset pod" "mset rest"] by simp
  ultimately show ?case using Cons.IH f by simp
qed

lemma length_swap_players [simp]: "map length (swap_players pods i j x y) = map length pods"
proof -
  have "(map length pods)[k := length (pods ! k)] = map length pods" for k
    by (metis list_update_id map_update)
  then show ?thesis by (simp add: swap_players_def map_update)
qed

lemma mset_swap_players:
  assumes "i < length pods" "j < length pods" "i \<noteq> j" "x < length (pods ! i)" "y < length (pods ! j)"
  shows "mset (concat (swap_players pods i j x y)) = mset (concat pods)"
proof -
  let ?a = "pods ! i ! x" and ?b = "pods ! j ! y"
  let ?A = "(pods ! i)[x := ?b]" and ?B = "(pods ! j)[y := ?a]"
  have A: "mset ?A + {#?a#} = mset (pods ! i) + {#?b#}" and B: "mset ?B + {#?b#} = mset (pods ! j) + {#?a#}"
    using assms by (simp_all add: mset_update)
  have "mset ?A + mset ?B + ({#?a#} + {#?b#}) = mset (pods ! i) + mset (pods ! j) + ({#?a#} + {#?b#})"
    using arg_cong2 [OF A B, of "(+)"] by (simp add: ac_simps)
  then have AB: "mset ?A + mset ?B = mset (pods ! i) + mset (pods ! j)" by (rule add_right_imp_eq)
  have "mset (concat (pods[i := ?A, j := ?B])) + mset (pods ! j) + mset (pods ! i)
      = mset (concat pods) + (mset ?A + mset ?B)"
    using mset_concat_update [of i pods ?A] mset_concat_update [of j "pods[i := ?A]" ?B] assms
    by (simp add: ac_simps)
  then have "mset (concat (pods[i := ?A, j := ?B])) + (mset (pods ! i) + mset (pods ! j))
      = mset (concat pods) + (mset (pods ! i) + mset (pods ! j))" unfolding AB by (simp add: ac_simps)
  then show ?thesis unfolding swap_players_def by (rule add_right_imp_eq)
qed

lemma repair_rematches_seats:
  "map length (repair_rematches pods faced) = map length pods
   \<and> mset (concat (repair_rematches pods faced)) = mset (concat pods)
   \<and> total_conflicts (repair_rematches pods faced) faced \<le> total_conflicts pods faced
   \<and> find_swap (repair_rematches pods faced) faced = None"
proof (induction pods faced rule: repair_rematches.induct)
  case (1 pods faced)
  show ?case
  proof (cases "find_swap pods faced")
    case None
    then show ?thesis by (simp add: repair_rematches.simps [of pods])
  next
    case (Some pods')
    from find_swap_Some [OF Some] obtain i j x y where "i < length pods" "j < length pods" "i \<noteq> j"
      "x < length (pods ! i)" "y < length (pods ! j)" and p: "pods' = swap_players pods i j x y" by metis
    then have "mset (concat pods') = mset (concat pods)" by (simp add: mset_swap_players)
    with Some p "1.IH" [OF Some] find_swap_decreases [OF Some] show ?thesis
      by (simp add: repair_rematches.simps [of pods])
  qed
qed

lemma find_swap_None:
  assumes "find_swap pods faced = None" and "i < length pods" "j < length pods" "i \<noteq> j"
    and "x < length (pods ! i)" "y < length (pods ! j)"
  shows "total_conflicts pods faced \<le> total_conflicts (swap_players pods i j x y) faced"
proof -
  have none: "\<not> swap_improves pods faced c" if "c \<in> set (swap_candidates pods faced)" for c
    using assms(1) that by (cases c) (auto simp: find_swap_def find_None_iff)
  have flip: "swap_players pods j i y x = swap_players pods i j x y"
    using assms(4) by (simp add: swap_players_def list_update_swap)
  have "\<not> swap_improves pods faced (i, j, x, y)"
  proof (cases "pod_conflicts (pods ! i) faced = 0")
    case False
    then have "(i, j, x, y) \<in> set (swap_candidates pods faced)" using assms by (simp add: swap_candidates_iff)
    with none show ?thesis by blast
  next
    case zero: True
    show ?thesis
    proof (cases "pod_conflicts (pods ! j) faced = 0")
      case True
      with zero show ?thesis by (simp add: swap_improves_def)
    next
      case False
      then have "(j, i, y, x) \<in> set (swap_candidates pods faced)" using assms by (simp add: swap_candidates_iff)
      with none have "\<not> swap_improves pods faced (j, i, y, x)" by blast
      then show ?thesis by (simp add: swap_improves_def flip Let_def add.commute)
    qed
  qed
  with sum_list_update2 [OF assms(2-4), of "\<lambda>pod. pod_conflicts pod faced"
      "(pods ! i)[x := pods ! j ! y]" "(pods ! j)[y := pods ! i ! x]"] assms(2-4)
  show ?thesis by (simp add: total_conflicts_def swap_players_def swap_improves_def Let_def)
qed

subsection \<open>A Swiss round\<close>

lemma map_number_pairings: "(\<And>i x. f (seat i x) = g x) \<Longrightarrow> map f (number_pairings first_id seat xs) = map g xs"
  by (auto simp: number_pairings_def intro!: nth_equalityI)

lemma number_pairings_ids:
  "(\<And>i x. tp_id (seat i x) = i) \<Longrightarrow> map tp_id (number_pairings first_id seat xs) = map (\<lambda>k. first_id + of_nat k) [0..<length xs]"
  by (auto simp: number_pairings_def intro!: nth_equalityI)

lemma length_number_pairings [simp]: "length (number_pairings first_id seat xs) = length xs"
  by (simp add: number_pairings_def)

lemma swiss_round_parts:
  assumes "arity_ok a"
  obtains pods C where
    "build_swiss_round order a history r first_id =
       number_pairings first_id (\<lambda>i pod. \<lparr>tp_id = i, tp_round = r, tp_players = pod, tp_outcome = None\<rparr>) pods
       @ number_pairings (first_id + of_nat (length pods))
          (\<lambda>i player. \<lparr>tp_id = i, tp_round = r, tp_players = [player], tp_outcome = Some Bye\<rparr>) (nths order C)"
    "C = set (fair_indices order (partition_byes (partition_round (length order) a)) (\<lambda>key. had_bye key history))"
    "length (nths order C) = partition_byes (partition_round (length order) a)"
    "map length pods = replicate (full_pods (partition_round (length order) a)) (unat (arity_get a))
       @ replicate (short_pods (partition_round (length order) a)) (unat (short_pod_size a))"
    "mset (concat pods) = mset (nths order (- C))"
    "find_swap pods (faced_map history) = None"
proof -
  define part where "part = partition_round (length order) a"
  let ?A = "unat (arity_get a)" and ?S = "unat (short_pod_size a)"
  define C where "C = set (fair_indices order (partition_byes part) (\<lambda>key. had_bye key history))"
  define pool where "pool = nths order (- C)"
  define D where "D = set (fair_indices pool (short_pods part * ?S) (\<lambda>key. had_short_pod key a history))"
  define sizes where "sizes = replicate (full_pods part) ?A @ replicate (short_pods part) ?S"
  define pods where "pods = repair_rematches (greedy_assign (nths pool (- D) @ nths pool D) sizes (faced_map history)) (faced_map history)"
  have sums: "full_pods part * ?A + short_pods part * ?S + partition_byes part = length order"
    using partition_round_sums(1) [OF assms, of "length order"] by (simp add: part_def)
  have C: "C \<subseteq> {..<length order}" "card C = partition_byes part"
    using sums fair_indices_range distinct_card [OF distinct_fair_indices] length_fair_indices
    by (auto simp: C_def subset_iff)
  have byes: "length (nths order C) = partition_byes part"
    using C by (simp add: length_nths Int_absorb2 Collect_conj_eq lessThan_def inf.commute conj_commute subset_eq)
  have "length pool + partition_byes part = length order"
    using arg_cong [OF mset_nths_split [of order C], of size] byes by (simp add: pool_def)
  with sums have lenp: "sum_list sizes = length pool" by (simp add: sizes_def sum_list_replicate)
  have m: "mset (nths pool (- D) @ nths pool D) = mset pool" using mset_nths_split [of pool D] by (simp add: ac_simps)
  from m lenp have "sum_list sizes = length (nths pool (- D) @ nths pool D)" by (metis size_mset)
  from greedy_assign_seats [OF this, of "faced_map history"] m
    repair_rematches_seats [of "greedy_assign (nths pool (- D) @ nths pool D) sizes (faced_map history)" "faced_map history"]
  have pods: "map length pods = sizes" "mset (concat pods) = mset pool" "find_swap pods (faced_map history) = None"
    by (auto simp: pods_def)
  show thesis
  proof (rule that)
    show "build_swiss_round order a history r first_id =
       number_pairings first_id (\<lambda>i pod. \<lparr>tp_id = i, tp_round = r, tp_players = pod, tp_outcome = None\<rparr>) pods
       @ number_pairings (first_id + of_nat (length pods))
          (\<lambda>i player. \<lparr>tp_id = i, tp_round = r, tp_players = [player], tp_outcome = Some Bye\<rparr>) (nths order C)"
      by (simp add: build_swiss_round_def select_fair_nths Let_def vec_resize_def pods_def sizes_def D_def pool_def C_def part_def)
  qed (use pods byes in \<open>simp_all add: C_def part_def sizes_def pool_def\<close>)
qed

lemma no_byes_split:
  assumes "2 < a" and "(a - 1) * (a - 2) \<le> (n :: nat)"
  shows "\<exists>full short. full * a + short * (a - 1) = n"
proof (cases "n mod a = 0")
  case True
  then have "n div a * a + 0 * (a - 1) = n" by auto
  then show ?thesis by blast
next
  case False
  define q r m where "q = n div a" and "r = n mod a" and "m = a - 1"
  have a: "a = Suc m" "a - 2 = m - 1" using assms(1) by (auto simp: m_def)
  have r: "0 < r" "r \<le> m" using False a by (simp_all add: r_def less_Suc_eq_le [symmetric])
  have "n = q * a + r" by (simp add: q_def r_def)
  then have n: "n = q * m + q + r" by (simp add: a)
  have "m \<le> q + r"
  proof (rule ccontr)
    assume "\<not> m \<le> q + r"
    then have "q + r < m" "Suc (Suc q) \<le> m" using r by auto
    from mult_le_mono1 [OF this(2), of m] have "q * m + m \<le> m * (m - 1)" by (simp add: diff_mult_distrib2)
    with \<open>q + r < m\<close> n assms(2) a show False by simp
  qed
  then obtain e f where e: "q + r = m + e" "m = r + f" using r(2) by (metis le_iff_add)
  then have "q = f + e" by simp
  then have "e * a + Suc f * (a - 1) = n" using n e(2) a by (simp add: algebra_simps)
  then show ?thesis by blast
qed

lemma filter_number_pairings:
  "(\<And>i x. tp_outcome (seat i x) = Some Bye) \<Longrightarrow>
     filter (\<lambda>p. tp_outcome p = Some Bye) (number_pairings first_id seat xs) = number_pairings first_id seat xs"
  "(\<And>i x. tp_outcome (seat i x) = None) \<Longrightarrow> filter (\<lambda>p. tp_outcome p = Some Bye) (number_pairings first_id seat xs) = []"
  by (auto simp: number_pairings_def filter_map o_def case_prod_unfold)

lemma swiss_round_members:
  assumes "arity_ok a" and "p \<in> set (build_swiss_round order a history r first_id)"
  shows "tp_round p = r"
    and "tp_outcome p = Some Bye \<and> length (tp_players p) = 1
      \<or> tp_outcome p = None \<and> 2 \<le> length (tp_players p)
        \<and> (length (tp_players p) = unat (arity_get a) \<or> length (tp_players p) = unat (short_pod_size a))"
proof -
  let ?part = "partition_round (length order) a"
  obtain pods C where b: "build_swiss_round order a history r first_id =
       number_pairings first_id (\<lambda>i pod. \<lparr>tp_id = i, tp_round = r, tp_players = pod, tp_outcome = None\<rparr>) pods
       @ number_pairings (first_id + of_nat (length pods))
          (\<lambda>i player. \<lparr>tp_id = i, tp_round = r, tp_players = [player], tp_outcome = Some Bye\<rparr>) (nths order C)"
    and sizes: "map length pods = replicate (full_pods ?part) (unat (arity_get a))
       @ replicate (short_pods ?part) (unat (short_pod_size a))"
    by (rule swiss_round_parts [OF assms(1), of order history r first_id])
  from assms(2) consider (pod) i pod where "pod \<in> set pods" "p = \<lparr>tp_id = i, tp_round = r, tp_players = pod, tp_outcome = None\<rparr>"
    | (bye) i k where "p = \<lparr>tp_id = i, tp_round = r, tp_players = [k], tp_outcome = Some Bye\<rparr>"
    by (auto simp: b number_pairings_def dest!: set_zip_rightD)
  note kinds = this
  from kinds show "tp_round p = r" by cases simp_all
  have two: "2 \<le> unat (short_pod_size a)" if "0 < short_pods ?part"
    using that partition_round_sums(2) [OF assms(1), of "length order"] arity_sizes [OF assms(1)] by linarith
  from kinds show "tp_outcome p = Some Bye \<and> length (tp_players p) = 1
      \<or> tp_outcome p = None \<and> 2 \<le> length (tp_players p)
        \<and> (length (tp_players p) = unat (arity_get a) \<or> length (tp_players p) = unat (short_pod_size a))"
  proof cases
    case pod
    then have "length pod \<in> set (map length pods)" by simp
    with sizes two arity_sizes(1) [OF assms(1)] pod(2) show ?thesis by (auto split: if_splits)
  qed simp
qed

lemma swiss_round_seats:
  assumes "arity_ok a"
  shows "mset (concat (map tp_players (build_swiss_round order a history r first_id))) = mset order"
    and "map tp_id (build_swiss_round order a history r first_id)
      = map (\<lambda>k. first_id + of_nat k) [0..<length (build_swiss_round order a history r first_id)]"
    and "length (filter (\<lambda>p. tp_outcome p = Some Bye) (build_swiss_round order a history r first_id))
      = partition_byes (partition_round (length order) a)"
proof -
  obtain pods C where b: "build_swiss_round order a history r first_id =
       number_pairings first_id (\<lambda>i pod. \<lparr>tp_id = i, tp_round = r, tp_players = pod, tp_outcome = None\<rparr>) pods
       @ number_pairings (first_id + of_nat (length pods))
          (\<lambda>i player. \<lparr>tp_id = i, tp_round = r, tp_players = [player], tp_outcome = Some Bye\<rparr>) (nths order C)"
    and byes: "length (nths order C) = partition_byes (partition_round (length order) a)"
    and seated: "mset (concat pods) = mset (nths order (- C))"
    by (rule swiss_round_parts [OF assms, of order history r first_id])
  have "concat (map (\<lambda>k. [k]) xs) = xs" for xs :: "string list" by (induction xs) auto
  then show "mset (concat (map tp_players (build_swiss_round order a history r first_id))) = mset order"
    using seated mset_nths_split [of order C]
    by (simp add: b map_number_pairings [where g = "\<lambda>pod. pod"] map_number_pairings [where g = "\<lambda>k. [k]"] ac_simps)
  show "map tp_id (build_swiss_round order a history r first_id)
      = map (\<lambda>k. first_id + of_nat k) [0..<length (build_swiss_round order a history r first_id)]"
    by (simp add: b number_pairings_ids) (auto simp: nth_append intro!: nth_equalityI)
  show "length (filter (\<lambda>p. tp_outcome p = Some Bye) (build_swiss_round order a history r first_id))
      = partition_byes (partition_round (length order) a)"
    by (simp add: b byes filter_number_pairings)
qed

text \<open>C21. A Swiss round seats every player of the standings exactly once: in pods of the event's size or one
  less, but of at least two, that still have to be played, or on a bye that is already resolved. Its pairings are numbered
  consecutively, no split of the field into such pods leaves fewer players without an opponent, and from a field of
  \<open>(a - 1) (a - 2)\<close> players on, where \<open>a > 2\<close> is the pod size, there are no byes at all.\<close>

theorem swiss_round_correct:
  assumes "arity_ok a" and "ps = build_swiss_round order a history r first_id"
  shows "mset (concat (map tp_players ps)) = mset order
    \<and> (\<forall>p\<in>set ps. tp_round p = r
        \<and> (tp_outcome p = Some Bye \<and> length (tp_players p) = 1
           \<or> tp_outcome p = None \<and> 2 \<le> length (tp_players p)
             \<and> (length (tp_players p) = unat (arity_get a) \<or> length (tp_players p) = unat (short_pod_size a))))
    \<and> map tp_id ps = map (\<lambda>k. first_id + of_nat k) [0..<length ps]
    \<and> (\<forall>full short byes. (unat (arity_get a) = 2 \<longrightarrow> short = 0)
        \<and> full * unat (arity_get a) + short * unat (short_pod_size a) + byes = length order
        \<longrightarrow> length (filter (\<lambda>p. tp_outcome p = Some Bye) ps) \<le> byes)
    \<and> (2 < unat (arity_get a) \<and> (unat (arity_get a) - 1) * (unat (arity_get a) - 2) \<le> length order
        \<longrightarrow> filter (\<lambda>p. tp_outcome p = Some Bye) ps = [])"
proof -
  let ?A = "unat (arity_get a)" and ?n = "length order"
  note seats = swiss_round_seats [OF assms(1), of order history r first_id, folded assms(2)]
  have least: "length (filter (\<lambda>p. tp_outcome p = Some Bye) ps) \<le> byes"
    if "?A = 2 \<longrightarrow> short = 0" "full * ?A + short * unat (short_pod_size a) + byes = ?n" for full short byes
    using partition_round_least(1) [OF assms(1), of short full byes ?n] that by (simp add: seats(3))
  have none: "filter (\<lambda>p. tp_outcome p = Some Bye) ps = []" if big: "2 < ?A" "(?A - 1) * (?A - 2) \<le> ?n"
  proof -
    from no_byes_split [OF big] obtain full short where "full * ?A + short * (?A - 1) = ?n" by blast
    with least [of short full 0] big arity_sizes [OF assms(1)] show ?thesis by simp
  qed
  from seats swiss_round_members [OF assms(1), of _ order history r first_id, folded assms(2)] least none
  show ?thesis by blast
qed

theorem swiss_round_correct_witness:
  "arity_ok COMMANDER_POD
   \<and> mset (concat (map tp_players (build_swiss_round [''a'', ''b'', ''c'', ''d'', ''e'', ''f'', ''g''] COMMANDER_POD [] 1 0)))
     = mset [''a'', ''b'', ''c'', ''d'', ''e'', ''f'', ''g'']"
  using swiss_round_correct [OF _ refl, of COMMANDER_POD "[''a'', ''b'', ''c'', ''d'', ''e'', ''f'', ''g'']" "[]" 1 0]
  by (simp add: arity_ok_def COMMANDER_POD_def)

text \<open>C23. Byes are dealt fairly: a player who already had a bye gets another one only if every player who is seated
  in a pod had one too, and between players who are alike in this the bye goes to the lower standing.\<close>

theorem swiss_byes_fair:
  assumes "arity_ok a" and "p \<in> set (build_swiss_round order a history r first_id)"
    and "q \<in> set (build_swiss_round order a history r first_id)"
    and "tp_outcome p = Some Bye" and "tp_outcome q = None"
    and "key \<in> set (tp_players p)" and "other \<in> set (tp_players q)"
  shows "(had_bye key history \<longrightarrow> had_bye other history)
    \<and> (had_bye key history = had_bye other history \<longrightarrow>
        (\<exists>i j. j < i \<and> i < length order \<and> order ! i = key \<and> order ! j = other))"
proof -
  obtain pods C where b: "build_swiss_round order a history r first_id =
       number_pairings first_id (\<lambda>i pod. \<lparr>tp_id = i, tp_round = r, tp_players = pod, tp_outcome = None\<rparr>) pods
       @ number_pairings (first_id + of_nat (length pods))
          (\<lambda>i player. \<lparr>tp_id = i, tp_round = r, tp_players = [player], tp_outcome = Some Bye\<rparr>) (nths order C)"
    and C: "C = set (fair_indices order (partition_byes (partition_round (length order) a)) (\<lambda>key. had_bye key history))"
    and seated: "mset (concat pods) = mset (nths order (- C))"
    by (rule swiss_round_parts [OF assms(1), of order history r first_id])
  from assms(2,4,6) have "key \<in> set (nths order C)"
    by (auto simp: b number_pairings_def dest: set_zip_rightD)
  then obtain i where i: "i < length order" "order ! i = key" "i \<in> C" by (auto simp: set_nths)
  from assms(3,5,7) have "other \<in> set (concat pods)"
    by (auto simp: b number_pairings_def dest: set_zip_rightD)
  then have "other \<in> set (nths order (- C))" using mset_eq_setD [OF seated] by blast
  then obtain j where j: "j < length order" "order ! j = other" "j \<notin> C" by (auto simp: set_nths)
  note fair = fair_indices_fair [OF i(3) [unfolded C] j(1) j(3) [unfolded C], unfolded i(2) j(2)]
  from fair i j show ?thesis by blast
qed

theorem swiss_byes_fair_witness:
  "build_swiss_round [''a'', ''b'', ''c''] HEAD_TO_HEAD [] 1 0
     = [\<lparr>tp_id = 0, tp_round = 1, tp_players = [''a'', ''b''], tp_outcome = None\<rparr>,
        \<lparr>tp_id = 1, tp_round = 1, tp_players = [''c''], tp_outcome = Some Bye\<rparr>]
   \<and> (\<exists>i j. j < i \<and> i < 3 \<and> [''a'', ''b'', ''c''] ! i = ''c'' \<and> [''a'', ''b'', ''c''] ! j = ''b'')"
proof -
  let ?ps = "build_swiss_round [''a'', ''b'', ''c''] HEAD_TO_HEAD [] 1 0"
  have ps: "?ps = [\<lparr>tp_id = 0, tp_round = 1, tp_players = [''a'', ''b''], tp_outcome = None\<rparr>,
      \<lparr>tp_id = 1, tp_round = 1, tp_players = [''c''], tp_outcome = Some Bye\<rparr>]"
    by code_simp
  have "arity_ok HEAD_TO_HEAD" by (simp add: arity_ok_def HEAD_TO_HEAD_def)
  from swiss_byes_fair [OF this, of "?ps ! 1" "[''a'', ''b'', ''c'']" "[]" 1 0 "?ps ! 0" "''c''" "''b''"]
  show ?thesis unfolding ps by (simp add: had_bye_def numeral_3_eq_3)
qed

text \<open>C28. The repair pass ends, whatever the pods and the history: it keeps the pod sizes and the players, it never adds
  a repeated pair, and afterwards no exchange of two players of different pods lowers the number of repeated pairs.\<close>

theorem rematch_repair_local_optimum:
  "map length (repair_rematches pods faced) = map length pods
   \<and> mset (concat (repair_rematches pods faced)) = mset (concat pods)
   \<and> total_conflicts (repair_rematches pods faced) faced \<le> total_conflicts pods faced
   \<and> (\<forall>i j x y. i < length pods \<and> j < length pods \<and> i \<noteq> j \<and> x < length (pods ! i) \<and> y < length (pods ! j) \<longrightarrow>
       total_conflicts (repair_rematches pods faced) faced
       \<le> total_conflicts (swap_players (repair_rematches pods faced) i j x y) faced)"
proof -
  note r = repair_rematches_seats [of pods faced]
  then have len: "length (repair_rematches pods faced) = length pods" by (metis length_map)
  have "length (repair_rematches pods faced ! k) = length (pods ! k)" if "k < length pods" for k
    using r that len by (metis nth_map)
  with r len find_swap_None [of "repair_rematches pods faced" faced] show ?thesis by simp
qed

theorem rematch_repair_local_optimum_witness:
  "total_conflicts (repair_rematches [[''a'', ''b''], [''c'', ''d'']] (\<lambda>k. if k = ''a'' then {''b''} else {}))
       (\<lambda>k. if k = ''a'' then {''b''} else {})
   \<le> total_conflicts (swap_players (repair_rematches [[''a'', ''b''], [''c'', ''d'']]
       (\<lambda>k. if k = ''a'' then {''b''} else {})) 0 1 0 1) (\<lambda>k. if k = ''a'' then {''b''} else {})"
  using rematch_repair_local_optimum [of "[[''a'', ''b''], [''c'', ''d'']]" "\<lambda>k. if k = ''a'' then {''b''} else {}"] by simp

text \<open>The repair pass does not look at who sat in a short pod: here \<^verbatim>\<open>d\<close>, who was seated in the short pod of the first
  round, is exchanged back into the short pod of the second, although \<^verbatim>\<open>a\<close> and \<^verbatim>\<open>b\<close> never were in one.\<close>

lemma repair_repeats_short_pod:
  "let round1 = build_swiss_round [''a'', ''b'', ''c'', ''d'', ''e''] (MatchArity 3) [] 1 0;
       round2 = build_swiss_round [''a'', ''b'', ''c'', ''d'', ''e''] (MatchArity 3) round1 2 2
   in map tp_players round1 = [[''a'', ''b'', ''c''], [''d'', ''e'']]
      \<and> map tp_players round2 = [[''a'', ''b'', ''e''], [''d'', ''c'']]"
  by code_simp

subsection \<open>Single elimination\<close>

lemma trailing_zeros_power: "trailing_zeros (2 ^ k) = k"
  by (induction k) (simp_all add: trailing_zeros.simps [of "2 ^ _"] trailing_zeros.simps [of "2 * 2 ^ _"] trailing_zeros.simps [of "Suc 0"])

lemma ceil_log2_small:
  "ceil_log2 2 = 1" "ceil_log2 3 = 2" "ceil_log2 4 = 2" "ceil_log2 5 = 3" "ceil_log2 6 = 3" "ceil_log2 7 = 3" "ceil_log2 8 = 3"
  by (simp_all add: ceil_log2.simps)

lemma next_power_small:
  "next_power_of_two 2 = 2" "next_power_of_two 3 = 4" "next_power_of_two 4 = 4" "next_power_of_two 5 = 8"
  "next_power_of_two 6 = 8" "next_power_of_two 7 = 8" "next_power_of_two 8 = 8"
  by (simp_all add: next_power_of_two_def ceil_log2_small)

lemma upt_small:
  "[0..<2] = [0, 1 :: nat]" "[0..<3] = [0, 1, 2 :: nat]" "[0..<4] = [0, 1, 2, 3 :: nat]" "[0..<5] = [0, 1, 2, 3, 4 :: nat]"
  "[0..<6] = [0, 1, 2, 3, 4, 5 :: nat]" "[0..<7] = [0, 1, 2, 3, 4, 5, 6 :: nat]" "[0..<8] = [0, 1, 2, 3, 4, 5, 6, 7 :: nat]"
  by code_simp+

lemma seed_bracket_seats:
  assumes "2 \<le> length order" and "length order \<le> 8"
  shows "mset (concat (seed_bracket order)) = mset order" and "length (seed_bracket order) = next_power_of_two (length order) div 2"
    and "\<forall>pod\<in>set (seed_bracket order). length pod = 1 \<or> length pod = 2"
proof -
  have seats: "map ((!) order) [0..<length order] = order" by (simp add: map_nth)
  from assms have "length order \<in> {2, 3, 4, 5, 6, 7, 8}" by auto
  then have "mset (concat (seed_bracket order)) = mset (map ((!) order) [0..<length order])"
    by (elim insertE emptyE) (simp_all add: seed_bracket_def next_power_small vec_get_def upt_small)
  then show "mset (concat (seed_bracket order)) = mset order" by (simp only: seats)
  show "length (seed_bracket order) = next_power_of_two (length order) div 2" by (simp add: seed_bracket_def Let_def)
  show "\<forall>pod\<in>set (seed_bracket order). length pod = 1 \<or> length pod = 2"
    by (auto simp: seed_bracket_def Let_def split: option.splits)
qed

lemma chunks2_concat [simp]: "concat (chunks2 xs) = xs"
  by (induction xs rule: chunks2.induct) auto

lemma chunks2_even: "even (length xs) \<Longrightarrow> length (chunks2 xs) = length xs div 2 \<and> (\<forall>c\<in>set (chunks2 xs). length c = 2)"
  by (induction xs rule: chunks2.induct) auto

lemma winners_of_iff: "winners_of ps = Ok ws \<longleftrightarrow> map pairing_winner_of ps = map Some ws"
proof (induction ps arbitrary: ws)
  case Nil
  then show ?case by auto
next
  case (Cons p ps)
  show ?case
    by (cases ws) (auto simp: Cons.IH split: option.splits rust_result.splits dest: Cons.IH [THEN iffD2])
qed

lemma winners_of_no_panic [simp]: "winners_of ps \<noteq> Panic"
  by (induction ps) (auto split: option.splits rust_result.splits)

lemma elimination_schedule:
  assumes "2 \<le> n" and "n \<le> 8"
  shows "next_power_of_two n = 2 ^ unat (default_total_rounds SingleEliminationBracket a (of_nat n))"
    and "0 < unat (default_total_rounds SingleEliminationBracket a (of_nat n))"
proof -
  from assms have "n \<in> {2, 3, 4, 5, 6, 7, 8}" by auto
  then have log: "0 < ceil_log2 n" "ceil_log2 n < 2 ^ 32" by (auto simp: ceil_log2_small)
  have "unat (default_total_rounds SingleEliminationBracket a (of_nat n)) = ceil_log2 n"
    using log assms by (simp add: default_total_rounds_def next_power_of_two_def trailing_zeros_power unat_of_nat)
  then show "next_power_of_two n = 2 ^ unat (default_total_rounds SingleEliminationBracket a (of_nat n))"
    and "0 < unat (default_total_rounds SingleEliminationBracket a (of_nat n))"
    using log by (simp_all add: next_power_of_two_def)
qed

lemma elimination_first_round:
  assumes "r \<le> 1" and "2 \<le> length order" and "length order \<le> 8"
  obtains ps where "build_single_elimination_round order history r first_id = Ok ps"
    "mset (concat (map tp_players ps)) = mset order" "length ps = next_power_of_two (length order) div 2"
    "\<forall>p\<in>set ps. tp_round p = r \<and> (length (tp_players p) = 1 \<and> tp_outcome p = Some Bye \<or> length (tp_players p) = 2 \<and> tp_outcome p = None)"
    "map tp_id ps = map (\<lambda>k. first_id + of_nat k) [0..<length ps]"
proof (rule that)
  let ?ps = "number_pairings first_id (\<lambda>i players. \<lparr>tp_id = i, tp_round = r, tp_players = players,
    tp_outcome = (if length players = 1 then Some Bye else None)\<rparr>) (seed_bracket order)"
  note seats = seed_bracket_seats [OF assms(2,3)]
  show "build_single_elimination_round order history r first_id = Ok ?ps"
    using assms by (simp add: build_single_elimination_round_def elimination_pods_def SINGLE_ELIMINATION_MIN_PLAYERS_def
        SINGLE_ELIMINATION_MAX_PLAYERS_def)
  show "mset (concat (map tp_players ?ps)) = mset order"
    using seats(1) by (simp add: map_number_pairings [where g = "\<lambda>pod. pod"])
  show "length ?ps = next_power_of_two (length order) div 2" using seats(2) by simp
  show "map tp_id ?ps = map (\<lambda>k. first_id + of_nat k) [0..<length ?ps]" by (simp add: number_pairings_ids)
  show "\<forall>p\<in>set ?ps. tp_round p = r \<and> (length (tp_players p) = 1 \<and> tp_outcome p = Some Bye \<or> length (tp_players p) = 2 \<and> tp_outcome p = None)"
    using seats(3) by (fastforce simp: number_pairings_def dest: set_zip_rightD)
qed

lemma elimination_next_round:
  assumes "1 < r" and "length (filter (\<lambda>p. tp_round p = r - 1) history) = 2 * m" and "0 < m"
    and "\<forall>p\<in>set history. tp_round p = r - 1 \<longrightarrow> pairing_winner_of p \<noteq> None"
  obtains ps where "build_single_elimination_round order history r first_id = Ok ps" "length ps = m"
    "map Some (concat (map tp_players ps)) = map pairing_winner_of (filter (\<lambda>p. tp_round p = r - 1) history)"
    "\<forall>p\<in>set ps. tp_round p = r \<and> length (tp_players p) = 2 \<and> tp_outcome p = None"
    "map tp_id ps = map (\<lambda>k. first_id + of_nat k) [0..<length ps]"
proof -
  let ?prev = "filter (\<lambda>p. tp_round p = r - 1) history"
  define ws where "ws = map (the \<circ> pairing_winner_of) ?prev"
  have ws: "map pairing_winner_of ?prev = map Some ws" using assms(4) by (auto simp: ws_def)
  then have len: "length ws = 2 * m" using assms(2) by (metis length_map)
  let ?ps = "number_pairings first_id (\<lambda>i players. \<lparr>tp_id = i, tp_round = r, tp_players = players,
    tp_outcome = (if length players = 1 then Some Bye else None)\<rparr>) (chunks2 ws)"
  have pods: "length (chunks2 ws) = m" "\<forall>c\<in>set (chunks2 ws). length c = 2" using chunks2_even [of ws] len by auto
  from ws have "winners_of ?prev = Ok ws" by (simp add: winners_of_iff)
  then have "build_single_elimination_round order history r first_id = Ok ?ps"
    using assms by (simp add: build_single_elimination_round_def elimination_pods_def Let_def linorder_not_le [of r 1, symmetric])
  moreover have "map Some (concat (map tp_players ?ps)) = map pairing_winner_of ?prev"
    using ws by (simp add: map_number_pairings [where g = "\<lambda>pod. pod"])
  moreover have "\<forall>p\<in>set ?ps. tp_round p = r \<and> length (tp_players p) = 2 \<and> tp_outcome p = None"
    using pods(2) by (fastforce simp: number_pairings_def dest: set_zip_rightD)
  moreover have "map tp_id ?ps = map (\<lambda>k. first_id + of_nat k) [0..<length ?ps]" by (simp add: number_pairings_ids)
  ultimately show thesis using that pods(1) by simp
qed

text \<open>C15. A single-elimination bracket of two to eight players seats everybody in the first round and takes exactly
  the scheduled number \<open>R\<close> of rounds: the first round has \<open>2\<^sup>R\<^sup>-\<^sup>1\<close> pairings, each later round pairs the winners of the
  round before in their order, half as many, and after a single final no round can be paired.\<close>

theorem elimination_bracket_halves:
  "(r \<le> 1 \<and> 2 \<le> length order \<and> length order \<le> 8 \<longrightarrow>
      (\<exists>ps. build_single_elimination_round order history r first_id = Ok ps
        \<and> mset (concat (map tp_players ps)) = mset order
        \<and> length ps = 2 ^ (unat (default_total_rounds SingleEliminationBracket a (of_nat (length order))) - 1)))
   \<and> (1 < r \<and> length (filter (\<lambda>p. tp_round p = r - 1) history) = 2 ^ Suc k
        \<and> (\<forall>p\<in>set history. tp_round p = r - 1 \<longrightarrow> pairing_winner_of p \<noteq> None) \<longrightarrow>
      (\<exists>ps. build_single_elimination_round order history r first_id = Ok ps \<and> length ps = 2 ^ k
        \<and> map Some (concat (map tp_players ps)) = map pairing_winner_of (filter (\<lambda>p. tp_round p = r - 1) history)))
   \<and> (1 < r \<and> length (filter (\<lambda>p. tp_round p = r - 1) history) \<le> 1 \<longrightarrow>
      build_single_elimination_round order history r first_id = Err BracketDecided)"
proof (intro conjI impI; elim conjE)
  assume first: "r \<le> 1" "2 \<le> length order" "length order \<le> 8"
  obtain ps where ps: "build_single_elimination_round order history r first_id = Ok ps"
    "mset (concat (map tp_players ps)) = mset order" "length ps = next_power_of_two (length order) div 2"
    by (rule elimination_first_round [OF first, of history first_id])
  note el = elimination_schedule [OF first(2,3), of a]
  with ps(3) have "length ps = 2 ^ (unat (default_total_rounds SingleEliminationBracket a (of_nat (length order))) - 1)"
    by (cases "unat (default_total_rounds SingleEliminationBracket a (of_nat (length order)))") auto
  with ps show "\<exists>ps. build_single_elimination_round order history r first_id = Ok ps
        \<and> mset (concat (map tp_players ps)) = mset order
        \<and> length ps = 2 ^ (unat (default_total_rounds SingleEliminationBracket a (of_nat (length order))) - 1)" by blast
next
  assume next_round: "1 < r" "length (filter (\<lambda>p. tp_round p = r - 1) history) = 2 ^ Suc k"
    "\<forall>p\<in>set history. tp_round p = r - 1 \<longrightarrow> pairing_winner_of p \<noteq> None"
  from next_round(2) have "length (filter (\<lambda>p. tp_round p = r - 1) history) = 2 * 2 ^ k" by simp
  from elimination_next_round [OF next_round(1) this _ next_round(3), of order first_id]
  obtain ps where "build_single_elimination_round order history r first_id = Ok ps" "length ps = 2 ^ k"
    "map Some (concat (map tp_players ps)) = map pairing_winner_of (filter (\<lambda>p. tp_round p = r - 1) history)"
    by (auto simp del: map_map)
  then show "\<exists>ps. build_single_elimination_round order history r first_id = Ok ps \<and> length ps = 2 ^ k
        \<and> map Some (concat (map tp_players ps)) = map pairing_winner_of (filter (\<lambda>p. tp_round p = r - 1) history)" by blast
next
  assume "1 < r" "length (filter (\<lambda>p. tp_round p = r - 1) history) \<le> 1"
  then show "build_single_elimination_round order history r first_id = Err BracketDecided"
    by (simp add: build_single_elimination_round_def elimination_pods_def Let_def linorder_not_le [of r 1, symmetric])
qed

theorem elimination_bracket_halves_witness:
  "(\<exists>ps. build_single_elimination_round [''a'', ''b'', ''c''] [] 1 0 = Ok ps
        \<and> mset (concat (map tp_players ps)) = mset [''a'', ''b'', ''c'']
        \<and> length ps = 2 ^ (unat (default_total_rounds SingleEliminationBracket HEAD_TO_HEAD (of_nat (length [''a'', ''b'', ''c'']))) - 1))
   \<and> build_single_elimination_round [''a''] [\<lparr>tp_id = 0, tp_round = 1, tp_players = [''a''], tp_outcome = Some Bye\<rparr>] 2 1
     = Err BracketDecided"
  using elimination_bracket_halves [of 1 "[''a'', ''b'', ''c'']" "[]" 0 HEAD_TO_HEAD]
    elimination_bracket_halves [of 2 "[''a'']" "[\<lparr>tp_id = 0, tp_round = 1, tp_players = [''a''], tp_outcome = Some Bye\<rparr>]" 1]
  by simp

end
