(* ===== verification/Tournament_Standings.thy ===== *)
theory Tournament_Standings
  imports Complex_Main Rust_Ordering Tournament_Credential Tournament_Rounds Draft_Types Seat_Reducer
begin

text \<open>
  The record of a tournament and its standings (\<^verbatim>\<open>src/crates/lobby-broker/src/tournament.rs\<close>): scoring policies,
  players, \<^verbatim>\<open>TournamentMeta\<close> with its queries, the per-player totals of the pairing history, the
  tiebreak axes and the ranking. The lemmas show what the totals count, that the rows are the players,
  and that they are ranked by the comparison of the code.

  \<^verbatim>\<open>f64\<close> arithmetic is an argument of the definitions, a record of the operations the code uses; nothing is
  assumed of it but, where the order of rows is concerned, that comparison is a total order.
\<close>

subsection \<open>Scoring\<close>

record scoring_policy =
  win_points :: u8
  draw_points :: u8
  loss_points :: u8

datatype scoring_error = ZeroWinPoints

definition scoring_new :: "u8 \<Rightarrow> u8 \<Rightarrow> u8 \<Rightarrow> (scoring_policy, scoring_error) rust_result" where
  "scoring_new win draw loss =
     (if win = 0 then Err ZeroWinPoints else Ok \<lparr>win_points = win, draw_points = draw, loss_points = loss\<rparr>)"

text \<open>The product is computed in \<^verbatim>\<open>u16\<close>; the conversion back panics if it does not fit.\<close>

definition default_for_arity :: "match_arity \<Rightarrow> scoring_policy option" where
  "default_for_arity a =
     (let wide = 2 * (of_nat (unat (arity_get a)) :: 16 word) - 1 in
      if unat wide < 256 then Some \<lparr>win_points = of_nat (unat wide), draw_points = 1, loss_points = 0\<rparr> else None)"

subsection \<open>Floating-point operations\<close>

record 'f f64_ops =
  f_from_u32 :: "u32 \<Rightarrow> 'f"
  f_add :: "'f \<Rightarrow> 'f \<Rightarrow> 'f"
  f_sub :: "'f \<Rightarrow> 'f \<Rightarrow> 'f"
  f_mul :: "'f \<Rightarrow> 'f \<Rightarrow> 'f"
  f_div :: "'f \<Rightarrow> 'f \<Rightarrow> 'f"
  f_max :: "'f \<Rightarrow> 'f \<Rightarrow> 'f"
  f_partial_cmp :: "'f \<Rightarrow> 'f \<Rightarrow> rust_ordering option"

definition f_from_u8 :: "'f f64_ops \<Rightarrow> u8 \<Rightarrow> 'f" where
  "f_from_u8 fo w = f_from_u32 fo (of_nat (unat w))"

definition tiebreak_floor :: "'f f64_ops \<Rightarrow> scoring_policy \<Rightarrow> 'f" where
  "tiebreak_floor fo s = f_div fo (f_from_u32 fo 1) (f_from_u8 fo (win_points s))"

subsection \<open>The tournament record\<close>

datatype tournament_status = RegistrationStatus | InProgressStatus | CompletedStatus | AbandonedStatus

definition is_terminal :: "tournament_status \<Rightarrow> bool" where
  "is_terminal st \<longleftrightarrow> st = CompletedStatus \<or> st = AbandonedStatus"

datatype tournament_action = StartRoundAction | EndTournamentAction | DropAction

datatype report_gate = GateOpen | GateNotRunning | GateBye | GateForfeit

record tournament_player =
  player_key :: string
  player_token :: tournament_credential
  player_display_name :: string
  dropped :: bool

definition default_match_type :: "match_arity \<Rightarrow> match_type" where
  "default_match_type a = (if a = HEAD_TO_HEAD then Bo3 else Bo1)"

record create_request =
  cr_name :: string
  cr_arity :: match_arity
  cr_scoring :: scoring_policy
  cr_bracket :: bracket_shape
  cr_total_rounds :: "u32 option"
  cr_plus_rounds :: "u32 option"
  cr_format :: "game_format option"
  cr_match_type :: "match_type option"

record tournament_meta =
  tm_code :: string
  tm_name :: string
  organizer_token :: tournament_credential
  tm_arity :: match_arity
  tm_scoring :: scoring_policy
  tm_bracket :: bracket_shape
  total_rounds_override :: "u32 option"
  resolved_total_rounds :: "u32 option"
  plus_rounds :: "u32 option"
  tm_format :: "game_format option"
  tm_match_type :: match_type
  current_round :: u32
  tm_status :: tournament_status
  tm_players :: "tournament_player list"
  tm_pairings :: "tournament_pairing list"
  created_at :: u64
  last_activity_at :: u64

definition active_players :: "tournament_meta \<Rightarrow> tournament_player list" where
  "active_players meta = filter (\<lambda>p. \<not> dropped p) (tm_players meta)"

definition active_player_count :: "tournament_meta \<Rightarrow> u32" where
  "active_player_count meta = of_nat (length (active_players meta))"

definition saturating_add_u32 :: "u32 \<Rightarrow> u32 \<Rightarrow> u32" where
  "saturating_add_u32 a b = (if unat a + unat b < 2 ^ 32 then a + b else - 1)"

definition total_rounds :: "tournament_meta \<Rightarrow> u32" where
  "total_rounds meta =
     (case total_rounds_override meta of
        Some r \<Rightarrow> r
      | None \<Rightarrow>
          (case resolved_total_rounds meta of
             Some r \<Rightarrow> r
           | None \<Rightarrow> saturating_add_u32
               (default_total_rounds (tm_bracket meta) (tm_arity meta) (active_player_count meta))
               (case plus_rounds meta of None \<Rightarrow> 0 | Some n \<Rightarrow> n)))"

definition find_player :: "tournament_meta \<Rightarrow> string \<Rightarrow> tournament_player option" where
  "find_player meta key = find (\<lambda>p. player_key p = key) (tm_players meta)"

definition find_pairing :: "tournament_meta \<Rightarrow> u32 \<Rightarrow> tournament_pairing option" where
  "find_pairing meta i = find (\<lambda>p. tp_id p = i) (tm_pairings meta)"

definition first_unresolved_pairing :: "tournament_meta \<Rightarrow> tournament_pairing option" where
  "first_unresolved_pairing meta = find (\<lambda>p. tp_outcome p = None) (tm_pairings meta)"

definition open_actions :: "tournament_meta \<Rightarrow> tournament_action set" where
  "open_actions meta =
     (if is_terminal (tm_status meta) then {}
      else if tm_status meta \<noteq> RegistrationStatus then {StartRoundAction, DropAction, EndTournamentAction}
      else {StartRoundAction, DropAction})"

definition report_gate_of :: "tournament_meta \<Rightarrow> tournament_pairing \<Rightarrow> report_gate" where
  "report_gate_of meta p =
     (if is_terminal (tm_status meta) then GateNotRunning
      else (case tp_outcome p of
          Some Bye \<Rightarrow> GateBye
        | Some (Forfeit _) \<Rightarrow> GateForfeit
        | Some (Reported _) \<Rightarrow> GateOpen
        | None \<Rightarrow> GateOpen))"

subsection \<open>Player records\<close>

record player_record =
  match_points :: u32
  matches_played :: u32
  record_byes :: u32
  record_game_wins :: u32
  games_played :: u32
  opponents :: "string list"

definition default_record :: player_record where
  "default_record = \<lparr>match_points = 0, matches_played = 0, record_byes = 0, record_game_wins = 0, games_played = 0, opponents = []\<rparr>"

definition widen :: "u8 \<Rightarrow> u32" where
  "widen w = of_nat (unat w)"

definition win_or_loss :: "scoring_policy \<Rightarrow> string \<Rightarrow> string \<Rightarrow> u32" where
  "win_or_loss scoring winner key = widen (if winner = key then win_points scoring else loss_points scoring)"

definition score_outcome :: "scoring_policy \<Rightarrow> pairing_outcome \<Rightarrow> string \<Rightarrow> player_record \<Rightarrow> player_record" where
  "score_outcome scoring outcome key rec =
     (case outcome of
        Bye \<Rightarrow> rec\<lparr>match_points := match_points rec + widen (win_points scoring), record_byes := record_byes rec + 1,
          record_game_wins := record_game_wins rec + 2, games_played := games_played rec + 2\<rparr>
      | Forfeit winner \<Rightarrow> rec\<lparr>matches_played := matches_played rec + 1,
          match_points := match_points rec + win_or_loss scoring winner key\<rparr>
      | Reported Draw \<Rightarrow> rec\<lparr>matches_played := matches_played rec + 1,
          match_points := match_points rec + widen (draw_points scoring)\<rparr>
      | Reported (Decisive winner game_wins) \<Rightarrow>
          (let rec1 = rec\<lparr>matches_played := matches_played rec + 1,
             match_points := match_points rec + win_or_loss scoring winner key\<rparr>
           in if game_wins = []
              then rec1\<lparr>games_played := games_played rec1 + 1,
                record_game_wins := record_game_wins rec1 + (if winner = key then 1 else 0)\<rparr>
              else rec1\<lparr>record_game_wins := record_game_wins rec1 + widen (case map_of game_wins key of None \<Rightarrow> 0 | Some w \<Rightarrow> w),
                games_played := games_played rec1 + sum_list (map (widen \<circ> snd) game_wins)\<rparr>))"

definition score_seat ::
  "scoring_policy \<Rightarrow> tournament_pairing \<Rightarrow> pairing_outcome \<Rightarrow> (string \<rightharpoonup> player_record) \<Rightarrow> string \<Rightarrow> (string \<rightharpoonup> player_record)" where
  "score_seat scoring p outcome records key =
     (case records key of
        None \<Rightarrow> records
      | Some rec \<Rightarrow>
          (let rec1 = score_outcome scoring outcome key rec in
           records(key \<mapsto> (if 1 < length (tp_players p)
             then rec1\<lparr>opponents := opponents rec1 @ filter (\<lambda>other. other \<noteq> key) (tp_players p)\<rparr>
             else rec1))))"

definition score_pairing :: "scoring_policy \<Rightarrow> (string \<rightharpoonup> player_record) \<Rightarrow> tournament_pairing \<Rightarrow> (string \<rightharpoonup> player_record)" where
  "score_pairing scoring records p =
     (case tp_outcome p of
        None \<Rightarrow> records
      | Some outcome \<Rightarrow> foldl (score_seat scoring p outcome) records (tp_players p))"

definition player_records :: "tournament_meta \<Rightarrow> (string \<rightharpoonup> player_record)" where
  "player_records meta =
     foldl (score_pairing (tm_scoring meta))
       (foldl (\<lambda>records p. records(player_key p \<mapsto> default_record)) Map.empty (tm_players meta)) (tm_pairings meta)"

subsection \<open>Tiebreaks\<close>

datatype tiebreak_order = HeadToHeadOrder | MultiplayerOrder

definition for_arity :: "match_arity \<Rightarrow> tiebreak_order" where
  "for_arity a = (if a = HEAD_TO_HEAD then HeadToHeadOrder else MultiplayerOrder)"

datatype 'f tiebreaks =
  HeadToHeadTiebreaks (opponents_match_win_pct: 'f) 'f 'f
| MultiplayerTiebreaks 'f 'f 'f

fun tiebreak_keys :: "'f tiebreaks \<Rightarrow> 'f list" where
  "tiebreak_keys (HeadToHeadTiebreaks omw gw ogw) = [omw, gw, ogw]"
| "tiebreak_keys (MultiplayerTiebreaks mw oamp omw) = [mw, oamp, omw]"

record 'f tournament_standing =
  row_key :: string
  row_display_name :: string
  row_dropped :: bool
  row_match_points :: u32
  row_matches_played :: u32
  row_byes :: u32
  row_tiebreaks :: "'f tiebreaks"

definition match_win_pct :: "'f f64_ops \<Rightarrow> scoring_policy \<Rightarrow> player_record \<Rightarrow> 'f" where
  "match_win_pct fo scoring rec =
     (let floor = tiebreak_floor fo scoring in
      if matches_played rec = 0 then floor
      else (let per_win = f_from_u8 fo (win_points scoring);
                earned = f_sub fo (f_from_u32 fo (match_points rec)) (f_mul fo (f_from_u32 fo (record_byes rec)) per_win);
                possible = f_mul fo (f_from_u32 fo (matches_played rec)) per_win
            in f_max fo (f_div fo earned possible) floor))"

definition game_win_pct :: "'f f64_ops \<Rightarrow> scoring_policy \<Rightarrow> player_record \<Rightarrow> 'f" where
  "game_win_pct fo scoring rec =
     (let floor = tiebreak_floor fo scoring in
      if games_played rec = 0 then floor
      else f_max fo (f_div fo (f_from_u32 fo (record_game_wins rec)) (f_from_u32 fo (games_played rec))) floor)"

definition opponents_average ::
  "'f f64_ops \<Rightarrow> player_record \<Rightarrow> (string \<rightharpoonup> player_record) \<Rightarrow> 'f \<Rightarrow> (player_record \<Rightarrow> 'f) \<Rightarrow> 'f" where
  "opponents_average fo rec records none_yet val =
     (let (total, n) = foldl (\<lambda>(total, n) opponent. (f_add fo total (val opponent), n + 1))
        (f_from_u32 fo 0, 0) (List.map_filter records (opponents rec))
      in if n = (0 :: u32) then none_yet else f_div fo total (f_from_u32 fo n))"

fun compare_keys :: "'f f64_ops \<Rightarrow> 'f list \<Rightarrow> 'f list \<Rightarrow> rust_ordering" where
  "compare_keys fo (a # left) (b # right) =
     (let o1 = (case f_partial_cmp fo a b of None \<Rightarrow> OrdEqual | Some c \<Rightarrow> c)
      in if o1 \<noteq> OrdEqual then o1 else compare_keys fo left right)"
| "compare_keys fo left right = OrdEqual"

definition row_cmp :: "'f f64_ops \<Rightarrow> 'f tournament_standing \<Rightarrow> 'f tournament_standing \<Rightarrow> rust_ordering" where
  "row_cmp fo a b =
     then_with (then_with (rust_cmp (row_match_points b) (row_match_points a))
       (compare_keys fo (tiebreak_keys (row_tiebreaks b)) (tiebreak_keys (row_tiebreaks a))))
       (rust_cmp (row_key a) (row_key b))"

text \<open>Indexing the records by a key that is not in them panics.\<close>

definition standing_row ::
  "'f f64_ops \<Rightarrow> tournament_meta \<Rightarrow> (string \<rightharpoonup> player_record) \<Rightarrow> tournament_player \<Rightarrow> 'f tournament_standing option" where
  "standing_row fo meta records player =
     (case records (player_key player) of
        None \<Rightarrow> None
      | Some rec \<Rightarrow>
          (let scoring = tm_scoring meta; floor = tiebreak_floor fo scoring;
               tiebreaks = (case for_arity (tm_arity meta) of
                  HeadToHeadOrder \<Rightarrow> HeadToHeadTiebreaks
                    (opponents_average fo rec records floor (match_win_pct fo scoring))
                    (game_win_pct fo scoring rec)
                    (opponents_average fo rec records floor (game_win_pct fo scoring))
                | MultiplayerOrder \<Rightarrow> MultiplayerTiebreaks
                    (match_win_pct fo scoring rec)
                    (opponents_average fo rec records (f_from_u32 fo 0) (\<lambda>r. f_from_u32 fo (match_points r)))
                    (opponents_average fo rec records floor (match_win_pct fo scoring)))
           in Some \<lparr>row_key = player_key player, row_display_name = player_display_name player, row_dropped = dropped player,
                row_match_points = match_points rec, row_matches_played = matches_played rec, row_byes = record_byes rec,
                row_tiebreaks = tiebreaks\<rparr>))"

definition standings :: "'f f64_ops \<Rightarrow> tournament_meta \<Rightarrow> 'f tournament_standing list option" where
  "standings fo meta =
     map_option (sort_by (row_cmp fo)) (those (map (standing_row fo meta (player_records meta)) (tm_players meta)))"

subsection \<open>The comparison of rows\<close>

text \<open>What \<^verbatim>\<open>partial_cmp\<close> promises of doubles that are not \<^verbatim>\<open>NaN\<close>.\<close>

definition f64_total :: "'f f64_ops \<Rightarrow> bool" where
  "f64_total fo \<longleftrightarrow> (\<forall>a b. f_partial_cmp fo a b \<noteq> None) \<and> total_cmp (\<lambda>a b. the (f_partial_cmp fo a b))"

lemma total_cmp_rows:
  assumes "f64_total fo"
  shows "total_cmp (row_cmp fo)"
proof -
  have c: "total_cmp (\<lambda>a b. the (f_partial_cmp fo a b))" and d: "\<And>a b. f_partial_cmp fo a b \<noteq> None"
    using assms by (auto simp: f64_total_def)
  define k where "k i t = tiebreak_keys t ! i" for i and t :: "'a tiebreaks"
  have keys: "compare_keys fo (tiebreak_keys u) (tiebreak_keys t)
      = then_with (the (f_partial_cmp fo (k 0 u) (k 0 t))) (then_with (the (f_partial_cmp fo (k 1 u) (k 1 t)))
          (the (f_partial_cmp fo (k 2 u) (k 2 t))))" for u t
  proof -
    have "(case f_partial_cmp fo x y of None \<Rightarrow> OrdEqual | Some c \<Rightarrow> c) = the (f_partial_cmp fo x y)" for x y
      using d [of x y] by auto
    then show ?thesis by (cases u; cases t) (simp_all add: k_def then_with_def Let_def)
  qed
  have one: "total_cmp (\<lambda>a b. the (f_partial_cmp fo (k i (row_tiebreaks b)) (k i (row_tiebreaks a))))" for i
    by (rule total_cmp_swap [OF total_cmp_by [OF c]])
  have "total_cmp (\<lambda>a b. compare_keys fo (tiebreak_keys (row_tiebreaks b)) (tiebreak_keys (row_tiebreaks a)))"
    unfolding keys by (intro total_cmp_then_with one)
  then show ?thesis unfolding row_cmp_def
    by (intro total_cmp_then_with total_cmp_swap [OF total_cmp_by [OF total_cmp_rust_cmp]]
        total_cmp_by [OF total_cmp_rust_cmp])
qed

subsection \<open>What the records count\<close>

definition seat_update :: "scoring_policy \<Rightarrow> tournament_pairing \<Rightarrow> pairing_outcome \<Rightarrow> string \<Rightarrow> player_record \<Rightarrow> player_record" where
  "seat_update scoring p outcome key rec =
     (let rec1 = score_outcome scoring outcome key rec in
      if 1 < length (tp_players p)
      then rec1\<lparr>opponents := opponents rec1 @ filter (\<lambda>other. other \<noteq> key) (tp_players p)\<rparr> else rec1)"

lemma score_seat_alt: "score_seat scoring p outcome records key = records(key := map_option (seat_update scoring p outcome key) (records key))"
  by (auto simp: score_seat_def seat_update_def Let_def split: option.split)

lemma score_seats_at:
  "distinct keys \<Longrightarrow> foldl (score_seat scoring p outcome) records keys k
     = (if k \<in> set keys then map_option (seat_update scoring p outcome k) (records k) else records k)"
  by (induction keys arbitrary: records) (auto simp: score_seat_alt)

definition pairing_update :: "scoring_policy \<Rightarrow> string \<Rightarrow> player_record \<Rightarrow> tournament_pairing \<Rightarrow> player_record" where
  "pairing_update scoring key rec p =
     (case tp_outcome p of
        None \<Rightarrow> rec
      | Some outcome \<Rightarrow> if seats_player p key then seat_update scoring p outcome key rec else rec)"

lemma score_pairings_at:
  assumes "\<forall>p\<in>set ps. distinct (tp_players p)"
  shows "foldl (score_pairing scoring) records ps k = map_option (\<lambda>rec. foldl (pairing_update scoring k) rec ps) (records k)"
  using assms
proof (induction ps arbitrary: records)
  case Nil
  then show ?case by (simp add: option.map_ident)
next
  case (Cons p ps)
  then show ?case
    by (auto simp: score_pairing_def pairing_update_def score_seats_at seats_player_def option.map_comp o_def
        split: option.split)
qed

lemma initial_records:
  "foldl (\<lambda>records p. records(player_key p \<mapsto> default_record)) records players k
     = (if k \<in> player_key ` set players then Some default_record else records k)"
  by (induction players arbitrary: records) auto

lemma player_records_at:
  assumes "\<forall>p\<in>set (tm_pairings meta). distinct (tp_players p)" and "k \<in> player_key ` set (tm_players meta)"
  shows "player_records meta k = Some (foldl (pairing_update (tm_scoring meta) k) default_record (tm_pairings meta))"
  using assms by (simp add: player_records_def score_pairings_at initial_records)

text \<open>The points one pairing is worth to one of its players.\<close>

definition points_for :: "scoring_policy \<Rightarrow> string \<Rightarrow> tournament_pairing \<Rightarrow> u32" where
  "points_for scoring key p =
     (if \<not> seats_player p key then 0
      else (case tp_outcome p of
          None \<Rightarrow> 0
        | Some Bye \<Rightarrow> widen (win_points scoring)
        | Some (Forfeit winner) \<Rightarrow> widen (if winner = key then win_points scoring else loss_points scoring)
        | Some (Reported Draw) \<Rightarrow> widen (draw_points scoring)
        | Some (Reported (Decisive winner _)) \<Rightarrow> widen (if winner = key then win_points scoring else loss_points scoring)))"

lemma pairing_update_counts:
  "match_points (pairing_update scoring key rec p) = match_points rec + points_for scoring key p"
  "record_byes (pairing_update scoring key rec p) = record_byes rec + (if seats_player p key \<and> tp_outcome p = Some Bye then 1 else 0)"
  "matches_played (pairing_update scoring key rec p)
     = matches_played rec + (if seats_player p key \<and> tp_outcome p \<notin> {None, Some Bye} then 1 else 0)"
  by (auto simp: pairing_update_def seat_update_def score_outcome_def points_for_def win_or_loss_def Let_def
      split: option.split pairing_outcome.split pod_outcome.split)

lemma foldl_counts:
  "match_points (foldl (pairing_update scoring key) rec ps) = match_points rec + sum_list (map (points_for scoring key) ps)"
  "record_byes (foldl (pairing_update scoring key) rec ps)
     = record_byes rec + of_nat (length (filter (\<lambda>p. seats_player p key \<and> tp_outcome p = Some Bye) ps))"
  "matches_played (foldl (pairing_update scoring key) rec ps)
     = matches_played rec + of_nat (length (filter (\<lambda>p. seats_player p key \<and> tp_outcome p \<notin> {None, Some Bye}) ps))"
  by (induction ps arbitrary: rec) (simp_all add: pairing_update_counts add.assoc)

lemma standings_rows:
  assumes "\<forall>p\<in>set (tm_pairings meta). distinct (tp_players p)"
  obtains rows where "standings fo meta = Some (sort_by (row_cmp fo) rows)"
    "map row_key rows = map player_key (tm_players meta)" "map row_dropped rows = map dropped (tm_players meta)"
    "\<forall>row\<in>set rows. row_match_points row = sum_list (map (points_for (tm_scoring meta) (row_key row)) (tm_pairings meta))
       \<and> row_byes row = of_nat (length (filter (\<lambda>p. seats_player p (row_key row) \<and> tp_outcome p = Some Bye) (tm_pairings meta)))
       \<and> row_matches_played row
           = of_nat (length (filter (\<lambda>p. seats_player p (row_key row) \<and> tp_outcome p \<notin> {None, Some Bye}) (tm_pairings meta)))"
proof -
  let ?row = "standing_row fo meta (player_records meta)"
  have row: "\<exists>r. ?row q = Some r \<and> row_key r = player_key q \<and> row_dropped r = dropped q
      \<and> row_match_points r = sum_list (map (points_for (tm_scoring meta) (player_key q)) (tm_pairings meta))
      \<and> row_byes r = of_nat (length (filter (\<lambda>p. seats_player p (player_key q) \<and> tp_outcome p = Some Bye) (tm_pairings meta)))
      \<and> row_matches_played r
          = of_nat (length (filter (\<lambda>p. seats_player p (player_key q) \<and> tp_outcome p \<notin> {None, Some Bye}) (tm_pairings meta)))"
    if "q \<in> set (tm_players meta)" for q
    using player_records_at [OF assms, of "player_key q"] that
    by (simp add: standing_row_def Let_def foldl_counts default_record_def)
  define rows where "rows = map (the \<circ> ?row) (tm_players meta)"
  have "those (map ?row ps) = Some (map (the \<circ> ?row) ps)" if "set ps \<subseteq> set (tm_players meta)" for ps
    using that by (induction ps) (auto dest!: row)
  then have "standings fo meta = Some (sort_by (row_cmp fo) rows)" by (simp add: standings_def rows_def)
  moreover have "map row_key rows = map player_key (tm_players meta)" "map row_dropped rows = map dropped (tm_players meta)"
    by (auto simp: rows_def dest!: row)
  moreover have "\<forall>row\<in>set rows. row_match_points row = sum_list (map (points_for (tm_scoring meta) (row_key row)) (tm_pairings meta))
       \<and> row_byes row = of_nat (length (filter (\<lambda>p. seats_player p (row_key row) \<and> tp_outcome p = Some Bye) (tm_pairings meta)))
       \<and> row_matches_played row
           = of_nat (length (filter (\<lambda>p. seats_player p (row_key row) \<and> tp_outcome p \<notin> {None, Some Bye}) (tm_pairings meta)))"
    by (auto simp: rows_def dest!: row)
  ultimately show thesis by (rule that)
qed

subsection \<open>The ranking\<close>

definition ranks_above :: "'f f64_ops \<Rightarrow> 'f tournament_standing \<Rightarrow> 'f tournament_standing \<Rightarrow> bool" where
  "ranks_above fo a b \<longleftrightarrow>
     row_match_points b < row_match_points a
     \<or> row_match_points a = row_match_points b
       \<and> (case compare_keys fo (tiebreak_keys (row_tiebreaks b)) (tiebreak_keys (row_tiebreaks a)) of
            OrdLess \<Rightarrow> True
          | OrdEqual \<Rightarrow> row_key a < row_key b
          | OrdGreater \<Rightarrow> False)"

lemma row_cmp_ranks: "row_cmp fo a b \<noteq> OrdGreater \<Longrightarrow> row_key a \<noteq> row_key b \<Longrightarrow> ranks_above fo a b"
  by (auto simp: row_cmp_def ranks_above_def then_with_def rust_cmp_def split: if_splits rust_ordering.split)

text \<open>C27. The standings of an event list every entrant exactly once, ranked by match points, then by the tiebreak
  axes in their order, then by key. The match points of a row are the sum of what each resolved
  pairing of the player is worth under the scoring policy, and byes and matches played are counted apart.\<close>

theorem tournament_standings_rank:
  assumes "distinct (map player_key (tm_players meta))" and "\<forall>p\<in>set (tm_pairings meta). distinct (tp_players p)"
    and "f64_total fo"
  shows "\<exists>rows. standings fo meta = Some rows \<and> mset (map row_key rows) = mset (map player_key (tm_players meta))
    \<and> sorted_wrt (ranks_above fo) rows
    \<and> (\<forall>row\<in>set rows. row_match_points row = sum_list (map (points_for (tm_scoring meta) (row_key row)) (tm_pairings meta))
       \<and> row_byes row = of_nat (length (filter (\<lambda>p. seats_player p (row_key row) \<and> tp_outcome p = Some Bye) (tm_pairings meta)))
       \<and> row_matches_played row
           = of_nat (length (filter (\<lambda>p. seats_player p (row_key row) \<and> tp_outcome p \<notin> {None, Some Bye}) (tm_pairings meta))))"
proof -
  obtain rows where rows: "standings fo meta = Some (sort_by (row_cmp fo) rows)"
    "map row_key rows = map player_key (tm_players meta)"
    and counts: "\<forall>row\<in>set rows. row_match_points row = sum_list (map (points_for (tm_scoring meta) (row_key row)) (tm_pairings meta))
       \<and> row_byes row = of_nat (length (filter (\<lambda>p. seats_player p (row_key row) \<and> tp_outcome p = Some Bye) (tm_pairings meta)))
       \<and> row_matches_played row
           = of_nat (length (filter (\<lambda>p. seats_player p (row_key row) \<and> tp_outcome p \<notin> {None, Some Bye}) (tm_pairings meta)))"
    by (rule standings_rows [OF assms(2), of fo])
  let ?s = "sort_by (row_cmp fo) rows"
  have keys: "mset (map row_key ?s) = mset (map player_key (tm_players meta))"
    using rows(2) by (metis mset_map mset_sort_by)
  then have dist: "distinct (map row_key ?s)" using assms(1) by (metis mset_eq_imp_distinct_iff)
  have "sorted_wrt (ranks_above fo) ?s"
    unfolding sorted_wrt_iff_nth_less
  proof (intro allI impI)
    fix i j assume ij: "i < j" "j < length ?s"
    with dist have "row_key (?s ! i) \<noteq> row_key (?s ! j)" by (auto simp: distinct_conv_nth)
    moreover have "row_cmp fo (?s ! i) (?s ! j) \<noteq> OrdGreater"
      using sorted_sort_by [OF total_cmp_rows [OF assms(3)], of rows] ij by (simp add: sorted_wrt_iff_nth_less)
    ultimately show "ranks_above fo (?s ! i) (?s ! j)" by (intro row_cmp_ranks)
  qed
  moreover have "set ?s = set rows" by (rule mset_eq_setD [OF mset_sort_by])
  ultimately show ?thesis using rows(1) keys counts by (intro exI [of _ ?s] conjI) (simp_all only:)
qed

text \<open>Exact fractions are one arithmetic whose comparison is total.\<close>

definition exact_ops :: "rat f64_ops" where
  "exact_ops = \<lparr>f_from_u32 = (\<lambda>w. of_nat (unat w)), f_add = (+), f_sub = (-), f_mul = (*), f_div = (/), f_max = max,
     f_partial_cmp = (\<lambda>a b. Some (rust_cmp a b))\<rparr>"

lemma exact_ops_total: "f64_total exact_ops"
  using total_cmp_rust_cmp [where 'a = rat] by (simp add: f64_total_def exact_ops_def)

definition sample_token :: tournament_credential where
  "sample_token = \<lparr>secret = ''s'', expires_at_ms = 1000, last_rotation = None\<rparr>"

definition sample_player :: "string \<Rightarrow> tournament_player" where
  "sample_player key = \<lparr>player_key = key, player_token = sample_token, player_display_name = key, dropped = False\<rparr>"

definition sample_meta :: tournament_meta where
  "sample_meta = \<lparr>tm_code = ''T'', tm_name = ''Friday'', organizer_token = sample_token, tm_arity = HEAD_TO_HEAD,
     tm_scoring = \<lparr>win_points = 3, draw_points = 1, loss_points = 0\<rparr>, tm_bracket = SwissBracket,
     total_rounds_override = None, resolved_total_rounds = Some 3, plus_rounds = None, tm_format = None, tm_match_type = Bo1,
     current_round = 1, tm_status = InProgressStatus, tm_players = map sample_player [''a'', ''b'', ''c''],
     tm_pairings = [\<lparr>tp_id = 0, tp_round = 1, tp_players = [''a'', ''b''], tp_outcome = Some (Reported (Decisive ''b'' []))\<rparr>,
       \<lparr>tp_id = 1, tp_round = 1, tp_players = [''c''], tp_outcome = Some Bye\<rparr>],
     created_at = 0, last_activity_at = 0\<rparr>"

theorem tournament_standings_rank_witness:
  "\<exists>rows. standings exact_ops sample_meta = Some rows \<and> mset (map row_key rows) = {#''a'', ''b'', ''c''#}
     \<and> sorted_wrt (ranks_above exact_ops) rows"
proof -
  have "distinct (map player_key (tm_players sample_meta))" "\<forall>p\<in>set (tm_pairings sample_meta). distinct (tp_players p)"
    by (simp_all add: sample_meta_def sample_player_def)
  from tournament_standings_rank [OF this exact_ops_total] show ?thesis
    by (simp add: sample_meta_def sample_player_def) blast
qed

end
