(* ===== verification/Tournament_Manager.thy ===== *)
theory Tournament_Manager
  imports Tournament_Standings
begin

text \<open>
  The tournament registry (\<^verbatim>\<open>src/crates/lobby-broker/src/tournament.rs\<close>, \<^verbatim>\<open>TournamentManager\<close>): validation of
  reported results and the operations that create, join, renew, pair, report, drop, complete and expire.
  The lemmas show the invariant that every operation keeps, that refused requests change nothing, and which
  events can be brought to an end.

  The registry is a map from codes to records; a sweep visits it in the order of its hash table, which is an
  argument. A clock reading divided by 1000 is the time in seconds.
\<close>

datatype tournament_error =
    TournamentNotFound string
  | CodeInUse string
  | EliminationHeadToHeadOnly u8
  | ZeroRoundOverride
  | BestOfThreeHeadToHeadOnly u8
  | NotAcceptingEntries tournament_status
  | AlreadyJoined string
  | CredentialExpired tournament_role
  | InvalidToken tournament_role
  | PlayerDropped
  | NotRunning tournament_status
  | NoRoundLeft u32 u32
  | PairingPending u32 u32
  | BracketRefused bracket_error
  | PairingNotFound u32
  | PairingIsBye u32
  | PairingForfeited u32
  | WinnerNotSeated
  | WinnerDropped string
  | BestOfThreeNeedsPair
  | GameWinsForBoth
  | IllegalTally u8 u8
  | WinnerLostGames
  | SingleGameTally
  | EliminationDraw u32
  | PlayerNotIn string
  | AlreadyFinished tournament_status
  | NotStarted tournament_status
  | BadArity arity_error
  | BadScoring scoring_error

type_synonym manager = "string \<rightharpoonup> tournament_meta"

subsection \<open>Reported results\<close>

definition validate_bo3 :: "tournament_pairing \<Rightarrow> string \<Rightarrow> (string \<times> u8) list \<Rightarrow> (unit, tournament_error) rust_result" where
  "validate_bo3 p winner game_wins =
     (case tp_players p of
        [a, b] \<Rightarrow>
          (case (map_of game_wins a, map_of game_wins b) of
             (Some wa, Some wb) \<Rightarrow>
               (if length game_wins \<noteq> 2 then Err GameWinsForBoth
                else if (wa, wb) \<notin> {(2, 0), (2, 1), (0, 2), (1, 2)} then Err (IllegalTally wa wb)
                else if winner \<noteq> (if wb < wa then a else b) then Err WinnerLostGames
                else Ok ())
           | _ \<Rightarrow> Err GameWinsForBoth)
      | _ \<Rightarrow> Err BestOfThreeNeedsPair)"

definition validate_match_result ::
  "tournament_pairing \<Rightarrow> pod_outcome \<Rightarrow> tournament_player list \<Rightarrow> match_type \<Rightarrow> (unit, tournament_error) rust_result" where
  "validate_match_result p result players match_type =
     (case result of
        Draw \<Rightarrow> Ok ()
      | Decisive winner game_wins \<Rightarrow>
          (if winner \<notin> set (tp_players p) then Err WinnerNotSeated
           else if list_ex (\<lambda>q. player_key q = winner \<and> dropped q) players then Err (WinnerDropped winner)
           else (case match_type of
               Bo3 \<Rightarrow> validate_bo3 p winner game_wins
             | Bo1 \<Rightarrow> if game_wins \<noteq> [] then Err SingleGameTally else Ok ())))"

subsection \<open>Operations\<close>

definition now_secs :: "broker_env \<Rightarrow> u64" where
  "now_secs env = clock env 0 div 1000"

text \<open>\<^verbatim>\<open>meta_mut\<close>: the operation on the record of a code.\<close>

definition with_meta ::
  "manager \<Rightarrow> string \<Rightarrow> (tournament_meta \<Rightarrow> tournament_meta \<times> ('a, tournament_error) rust_result)
     \<Rightarrow> manager \<times> ('a, tournament_error) rust_result" where
  "with_meta m code f =
     (case m code of
        None \<Rightarrow> (m, Err (TournamentNotFound code))
      | Some meta \<Rightarrow> (let (meta', answer) = f meta in (m(code \<mapsto> meta'), answer)))"

definition new_meta :: "string \<Rightarrow> create_request \<Rightarrow> tournament_credential \<Rightarrow> u64 \<Rightarrow> tournament_meta" where
  "new_meta code req token now =
     \<lparr>tm_code = code, tm_name = cr_name req, organizer_token = token, tm_arity = cr_arity req, tm_scoring = cr_scoring req,
      tm_bracket = cr_bracket req, total_rounds_override = cr_total_rounds req, resolved_total_rounds = None,
      plus_rounds = cr_plus_rounds req, tm_format = cr_format req,
      tm_match_type = (case cr_match_type req of Some mt \<Rightarrow> mt | None \<Rightarrow> default_match_type (cr_arity req)),
      current_round = 0, tm_status = RegistrationStatus, tm_players = [], tm_pairings = [],
      created_at = now, last_activity_at = now\<rparr>"

definition create_tournament ::
  "manager \<Rightarrow> string \<Rightarrow> create_request \<Rightarrow> broker_env \<Rightarrow> manager \<times> (minted_credential, tournament_error) rust_result" where
  "create_tournament m code req env =
     (if m code \<noteq> None then (m, Err (CodeInUse code))
      else if cr_bracket req = SingleEliminationBracket \<and> cr_arity req \<noteq> HEAD_TO_HEAD
      then (m, Err (EliminationHeadToHeadOnly (arity_get (cr_arity req))))
      else if cr_total_rounds req = Some 0 then (m, Err ZeroRoundOverride)
      else if cr_match_type req = Some Bo3 \<and> cr_arity req \<noteq> HEAD_TO_HEAD
      then (m, Err (BestOfThreeHeadToHeadOnly (arity_get (cr_arity req))))
      else (let now = now_secs env; (token, minted) = mint env 1
            in (m(code \<mapsto> new_meta code req token now), Ok minted)))"

definition join_tournament ::
  "manager \<Rightarrow> string \<Rightarrow> string \<Rightarrow> string \<Rightarrow> broker_env \<Rightarrow> manager \<times> (minted_credential, tournament_error) rust_result" where
  "join_tournament m code key display env =
     (let now = now_secs env; (token, minted) = mint env 1 in
      with_meta m code (\<lambda>meta.
        if tm_status meta \<noteq> RegistrationStatus then (meta, Err (NotAcceptingEntries (tm_status meta)))
        else if find_player meta key \<noteq> None then (meta, Err (AlreadyJoined key))
        else (meta\<lparr>tm_players := tm_players meta @ [\<lparr>player_key = key, player_token = token,
                player_display_name = display, dropped = False\<rparr>],
              last_activity_at := now\<rparr>, Ok minted)))"

definition renew_answer :: "tournament_role \<Rightarrow> renew_outcome \<Rightarrow> (minted_credential, tournament_error) rust_result" where
  "renew_answer role outcome =
     (case outcome of
        Minted minted \<Rightarrow> Ok minted
      | Replayed minted \<Rightarrow> Ok minted
      | RenewExpired \<Rightarrow> Err (CredentialExpired role)
      | RenewMismatch \<Rightarrow> Err (InvalidToken role))"

definition renews :: "renew_kind \<Rightarrow> bool" where
  "renews kind \<longleftrightarrow> kind = Mintable \<or> kind = Replayable"

definition renew_credential ::
  "manager \<Rightarrow> string \<Rightarrow> tournament_role \<Rightarrow> string \<Rightarrow> string \<Rightarrow> broker_env
     \<Rightarrow> manager \<times> (minted_credential, tournament_error) rust_result" where
  "renew_credential m code role presented nonce env =
     (let now_ms = clock env 0 in
      with_meta m code (\<lambda>meta.
        case role of
          Organizer \<Rightarrow>
            (let (token, outcome) = renew (organizer_token meta) presented nonce env 1
             in (meta\<lparr>organizer_token := token\<rparr>, renew_answer role outcome))
        | Player \<Rightarrow>
            (case position (\<lambda>p. renews (renew_kind_of (player_token p) presented nonce now_ms)) (tm_players meta) of
               None \<Rightarrow>
                 (meta, if list_ex (\<lambda>p. renew_kind_of (player_token p) presented nonce now_ms = ExpiredKind) (tm_players meta)
                   then Err (CredentialExpired Player) else Err (InvalidToken Player))
             | Some idx \<Rightarrow>
                 (if dropped (tm_players meta ! idx) then (meta, Err PlayerDropped)
                  else (let (token, outcome) = renew (player_token (tm_players meta ! idx)) presented nonce env 1
                        in (meta\<lparr>tm_players := (tm_players meta)[idx := (tm_players meta ! idx)\<lparr>player_token := token\<rparr>]\<rparr>,
                            renew_answer role outcome))))))"

definition next_pairing_id :: "tournament_pairing list \<Rightarrow> u32" where
  "next_pairing_id ps = (if ps = [] then 0 else Max (tp_id ` set ps) + 1)"

definition pair_round ::
  "tournament_meta \<Rightarrow> string list \<Rightarrow> u32 \<Rightarrow> u32 \<Rightarrow> (tournament_pairing list, tournament_error) rust_result" where
  "pair_round meta order round_no first_id =
     (case tm_bracket meta of
        SwissBracket \<Rightarrow> Ok (build_swiss_round order (tm_arity meta) (tm_pairings meta) round_no first_id)
      | SingleEliminationBracket \<Rightarrow>
          (case build_single_elimination_round order (tm_pairings meta) round_no first_id of
             Ok ps \<Rightarrow> Ok ps
           | Err e \<Rightarrow> Err (BracketRefused e)
           | Panic \<Rightarrow> Panic))"

text \<open>The new pairings are recorded, and the schedule is latched with the first round.\<close>

definition start_round :: "tournament_pairing list \<Rightarrow> u64 \<Rightarrow> tournament_meta \<Rightarrow> tournament_meta" where
  "start_round generated now meta =
     (let round_no = current_round meta + 1 in
      meta\<lparr>tm_pairings := tm_pairings meta @ generated, current_round := round_no,
        resolved_total_rounds :=
          (if round_no = 1 \<and> total_rounds_override meta = None \<and> resolved_total_rounds meta = None
           then Some (total_rounds meta) else resolved_total_rounds meta),
        tm_status := InProgressStatus, last_activity_at := now\<rparr>)"

definition generate_pairings_meta ::
  "'f f64_ops \<Rightarrow> u64 \<Rightarrow> tournament_meta \<Rightarrow> tournament_meta \<times> (u32 list, tournament_error) rust_result" where
  "generate_pairings_meta fo now meta =
     (if StartRoundAction \<notin> open_actions meta then (meta, Err (NotRunning (tm_status meta)))
      else (let total = total_rounds meta in
        if total \<le> current_round meta then (meta, Err (NoRoundLeft (current_round meta) total))
        else (case first_unresolved_pairing meta of
            Some pending \<Rightarrow> (meta, Err (PairingPending (tp_id pending) (tp_round pending)))
          | None \<Rightarrow>
              (let round_no = current_round meta + 1; first_id = next_pairing_id (tm_pairings meta) in
               case standings fo meta of
                 None \<Rightarrow> (meta, Panic)
               | Some rows \<Rightarrow>
                   (let order = map row_key (filter (\<lambda>row. \<not> row_dropped row) rows) in
                    case pair_round meta order round_no first_id of
                      Err e \<Rightarrow> (meta, Err e)
                    | Panic \<Rightarrow> (meta, Panic)
                    | Ok generated \<Rightarrow>
                        (start_round generated now meta, Ok (map tp_id generated)))))))"

definition generate_pairings ::
  "'f f64_ops \<Rightarrow> manager \<Rightarrow> string \<Rightarrow> broker_env \<Rightarrow> manager \<times> (u32 list, tournament_error) rust_result" where
  "generate_pairings fo m code env = with_meta m code (generate_pairings_meta fo (now_secs env))"

definition report_result_meta ::
  "u32 \<Rightarrow> pod_outcome \<Rightarrow> u64 \<Rightarrow> tournament_meta \<Rightarrow> tournament_meta \<times> (unit, tournament_error) rust_result" where
  "report_result_meta i outcome now meta =
     (case position (\<lambda>p. tp_id p = i) (tm_pairings meta) of
        None \<Rightarrow> (meta, Err (PairingNotFound i))
      | Some idx \<Rightarrow>
          (let p = tm_pairings meta ! idx in
           case report_gate_of meta p of
             GateNotRunning \<Rightarrow> (meta, Err (NotRunning (tm_status meta)))
           | GateBye \<Rightarrow> (meta, Err (PairingIsBye i))
           | GateForfeit \<Rightarrow> (meta, Err (PairingForfeited i))
           | GateOpen \<Rightarrow>
               (case validate_match_result p outcome (tm_players meta) (tm_match_type meta) of
                  Err e \<Rightarrow> (meta, Err e)
                | Panic \<Rightarrow> (meta, Panic)
                | Ok _ \<Rightarrow>
                    (if tm_bracket meta = SingleEliminationBracket \<and> outcome = Draw then (meta, Err (EliminationDraw i))
                     else (meta\<lparr>tm_pairings := (tm_pairings meta)[idx := p\<lparr>tp_outcome := Some (Reported outcome)\<rparr>],
                             last_activity_at := now\<rparr>, Ok ())))))"

definition report_result ::
  "manager \<Rightarrow> string \<Rightarrow> u32 \<Rightarrow> pod_outcome \<Rightarrow> broker_env \<Rightarrow> manager \<times> (unit, tournament_error) rust_result" where
  "report_result m code i outcome env = with_meta m code (report_result_meta i outcome (now_secs env))"

text \<open>A pairing without outcome that the drop leaves with exactly one active player is settled by forfeit.\<close>

definition settle_pairing :: "string set \<Rightarrow> string \<Rightarrow> tournament_pairing \<Rightarrow> tournament_pairing" where
  "settle_pairing gone key p =
     (if tp_outcome p \<noteq> None \<or> \<not> seats_player p key then p
      else (case filter (\<lambda>k. k \<notin> gone) (tp_players p) of
          [survivor] \<Rightarrow> p\<lparr>tp_outcome := Some (Forfeit survivor)\<rparr>
        | _ \<Rightarrow> p))"

definition dropped_keys :: "tournament_player list \<Rightarrow> string set" where
  "dropped_keys players = set (map player_key (filter dropped players))"

definition drop_player_meta ::
  "string \<Rightarrow> u64 \<Rightarrow> tournament_meta \<Rightarrow> tournament_meta \<times> (unit, tournament_error) rust_result" where
  "drop_player_meta key now meta =
     (if DropAction \<notin> open_actions meta then (meta, Err (NotRunning (tm_status meta)))
      else (case position (\<lambda>p. player_key p = key) (tm_players meta) of
          None \<Rightarrow> (meta, Err (PlayerNotIn key))
        | Some idx \<Rightarrow>
            (let players = (tm_players meta)[idx := (tm_players meta ! idx)\<lparr>dropped := True\<rparr>]
             in (meta\<lparr>tm_players := players,
                   tm_pairings := map (settle_pairing (dropped_keys players) key) (tm_pairings meta),
                   last_activity_at := now\<rparr>, Ok ()))))"

definition drop_player :: "manager \<Rightarrow> string \<Rightarrow> string \<Rightarrow> broker_env \<Rightarrow> manager \<times> (unit, tournament_error) rust_result" where
  "drop_player m code key env = with_meta m code (drop_player_meta key (now_secs env))"

definition complete_tournament_meta :: "u64 \<Rightarrow> tournament_meta \<Rightarrow> tournament_meta \<times> (unit, tournament_error) rust_result" where
  "complete_tournament_meta now meta =
     (if EndTournamentAction \<notin> open_actions meta
      then (meta, Err (if is_terminal (tm_status meta) then AlreadyFinished (tm_status meta) else NotStarted (tm_status meta)))
      else (case first_unresolved_pairing meta of
          Some pending \<Rightarrow> (meta, Err (PairingPending (tp_id pending) (tp_round pending)))
        | None \<Rightarrow> (meta\<lparr>tm_status := CompletedStatus, last_activity_at := now\<rparr>, Ok ())))"

definition complete_tournament :: "manager \<Rightarrow> string \<Rightarrow> broker_env \<Rightarrow> manager \<times> (unit, tournament_error) rust_result" where
  "complete_tournament m code env = with_meta m code (complete_tournament_meta (now_secs env))"

datatype expiry_event = ExpiryDeleted string | ExpiryAbandoned string

text \<open>What \<^verbatim>\<open>retain\<close> does with one entry: what is left of it, and the event it pushes.\<close>

definition expire_meta :: "u64 \<Rightarrow> string \<Rightarrow> tournament_meta \<Rightarrow> tournament_meta option \<times> expiry_event option" where
  "expire_meta now code meta =
     (let idle = saturating_sub now (last_activity_at meta) in
      case tm_status meta of
        RegistrationStatus \<Rightarrow>
          (if REGISTRATION_TIMEOUT_SECS < idle then (None, Some (ExpiryDeleted code)) else (Some meta, None))
      | InProgressStatus \<Rightarrow>
          (if IN_PROGRESS_ABANDON_SECS < idle
           then (Some (meta\<lparr>tm_status := AbandonedStatus, last_activity_at := now\<rparr>), Some (ExpiryAbandoned code))
           else (Some meta, None))
      | _ \<Rightarrow>
          (if TERMINAL_RETENTION_SECS < idle then (None, Some (ExpiryDeleted code)) else (Some meta, None)))"

definition check_expired :: "string list \<Rightarrow> manager \<Rightarrow> broker_env \<Rightarrow> manager \<times> expiry_event list" where
  "check_expired order m env =
     (let now = now_secs env in
      (\<lambda>code. case m code of None \<Rightarrow> None | Some meta \<Rightarrow> fst (expire_meta now code meta),
       List.map_filter (\<lambda>code. case m code of None \<Rightarrow> None | Some meta \<Rightarrow> snd (expire_meta now code meta)) order))"

subsection \<open>The registry as a reducer\<close>

text \<open>
  Requests reach the registry from the wire, where the arity and the scoring policy of a new event are raw numbers that
  deserialization sends through \<^verbatim>\<open>MatchArity::new\<close> and \<^verbatim>\<open>ScoringPolicy::new\<close>.
\<close>

datatype manager_op =
    CreateOp string u8 "u8 \<times> u8 \<times> u8" create_request
  | JoinOp string string string
  | RenewOp string tournament_role string string
  | GenerateOp string
  | ReportOp string u32 pod_outcome
  | DropOp string string
  | CompleteOp string
  | SweepOp "string list"

datatype manager_answer = AnswerCredential minted_credential | AnswerIds "u32 list" | AnswerDone | AnswerEvents "expiry_event list"

definition answer_with ::
  "('a \<Rightarrow> manager_answer) \<Rightarrow> manager \<times> ('a, tournament_error) rust_result \<Rightarrow> manager \<times> (manager_answer, tournament_error) rust_result" where
  "answer_with f r = (fst r, case snd r of Ok x \<Rightarrow> Ok (f x) | Err e \<Rightarrow> Err e | Panic \<Rightarrow> Panic)"

definition decode_create :: "u8 \<Rightarrow> u8 \<times> u8 \<times> u8 \<Rightarrow> create_request \<Rightarrow> (create_request, tournament_error) rust_result" where
  "decode_create arity scoring req =
     (case arity_new arity of
        Err e \<Rightarrow> Err (BadArity e)
      | Panic \<Rightarrow> Panic
      | Ok a \<Rightarrow>
          (case scoring of (win, draw, loss) \<Rightarrow>
             (case scoring_new win draw loss of
                Err e \<Rightarrow> Err (BadScoring e)
              | Panic \<Rightarrow> Panic
              | Ok s \<Rightarrow> Ok (req\<lparr>cr_arity := a, cr_scoring := s\<rparr>))))"

fun apply_op :: "'f f64_ops \<Rightarrow> manager \<Rightarrow> broker_env \<times> manager_op \<Rightarrow> manager \<times> (manager_answer, tournament_error) rust_result" where
  "apply_op fo m (env, CreateOp code arity scoring req) =
     (case decode_create arity scoring req of
        Ok req' \<Rightarrow> answer_with AnswerCredential (create_tournament m code req' env)
      | Err e \<Rightarrow> (m, Err e)
      | Panic \<Rightarrow> (m, Panic))"
| "apply_op fo m (env, JoinOp code key display) = answer_with AnswerCredential (join_tournament m code key display env)"
| "apply_op fo m (env, RenewOp code role presented nonce) = answer_with AnswerCredential (renew_credential m code role presented nonce env)"
| "apply_op fo m (env, GenerateOp code) = answer_with AnswerIds (generate_pairings fo m code env)"
| "apply_op fo m (env, ReportOp code i outcome) = answer_with (\<lambda>_. AnswerDone) (report_result m code i outcome env)"
| "apply_op fo m (env, DropOp code key) = answer_with (\<lambda>_. AnswerDone) (drop_player m code key env)"
| "apply_op fo m (env, CompleteOp code) = answer_with (\<lambda>_. AnswerDone) (complete_tournament m code env)"
| "apply_op fo m (env, SweepOp order) = (let (m', events) = check_expired order m env in (m', Ok (AnswerEvents events)))"

subsection \<open>The invariant\<close>

definition seats_of_round :: "tournament_pairing list \<Rightarrow> u32 \<Rightarrow> string list" where
  "seats_of_round ps r = concat (map tp_players (filter (\<lambda>p. tp_round p = r) ps))"

definition round_length :: "tournament_pairing list \<Rightarrow> u32 \<Rightarrow> nat" where
  "round_length ps r = length (filter (\<lambda>p. tp_round p = r) ps)"

text \<open>A pairing seats registered players, is a bye exactly when it seats one, and its winner sits in it.\<close>

definition pairing_wf :: "string list \<Rightarrow> tournament_pairing \<Rightarrow> bool" where
  "pairing_wf keys p \<longleftrightarrow> tp_players p \<noteq> [] \<and> set (tp_players p) \<subseteq> set keys
     \<and> (tp_outcome p = Some Bye \<longleftrightarrow> length (tp_players p) = 1)
     \<and> (\<forall>w. pairing_winner_of p = Some w \<longrightarrow> w \<in> set (tp_players p))"

definition schedule :: "tournament_meta \<Rightarrow> u32 option" where
  "schedule meta = (case total_rounds_override meta of Some r \<Rightarrow> Some r | None \<Rightarrow> resolved_total_rounds meta)"

definition bracket_wf :: "u32 \<Rightarrow> tournament_pairing list \<Rightarrow> bool" where
  "bracket_wf cur ps \<longleftrightarrow> (\<forall>p\<in>set ps. tp_outcome p \<noteq> Some (Reported Draw))
     \<and> (\<exists>depth. \<forall>r. 1 \<le> r \<and> r \<le> cur \<longrightarrow> unat r \<le> depth \<and> round_length ps r = 2 ^ (depth - unat r))"

definition event_wf ::
  "match_arity \<Rightarrow> bracket_shape \<Rightarrow> string list \<Rightarrow> tournament_status \<Rightarrow> u32 \<Rightarrow> u32 option \<Rightarrow> tournament_pairing list \<Rightarrow> bool" where
  "event_wf arity bracket keys st cur sched ps \<longleftrightarrow>
     arity_ok arity \<and> distinct keys
     \<and> (st = RegistrationStatus \<longleftrightarrow> cur = 0) \<and> (cur = 0 \<longrightarrow> ps = [])
     \<and> (cur \<noteq> 0 \<longrightarrow> (\<exists>t. sched = Some t \<and> cur \<le> t))
     \<and> (\<forall>p\<in>set ps. pairing_wf keys p \<and> 1 \<le> tp_round p \<and> tp_round p \<le> cur \<and> (tp_outcome p = None \<longrightarrow> tp_round p = cur))
     \<and> (\<forall>r. distinct (seats_of_round ps r))
     \<and> (length ps \<le> 2 ^ 32 \<longrightarrow> map tp_id ps = map of_nat [0..<length ps])
     \<and> (st = CompletedStatus \<longrightarrow> (\<forall>p\<in>set ps. tp_outcome p \<noteq> None))
     \<and> (bracket = SingleEliminationBracket \<longrightarrow> bracket_wf cur ps)"

abbreviation meta_wf :: "tournament_meta \<Rightarrow> bool" where
  "meta_wf meta \<equiv> event_wf (tm_arity meta) (tm_bracket meta) (map player_key (tm_players meta)) (tm_status meta)
     (current_round meta) (schedule meta) (tm_pairings meta)"

definition manager_wf :: "manager \<Rightarrow> bool" where
  "manager_wf m \<longleftrightarrow> (\<forall>code meta. m code = Some meta \<longrightarrow> meta_wf meta \<and> tm_code meta = code)"

lemma schedule_update [simp]:
  "schedule (meta\<lparr>tm_pairings := ps\<rparr>) = schedule meta" "schedule (meta\<lparr>tm_players := qs\<rparr>) = schedule meta"
  "schedule (meta\<lparr>tm_status := s\<rparr>) = schedule meta" "schedule (meta\<lparr>last_activity_at := now\<rparr>) = schedule meta"
  "schedule (meta\<lparr>organizer_token := t\<rparr>) = schedule meta" "schedule (meta\<lparr>tournament_meta.current_round := r\<rparr>) = schedule meta"
  by (simp_all add: schedule_def split: option.split)

lemma total_rounds_schedule: "schedule meta = Some t \<Longrightarrow> total_rounds meta = t"
  by (auto simp: schedule_def total_rounds_def split: option.splits)

subsection \<open>New outcomes\<close>

definition same_seats :: "tournament_pairing \<Rightarrow> tournament_pairing \<Rightarrow> bool" where
  "same_seats p q \<longleftrightarrow> tp_id q = tp_id p \<and> tp_round q = tp_round p \<and> tp_players q = tp_players p"

lemma same_seats_all:
  assumes "list_all2 same_seats ps qs"
  shows "map tp_id qs = map tp_id ps" and "seats_of_round qs r = seats_of_round ps r" and "round_length qs r = round_length ps r"
    and "length qs = length ps"
  using assms by (induction rule: list_all2_induct) (auto simp: same_seats_def seats_of_round_def round_length_def)

lemma event_wf_outcomes:
  assumes wf: "event_wf arity bracket keys st cur sched ps" and "st \<noteq> CompletedStatus"
    and seats: "list_all2 same_seats ps qs"
    and resolve: "\<And>p q. (p, q) \<in> set (zip ps qs) \<Longrightarrow> pairing_wf keys p \<Longrightarrow>
      pairing_wf keys q \<and> (tp_outcome q = None \<longrightarrow> tp_outcome p = None)
      \<and> (bracket = SingleEliminationBracket \<and> tp_outcome q = Some (Reported Draw) \<longrightarrow> tp_outcome p = Some (Reported Draw))"
  shows "event_wf arity bracket keys st cur sched qs"
proof -
  note same = same_seats_all [OF seats]
  have src: "\<exists>p\<in>set ps. (p, q) \<in> set (zip ps qs) \<and> same_seats p q" if "q \<in> set qs" for q
  proof -
    from that obtain k where k: "k < length qs" "q = qs ! k" by (auto simp: in_set_conv_nth)
    with seats have "k < length ps" "same_seats (ps ! k) q" by (auto simp: list_all2_conv_all_nth)
    with k show ?thesis by (intro bexI [of _ "ps ! k"]) (auto simp: in_set_zip)
  qed
  have each: "\<forall>q\<in>set qs. pairing_wf keys q \<and> 1 \<le> tp_round q \<and> tp_round q \<le> cur \<and> (tp_outcome q = None \<longrightarrow> tp_round q = cur)"
  proof
    fix q assume "q \<in> set qs"
    from src [OF this] obtain p where p: "p \<in> set ps" "(p, q) \<in> set (zip ps qs)" "same_seats p q" by blast
    with wf resolve show "pairing_wf keys q \<and> 1 \<le> tp_round q \<and> tp_round q \<le> cur \<and> (tp_outcome q = None \<longrightarrow> tp_round q = cur)"
      by (auto simp: event_wf_def same_seats_def)
  qed
  have "bracket_wf cur qs" if se: "bracket = SingleEliminationBracket"
  proof -
    from wf se have b: "bracket_wf cur ps" by (simp add: event_wf_def)
    have "tp_outcome q \<noteq> Some (Reported Draw)" if q: "q \<in> set qs" for q
    proof -
      from src [OF q] obtain p where "p \<in> set ps" "(p, q) \<in> set (zip ps qs)" by blast
      with b wf resolve se show ?thesis by (auto simp: bracket_wf_def event_wf_def)
    qed
    with b same(3) show ?thesis by (auto simp: bracket_wf_def)
  qed
  with wf assms(2) same each show ?thesis by (auto simp: event_wf_def)
qed

lemma validate_total: "validate_match_result p outcome players mt \<noteq> Panic"
proof -
  have "validate_bo3 p winner game_wins \<noteq> Panic" for winner game_wins
    by (auto simp: validate_bo3_def split: list.split option.split)
  then show ?thesis by (cases outcome) (auto simp: validate_match_result_def split: match_type.split)
qed

lemma report_cases:
  obtains (refused) e where "report_result_meta i outcome now meta = (meta, Err e)"
  | (accepted) idx where "position (\<lambda>p. tp_id p = i) (tm_pairings meta) = Some idx" "idx < length (tm_pairings meta)"
      "report_gate_of meta (tm_pairings meta ! idx) = GateOpen"
      "validate_match_result (tm_pairings meta ! idx) outcome (tm_players meta) (tm_match_type meta) = Ok ()"
      "tm_bracket meta = SingleEliminationBracket \<Longrightarrow> outcome \<noteq> Draw"
      "report_result_meta i outcome now meta = (meta\<lparr>tm_pairings := (tm_pairings meta)[idx :=
        (tm_pairings meta ! idx)\<lparr>tp_outcome := Some (Reported outcome)\<rparr>], last_activity_at := now\<rparr>, Ok ())"
proof (cases "position (\<lambda>p. tp_id p = i) (tm_pairings meta)")
  case None
  then show thesis by (intro refused) (simp add: report_result_meta_def)
next
  case (Some idx)
  note step = report_result_meta_def [of i outcome now meta, unfolded Some option.case Let_def]
  show thesis
  proof (cases "report_gate_of meta (tm_pairings meta ! idx)")
    case GateOpen
    note step = step [unfolded GateOpen report_gate.case]
    show thesis
    proof (cases "validate_match_result (tm_pairings meta ! idx) outcome (tm_players meta) (tm_match_type meta)")
      case (Ok u)
      show thesis
      proof (cases "tm_bracket meta = SingleEliminationBracket \<and> outcome = Draw")
        case True
        with step Ok show thesis by (intro refused) simp
      next
        case False
        with step Ok GateOpen Some position_Some [OF Some] show thesis by (intro accepted [of idx]) auto
      qed
    next
      case (Err e)
      with step show thesis by (intro refused) simp
    next
      case Panic
      with validate_total show thesis by blast
    qed
  qed (use step refused in simp_all)
qed

lemma report_keeps_wf:
  assumes "meta_wf meta"
  shows "meta_wf (fst (report_result_meta i outcome now meta))"
proof (cases rule: report_cases [of i outcome now meta])
  case (accepted idx)
  note gate = accepted(3) and ok = accepted(4) and draw = accepted(5)
  let ?p = "tm_pairings meta ! idx"
  let ?qs = "(tm_pairings meta)[idx := ?p\<lparr>tp_outcome := Some (Reported outcome)\<rparr>]"
  note lt = accepted(2)
  have run: "tm_status meta \<noteq> CompletedStatus" and nobye: "tp_outcome ?p \<noteq> Some Bye"
    using gate by (auto simp: report_gate_of_def is_terminal_def split: if_splits)
  have "event_wf (tm_arity meta) (tm_bracket meta) (map player_key (tm_players meta)) (tm_status meta)
     (current_round meta) (schedule meta) ?qs"
  proof (rule event_wf_outcomes [OF assms run])
    show "list_all2 same_seats (tm_pairings meta) ?qs"
      using lt by (auto simp: list_all2_conv_all_nth nth_list_update same_seats_def)
    fix p q assume pq: "(p, q) \<in> set (zip (tm_pairings meta) ?qs)" and wf: "pairing_wf (map player_key (tm_players meta)) p"
    from pq obtain n where n: "n < length (tm_pairings meta)" "p = tm_pairings meta ! n" "q = ?qs ! n" by (auto simp: in_set_zip)
    then consider "q = p" | "p = ?p" "q = ?p\<lparr>tp_outcome := Some (Reported outcome)\<rparr>" by (cases "n = idx") auto
    then show "pairing_wf (map player_key (tm_players meta)) q \<and> (tp_outcome q = None \<longrightarrow> tp_outcome p = None)
      \<and> (tm_bracket meta = SingleEliminationBracket \<and> tp_outcome q = Some (Reported Draw) \<longrightarrow> tp_outcome p = Some (Reported Draw))"
    proof cases
      case 2
      with wf nobye ok draw show ?thesis
        by (auto simp: pairing_wf_def pairing_winner_of_def validate_match_result_def split: pod_outcome.splits if_splits)
    qed (use wf in simp)
  qed
  then show ?thesis by (simp add: accepted(6))
qed (use assms in simp)

lemma map_key_drop: "map player_key (ps[i := (ps ! i)\<lparr>dropped := True\<rparr>]) = map player_key ps"
  by (metis list_update_id map_update tournament_player.simps(1) tournament_player.update_convs(4) tournament_player.surjective)

definition drop_at :: "nat \<Rightarrow> string \<Rightarrow> u64 \<Rightarrow> tournament_meta \<Rightarrow> tournament_meta" where
  "drop_at idx key now meta =
     (let players = (tm_players meta)[idx := (tm_players meta ! idx)\<lparr>dropped := True\<rparr>]
      in meta\<lparr>tm_players := players, tm_pairings := map (settle_pairing (dropped_keys players) key) (tm_pairings meta),
          last_activity_at := now\<rparr>)"

lemma drop_cases:
  obtains (refused) e where "drop_player_meta key now meta = (meta, Err e)"
  | (accepted) idx where "position (\<lambda>p. player_key p = key) (tm_players meta) = Some idx" "idx < length (tm_players meta)"
      "\<not> is_terminal (tm_status meta)" "drop_player_meta key now meta = (drop_at idx key now meta, Ok ())"
proof (cases "is_terminal (tm_status meta)")
  case True
  then show thesis by (intro refused) (simp add: drop_player_meta_def open_actions_def)
next
  case False
  then have act: "DropAction \<in> open_actions meta" by (simp add: open_actions_def)
  show thesis
  proof (cases "position (\<lambda>p. player_key p = key) (tm_players meta)")
    case None
    with act show thesis by (intro refused) (simp add: drop_player_meta_def)
  next
    case (Some idx)
    with act False position_Some [OF Some] show thesis
      by (intro accepted [of idx]) (simp_all add: drop_player_meta_def drop_at_def Let_def)
  qed
qed

lemma settle_cases:
  obtains "settle_pairing gone key p = p"
  | w where "tp_outcome p = None" "filter (\<lambda>k. k \<notin> gone) (tp_players p) = [w]" "w \<in> set (tp_players p)" "w \<notin> gone"
      "settle_pairing gone key p = p\<lparr>tp_outcome := Some (Forfeit w)\<rparr>"
proof (cases "tp_outcome p = None \<and> seats_player p key \<and> (\<exists>w. filter (\<lambda>k. k \<notin> gone) (tp_players p) = [w])")
  case True
  then obtain w where w: "filter (\<lambda>k. k \<notin> gone) (tp_players p) = [w]" by blast
  then have "w \<in> set (filter (\<lambda>k. k \<notin> gone) (tp_players p))" by simp
  then have "w \<in> set (tp_players p)" "w \<notin> gone" by simp_all
  with True w show thesis by (intro that(2)) (simp_all add: settle_pairing_def)
next
  case False
  then have "settle_pairing gone key p = p" by (auto simp: settle_pairing_def split: list.split)
  then show thesis by (rule that(1))
qed

lemma drop_keeps_wf:
  assumes "meta_wf meta"
  shows "meta_wf (fst (drop_player_meta key now meta))"
proof (cases rule: drop_cases [of key now meta])
  case (accepted idx)
  note run = accepted(3)
  let ?keys = "map player_key (tm_players meta)"
  have settle: "list_all2 same_seats ps (map (settle_pairing gone key) ps)" for ps gone
    by (auto simp: list_all2_conv_all_nth same_seats_def settle_pairing_def split: list.split)
  have "event_wf (tm_arity meta) (tm_bracket meta) ?keys (tm_status meta)
     (current_round meta) (schedule meta) (map (settle_pairing gone key) (tm_pairings meta))" for gone
  proof (rule event_wf_outcomes [OF assms _ settle])
    show "tm_status meta \<noteq> CompletedStatus" using run by (simp add: is_terminal_def)
    fix p q assume pq: "(p, q) \<in> set (zip (tm_pairings meta) (map (settle_pairing gone key) (tm_pairings meta)))"
      and wf: "pairing_wf ?keys p"
    have q: "q = settle_pairing gone key p" using pq by (auto simp: zip_map2 in_set_zip)
    from settle_cases [of gone key p] show "pairing_wf ?keys q \<and> (tp_outcome q = None \<longrightarrow> tp_outcome p = None)
      \<and> (tm_bracket meta = SingleEliminationBracket \<and> tp_outcome q = Some (Reported Draw) \<longrightarrow> tp_outcome p = Some (Reported Draw))"
    proof cases
      case 2
      with wf q show ?thesis by (auto simp: pairing_wf_def pairing_winner_of_def)
    qed (use wf q in simp)
  qed
  then show ?thesis by (simp add: accepted(4) drop_at_def Let_def map_key_drop)
qed (use assms in simp)

subsection \<open>A new round\<close>

definition new_round_ok :: "string list \<Rightarrow> u32 \<Rightarrow> u32 \<Rightarrow> tournament_pairing list \<Rightarrow> bool" where
  "new_round_ok keys r first_id new \<longleftrightarrow>
     (\<forall>p\<in>set new. tp_round p = r \<and> (tp_outcome p = Some Bye \<and> length (tp_players p) = 1
        \<or> tp_outcome p = None \<and> 2 \<le> length (tp_players p)))
     \<and> distinct (concat (map tp_players new)) \<and> set (concat (map tp_players new)) \<subseteq> set keys
     \<and> map tp_id new = map (\<lambda>k. first_id + of_nat k) [0..<length new]"

lemma pairing_wf_new:
  assumes "tp_outcome p = Some Bye \<and> length (tp_players p) = 1 \<or> tp_outcome p = None \<and> 2 \<le> length (tp_players p)"
    and "set (tp_players p) \<subseteq> set keys"
  shows "pairing_wf keys p"
  using assms by (cases "tp_players p") (auto simp: pairing_wf_def pairing_winner_of_def)

lemma next_id_after:
  assumes "map tp_id ps = map of_nat [0..<length ps]" and "length ps < 2 ^ 32"
  shows "next_pairing_id ps = of_nat (length ps)"
proof (cases "length ps")
  case 0
  then show ?thesis by (simp add: next_pairing_id_def)
next
  case (Suc n)
  have "tp_id ` set ps = (of_nat :: nat \<Rightarrow> u32) ` {..n}"
    using arg_cong [OF assms(1), of set] Suc by (simp add: atLeast0LessThan lessThan_Suc_atMost del: upt_Suc)
  moreover have "Max ((of_nat :: nat \<Rightarrow> u32) ` {..n}) = of_nat n"
    using assms(2) Suc by (intro Max_eqI) (auto simp: word_le_nat_alt unat_of_nat)
  ultimately show ?thesis using Suc by (auto simp: next_pairing_id_def)
qed

lemma u32_succ: "(c :: u32) < t \<Longrightarrow> unat (c + 1) = Suc (unat c) \<and> c + 1 \<le> t \<and> c + 1 \<noteq> 0 \<and> c < c + 1"
proof -
  assume "c < t"
  then have lt: "unat c < unat t" by (simp add: word_less_nat_alt)
  have "unat t < 2 ^ 32" using unsigned_less [of t] by simp
  with lt have "unat c + 1 < 2 ^ 32" by linarith
  then have u: "unat (c + 1) = Suc (unat c)" by (simp add: unat_word_ariths)
  with lt show ?thesis by (auto simp: word_le_nat_alt word_less_nat_alt)
qed

lemma event_wf_add_round:
  assumes wf: "event_wf arity bracket keys st cur sched ps" and resolved: "\<forall>p\<in>set ps. tp_outcome p \<noteq> None"
    and cur: "cur < t" and new: "new_round_ok keys (cur + 1) (next_pairing_id ps) new"
    and bracket: "bracket = SingleEliminationBracket \<Longrightarrow> bracket_wf (cur + 1) (ps @ new)"
  shows "event_wf arity bracket keys InProgressStatus (cur + 1) (Some t) (ps @ new)"
proof -
  note c = u32_succ [OF cur]
  have old: "\<forall>p\<in>set ps. pairing_wf keys p \<and> 1 \<le> tp_round p \<and> tp_round p \<le> cur" using wf by (simp add: event_wf_def)
  have one: "1 \<le> cur + 1" using c by (simp add: word_le_nat_alt)
  have each: "\<forall>p\<in>set (ps @ new). pairing_wf keys p \<and> 1 \<le> tp_round p \<and> tp_round p \<le> cur + 1
      \<and> (tp_outcome p = None \<longrightarrow> tp_round p = cur + 1)"
  proof
    fix p assume "p \<in> set (ps @ new)"
    then consider "p \<in> set ps" | "p \<in> set new" by auto
    then show "pairing_wf keys p \<and> 1 \<le> tp_round p \<and> tp_round p \<le> cur + 1 \<and> (tp_outcome p = None \<longrightarrow> tp_round p = cur + 1)"
    proof cases
      case 1
      with old resolved c show ?thesis by fastforce
    next
      case 2
      with new have "pairing_wf keys p" by (intro pairing_wf_new) (auto simp: new_round_ok_def)
      with 2 new one show ?thesis by (simp add: new_round_ok_def)
    qed
  qed
  have "distinct (seats_of_round (ps @ new) r)" for r
  proof (cases "r = cur + 1")
    case True
    with old c have "filter (\<lambda>p. tp_round p = r) ps = []" by (auto simp: filter_empty_conv)
    moreover from new True have "filter (\<lambda>p. tp_round p = r) new = new" by (simp add: filter_id_conv new_round_ok_def)
    ultimately show ?thesis using new by (simp add: seats_of_round_def new_round_ok_def)
  next
    case False
    with new have "filter (\<lambda>p. tp_round p = r) new = []" by (auto simp: filter_empty_conv new_round_ok_def)
    moreover have "distinct (seats_of_round ps r)" using wf by (simp add: event_wf_def)
    ultimately show ?thesis by (simp add: seats_of_round_def)
  qed
  moreover have "map tp_id (ps @ new) = map of_nat [0..<length (ps @ new)]" if short: "length (ps @ new) \<le> 2 ^ 32"
  proof -
    have ids: "map tp_id ps = map of_nat [0..<length ps]" using wf short by (simp add: event_wf_def)
    have "map tp_id new = map (\<lambda>k. of_nat (length ps + k)) [0..<length new]"
    proof (cases "new = []")
      case False
      then have "length ps < 2 ^ 32" using short by (cases new) auto
      with new next_id_after [OF ids] show ?thesis by (simp add: new_round_ok_def)
    qed simp
    also have "\<dots> = map of_nat [length ps..<length ps + length new]"
      by (rule nth_equalityI) auto
    finally show ?thesis using ids by (simp add: upt_add_eq_append [of 0 "length ps" "length new"])
  qed
  ultimately show ?thesis using wf c cur each bracket by (simp add: event_wf_def)
qed

text \<open>Winners of the pairings of a round are different players.\<close>

lemma distinct_winners:
  "map pairing_winner_of ps = map Some ws \<Longrightarrow> \<forall>p\<in>set ps. pairing_wf keys p \<Longrightarrow> distinct (concat (map tp_players ps)) \<Longrightarrow>
   distinct ws \<and> set ws \<subseteq> set (concat (map tp_players ps))"
proof (induction ps arbitrary: ws)
  case Nil
  then show ?case by simp
next
  case (Cons p ps)
  then obtain w ws' where ws: "ws = w # ws'" "pairing_winner_of p = Some w" "map pairing_winner_of ps = map Some ws'"
    by (cases ws) auto
  then have "w \<in> set (tp_players p)" using Cons.prems(2) by (auto simp: pairing_wf_def)
  with Cons.IH [OF ws(3)] Cons.prems ws(1) show ?case by auto
qed

lemma resolved_winner:
  assumes "pairing_wf keys p" and "tp_outcome p \<noteq> None" and "tp_outcome p \<noteq> Some (Reported Draw)"
  shows "pairing_winner_of p \<noteq> None"
  using assms by (auto simp: pairing_winner_of_def pairing_wf_def split: option.split pairing_outcome.split pod_outcome.split list.split)

lemma swiss_new_round_ok:
  assumes "arity_ok a" and "distinct order" and "set order \<subseteq> set keys"
  shows "new_round_ok keys r first_id (build_swiss_round order a history r first_id)"
proof -
  let ?ps = "build_swiss_round order a history r first_id"
  note seats = swiss_round_seats [OF assms(1), of order history r first_id]
  have "set (concat (map tp_players ?ps)) = set order" using mset_eq_setD [OF seats(1)] .
  moreover have "distinct (concat (map tp_players ?ps))" using seats(1) assms(2) by (metis mset_eq_imp_distinct_iff)
  ultimately show ?thesis
    using seats(2) assms(3) swiss_round_members [OF assms(1), of _ order history r first_id] unfolding new_round_ok_def by blast
qed

lemma elimination_no_panic: "build_single_elimination_round order history r first_id \<noteq> Panic"
proof -
  have "elimination_pods order history r \<noteq> Panic"
    by (auto simp: elimination_pods_def Let_def split: rust_result.split)
  then show ?thesis by (auto simp: build_single_elimination_round_def split: rust_result.split)
qed

text \<open>Where the builder pairs a round of a well-formed bracket, the round is half the one before.\<close>

lemma elimination_new_round:
  assumes wf: "event_wf arity SingleEliminationBracket keys st cur sched ps"
    and resolved: "\<forall>p\<in>set ps. tp_outcome p \<noteq> None" and cur: "cur < t"
    and order: "distinct order" "set order \<subseteq> set keys"
    and built: "build_single_elimination_round order ps (cur + 1) (next_pairing_id ps) = Ok new"
  shows "new_round_ok keys (cur + 1) (next_pairing_id ps) new \<and> bracket_wf (cur + 1) (ps @ new)"
proof (cases "cur = 0")
  case True
  then have ps: "ps = []" using wf by (simp add: event_wf_def)
  from built True have field: "2 \<le> length order" "length order \<le> 8"
    by (auto simp: build_single_elimination_round_def elimination_pods_def Let_def SINGLE_ELIMINATION_MIN_PLAYERS_def
        SINGLE_ELIMINATION_MAX_PLAYERS_def split: if_splits)
  have r1: "cur + 1 \<le> 1" using True by simp
  obtain qs where qs: "build_single_elimination_round order ps (cur + 1) (next_pairing_id ps) = Ok qs"
    "mset (concat (map tp_players qs)) = mset order" "length qs = next_power_of_two (length order) div 2"
    "\<forall>p\<in>set qs. tp_round p = cur + 1 \<and> (length (tp_players p) = 1 \<and> tp_outcome p = Some Bye \<or> length (tp_players p) = 2 \<and> tp_outcome p = None)"
    "map tp_id qs = map (\<lambda>k. next_pairing_id ps + of_nat k) [0..<length qs]"
    by (rule elimination_first_round [OF r1 field, of ps "next_pairing_id ps"])
  from built qs(1) have new: "new = qs" by simp
  define depth where "depth = unat (default_total_rounds SingleEliminationBracket HEAD_TO_HEAD (of_nat (length order)))"
  have d: "next_power_of_two (length order) = 2 ^ depth" "0 < depth"
    using elimination_schedule [OF field, of HEAD_TO_HEAD] by (simp_all add: depth_def)
  have len: "length new = 2 ^ (depth - 1)" using qs(3) d new by (cases depth) auto
  have "round_length new 1 = length new" using qs(4) True new by (simp add: round_length_def filter_id_conv)
  then have "bracket_wf (cur + 1) (ps @ new)"
    unfolding bracket_wf_def using True ps qs(4) new len d(2)
    by (auto intro!: exI [of _ depth] dest: order.antisym)
  moreover have "distinct (concat (map tp_players new))" using qs(2) order(1) new by (metis mset_eq_imp_distinct_iff)
  moreover have "set (concat (map tp_players new)) \<subseteq> set keys" using mset_eq_setD [OF qs(2)] order(2) new by simp
  ultimately show ?thesis using qs(4,5) new by (auto simp: new_round_ok_def)
next
  case False
  note c = u32_succ [OF cur]
  let ?prev = "filter (\<lambda>p. tp_round p = cur) ps"
  have "unat cur \<noteq> 0" using False unsigned_eq_0_iff by blast
  then have one: "1 \<le> cur" "1 < cur + 1" using c by (auto simp: word_le_nat_alt word_less_nat_alt)
  from wf have "bracket_wf cur ps" by (simp add: event_wf_def)
  then obtain depth where b: "\<forall>p\<in>set ps. tp_outcome p \<noteq> Some (Reported Draw)"
    "\<And>r. 1 \<le> r \<Longrightarrow> r \<le> cur \<Longrightarrow> unat r \<le> depth \<and> round_length ps r = 2 ^ (depth - unat r)"
    unfolding bracket_wf_def by blast
  have wfp: "\<forall>p\<in>set ps. pairing_wf keys p \<and> tp_round p \<le> cur" and seats: "distinct (concat (map tp_players ?prev))"
    using wf by (auto simp: event_wf_def seats_of_round_def)
  have winner: "\<forall>p\<in>set ps. tp_round p = cur + 1 - 1 \<longrightarrow> pairing_winner_of p \<noteq> None"
    using resolved_winner [of keys] wfp resolved b(1) by blast
  from built one have "2 \<le> length ?prev"
    by (auto simp: build_single_elimination_round_def elimination_pods_def Let_def split: if_splits)
  with b(2) [OF one(1)] have "2 \<le> (2 :: nat) ^ (depth - unat cur)" by (simp add: round_length_def)
  then have deep: "unat cur < depth" by (cases "depth - unat cur") auto
  define m where "m = (2 :: nat) ^ (depth - unat (cur + 1))"
  have "length ?prev = 2 * m" using b(2) [OF one(1)] deep c by (simp add: round_length_def m_def Suc_diff_Suc [symmetric])
  then have prev: "length (filter (\<lambda>p. tp_round p = cur + 1 - 1) ps) = 2 * m" by simp
  obtain qs where qs: "build_single_elimination_round order ps (cur + 1) (next_pairing_id ps) = Ok qs" "length qs = m"
    "map Some (concat (map tp_players qs)) = map pairing_winner_of (filter (\<lambda>p. tp_round p = cur + 1 - 1) ps)"
    "\<forall>p\<in>set qs. tp_round p = cur + 1 \<and> length (tp_players p) = 2 \<and> tp_outcome p = None"
    "map tp_id qs = map (\<lambda>k. next_pairing_id ps + of_nat k) [0..<length qs]"
    by (rule elimination_next_round [OF one(2) prev _ winner, of order "next_pairing_id ps"]) (simp_all add: m_def)
  from built qs(1) have new: "new = qs" by simp
  have "distinct (concat (map tp_players new)) \<and> set (concat (map tp_players new)) \<subseteq> set (concat (map tp_players ?prev))"
    using wfp seats qs(3) new by (intro distinct_winners [of _ _ keys]) auto
  moreover have "set (concat (map tp_players ?prev)) \<subseteq> set keys" using wfp by (auto simp: pairing_wf_def)
  ultimately have "distinct (concat (map tp_players new))" "set (concat (map tp_players new)) \<subseteq> set keys" by blast+
  then have "new_round_ok keys (cur + 1) (next_pairing_id ps) new"
    using qs(4,5) unfolding new new_round_ok_def by simp
  moreover have "bracket_wf (cur + 1) (ps @ new)"
  proof -
    have "\<forall>p\<in>set (ps @ new). tp_outcome p \<noteq> Some (Reported Draw)" using b(1) qs(4) new by auto
    moreover have "unat r \<le> depth \<and> round_length (ps @ new) r = 2 ^ (depth - unat r)" if r: "1 \<le> r \<and> r \<le> cur + 1" for r
    proof (cases "r = cur + 1")
      case True
      have "filter (\<lambda>p. tp_round p = cur + 1) ps = []" using wfp c by (auto simp: filter_empty_conv)
      moreover have "filter (\<lambda>p. tp_round p = cur + 1) new = new" using qs(4) new by (simp add: filter_id_conv)
      ultimately show ?thesis using True deep c qs(2) new by (simp add: round_length_def m_def)
    next
      case r': False
      with r c have "r \<le> cur" by (simp add: word_le_nat_alt) (metis le_SucE word_unat_eq_iff)
      moreover have "filter (\<lambda>p. tp_round p = r) new = []" using qs(4) new r' by (auto simp: filter_empty_conv)
      ultimately show ?thesis using b(2) r by (simp add: round_length_def)
    qed
    ultimately show ?thesis unfolding bracket_wf_def by blast
  qed
  ultimately show ?thesis by blast
qed

lemma event_wf_pairing_distinct:
  assumes "event_wf arity bracket keys st cur sched ps" and "p \<in> set ps"
  shows "distinct (tp_players p)"
proof -
  have "distinct (seats_of_round ps (tp_round p))" using assms(1) by (simp add: event_wf_def)
  moreover have "tp_players p \<in> set (map tp_players (filter (\<lambda>q. tp_round q = tp_round p) ps))" using assms(2) by simp
  ultimately show ?thesis by (auto simp: seats_of_round_def distinct_concat_iff)
qed

lemma standings_order:
  assumes "meta_wf meta"
  obtains rows where "standings fo meta = Some rows" "distinct (map row_key (filter (\<lambda>row. \<not> row_dropped row) rows))"
    "set (map row_key (filter (\<lambda>row. \<not> row_dropped row) rows)) \<subseteq> set (map player_key (tm_players meta))"
proof -
  have "\<forall>p\<in>set (tm_pairings meta). distinct (tp_players p)" using event_wf_pairing_distinct [OF assms] by blast
  then obtain rows where rows: "standings fo meta = Some (sort_by (row_cmp fo) rows)" "map row_key rows = map player_key (tm_players meta)"
    by (rule standings_rows [of meta fo])
  let ?s = "sort_by (row_cmp fo) rows"
  have m: "mset (map row_key ?s) = mset (map player_key (tm_players meta))" using rows(2) by (metis mset_map mset_sort_by)
  have "distinct (map player_key (tm_players meta))" using assms by (simp add: event_wf_def)
  then have "distinct (map row_key ?s)" using mset_eq_imp_distinct_iff [OF m] by blast
  then have "distinct (map row_key (filter (\<lambda>row. \<not> row_dropped row) ?s))" by (rule distinct_map_filter)
  moreover have "set (map row_key (filter (\<lambda>row. \<not> row_dropped row) ?s)) \<subseteq> set (map player_key (tm_players meta))"
    using mset_eq_setD [OF m] by auto
  ultimately show thesis using rows(1) that by blast
qed

lemma first_unresolved_None: "first_unresolved_pairing meta = None \<longleftrightarrow> (\<forall>p\<in>set (tm_pairings meta). tp_outcome p \<noteq> None)"
  by (auto simp: first_unresolved_pairing_def find_None_iff)

lemma start_round_fields [simp]:
  "tm_arity (start_round new now meta) = tm_arity meta" "tm_bracket (start_round new now meta) = tm_bracket meta"
  "tm_players (start_round new now meta) = tm_players meta" "tm_status (start_round new now meta) = InProgressStatus"
  "current_round (start_round new now meta) = current_round meta + 1" "tm_code (start_round new now meta) = tm_code meta"
  "tm_pairings (start_round new now meta) = tm_pairings meta @ new"
  by (simp_all add: start_round_def Let_def)

lemma schedule_latched:
  assumes "meta_wf meta"
  shows "schedule (start_round new now meta) = Some (total_rounds meta)"
proof (cases "schedule meta")
  case None
  with assms have "current_round meta = 0" by (auto simp: event_wf_def)
  with None show ?thesis by (auto simp: schedule_def start_round_def split: option.splits)
next
  case (Some t)
  then show ?thesis by (auto simp: schedule_def start_round_def total_rounds_def Let_def split: option.splits)
qed

lemma generate_cases [consumes 1, case_names refused paired]:
  assumes "meta_wf meta"
  obtains (refused) e where "generate_pairings_meta fo now meta = (meta, Err e)"
  | (paired) order new where "\<not> is_terminal (tm_status meta)" "current_round meta < total_rounds meta"
      "\<forall>p\<in>set (tm_pairings meta). tp_outcome p \<noteq> None"
      "distinct order" "set order \<subseteq> set (map player_key (tm_players meta))"
      "pair_round meta order (current_round meta + 1) (next_pairing_id (tm_pairings meta)) = Ok new"
      "generate_pairings_meta fo now meta = (start_round new now meta, Ok (map tp_id new))"
proof -
  note def = generate_pairings_meta_def [of fo now meta]
  have act: "StartRoundAction \<in> open_actions meta" if "\<not> is_terminal (tm_status meta)"
    using that by (simp add: open_actions_def)
  consider (terminal) "is_terminal (tm_status meta)"
    | (ceiling) "\<not> is_terminal (tm_status meta)" "total_rounds meta \<le> current_round meta"
    | (pending) p where "\<not> is_terminal (tm_status meta)" "\<not> total_rounds meta \<le> current_round meta" "first_unresolved_pairing meta = Some p"
    | (free) "\<not> is_terminal (tm_status meta)" "\<not> total_rounds meta \<le> current_round meta" "first_unresolved_pairing meta = None"
    by fastforce
  then show thesis
  proof cases
    case terminal
    then show thesis by (intro refused) (simp add: def open_actions_def)
  next
    case ceiling
    then show thesis by (intro refused) (simp add: def act)
  next
    case pending
    then show thesis by (intro refused) (simp add: def act)
  next
    case free
    obtain rows where rows: "standings fo meta = Some rows" "distinct (map row_key (filter (\<lambda>row. \<not> row_dropped row) rows))"
      "set (map row_key (filter (\<lambda>row. \<not> row_dropped row) rows)) \<subseteq> set (map player_key (tm_players meta))"
      by (rule standings_order [OF assms, of fo])
    let ?order = "map row_key (filter (\<lambda>row. \<not> row_dropped row) rows)"
    let ?pair = "pair_round meta ?order (current_round meta + 1) (next_pairing_id (tm_pairings meta))"
    show thesis
    proof (cases ?pair)
      case (Ok new)
      from free act [OF free(1)] rows Ok show thesis
        by (intro paired [of ?order new] first_unresolved_None [THEN iffD1]) (simp_all add: def Let_def)
    next
      case (Err e)
      with free act [OF free(1)] rows show thesis by (intro refused [of e]) (simp add: def Let_def)
    next
      case Panic
      then show thesis using elimination_no_panic
        by (auto simp: pair_round_def split: bracket_shape.splits rust_result.splits)
    qed
  qed
qed

lemma generate_keeps_wf:
  assumes "meta_wf meta"
  shows "meta_wf (fst (generate_pairings_meta fo now meta))"
  using assms
proof (cases rule: generate_cases [where fo = fo and now = now])
  case (paired order new)
  let ?first = "next_pairing_id (tm_pairings meta)" and ?keys = "map player_key (tm_players meta)"
  have "new_round_ok ?keys (current_round meta + 1) ?first new
      \<and> (tm_bracket meta = SingleEliminationBracket \<longrightarrow> bracket_wf (current_round meta + 1) (tm_pairings meta @ new))"
  proof (cases "tm_bracket meta")
    case SwissBracket
    with paired(6) have "new = build_swiss_round order (tm_arity meta) (tm_pairings meta) (current_round meta + 1) ?first"
      by (simp add: pair_round_def)
    with SwissBracket swiss_new_round_ok [OF _ paired(4,5)] assms show ?thesis by (simp add: event_wf_def)
  next
    case SingleEliminationBracket
    with paired(6) have "build_single_elimination_round order (tm_pairings meta) (current_round meta + 1) ?first = Ok new"
      by (auto simp: pair_round_def split: rust_result.splits)
    from elimination_new_round [OF assms [unfolded SingleEliminationBracket] paired(3,2,4,5) this] show ?thesis by blast
  qed
  from event_wf_add_round [OF assms paired(3,2)] this
  have "event_wf (tm_arity meta) (tm_bracket meta) ?keys InProgressStatus (current_round meta + 1) (Some (total_rounds meta)) (tm_pairings meta @ new)"
    by blast
  then show ?thesis by (simp add: paired(7) schedule_latched [OF assms])
qed (use assms in simp)

subsection \<open>Every operation keeps the invariant\<close>

definition meta_safe :: "tournament_meta \<Rightarrow> tournament_meta \<times> ('a, tournament_error) rust_result \<Rightarrow> bool" where
  "meta_safe meta r \<longleftrightarrow> meta_wf (fst r) \<and> tm_code (fst r) = tm_code meta \<and> snd r \<noteq> Panic \<and> (\<not> is_ok (snd r) \<longrightarrow> fst r = meta)"

definition manager_safe :: "manager \<Rightarrow> manager \<times> ('a, tournament_error) rust_result \<Rightarrow> bool" where
  "manager_safe m r \<longleftrightarrow> manager_wf (fst r) \<and> snd r \<noteq> Panic \<and> (\<not> is_ok (snd r) \<longrightarrow> fst r = m)"

lemma meta_safe_refused: "meta_wf meta \<Longrightarrow> meta_safe meta (meta, Err e)"
  by (simp add: meta_safe_def)

lemma with_meta_safe:
  assumes "manager_wf m" and "\<And>meta. meta_wf meta \<Longrightarrow> meta_safe meta (f meta)"
  shows "manager_safe m (with_meta m code f)"
proof (cases "m code")
  case None
  with assms(1) show ?thesis by (simp add: with_meta_def manager_safe_def)
next
  case (Some meta)
  obtain meta' answer where f: "f meta = (meta', answer)" by fastforce
  from assms(1) Some have "meta_wf meta" "tm_code meta = code" by (auto simp: manager_wf_def)
  with assms(2) [of meta] f have "meta_wf meta'" "tm_code meta' = code" "answer \<noteq> Panic" "\<not> is_ok answer \<longrightarrow> meta' = meta"
    by (auto simp: meta_safe_def)
  with assms(1) Some f show ?thesis by (auto simp: with_meta_def manager_safe_def manager_wf_def fun_upd_idem)
qed

lemma answer_with_safe: "manager_safe m r \<Longrightarrow> manager_safe m (answer_with f r)"
  by (cases "snd r") (auto simp: manager_safe_def answer_with_def)

lemma report_safe: "meta_wf meta \<Longrightarrow> meta_safe meta (report_result_meta i outcome now meta)"
  using report_keeps_wf [of meta i outcome now]
  by (cases rule: report_cases [of i outcome now meta]) (simp_all add: meta_safe_def)

lemma drop_safe: "meta_wf meta \<Longrightarrow> meta_safe meta (drop_player_meta key now meta)"
  using drop_keeps_wf [of meta key now]
  by (cases rule: drop_cases [of key now meta]) (simp_all add: meta_safe_def drop_at_def Let_def)

lemma generate_safe:
  assumes "meta_wf meta"
  shows "meta_safe meta (generate_pairings_meta fo now meta)"
  using assms
proof (cases rule: generate_cases [where fo = fo and now = now])
  case (refused e)
  then show ?thesis using assms by (simp add: meta_safe_refused)
next
  case (paired order new)
  then show ?thesis using generate_keeps_wf [OF assms, of fo now] by (simp add: meta_safe_def)
qed

lemma complete_cases:
  obtains (refused) e where "complete_tournament_meta now meta = (meta, Err e)"
  | (completed) "tm_status meta = InProgressStatus" "\<forall>p\<in>set (tm_pairings meta). tp_outcome p \<noteq> None"
      "complete_tournament_meta now meta = (meta\<lparr>tm_status := CompletedStatus, last_activity_at := now\<rparr>, Ok ())"
proof (cases "tm_status meta = InProgressStatus")
  case False
  then have "EndTournamentAction \<notin> open_actions meta" by (cases "tm_status meta") (simp_all add: open_actions_def is_terminal_def)
  then show thesis by (intro refused) (simp add: complete_tournament_meta_def)
next
  case True
  then have act: "EndTournamentAction \<in> open_actions meta" by (simp add: open_actions_def is_terminal_def)
  show thesis
  proof (cases "first_unresolved_pairing meta")
    case None
    with True act show thesis
      by (intro completed first_unresolved_None [THEN iffD1]) (simp_all add: complete_tournament_meta_def)
  next
    case (Some p)
    with act show thesis by (intro refused) (simp add: complete_tournament_meta_def)
  qed
qed

lemma complete_safe: "meta_wf meta \<Longrightarrow> meta_safe meta (complete_tournament_meta now meta)"
proof (cases rule: complete_cases [of now meta])
  case completed
  assume "meta_wf meta"
  with completed show ?thesis by (simp add: meta_safe_def event_wf_def)
qed (simp add: meta_safe_refused)

lemma join_safe:
  assumes "meta_wf meta"
  shows "meta_safe meta (if tm_status meta \<noteq> RegistrationStatus then (meta, Err (NotAcceptingEntries (tm_status meta)))
        else if find_player meta key \<noteq> None then (meta, Err (AlreadyJoined key))
        else (meta\<lparr>tm_players := tm_players meta @ [\<lparr>player_key = key, player_token = token,
                player_display_name = display, dropped = False\<rparr>],
              last_activity_at := now\<rparr>, Ok minted))"
proof (cases "tm_status meta = RegistrationStatus \<and> find_player meta key = None")
  case True
  then have "key \<notin> set (map player_key (tm_players meta))" by (auto simp: find_player_def find_None_iff)
  with True assms show ?thesis by (auto simp: meta_safe_def event_wf_def)
qed (use assms in \<open>auto simp: meta_safe_refused\<close>)

lemma renew_refused:
  "snd (renew c presented nonce env i) = RenewExpired \<or> snd (renew c presented nonce env i) = RenewMismatch \<Longrightarrow>
   fst (renew c presented nonce env i) = c"
  by (auto simp: renew_def Let_def split: renew_kind.splits)

lemma renew_answer_cases:
  "renew_answer role outcome \<noteq> Panic"
  "\<not> is_ok (renew_answer role outcome) \<Longrightarrow> outcome = RenewExpired \<or> outcome = RenewMismatch"
  by (cases outcome; simp add: renew_answer_def)+

lemma map_key_token: "map player_key (ps[i := (ps ! i)\<lparr>player_token := t\<rparr>]) = map player_key ps"
  by (metis list_update_id map_update tournament_player.simps(1) tournament_player.update_convs(2) tournament_player.surjective)

lemma renew_safe: "manager_wf m \<Longrightarrow> manager_safe m (renew_credential m code role presented nonce env)"
  unfolding renew_credential_def Let_def
proof (rule with_meta_safe)
  fix meta assume wf: "meta_wf meta"
  show "meta_safe meta (case role of
          Organizer \<Rightarrow> (case renew (organizer_token meta) presented nonce env 1 of
             (token, outcome) \<Rightarrow> (meta\<lparr>organizer_token := token\<rparr>, renew_answer role outcome))
        | Player \<Rightarrow>
            (case position (\<lambda>p. renews (renew_kind_of (player_token p) presented nonce (clock env 0))) (tm_players meta) of
               None \<Rightarrow>
                 (meta, if list_ex (\<lambda>p. renew_kind_of (player_token p) presented nonce (clock env 0) = ExpiredKind) (tm_players meta)
                   then Err (CredentialExpired Player) else Err (InvalidToken Player))
             | Some idx \<Rightarrow>
                 (if dropped (tm_players meta ! idx) then (meta, Err PlayerDropped)
                  else (case renew (player_token (tm_players meta ! idx)) presented nonce env 1 of
                     (token, outcome) \<Rightarrow> (meta\<lparr>tm_players := (tm_players meta)[idx := (tm_players meta ! idx)\<lparr>player_token := token\<rparr>]\<rparr>,
                            renew_answer role outcome)))))"
  proof (cases role)
    case Organizer
    obtain token outcome where r: "renew (organizer_token meta) presented nonce env 1 = (token, outcome)" by fastforce
    have "token = organizer_token meta" if "\<not> is_ok (renew_answer role outcome)"
      using renew_answer_cases(2) [OF that] renew_refused [of "organizer_token meta" presented nonce env 1] r by simp
    with wf Organizer r renew_answer_cases(1) show ?thesis by (simp add: meta_safe_def)
  next
    case Player
    show ?thesis
    proof (cases "position (\<lambda>p. renews (renew_kind_of (player_token p) presented nonce (clock env 0))) (tm_players meta)")
      case None
      with Player wf show ?thesis by (simp add: meta_safe_refused)
    next
      case (Some idx)
      let ?p = "tm_players meta ! idx"
      obtain token outcome where r: "renew (player_token ?p) presented nonce env 1 = (token, outcome)" by fastforce
      have "token = player_token ?p" if "\<not> is_ok (renew_answer role outcome)"
        using renew_answer_cases(2) [OF that] renew_refused [of "player_token ?p" presented nonce env 1] r by simp
      with wf Player Some r renew_answer_cases(1) show ?thesis by (simp add: meta_safe_def map_key_token)
    qed
  qed
qed

lemma create_safe:
  assumes "manager_wf m" and "arity_ok (cr_arity req)"
  shows "manager_safe m (create_tournament m code req env)"
proof -
  have "meta_wf (new_meta code req token now)" for token now
    using assms(2) by (simp add: new_meta_def event_wf_def seats_of_round_def bracket_wf_def)
  moreover have "tm_code (new_meta code req token now) = code" for token now by (simp add: new_meta_def)
  ultimately show ?thesis using assms(1)
    by (auto simp: create_tournament_def manager_safe_def manager_wf_def Let_def split: prod.split)
qed

lemma decode_create_cases:
  obtains e where "decode_create a scoring req = Err e"
  | req' where "decode_create a scoring req = Ok req'" "arity_ok (cr_arity req')" "win_points (cr_scoring req') \<noteq> 0"
proof -
  obtain win draw loss where sc: "scoring = (win, draw, loss)" by (metis prod_cases3)
  show thesis
  proof (cases "arity_new a")
    case (Ok b)
    then have "arity_ok b" using arity_new_ok by blast
    with Ok sc that show thesis
      by (cases "win = 0") (auto simp: decode_create_def scoring_new_def)
  qed (use that in \<open>auto simp: decode_create_def arity_new_def split: if_splits\<close>)
qed

lemma expire_meta_wf:
  assumes "meta_wf meta" and "fst (expire_meta now code meta) = Some meta'"
  shows "meta_wf meta' \<and> tm_code meta' = tm_code meta"
proof (cases "tm_status meta")
  case InProgressStatus
  with assms show ?thesis by (auto simp: expire_meta_def Let_def event_wf_def split: if_splits)
qed (use assms in \<open>auto simp: expire_meta_def Let_def split: if_splits\<close>)

lemma sweep_safe: "manager_wf m \<Longrightarrow> manager_wf (fst (check_expired order m env))"
  by (auto simp: check_expired_def manager_wf_def Let_def split: option.splits dest: expire_meta_wf)

lemma apply_op_safe:
  assumes "manager_wf m"
  shows "manager_safe m (apply_op fo m a)"
proof -
  obtain env op where a: "a = (env, op)" by fastforce
  show ?thesis
  proof (cases op)
    case (CreateOp code arity scoring req)
    with assms a show ?thesis
      by (cases arity scoring req rule: decode_create_cases)
        (auto simp: manager_safe_def intro!: answer_with_safe [unfolded manager_safe_def] create_safe [unfolded manager_safe_def])
  next
    case (JoinOp code key display)
    have "manager_safe m (join_tournament m code key display env)"
      unfolding join_tournament_def Let_def by (auto split: prod.split intro!: with_meta_safe assms join_safe)
    with a JoinOp show ?thesis by (simp add: answer_with_safe)
  next
    case (SweepOp order)
    with a sweep_safe [OF assms, of order env] show ?thesis by (simp add: manager_safe_def case_prod_unfold Let_def)
  qed (use a assms in \<open>simp_all add: answer_with_safe renew_safe with_meta_safe generate_safe report_safe drop_safe complete_safe
      generate_pairings_def report_result_def drop_player_def complete_tournament_def\<close>)
qed

interpretation tm: validating_reducer "apply_op fo" manager_wf for fo
  using apply_op_safe by unfold_locales (auto simp: manager_safe_def)

lemma manager_wf_empty: "manager_wf Map.empty"
  by (simp add: manager_wf_def)

end
