(* ===== verification/Tournament_Events.thy ===== *)
theory Tournament_Events
  imports Tournament_Manager
begin

text \<open>
  The life of one tournament (\<^verbatim>\<open>src/crates/lobby-broker/src/tournament.rs\<close>): a step relation for what the operations of the
  registry can do to its record, and the properties of whole events: the invariant of every
  reachable registry, frozen results, events that can be finished and events that cannot, drops, expiry.
\<close>

definition run_ops :: "'f f64_ops \<Rightarrow> manager \<Rightarrow> (broker_env \<times> manager_op) list \<Rightarrow> manager" where
  "run_ops fo m as = foldl (\<lambda>m a. fst (apply_op fo m a)) m as"

lemma run_ops_simps [simp]:
  "run_ops fo m [] = m" "run_ops fo m (a # as) = run_ops fo (fst (apply_op fo m a)) as"
  by (simp_all add: run_ops_def)

lemma run_ops_wf: "manager_wf m \<Longrightarrow> manager_wf (run_ops fo m as)"
  using tm.play_inv [of m fo "as"] by (simp add: tm.play_def run_ops_def)

subsection \<open>Steps of one tournament\<close>

inductive meta_step :: "'f f64_ops \<Rightarrow> tournament_meta \<Rightarrow> tournament_meta \<Rightarrow> bool" for fo where
  stays: "meta_step fo meta meta"
| joined: "tm_status meta = RegistrationStatus \<Longrightarrow> find_player meta (player_key q) = None \<Longrightarrow> \<not> dropped q \<Longrightarrow>
    meta_step fo meta (meta\<lparr>tm_players := tm_players meta @ [q], last_activity_at := now\<rparr>)"
| organizer_renewed: "meta_step fo meta (meta\<lparr>organizer_token := t\<rparr>)"
| player_renewed: "i < length (tm_players meta) \<Longrightarrow> \<not> dropped (tm_players meta ! i) \<Longrightarrow>
    meta_step fo meta (meta\<lparr>tm_players := (tm_players meta)[i := (tm_players meta ! i)\<lparr>player_token := t\<rparr>]\<rparr>)"
| paired: "generate_pairings_meta fo now meta = (meta', Ok ids) \<Longrightarrow> meta_step fo meta meta'"
| reported: "report_result_meta i outcome now meta = (meta', Ok ()) \<Longrightarrow> meta_step fo meta meta'"
| dropped_out: "drop_player_meta key now meta = (meta', Ok ()) \<Longrightarrow> meta_step fo meta meta'"
| completed: "complete_tournament_meta now meta = (meta', Ok ()) \<Longrightarrow> meta_step fo meta meta'"
| abandoned: "tm_status meta = InProgressStatus \<Longrightarrow>
    meta_step fo meta (meta\<lparr>tm_status := AbandonedStatus, last_activity_at := now\<rparr>)"

text \<open>What an operation of the registry does to one record: a step, or a sweep removes it.\<close>

lemma with_meta_step:
  assumes "m code = Some meta" and "\<And>meta. m code' = Some meta \<Longrightarrow> meta_step fo meta (fst (f meta))"
  shows "\<exists>meta'. fst (with_meta m code' f) code = Some meta' \<and> meta_step fo meta meta'"
proof (cases "code' = code")
  case True
  with assms show ?thesis by (auto simp: with_meta_def case_prod_unfold Let_def)
next
  case False
  with assms(1) have "fst (with_meta m code' f) code = Some meta"
    by (simp add: with_meta_def case_prod_unfold Let_def split: option.split)
  with meta_step.stays show ?thesis by blast
qed

lemma safe_step:
  assumes "meta_safe meta r" and "\<And>meta' x. r = (meta', Ok x) \<Longrightarrow> meta_step fo meta meta'"
  shows "meta_step fo meta (fst r)"
proof (cases r)
  case (Pair meta' answer)
  with assms show ?thesis by (cases answer) (auto simp: meta_safe_def intro: meta_step.stays)
qed

lemma apply_op_step:
  assumes wf: "manager_wf m" and m: "m code = Some meta"
  shows "case fst (apply_op fo m (env, op)) code of
      Some meta' \<Rightarrow> meta_step fo meta meta'
    | None \<Rightarrow> \<exists>order. op = SweepOp order"
proof -
  have mw: "meta_wf meta'" if "m code' = Some meta'" for code' meta' using wf that by (simp add: manager_wf_def)
  note lift = with_meta_step [where m = m and code = code and meta = meta and fo = fo, OF m]
  show ?thesis
  proof (cases op)
    case (CreateOp code' arity scoring req)
    have "fst (create_tournament m code' req' env) code = Some meta" for req'
      using m by (auto simp: create_tournament_def Let_def split: prod.split)
    with CreateOp m show ?thesis
      by (auto simp: answer_with_def intro: meta_step.stays split: rust_result.split)
  next
    case (JoinOp code' key display)
    obtain token minted where mint: "mint env 1 = (token, minted)" by fastforce
    let ?f = "\<lambda>meta. if tm_status meta \<noteq> RegistrationStatus then (meta, Err (NotAcceptingEntries (tm_status meta)))
        else if find_player meta key \<noteq> None then (meta, Err (AlreadyJoined key))
        else (meta\<lparr>tm_players := tm_players meta @ [\<lparr>player_key = key, player_token = token,
                player_display_name = display, dropped = False\<rparr>],
              last_activity_at := now_secs env\<rparr>, Ok minted)"
    have "meta_step fo meta' (fst (?f meta'))" for meta'
      by (auto intro: meta_step.stays meta_step.joined)
    from lift [OF this] obtain meta' where "fst (with_meta m code' ?f) code = Some meta'" "meta_step fo meta meta'" by blast
    with JoinOp mint show ?thesis by (simp add: join_tournament_def answer_with_def)
  next
    case (GenerateOp code')
    have "meta_step fo meta' (fst (generate_pairings_meta fo (now_secs env) meta'))" if "m code' = Some meta'" for meta'
      by (rule safe_step [OF generate_safe [OF mw [OF that]]]) (rule meta_step.paired)
    from lift [OF this] obtain meta' where "fst (with_meta m code' (generate_pairings_meta fo (now_secs env))) code = Some meta'" "meta_step fo meta meta'" by blast
    with GenerateOp show ?thesis by (simp add: generate_pairings_def answer_with_def)
  next
    case (ReportOp code' i outcome)
    have "meta_step fo meta' (fst (report_result_meta i outcome (now_secs env) meta'))" if "m code' = Some meta'" for meta'
      by (rule safe_step [OF report_safe [OF mw [OF that]]]) (auto intro: meta_step.reported)
    from lift [OF this] obtain meta' where "fst (with_meta m code' (report_result_meta i outcome (now_secs env))) code = Some meta'" "meta_step fo meta meta'" by blast
    with ReportOp show ?thesis by (simp add: report_result_def answer_with_def)
  next
    case (DropOp code' key)
    have "meta_step fo meta' (fst (drop_player_meta key (now_secs env) meta'))" if "m code' = Some meta'" for meta'
      by (rule safe_step [OF drop_safe [OF mw [OF that]]]) (auto intro: meta_step.dropped_out)
    from lift [OF this] obtain meta' where "fst (with_meta m code' (drop_player_meta key (now_secs env))) code = Some meta'" "meta_step fo meta meta'" by blast
    with DropOp show ?thesis by (simp add: drop_player_def answer_with_def)
  next
    case (CompleteOp code')
    have "meta_step fo meta' (fst (complete_tournament_meta (now_secs env) meta'))" if "m code' = Some meta'" for meta'
      by (rule safe_step [OF complete_safe [OF mw [OF that]]]) (auto intro: meta_step.completed)
    from lift [OF this] obtain meta' where "fst (with_meta m code' (complete_tournament_meta (now_secs env))) code = Some meta'" "meta_step fo meta meta'" by blast
    with CompleteOp show ?thesis by (simp add: complete_tournament_def answer_with_def)
  next
    case (RenewOp code' role presented nonce)
    have "\<exists>meta'. fst (renew_credential m code' role presented nonce env) code = Some meta' \<and> meta_step fo meta meta'"
      unfolding renew_credential_def Let_def
    proof (rule lift)
      show "meta_step fo meta' (fst (case role of
          Organizer \<Rightarrow> (case renew (organizer_token meta') presented nonce env 1 of
             (token, outcome) \<Rightarrow> (meta'\<lparr>organizer_token := token\<rparr>, renew_answer role outcome))
        | Player \<Rightarrow>
            (case position (\<lambda>p. renews (renew_kind_of (player_token p) presented nonce (clock env 0))) (tm_players meta') of
               None \<Rightarrow>
                 (meta', if list_ex (\<lambda>p. renew_kind_of (player_token p) presented nonce (clock env 0) = ExpiredKind) (tm_players meta')
                   then Err (CredentialExpired Player) else Err (InvalidToken Player))
             | Some idx \<Rightarrow>
                 (if dropped (tm_players meta' ! idx) then (meta', Err PlayerDropped)
                  else (case renew (player_token (tm_players meta' ! idx)) presented nonce env 1 of
                     (token, outcome) \<Rightarrow> (meta'\<lparr>tm_players := (tm_players meta')[idx := (tm_players meta' ! idx)\<lparr>player_token := token\<rparr>]\<rparr>,
                            renew_answer role outcome))))))" for meta'
        by (auto simp: case_prod_unfold dest: position_Some split: tournament_role.split option.split
            intro: meta_step.stays meta_step.organizer_renewed meta_step.player_renewed)
    qed
    with RenewOp show ?thesis by (auto simp: answer_with_def)
  next
    case (SweepOp order)
    have "meta_step fo meta meta'" if "fst (expire_meta (now_secs env) code meta) = Some meta'" for meta'
      using that by (auto simp: expire_meta_def Let_def intro: meta_step.stays meta_step.abandoned
          split: tournament_status.splits if_splits)
    with SweepOp m show ?thesis by (auto simp: check_expired_def Let_def case_prod_unfold split: option.split)
  qed
qed

definition sweeps :: "broker_env \<times> manager_op \<Rightarrow> bool" where
  "sweeps a \<longleftrightarrow> (case snd a of SweepOp _ \<Rightarrow> True | _ \<Rightarrow> False)"

lemma run_ops_steps:
  assumes "manager_wf m" and "m code = Some meta" and "\<forall>a\<in>set as. \<not> sweeps a"
  shows "\<exists>meta'. run_ops fo m as code = Some meta' \<and> (meta_step fo)\<^sup>*\<^sup>* meta meta'"
  using assms
proof (induction "as" arbitrary: m meta)
  case Nil
  then show ?case by simp
next
  case (Cons a "as")
  obtain env op where a: "a = (env, op)" by fastforce
  let ?m = "fst (apply_op fo m a)"
  have "\<nexists>order. op = SweepOp order" using Cons.prems(3) by (auto simp: sweeps_def a)
  with apply_op_step [OF Cons.prems(1,2), where fo = fo and env = env and op = op] obtain meta1 where one: "?m code = Some meta1" "meta_step fo meta meta1"
    by (auto simp: a split: option.splits)
  have "manager_wf ?m" using apply_op_safe [OF Cons.prems(1), of fo a] by (simp add: manager_safe_def)
  from Cons.IH [OF this one(1)] Cons.prems(3) obtain meta' where "run_ops fo ?m as code = Some meta'" "(meta_step fo)\<^sup>*\<^sup>* meta1 meta'"
    by auto
  with one(2) show ?case by (auto intro: converse_rtranclp_into_rtranclp)
qed

subsection \<open>Finished events\<close>

definition public_player :: "tournament_player \<Rightarrow> string \<times> string \<times> bool" where
  "public_player p = (player_key p, player_display_name p, dropped p)"

definition same_results :: "tournament_meta \<Rightarrow> tournament_meta \<Rightarrow> bool" where
  "same_results meta meta' \<longleftrightarrow> tm_status meta' = tm_status meta \<and> tm_arity meta' = tm_arity meta \<and> tm_scoring meta' = tm_scoring meta
     \<and> tm_pairings meta' = tm_pairings meta \<and> map public_player (tm_players meta') = map public_player (tm_players meta)"

lemma public_player_token: "map public_player (ps[i := (ps ! i)\<lparr>player_token := t\<rparr>]) = map public_player ps"
proof -
  have "public_player ((ps ! i)\<lparr>player_token := t\<rparr>) = public_player (ps ! i)" by (simp add: public_player_def)
  then show ?thesis by (metis list_update_id map_update)
qed

lemma terminal_step:
  assumes "meta_step fo meta meta'" and "is_terminal (tm_status meta)"
  shows "same_results meta meta'"
  using assms
proof cases
  case (reported i outcome now)
  with assms(2) show ?thesis
    by (auto simp: report_result_meta_def report_gate_of_def Let_def split: option.splits)
qed (auto simp: same_results_def is_terminal_def public_player_token generate_pairings_meta_def drop_player_meta_def
    complete_tournament_meta_def open_actions_def)

lemma terminal_steps:
  assumes "(meta_step fo)\<^sup>*\<^sup>* meta meta'" and "is_terminal (tm_status meta)"
  shows "same_results meta meta'"
  using assms
proof (induction rule: rtranclp_induct)
  case base
  then show ?case by (simp add: same_results_def)
next
  case (step meta1 meta2)
  then have "is_terminal (tm_status meta1)" by (simp add: same_results_def)
  from terminal_step [OF step(2) this] step show ?case by (simp add: same_results_def)
qed

lemma standings_same:
  assumes "same_results meta meta'"
  shows "standings fo meta' = standings fo meta"
proof -
  let ?ps = "tm_players meta" and ?qs = "tm_players meta'"
  have pub: "map public_player ?qs = map public_player ?ps" and rest: "tm_arity meta' = tm_arity meta" "tm_scoring meta' = tm_scoring meta"
    "tm_pairings meta' = tm_pairings meta" using assms by (simp_all add: same_results_def)
  have keys: "player_key ` set ?qs = player_key ` set ?ps"
    using arg_cong [OF pub, of "\<lambda>xs. fst ` set xs"] by (simp add: image_image public_player_def)
  have "foldl (\<lambda>records p. records(player_key p \<mapsto> default_record)) Map.empty ?qs
      = foldl (\<lambda>records p. records(player_key p \<mapsto> default_record)) Map.empty ?ps"
    by (rule ext) (simp add: initial_records keys)
  then have recs: "player_records meta' = player_records meta" by (simp add: player_records_def rest)
  have row: "standing_row fo meta' R q = standing_row fo meta R p" if "public_player q = public_player p" for R p q
    using that rest by (simp add: standing_row_def public_player_def Let_def split: option.split)
  have "map (standing_row fo meta' R) ?qs = map (standing_row fo meta R) ?ps" for R
    using pub by (intro nth_equalityI) (auto dest: map_eq_imp_length_eq intro!: row simp: list_eq_iff_nth_eq)
  then show ?thesis by (simp add: standings_def recs)
qed

subsection \<open>Stuck brackets\<close>

text \<open>A pending pairing of a bracket all of whose players have dropped.\<close>

definition stuck_on :: "tournament_pairing \<Rightarrow> u32 \<Rightarrow> tournament_meta \<Rightarrow> bool" where
  "stuck_on p cur meta \<longleftrightarrow> tm_bracket meta = SingleEliminationBracket \<and> tm_status meta \<in> {InProgressStatus, AbandonedStatus}
     \<and> current_round meta = cur \<and> p \<in> set (tm_pairings meta) \<and> tp_outcome p = None
     \<and> set (tp_players p) \<subseteq> dropped_keys (tm_players meta)"

lemma dropped_keys_update:
  assumes "i < length ps" and "player_key q = player_key (ps ! i)" and "dropped (ps ! i) \<Longrightarrow> dropped q"
  shows "dropped_keys ps \<subseteq> dropped_keys (ps[i := q])"
proof
  fix k assume "k \<in> dropped_keys ps"
  then obtain j where j: "j < length ps" "dropped (ps ! j)" "k = player_key (ps ! j)"
    by (auto simp: dropped_keys_def in_set_conv_nth)
  have "ps[i := q] ! j \<in> set (ps[i := q])" using j(1) by (intro nth_mem) simp
  moreover have "dropped (ps[i := q] ! j)" "player_key (ps[i := q] ! j) = k" using assms j by (auto simp: nth_list_update)
  ultimately show "k \<in> dropped_keys (ps[i := q])" by (auto simp: dropped_keys_def)
qed

lemma in_list_update: "p \<in> set xs \<Longrightarrow> xs ! i \<noteq> p \<Longrightarrow> p \<in> set (xs[i := v])"
  by (metis in_set_conv_nth length_list_update nth_list_update_neq)

lemma stuck_step:
  assumes step: "meta_step fo meta meta'" and stuck: "stuck_on p cur meta"
  shows "stuck_on p cur meta'"
proof -
  have un: "first_unresolved_pairing meta \<noteq> None" using stuck first_unresolved_None [of meta] by (auto simp: stuck_on_def)
  from step show ?thesis
  proof cases
    case (player_renewed i t)
    with stuck dropped_keys_update [of i "tm_players meta" "(tm_players meta ! i)\<lparr>player_token := t\<rparr>"] show ?thesis
      by (auto simp: stuck_on_def)
  next
    case (paired now ids)
    with un show ?thesis by (auto simp: generate_pairings_meta_def Let_def split: if_splits)
  next
    case (reported i outcome now)
    then show ?thesis
    proof (cases rule: report_cases [of i outcome now meta])
      case (accepted idx)
      have "tm_pairings meta ! idx \<noteq> p"
      proof
        assume p: "tm_pairings meta ! idx = p"
        obtain w gw where "outcome = Decisive w gw" using accepted(5) stuck by (cases outcome) (auto simp: stuck_on_def)
        with accepted(4) p have "w \<in> set (tp_players p)" "\<not> list_ex (\<lambda>q. player_key q = w \<and> dropped q) (tm_players meta)"
          by (auto simp: validate_match_result_def split: if_splits)
        with stuck show False by (auto simp: stuck_on_def dropped_keys_def list_ex_iff)
      qed
      with accepted reported stuck show ?thesis by (auto simp: stuck_on_def intro: in_list_update)
    qed (use reported in simp)
  next
    case (dropped_out key now)
    then show ?thesis
    proof (cases rule: drop_cases [of key now meta])
      case (accepted idx)
      let ?players = "(tm_players meta)[idx := (tm_players meta ! idx)\<lparr>dropped := True\<rparr>]"
      have sub: "dropped_keys (tm_players meta) \<subseteq> dropped_keys ?players" using accepted(2) by (intro dropped_keys_update) simp_all
      with stuck have all: "set (tp_players p) \<subseteq> dropped_keys ?players" by (auto simp: stuck_on_def)
      then have "filter (\<lambda>k. k \<notin> dropped_keys ?players) (tp_players p) = []" by (auto simp: filter_empty_conv)
      then have "settle_pairing (dropped_keys ?players) key p = p" by (simp add: settle_pairing_def)
      moreover have "p \<in> set (tm_pairings meta)" using stuck by (simp add: stuck_on_def)
      ultimately have "p \<in> settle_pairing (dropped_keys ?players) key ` set (tm_pairings meta)" by (metis imageI)
      with accepted dropped_out stuck all show ?thesis by (simp add: stuck_on_def drop_at_def Let_def)
    qed (use dropped_out in simp)
  next
    case (completed now)
    with un show ?thesis by (auto simp: complete_tournament_meta_def split: if_splits)
  qed (use stuck in \<open>auto simp: stuck_on_def\<close>)
qed

lemma stuck_steps: "(meta_step fo)\<^sup>*\<^sup>* meta meta' \<Longrightarrow> stuck_on p cur meta \<Longrightarrow> stuck_on p cur meta'"
  by (induction rule: rtranclp_induct) (auto intro: stuck_step)

subsection \<open>Bringing a Swiss event to its end\<close>

definition unresolved :: "tournament_meta \<Rightarrow> nat" where
  "unresolved meta = length (filter (\<lambda>p. tp_outcome p = None) (tm_pairings meta))"

definition accept_op :: "'f f64_ops \<Rightarrow> manager \<Rightarrow> broker_env \<times> manager_op \<Rightarrow> manager option" where
  "accept_op fo m a = (if is_ok (snd (apply_op fo m a)) then Some (fst (apply_op fo m a)) else None)"

lemma length_filter_update:
  "i < length xs \<Longrightarrow> P (xs ! i) \<Longrightarrow> \<not> P v \<Longrightarrow> length (filter P xs) = Suc (length (filter P (xs[i := v])))"
  by (induction xs arbitrary: i) (auto split: nat.split)

lemma draw_settles:
  assumes wf: "meta_wf meta" and swiss: "tm_bracket meta = SwissBracket" "tm_status meta = InProgressStatus"
    and short: "length (tm_pairings meta) \<le> 2 ^ 32" and p: "first_unresolved_pairing meta = Some p"
  obtains meta' where "report_result_meta (tp_id p) Draw now meta = (meta', Ok ())" "unresolved meta = Suc (unresolved meta')"
    "meta_wf meta'" "tm_bracket meta' = SwissBracket" "tm_status meta' = InProgressStatus"
    "length (tm_pairings meta') = length (tm_pairings meta)"
proof -
  let ?ps = "tm_pairings meta"
  from p obtain idx where idx: "idx < length ?ps" "?ps ! idx = p" "tp_outcome p = None"
    by (auto simp: first_unresolved_pairing_def find_Some_iff)
  have ids: "map tp_id ?ps = map of_nat [0..<length ?ps]" using wf short by (simp add: event_wf_def)
  have nth: "tp_id (?ps ! j) = of_nat j" if "j < length ?ps" for j
    using arg_cong [OF ids, of "\<lambda>xs. xs ! j"] that by simp
  have "position (\<lambda>q. tp_id q = tp_id p) ?ps = Some idx"
  proof (rule position_Some_least [OF idx(1)])
    fix j assume "j < idx"
    then show "tp_id (?ps ! j) \<noteq> tp_id p"
      using nth [of j] nth [OF idx(1)] idx short by (auto simp: word_of_nat_eq_iff take_bit_nat_eq_self)
  qed (use idx in simp)
  then have acc: "report_result_meta (tp_id p) Draw now meta
      = (meta\<lparr>tm_pairings := ?ps[idx := p\<lparr>tp_outcome := Some (Reported Draw)\<rparr>], last_activity_at := now\<rparr>, Ok ())"
    using swiss idx by (simp add: report_result_meta_def report_gate_of_def is_terminal_def validate_match_result_def Let_def)
  show thesis
  proof (rule that [OF acc])
    show "meta_wf (meta\<lparr>tm_pairings := ?ps[idx := p\<lparr>tp_outcome := Some (Reported Draw)\<rparr>], last_activity_at := now\<rparr>)"
      using report_keeps_wf [OF wf, of "tp_id p" Draw now] acc by simp
    show "unresolved meta = Suc (unresolved (meta\<lparr>tm_pairings := ?ps[idx := p\<lparr>tp_outcome := Some (Reported Draw)\<rparr>], last_activity_at := now\<rparr>))"
      using length_filter_update [of idx ?ps "\<lambda>q. tp_outcome q = None"] idx by (simp add: unresolved_def)
  qed (use swiss in simp_all)
qed

lemma accept_with_meta:
  assumes "m code = Some meta" and "f meta = (meta', Ok x)"
  shows "with_meta m code f = (m(code \<mapsto> meta'), Ok x)"
  using assms by (simp add: with_meta_def)

lemma swiss_can_end:
  assumes "m code = Some meta" and "meta_wf meta" and "tm_bracket meta = SwissBracket" and "tm_status meta = InProgressStatus"
    and "length (tm_pairings meta) \<le> 2 ^ 32"
  shows "\<exists>ops m' meta'. run_steps (accept_op fo) m (map (Pair env) ops) = Some m' \<and> length ops = Suc (unresolved meta)
    \<and> m' code = Some meta' \<and> tm_status meta' = CompletedStatus"
  using assms
proof (induction "unresolved meta" arbitrary: m meta)
  case 0
  then have res: "\<forall>p\<in>set (tm_pairings meta). tp_outcome p \<noteq> None" by (auto simp: unresolved_def filter_empty_conv)
  let ?meta = "meta\<lparr>tm_status := CompletedStatus, last_activity_at := now_secs env\<rparr>" and ?a = "(env, CompleteOp code)"
  have "complete_tournament_meta (now_secs env) meta = (?meta, Ok ())"
    using "0.prems"(4) first_unresolved_None [THEN iffD2, OF res] by (simp add: complete_tournament_meta_def open_actions_def is_terminal_def)
  from accept_with_meta [of m code meta "complete_tournament_meta (now_secs env)", OF "0.prems"(1) this]
  have "accept_op fo m ?a = Some (m(code \<mapsto> ?meta))"
    by (simp add: accept_op_def complete_tournament_def answer_with_def)
  with "0.hyps" show ?case
    by (intro exI [of _ "[CompleteOp code]"] exI [of _ "m(code \<mapsto> ?meta)"] exI [of _ ?meta]) (simp add: fun_upd_def)
next
  case (Suc n)
  then obtain p where p: "first_unresolved_pairing meta = Some p"
    using first_unresolved_None [of meta] by (cases "first_unresolved_pairing meta") (auto simp: unresolved_def filter_empty_conv [THEN iffD2])
  obtain meta1 where r: "report_result_meta (tp_id p) Draw (now_secs env) meta = (meta1, Ok ())" "unresolved meta = Suc (unresolved meta1)"
    and wf1: "meta_wf meta1" "tm_bracket meta1 = SwissBracket" "tm_status meta1 = InProgressStatus"
    "length (tm_pairings meta1) = length (tm_pairings meta)"
    by (rule draw_settles [OF Suc.prems(2-5) p])
  let ?a = "(env, ReportOp code (tp_id p) Draw)"
  from accept_with_meta [of m code meta "report_result_meta (tp_id p) Draw (now_secs env)", OF Suc.prems(1) r(1)]
  have acc: "accept_op fo m ?a = Some (m(code \<mapsto> meta1))" by (simp add: accept_op_def report_result_def answer_with_def)
  have "n = unresolved meta1" using Suc.hyps(2) r(2) by simp
  from Suc.hyps(1) [OF this, of "m(code \<mapsto> meta1)"] wf1 Suc.prems(5) obtain ops m' meta' where
    "run_steps (accept_op fo) (m(code \<mapsto> meta1)) (map (Pair env) ops) = Some m'" "length ops = Suc (unresolved meta1)"
    "m' code = Some meta'" "tm_status meta' = CompletedStatus" by auto
  with acc r(2) show ?case by (intro exI [of _ "ReportOp code (tp_id p) Draw # ops"] exI [of _ m'] exI [of _ meta']) simp
qed

subsection \<open>Expiry\<close>

definition idle_secs :: "broker_env \<Rightarrow> tournament_meta \<Rightarrow> u64" where
  "idle_secs env meta = saturating_sub (now_secs env) (last_activity_at meta)"

lemma expire_meta_cases:
  "expire_meta (now_secs env) code meta =
     (if tm_status meta = InProgressStatus \<and> IN_PROGRESS_ABANDON_SECS < idle_secs env meta
      then (Some (meta\<lparr>tm_status := AbandonedStatus, last_activity_at := now_secs env\<rparr>), Some (ExpiryAbandoned code))
      else if tm_status meta = RegistrationStatus \<and> REGISTRATION_TIMEOUT_SECS < idle_secs env meta
        \<or> is_terminal (tm_status meta) \<and> TERMINAL_RETENTION_SECS < idle_secs env meta
      then (None, Some (ExpiryDeleted code))
      else (Some meta, None))"
  by (cases "tm_status meta") (simp_all add: expire_meta_def idle_secs_def is_terminal_def Let_def)

lemma set_map_filter_events:
  "set (List.map_filter (\<lambda>code. case m code of None \<Rightarrow> None | Some meta \<Rightarrow> snd (expire_meta now code meta)) order)
     = {e. \<exists>code meta. code \<in> set order \<and> m code = Some meta \<and> snd (expire_meta now code meta) = Some e}"
  by (force simp: List.map_filter_def split: option.splits)

lemma expire_event_code:
  "snd (expire_meta (now_secs env) code meta) = Some e \<Longrightarrow> e = ExpiryDeleted code \<or> e = ExpiryAbandoned code"
  by (auto simp: expire_meta_cases split: if_splits)

lemma distinct_events:
  assumes "distinct order"
  shows "distinct (List.map_filter (\<lambda>code. case m code of None \<Rightarrow> None | Some meta \<Rightarrow> snd (expire_meta (now_secs env) code meta)) order)"
proof -
  let ?f = "\<lambda>code. case m code of None \<Rightarrow> None | Some meta \<Rightarrow> snd (expire_meta (now_secs env) code meta)"
  have "e = ExpiryDeleted code \<or> e = ExpiryAbandoned code" if "?f code = Some e" for code e
    using that expire_event_code by (auto split: option.splits)
  then have "inj_on (the \<circ> ?f) {code. ?f code \<noteq> None}"
    by (intro inj_onI) (auto simp del: split_paired_all, metis expiry_event.distinct(1) expiry_event.inject)
  then have "inj_on (the \<circ> ?f) (set (filter (\<lambda>code. ?f code \<noteq> None) order))" by (rule inj_on_subset) auto
  with assms show ?thesis by (simp add: List.map_filter_def distinct_map)
qed

lemma idle_now: "idle_secs env (meta\<lparr>tm_status := s, last_activity_at := now_secs env\<rparr>) = 0"
  by (simp add: idle_secs_def saturating_sub_def)

lemma expired_once:
  assumes "fst (expire_meta (now_secs env) code meta) = Some meta'"
  shows "expire_meta (now_secs env) code meta' = (Some meta', None)"
  using assms by (auto simp: expire_meta_cases idle_now is_terminal_def split: if_splits)

lemma sweep_again:
  assumes "check_expired order m env = (m', events)"
  shows "check_expired order' m' env = (m', [])"
proof -
  have m': "m' code = (case m code of None \<Rightarrow> None | Some meta \<Rightarrow> fst (expire_meta (now_secs env) code meta))" for code
    using assms by (auto simp: check_expired_def Let_def)
  have again: "expire_meta (now_secs env) code meta' = (Some meta', None)" if "m' code = Some meta'" for code meta'
    using that expired_once [of env code] by (auto simp: m' split: option.splits)
  have "(case m' code of None \<Rightarrow> None | Some meta \<Rightarrow> fst (expire_meta (now_secs env) code meta)) = m' code" for code
    using again [of code] by (cases "m' code") auto
  moreover have "(case m' code of None \<Rightarrow> None | Some meta \<Rightarrow> snd (expire_meta (now_secs env) code meta)) = None" for code
    using again [of code] by (cases "m' code") auto
  ultimately show ?thesis by (simp add: check_expired_def Let_def List.map_filter_def)
qed

subsection \<open>A sample event\<close>

text \<open>
  Three entrants in a head-to-head event: a Swiss one after its first round was paired, and a single-elimination one in which
  \<^verbatim>\<open>a\<close> had a bye, \<^verbatim>\<open>b\<close> beat \<^verbatim>\<open>c\<close>, and both finalists dropped before the final was paired.
\<close>

definition sample_env :: broker_env where
  "sample_env = \<lparr>clock = (\<lambda>_. 5000), fresh_token = ''t''\<rparr>"

definition sample_request :: "bracket_shape \<Rightarrow> create_request" where
  "sample_request shape = \<lparr>cr_name = ''Friday'', cr_arity = HEAD_TO_HEAD, cr_scoring = \<lparr>win_points = 3, draw_points = 1, loss_points = 0\<rparr>,
     cr_bracket = shape, cr_total_rounds = None, cr_plus_rounds = None, cr_format = None, cr_match_type = Some Bo1\<rparr>"

definition sample_start :: "bracket_shape \<Rightarrow> (broker_env \<times> manager_op) list" where
  "sample_start shape = map (Pair sample_env) [CreateOp ''T'' 2 (3, 1, 0) (sample_request shape),
     JoinOp ''T'' ''a'' ''A'', JoinOp ''T'' ''b'' ''B'', JoinOp ''T'' ''c'' ''C'', GenerateOp ''T'']"

definition sample_finalists_drop :: "(broker_env \<times> manager_op) list" where
  "sample_finalists_drop = sample_start SingleEliminationBracket @ map (Pair sample_env)
     [ReportOp ''T'' 1 (Decisive ''b'' []), DropOp ''T'' ''a'', DropOp ''T'' ''b'', GenerateOp ''T'']"

definition issued_token :: tournament_credential where
  "issued_token = \<lparr>secret = ''t'', expires_at_ms = 5000 + TOURNAMENT_CREDENTIAL_TTL_MS, last_rotation = None\<rparr>"

definition entrant :: "string \<Rightarrow> string \<Rightarrow> bool \<Rightarrow> tournament_player" where
  "entrant key name gone = \<lparr>player_key = key, player_token = issued_token, player_display_name = name, dropped = gone\<rparr>"

definition friday_event ::
  "bracket_shape \<Rightarrow> u32 \<Rightarrow> tournament_status \<Rightarrow> u32 option \<Rightarrow> tournament_player list \<Rightarrow> tournament_pairing list \<Rightarrow> tournament_meta" where
  "friday_event shape cur st sched players ps = \<lparr>tm_code = ''T'', tm_name = ''Friday'', organizer_token = issued_token,
     tm_arity = HEAD_TO_HEAD, tm_scoring = \<lparr>win_points = 3, draw_points = 1, loss_points = 0\<rparr>, tm_bracket = shape,
     total_rounds_override = None, resolved_total_rounds = sched, plus_rounds = None, tm_format = None, tm_match_type = Bo1,
     current_round = cur, tm_status = st, tm_players = players, tm_pairings = ps, created_at = 5, last_activity_at = 5\<rparr>"

lemma generate_from:
  assumes "\<not> is_terminal (tm_status meta)" and "current_round meta < total_rounds meta" and "first_unresolved_pairing meta = None"
    and "map_option (\<lambda>rows. map row_key (filter (\<lambda>row. \<not> row_dropped row) rows)) (standings fo meta) = Some order"
    and "pair_round meta order (current_round meta + 1) (next_pairing_id (tm_pairings meta)) = Ok new"
  shows "generate_pairings_meta fo now meta = (start_round new now meta, Ok (map tp_id new))"
proof -
  from assms(1) have "StartRoundAction \<in> open_actions meta" by (simp add: open_actions_def)
  with assms show ?thesis by (auto simp: generate_pairings_meta_def Let_def)
qed

definition first_entrants :: "tournament_player list" where
  "first_entrants = [entrant ''a'' ''A'' False, entrant ''b'' ''B'' False, entrant ''c'' ''C'' False]"

lemma sample_joined:
  "run_ops exact_ops Map.empty (map (Pair sample_env) [CreateOp ''T'' 2 (3, 1, 0) (sample_request shape),
     JoinOp ''T'' ''a'' ''A'', JoinOp ''T'' ''b'' ''B'', JoinOp ''T'' ''c'' ''C''])
   = [''T'' \<mapsto> friday_event shape 0 RegistrationStatus None first_entrants []]"
  by (simp add: decode_create_def arity_new_def scoring_new_def answer_with_def create_tournament_def sample_request_def
      HEAD_TO_HEAD_def mint_def sample_env_def now_secs_def join_tournament_def with_meta_def new_meta_def find_player_def
      friday_event_def entrant_def issued_token_def first_entrants_def Let_def)

lemma sample_order:
  "map_option (\<lambda>rows. map row_key (filter (\<lambda>row. \<not> row_dropped row) rows))
     (standings exact_ops (friday_event shape 0 RegistrationStatus None first_entrants [])) = Some [''a'', ''b'', ''c'']"
  by code_simp

lemma sample_swiss_pairs:
  "build_swiss_round [''a'', ''b'', ''c''] HEAD_TO_HEAD [] 1 0
   = [\<lparr>tp_id = 0, tp_round = 1, tp_players = [''a'', ''b''], tp_outcome = None\<rparr>,
      \<lparr>tp_id = 1, tp_round = 1, tp_players = [''c''], tp_outcome = Some Bye\<rparr>]"
  by code_simp

lemma sample_bracket_pairs:
  "build_single_elimination_round [''a'', ''b'', ''c''] [] 1 0
   = Ok [\<lparr>tp_id = 0, tp_round = 1, tp_players = [''a''], tp_outcome = Some Bye\<rparr>,
      \<lparr>tp_id = 1, tp_round = 1, tp_players = [''b'', ''c''], tp_outcome = None\<rparr>]"
  by code_simp

lemma doubling_8: "doubling_rounds 0 8 = 3"
  by (simp add: doubling_rounds.simps)

lemma sample_schedules:
  "total_rounds (friday_event SwissBracket 0 RegistrationStatus None first_entrants []) = 3"
  "total_rounds (friday_event SingleEliminationBracket 0 RegistrationStatus None first_entrants []) = 2"
  by (simp_all add: total_rounds_def friday_event_def default_total_rounds_def active_player_count_def active_players_def
      first_entrants_def entrant_def max_def doubling_8 next_power_small trailing_zeros_power [of 2, simplified] saturating_add_u32_def)

definition swiss_round_one :: "tournament_pairing list" where
  "swiss_round_one = [\<lparr>tp_id = 0, tp_round = 1, tp_players = [''a'', ''b''], tp_outcome = None\<rparr>,
      \<lparr>tp_id = 1, tp_round = 1, tp_players = [''c''], tp_outcome = Some Bye\<rparr>]"

definition bracket_round_one :: "pairing_outcome option \<Rightarrow> tournament_pairing list" where
  "bracket_round_one outcome = [\<lparr>tp_id = 0, tp_round = 1, tp_players = [''a''], tp_outcome = Some Bye\<rparr>,
      \<lparr>tp_id = 1, tp_round = 1, tp_players = [''b'', ''c''], tp_outcome = outcome\<rparr>]"

definition bracket_final :: tournament_pairing where
  "bracket_final = \<lparr>tp_id = 2, tp_round = 2, tp_players = [''a'', ''b''], tp_outcome = None\<rparr>"

lemma sample_env_now: "now_secs sample_env = 5"
  by (simp add: now_secs_def sample_env_def)

lemma sample_swiss_starts:
  "generate_pairings_meta exact_ops 5 (friday_event SwissBracket 0 RegistrationStatus None first_entrants [])
   = (friday_event SwissBracket 1 InProgressStatus (Some 3) first_entrants swiss_round_one, Ok [0, 1])"
proof -
  let ?e = "friday_event SwissBracket 0 RegistrationStatus None first_entrants []"
  have "generate_pairings_meta exact_ops 5 ?e = (start_round swiss_round_one 5 ?e, Ok (map tp_id swiss_round_one))"
  proof (rule generate_from [OF _ _ _ sample_order])
    show "pair_round ?e [''a'', ''b'', ''c''] (current_round ?e + 1) (next_pairing_id (tm_pairings ?e)) = Ok swiss_round_one"
      using sample_swiss_pairs by (simp add: pair_round_def friday_event_def next_pairing_id_def swiss_round_one_def)
    show "current_round ?e < total_rounds ?e" unfolding sample_schedules by (simp add: friday_event_def)
  qed (simp_all add: friday_event_def is_terminal_def first_unresolved_pairing_def)
  moreover have "start_round swiss_round_one 5 ?e = friday_event SwissBracket 1 InProgressStatus (Some 3) first_entrants swiss_round_one"
    using sample_schedules(1) by (simp add: start_round_def friday_event_def)
  ultimately show ?thesis by (simp add: swiss_round_one_def)
qed

lemma sample_bracket_starts:
  "generate_pairings_meta exact_ops 5 (friday_event SingleEliminationBracket 0 RegistrationStatus None first_entrants [])
   = (friday_event SingleEliminationBracket 1 InProgressStatus (Some 2) first_entrants (bracket_round_one None), Ok [0, 1])"
proof -
  let ?e = "friday_event SingleEliminationBracket 0 RegistrationStatus None first_entrants []"
  have "generate_pairings_meta exact_ops 5 ?e = (start_round (bracket_round_one None) 5 ?e, Ok (map tp_id (bracket_round_one None)))"
  proof (rule generate_from [OF _ _ _ sample_order])
    show "pair_round ?e [''a'', ''b'', ''c''] (current_round ?e + 1) (next_pairing_id (tm_pairings ?e)) = Ok (bracket_round_one None)"
      using sample_bracket_pairs by (simp add: pair_round_def friday_event_def next_pairing_id_def bracket_round_one_def)
    show "current_round ?e < total_rounds ?e" unfolding sample_schedules by (simp add: friday_event_def)
  qed (simp_all add: friday_event_def is_terminal_def first_unresolved_pairing_def)
  moreover have "start_round (bracket_round_one None) 5 ?e
      = friday_event SingleEliminationBracket 1 InProgressStatus (Some 2) first_entrants (bracket_round_one None)"
    using sample_schedules(2) by (simp add: start_round_def friday_event_def)
  ultimately show ?thesis by (simp add: bracket_round_one_def)
qed

definition last_entrants :: "tournament_player list" where
  "last_entrants = [entrant ''a'' ''A'' True, entrant ''b'' ''B'' True, entrant ''c'' ''C'' False]"

abbreviation (input) b_won :: "pairing_outcome option" where
  "b_won \<equiv> Some (Reported (Decisive ''b'' []))"

lemma sample_final_order:
  "map_option (\<lambda>rows. map row_key (filter (\<lambda>row. \<not> row_dropped row) rows))
     (standings exact_ops (friday_event SingleEliminationBracket 1 InProgressStatus (Some 2) last_entrants (bracket_round_one b_won))) = Some [''c'']"
  by code_simp

lemma sample_final_paired:
  "generate_pairings_meta exact_ops 5 (friday_event SingleEliminationBracket 1 InProgressStatus (Some 2) last_entrants (bracket_round_one b_won))
   = (friday_event SingleEliminationBracket 2 InProgressStatus (Some 2) last_entrants (bracket_round_one b_won @ [bracket_final]), Ok [2])"
proof -
  let ?e = "friday_event SingleEliminationBracket 1 InProgressStatus (Some 2) last_entrants (bracket_round_one b_won)"
  have "generate_pairings_meta exact_ops 5 ?e = (start_round [bracket_final] 5 ?e, Ok (map tp_id [bracket_final]))"
  proof (rule generate_from [OF _ _ _ sample_final_order])
    show "pair_round ?e [''c''] (current_round ?e + 1) (next_pairing_id (tm_pairings ?e)) = Ok [bracket_final]"
      by code_simp
  qed (simp_all add: friday_event_def is_terminal_def first_unresolved_pairing_def bracket_round_one_def total_rounds_def)
  moreover have "start_round [bracket_final] 5 ?e
      = friday_event SingleEliminationBracket 2 InProgressStatus (Some 2) last_entrants (bracket_round_one b_won @ [bracket_final])"
    by (simp add: start_round_def friday_event_def)
  ultimately show ?thesis by (simp add: bracket_final_def)
qed

lemma sample_swiss_run:
  "run_ops exact_ops Map.empty (sample_start SwissBracket)
   = [''T'' \<mapsto> friday_event SwissBracket 1 InProgressStatus (Some 3) first_entrants swiss_round_one]"
proof -
  have "run_ops exact_ops Map.empty (sample_start SwissBracket) =
    fst (apply_op exact_ops (run_ops exact_ops Map.empty (map (Pair sample_env) [CreateOp ''T'' 2 (3, 1, 0) (sample_request SwissBracket),
     JoinOp ''T'' ''a'' ''A'', JoinOp ''T'' ''b'' ''B'', JoinOp ''T'' ''c'' ''C''])) (sample_env, GenerateOp ''T''))"
    by (simp add: sample_start_def run_ops_def)
  also have "\<dots> = [''T'' \<mapsto> friday_event SwissBracket 1 InProgressStatus (Some 3) first_entrants swiss_round_one]"
    unfolding sample_joined using sample_swiss_starts
    by (simp add: generate_pairings_def answer_with_def with_meta_def sample_env_now)
  finally show ?thesis .
qed

lemma sample_reported:
  "report_result_meta 1 (Decisive ''b'' []) 5 (friday_event SingleEliminationBracket 1 InProgressStatus (Some 2) first_entrants (bracket_round_one None))
   = (friday_event SingleEliminationBracket 1 InProgressStatus (Some 2) first_entrants (bracket_round_one b_won), Ok ())"
  by (simp add: report_result_meta_def friday_event_def bracket_round_one_def report_gate_of_def is_terminal_def
      validate_match_result_def first_entrants_def entrant_def Let_def)

lemma sample_a_drops:
  "drop_player_meta ''a'' 5 (friday_event SingleEliminationBracket 1 InProgressStatus (Some 2) first_entrants (bracket_round_one b_won))
   = (friday_event SingleEliminationBracket 1 InProgressStatus (Some 2)
        [entrant ''a'' ''A'' True, entrant ''b'' ''B'' False, entrant ''c'' ''C'' False] (bracket_round_one b_won), Ok ())"
  by (simp add: drop_player_meta_def friday_event_def bracket_round_one_def open_actions_def is_terminal_def
      first_entrants_def entrant_def settle_pairing_def Let_def)

lemma sample_b_drops:
  "drop_player_meta ''b'' 5 (friday_event SingleEliminationBracket 1 InProgressStatus (Some 2)
        [entrant ''a'' ''A'' True, entrant ''b'' ''B'' False, entrant ''c'' ''C'' False] (bracket_round_one b_won))
   = (friday_event SingleEliminationBracket 1 InProgressStatus (Some 2) last_entrants (bracket_round_one b_won), Ok ())"
  by (simp add: drop_player_meta_def friday_event_def bracket_round_one_def open_actions_def is_terminal_def
      last_entrants_def entrant_def settle_pairing_def Let_def)

lemma sample_stuck_run:
  "run_ops exact_ops Map.empty sample_finalists_drop
   = [''T'' \<mapsto> friday_event SingleEliminationBracket 2 InProgressStatus (Some 2) last_entrants (bracket_round_one b_won @ [bracket_final])]"
proof -
  have "run_ops exact_ops Map.empty sample_finalists_drop =
    run_ops exact_ops (run_ops exact_ops Map.empty (map (Pair sample_env) [CreateOp ''T'' 2 (3, 1, 0) (sample_request SingleEliminationBracket),
     JoinOp ''T'' ''a'' ''A'', JoinOp ''T'' ''b'' ''B'', JoinOp ''T'' ''c'' ''C'']))
     (map (Pair sample_env) [GenerateOp ''T'', ReportOp ''T'' 1 (Decisive ''b'' []), DropOp ''T'' ''a'', DropOp ''T'' ''b'', GenerateOp ''T''])"
    by (simp add: sample_finalists_drop_def sample_start_def run_ops_def)
  also have "\<dots> = [''T'' \<mapsto> friday_event SingleEliminationBracket 2 InProgressStatus (Some 2) last_entrants (bracket_round_one b_won @ [bracket_final])]"
    unfolding sample_joined
    by (simp add: generate_pairings_def report_result_def drop_player_def answer_with_def with_meta_def sample_env_now
        sample_bracket_starts sample_reported sample_a_drops sample_b_drops sample_final_paired)
  finally show ?thesis .
qed

definition swiss_drawn :: "tournament_pairing list" where
  "swiss_drawn = [\<lparr>tp_id = 0, tp_round = 1, tp_players = [''a'', ''b''], tp_outcome = Some (Reported Draw)\<rparr>,
      \<lparr>tp_id = 1, tp_round = 1, tp_players = [''c''], tp_outcome = Some Bye\<rparr>]"

definition sample_completed :: "(broker_env \<times> manager_op) list" where
  "sample_completed = sample_start SwissBracket @ [(sample_env, ReportOp ''T'' 0 Draw), (sample_env, CompleteOp ''T'')]"

lemma sample_completed_run:
  "run_ops exact_ops Map.empty sample_completed = [''T'' \<mapsto> friday_event SwissBracket 1 CompletedStatus (Some 3) first_entrants swiss_drawn]"
proof -
  let ?e = "\<lambda>st ps. friday_event SwissBracket 1 st (Some 3) first_entrants ps"
  have "run_ops exact_ops Map.empty sample_completed
      = run_ops exact_ops (run_ops exact_ops Map.empty (sample_start SwissBracket)) [(sample_env, ReportOp ''T'' 0 Draw), (sample_env, CompleteOp ''T'')]"
    by (simp add: sample_completed_def run_ops_def)
  moreover have "report_result_meta 0 Draw 5 (?e InProgressStatus swiss_round_one) = (?e InProgressStatus swiss_drawn, Ok ())"
    by (simp add: report_result_meta_def friday_event_def swiss_round_one_def swiss_drawn_def report_gate_of_def is_terminal_def
        validate_match_result_def Let_def)
  moreover have "complete_tournament_meta 5 (?e InProgressStatus swiss_drawn) = (?e CompletedStatus swiss_drawn, Ok ())"
    by (simp add: complete_tournament_meta_def friday_event_def swiss_drawn_def open_actions_def is_terminal_def first_unresolved_pairing_def)
  ultimately show ?thesis
    by (simp add: sample_swiss_run report_result_def complete_tournament_def answer_with_def with_meta_def sample_env_now)
qed

subsection \<open>Properties of events\<close>

text \<open>C30. Whatever sequence of requests a registry has handled, every tournament in it is consistent: entrants are distinct;
  in each round nobody sits at two tables; every pairing seats entrants only, and the winner it names sits in it; only the current
  round can have pairings without a result, and a completed event has none; the current round never exceeds the schedule, and the
  schedule of a started event no longer depends on who is still playing. No request panics, and a refused one changes nothing.\<close>

theorem tournament_invariant:
  assumes "m = run_ops fo Map.empty as"
  shows "(\<forall>code meta. m code = Some meta \<longrightarrow> tm_code meta = code
      \<and> distinct (map player_key (tm_players meta))
      \<and> (\<forall>r. distinct (seats_of_round (tm_pairings meta) r))
      \<and> (\<forall>p\<in>set (tm_pairings meta). set (tp_players p) \<subseteq> player_key ` set (tm_players meta)
          \<and> (\<forall>w. pairing_winner_of p = Some w \<longrightarrow> w \<in> set (tp_players p))
          \<and> (tp_outcome p = None \<longrightarrow> tp_round p = current_round meta))
      \<and> (tm_status meta = CompletedStatus \<longrightarrow> (\<forall>p\<in>set (tm_pairings meta). tp_outcome p \<noteq> None))
      \<and> current_round meta \<le> total_rounds meta
      \<and> (current_round meta \<noteq> 0 \<longrightarrow> (\<forall>players. total_rounds (meta\<lparr>tm_players := players\<rparr>) = total_rounds meta)))
    \<and> snd (apply_op fo m a) \<noteq> Panic
    \<and> (\<not> is_ok (snd (apply_op fo m a)) \<longrightarrow> fst (apply_op fo m a) = m)"
proof -
  have wf: "manager_wf m" unfolding assms by (rule run_ops_wf [OF manager_wf_empty])
  have each: "tm_code meta = code \<and> distinct (map player_key (tm_players meta))
      \<and> (\<forall>r. distinct (seats_of_round (tm_pairings meta) r))
      \<and> (\<forall>p\<in>set (tm_pairings meta). set (tp_players p) \<subseteq> player_key ` set (tm_players meta)
          \<and> (\<forall>w. pairing_winner_of p = Some w \<longrightarrow> w \<in> set (tp_players p))
          \<and> (tp_outcome p = None \<longrightarrow> tp_round p = current_round meta))
      \<and> (tm_status meta = CompletedStatus \<longrightarrow> (\<forall>p\<in>set (tm_pairings meta). tp_outcome p \<noteq> None))
      \<and> current_round meta \<le> total_rounds meta
      \<and> (current_round meta \<noteq> 0 \<longrightarrow> (\<forall>players. total_rounds (meta\<lparr>tm_players := players\<rparr>) = total_rounds meta))"
    if "m code = Some meta" for code meta
  proof -
    from wf that have e: "meta_wf meta" "tm_code meta = code" by (simp_all add: manager_wf_def)
    have sched: "\<exists>t. schedule meta = Some t \<and> current_round meta \<le> t" if "current_round meta \<noteq> 0"
      using e(1) that by (simp add: event_wf_def)
    have "current_round meta \<le> total_rounds meta"
      using sched total_rounds_schedule by (cases "current_round meta = 0") auto
    moreover have "total_rounds (meta\<lparr>tm_players := players\<rparr>) = total_rounds meta" if "current_round meta \<noteq> 0" for players
      using sched [OF that] total_rounds_schedule [of meta] total_rounds_schedule [of "meta\<lparr>tm_players := players\<rparr>"] by auto
    ultimately show ?thesis using e by (simp add: event_wf_def pairing_wf_def)
  qed
  from apply_op_safe [OF wf, of fo a] each show ?thesis unfolding manager_safe_def by blast
qed

theorem tournament_invariant_witness:
  "current_round (friday_event SwissBracket 1 InProgressStatus (Some 3) first_entrants swiss_round_one)
   \<le> total_rounds (friday_event SwissBracket 1 InProgressStatus (Some 3) first_entrants swiss_round_one)"
  using tournament_invariant [OF sample_swiss_run [symmetric], of "(sample_env, CompleteOp ''T'')"] by simp

text \<open>C17. Results are frozen when an event ends: from a completed or abandoned tournament on, no sequence of requests, short
  of a sweep that removes it, changes its status, its pairings or its standings.\<close>

theorem finished_results_frozen:
  assumes "m = run_ops fo Map.empty as" and "m code = Some meta" and "is_terminal (tm_status meta)" and "\<forall>a\<in>set bs. \<not> sweeps a"
  shows "\<exists>meta'. run_ops fo m bs code = Some meta' \<and> tm_status meta' = tm_status meta \<and> tm_pairings meta' = tm_pairings meta
    \<and> standings fo meta' = standings fo meta"
proof -
  have "manager_wf m" unfolding assms(1) by (rule run_ops_wf [OF manager_wf_empty])
  from run_ops_steps [OF this assms(2,4), of fo] obtain meta' where "run_ops fo m bs code = Some meta'" "(meta_step fo)\<^sup>*\<^sup>* meta meta'"
    by blast
  with terminal_steps [OF this(2) assms(3)] standings_same [of meta meta' fo] show ?thesis by (auto simp: same_results_def)
qed

theorem finished_results_frozen_witness:
  "\<exists>meta'. run_ops exact_ops (run_ops exact_ops Map.empty sample_completed) [(sample_env, DropOp ''T'' ''a'')] ''T'' = Some meta'
    \<and> tm_status meta' = CompletedStatus \<and> tm_pairings meta' = swiss_drawn"
proof -
  let ?e = "friday_event SwissBracket 1 CompletedStatus (Some 3) first_entrants swiss_drawn"
  have "run_ops exact_ops Map.empty sample_completed ''T'' = Some ?e" by (simp add: sample_completed_run)
  then show ?thesis
    using finished_results_frozen [OF refl, of exact_ops sample_completed "''T''" ?e "[(sample_env, DropOp ''T'' ''a'')]"]
    by (auto simp: sweeps_def friday_event_def is_terminal_def)
qed

text \<open>C29. A running Swiss event can always be brought to its end: from every reachable state, in any environment, one accepted
  report for each pairing that has no result, and then the request to complete, lead to the completed event.\<close>

theorem swiss_event_completes:
  assumes "m = run_ops fo Map.empty as" and "m code = Some meta" and "tm_bracket meta = SwissBracket"
    and "tm_status meta = InProgressStatus" and "length (tm_pairings meta) \<le> 2 ^ 32"
  shows "\<exists>ops m' meta'. run_steps (accept_op fo) m (map (Pair env) ops) = Some m' \<and> length ops = Suc (unresolved meta)
    \<and> m' code = Some meta' \<and> tm_status meta' = CompletedStatus"
proof -
  have "manager_wf m" unfolding assms(1) by (rule run_ops_wf [OF manager_wf_empty])
  with assms(2) have "meta_wf meta" by (simp add: manager_wf_def)
  from swiss_can_end [where m = m and code = code and meta = meta, OF assms(2) this assms(3-5)] show ?thesis .
qed

theorem swiss_event_completes_witness:
  "\<exists>ops m' meta'. run_steps (accept_op exact_ops) (run_ops exact_ops Map.empty (sample_start SwissBracket)) (map (Pair sample_env) ops) = Some m'
    \<and> m' ''T'' = Some meta' \<and> tm_status meta' = CompletedStatus"
  using swiss_event_completes [OF refl, of exact_ops "sample_start SwissBracket" "''T''"
      "friday_event SwissBracket 1 InProgressStatus (Some 3) first_entrants swiss_round_one" sample_env]
  by (auto simp: sample_swiss_run friday_event_def swiss_round_one_def)

text \<open>C32. A single-elimination event with a pending pairing all of whose players have dropped is stuck: no sequence of requests
  gives that pairing a result, pairs another round or completes the event. It waits for the sweep that abandons it. Finalists who
  drop after their semifinals were decided bring an event into this state, because the next round pairs dropped winners too.\<close>

theorem dropped_finalists_stuck:
  assumes "m = run_ops fo Map.empty as" and "m code = Some meta" and "tm_bracket meta = SingleEliminationBracket"
    and "tm_status meta = InProgressStatus" and "p \<in> set (tm_pairings meta)" and "tp_outcome p = None"
    and "set (tp_players p) \<subseteq> dropped_keys (tm_players meta)" and "\<forall>a\<in>set bs. \<not> sweeps a"
  shows "\<exists>meta'. run_ops fo m bs code = Some meta' \<and> p \<in> set (tm_pairings meta') \<and> current_round meta' = current_round meta
    \<and> tm_status meta' \<noteq> CompletedStatus"
proof -
  have "manager_wf m" unfolding assms(1) by (rule run_ops_wf [OF manager_wf_empty])
  from run_ops_steps [OF this assms(2,8), of fo] obtain meta' where "run_ops fo m bs code = Some meta'" "(meta_step fo)\<^sup>*\<^sup>* meta meta'"
    by blast
  moreover have "stuck_on p (current_round meta) meta" using assms by (simp add: stuck_on_def)
  ultimately show ?thesis using stuck_steps by (fastforce simp: stuck_on_def)
qed

theorem dropped_finalists_stuck_witness:
  "\<exists>meta'. run_ops exact_ops (run_ops exact_ops Map.empty sample_finalists_drop)
      [(sample_env, ReportOp ''T'' 2 (Decisive ''a'' [])), (sample_env, CompleteOp ''T'')] ''T'' = Some meta'
    \<and> tm_status meta' \<noteq> CompletedStatus"
proof -
  let ?e = "friday_event SingleEliminationBracket 2 InProgressStatus (Some 2) last_entrants (bracket_round_one b_won @ [bracket_final])"
  have "run_ops exact_ops Map.empty sample_finalists_drop ''T'' = Some ?e" by (simp add: sample_stuck_run)
  moreover have "tm_bracket ?e = SingleEliminationBracket" "tm_status ?e = InProgressStatus" "bracket_final \<in> set (tm_pairings ?e)"
    "tp_outcome bracket_final = None" "set (tp_players bracket_final) \<subseteq> dropped_keys (tm_players ?e)"
    by (simp_all add: friday_event_def bracket_final_def last_entrants_def entrant_def dropped_keys_def)
  ultimately show ?thesis
    using dropped_finalists_stuck [OF refl, of exact_ops sample_finalists_drop "''T''" ?e bracket_final
        "[(sample_env, ReportOp ''T'' 2 (Decisive ''a'' [])), (sample_env, CompleteOp ''T'')]"]
    by (auto simp: sweeps_def)
qed

text \<open>C40. A sweep does exactly what the three rules say: it removes the registrations idle for more than five minutes and the finished
  events past their retention, abandons the running events idle for more than a week, keeping their results, and leaves every other record
  as it was. It reports each of these once, and sweeping again at the same time does nothing.\<close>

theorem expiry_sweep_exact:
  assumes "check_expired order m env = (m', events)" and "set order = dom m" and "distinct order"
  shows "(\<forall>code meta. m code = Some meta \<longrightarrow>
      (if tm_status meta = InProgressStatus \<and> IN_PROGRESS_ABANDON_SECS < idle_secs env meta
       then m' code = Some (meta\<lparr>tm_status := AbandonedStatus, last_activity_at := now_secs env\<rparr>)
         \<and> ExpiryAbandoned code \<in> set events \<and> ExpiryDeleted code \<notin> set events
       else if tm_status meta = RegistrationStatus \<and> REGISTRATION_TIMEOUT_SECS < idle_secs env meta
         \<or> is_terminal (tm_status meta) \<and> TERMINAL_RETENTION_SECS < idle_secs env meta
       then m' code = None \<and> ExpiryDeleted code \<in> set events \<and> ExpiryAbandoned code \<notin> set events
       else m' code = Some meta \<and> ExpiryDeleted code \<notin> set events \<and> ExpiryAbandoned code \<notin> set events))
    \<and> dom m' \<subseteq> dom m \<and> distinct events \<and> check_expired order' m' env = (m', [])"
proof -
  have m': "m' code = (case m code of None \<Rightarrow> None | Some meta \<Rightarrow> fst (expire_meta (now_secs env) code meta))" for code
    using assms(1) by (auto simp: check_expired_def Let_def)
  have ev: "set events = {e. \<exists>code meta. m code = Some meta \<and> snd (expire_meta (now_secs env) code meta) = Some e}"
  proof -
    have "set events = {e. \<exists>code meta. code \<in> dom m \<and> m code = Some meta \<and> snd (expire_meta (now_secs env) code meta) = Some e}"
      using assms(1) unfolding assms(2) [symmetric] set_map_filter_events [symmetric] by (auto simp: check_expired_def Let_def)
    then show ?thesis by blast
  qed
  have "dom m' \<subseteq> dom m" by (auto simp: m' split: option.splits)
  moreover have "check_expired order' m' env = (m', [])" by (rule sweep_again [OF assms(1)])
  moreover have "distinct events" using assms(1,3) distinct_events by (auto simp: check_expired_def Let_def)
  moreover have "ExpiryDeleted code \<in> set events \<longleftrightarrow> snd (expire_meta (now_secs env) code meta) = Some (ExpiryDeleted code)"
    "ExpiryAbandoned code \<in> set events \<longleftrightarrow> snd (expire_meta (now_secs env) code meta) = Some (ExpiryAbandoned code)"
    if "m code = Some meta" for code meta
    using that expire_event_code [of env] unfolding ev by fastforce+
  ultimately show ?thesis by (simp add: m' expire_meta_cases)
qed

theorem expiry_sweep_exact_witness:
  "fst (check_expired [''T''] [''T'' \<mapsto> friday_event SwissBracket 0 RegistrationStatus None first_entrants []]
      \<lparr>clock = (\<lambda>_. 400000), fresh_token = ''t''\<rparr>) ''T'' = None"
proof -
  let ?e = "friday_event SwissBracket 0 RegistrationStatus None first_entrants []" and ?env = "\<lparr>clock = (\<lambda>_. 400000), fresh_token = ''t''\<rparr>"
  have "REGISTRATION_TIMEOUT_SECS < idle_secs ?env ?e" "tm_status ?e = RegistrationStatus"
    by (simp_all add: REGISTRATION_TIMEOUT_SECS_def idle_secs_def now_secs_def friday_event_def saturating_sub_def)
  then show ?thesis
    using expiry_sweep_exact [of "[''T'']" "[''T'' \<mapsto> ?e]" ?env "fst (check_expired [''T''] [''T'' \<mapsto> ?e] ?env)"
        "snd (check_expired [''T''] [''T'' \<mapsto> ?e] ?env)" "[]"]
    by simp
qed

end
