(* ===== verification/Lobby_Listings.thy ===== *)
theory Lobby_Listings
  imports Draft_Types Seat_Reducer Tournament_Credential "HOL-Library.AList"
begin

text \<open>
  The registry of waiting games of the lobby broker (\<^verbatim>\<open>src/crates/lobby-broker/src/lobby.rs\<close>) and the ownership
  checks on seat reservations (\<^verbatim>\<open>reservation_auth.rs\<close>). Listings are registered under a code that can be
  reused, hold reservations that expire, are kept alive by their host and reaped by age.

  The two hash maps are association lists with distinct keys: \<open>AList.update\<close> inserts, \<open>AList.delete\<close>
  removes. The iteration order of a hash map is not specified, so nothing below states an order. Of the
  engine's \<^verbatim>\<open>FormatConfig\<close> the record keeps the fields that lobbies read.
\<close>

subsection \<open>Listings\<close>

definition PUBLIC_SEAT_RESERVATION_MS :: u64 where
  "PUBLIC_SEAT_RESERVATION_MS = 120000"

definition LIVENESS_REFRESH_SECS :: u64 where
  "LIVENESS_REFRESH_SECS = 60"

record hosted_format = format_config +
  fc_allow_debug_actions :: bool

record draft_lobby_metadata =
  dl_set_code :: string
  dl_draft_kind :: string
  dl_cube_name :: "string option"

record register_game_request =
  rg_host_name :: string
  rg_public :: bool
  rg_password :: "string option"
  rg_timer_seconds :: "u32 option"
  rg_host_version :: string
  rg_host_build_commit :: string
  rg_current_players :: u32
  rg_max_players :: u32
  rg_format_config :: "hosted_format option"
  rg_match_config :: match_config
  rg_room_name :: "string option"
  rg_host_peer_id :: string
  rg_draft_metadata :: "draft_lobby_metadata option"
  rg_ranked :: bool

record join_target_info =
  jt_host_peer_id :: string
  jt_max_players :: u32
  jt_current_players :: u32
  jt_format_config :: "hosted_format option"
  jt_match_config :: match_config
  jt_is_p2p :: bool
  jt_reservation_token :: "string option"
  jt_reservation_expires_at_ms :: "u64 option"
  jt_draft_metadata :: "draft_lobby_metadata option"

record lobby_reservation =
  lr_token :: string
  lr_display_name :: string
  lr_expires_at_ms :: "u64 option"

record lobby_registration =
  reg_game_code :: string
  reg_generation :: u64

datatype expiry_consumption = Removed | AlreadyGone | Superseded

record lobby_game_meta =
  lg_host_name :: string
  lg_created_at :: u64
  lg_last_seen :: u64
  lg_generation :: u64
  lg_password :: "string option"
  lg_has_password :: bool
  lg_timer_seconds :: "u32 option"
  lg_public :: bool
  lg_host_version :: string
  lg_host_build_commit :: string
  lg_current_players :: u32
  lg_max_players :: u32
  lg_format_config :: "hosted_format option"
  lg_match_config :: match_config
  lg_room_name :: "string option"
  lg_host_peer_id :: string
  lg_draft_metadata :: "draft_lobby_metadata option"
  lg_ranked :: bool
  lg_reservations :: "(string \<times> lobby_reservation) list"

record lobby_manager =
  lm_games :: "(string \<times> lobby_game_meta) list"
  lm_next_generation :: u64

text \<open>The listing of a game as subscribers see it (\<^verbatim>\<open>LobbyGame\<close> of \<^verbatim>\<open>protocol.rs\<close>).\<close>

record lobby_game =
  lv_game_code :: string
  lv_host_name :: string
  lv_created_at :: u64
  lv_has_password :: bool
  lv_host_version :: string
  lv_host_build_commit :: string
  lv_current_players :: u32
  lv_max_players :: u32
  lv_format :: "game_format option"
  lv_room_name :: "string option"
  lv_is_p2p :: bool
  lv_is_sandbox :: bool
  lv_is_ranked :: bool
  lv_draft_metadata :: "draft_lobby_metadata option"

datatype lobby_error = GameNotFound string | GameFull string | PasswordRequired | WrongPassword

subsection \<open>Snapshots\<close>

text \<open>
  A persisted lobby: the games and the counter. Snapshots of older builds have no counter, no generations and no
  \<^verbatim>\<open>last_seen\<close>; these read as zero.
\<close>

record lobby_manager_snapshot =
  sn_games :: "(string \<times> lobby_game_meta) list"
  sn_next_generation :: u64

definition restore_lobby :: "lobby_manager_snapshot \<Rightarrow> lobby_manager" where
  "restore_lobby snapshot =
     (let floored = map (\<lambda>(code, meta). (code, meta\<lparr>lg_last_seen := max (lg_last_seen meta) (lg_created_at meta)\<rparr>)) (sn_games snapshot);
          seeded = foldr max (map (\<lambda>(_, meta). lg_generation meta + 1) floored) (sn_next_generation snapshot)
      in \<lparr>lm_games = floored, lm_next_generation = seeded\<rparr>)"

definition save_lobby :: "lobby_manager \<Rightarrow> lobby_manager_snapshot" where
  "save_lobby m = \<lparr>sn_games = lm_games m, sn_next_generation = lm_next_generation m\<rparr>"

definition new_lobby :: lobby_manager where
  "new_lobby = \<lparr>lm_games = [], lm_next_generation = 0\<rparr>"

subsection \<open>Operations\<close>

abbreviation listing :: "lobby_manager \<Rightarrow> string \<Rightarrow> lobby_game_meta option" where
  "listing m code \<equiv> map_of (lm_games m) code"

definition register_game ::
  "lobby_manager \<Rightarrow> string \<Rightarrow> register_game_request \<Rightarrow> broker_env \<Rightarrow> lobby_manager \<times> lobby_registration" where
  "register_game m code req env =
     (let created_at = clock env 0 div 1000; generation = lm_next_generation m;
          meta = \<lparr>lg_host_name = rg_host_name req, lg_created_at = created_at, lg_last_seen = created_at,
            lg_generation = generation, lg_password = rg_password req, lg_has_password = (rg_password req \<noteq> None),
            lg_timer_seconds = rg_timer_seconds req, lg_public = rg_public req, lg_host_version = rg_host_version req,
            lg_host_build_commit = rg_host_build_commit req, lg_current_players = rg_current_players req,
            lg_max_players = rg_max_players req, lg_format_config = rg_format_config req, lg_match_config = rg_match_config req,
            lg_room_name = rg_room_name req, lg_host_peer_id = rg_host_peer_id req, lg_draft_metadata = rg_draft_metadata req,
            lg_ranked = rg_ranked req, lg_reservations = []\<rparr>
      in (\<lparr>lm_games = AList.update code meta (lm_games m), lm_next_generation = generation + 1\<rparr>,
          \<lparr>reg_game_code = code, reg_generation = generation\<rparr>))"

text \<open>\<^verbatim>\<open>games.get_mut(code)\<close> followed by an update of the entry; \<open>absent\<close> answers when there is none.\<close>

definition with_listing ::
  "lobby_manager \<Rightarrow> string \<Rightarrow> 'r \<Rightarrow> (lobby_game_meta \<Rightarrow> lobby_game_meta \<times> 'r) \<Rightarrow> lobby_manager \<times> 'r" where
  "with_listing m code absent f =
     (case listing m code of
        None \<Rightarrow> (m, absent)
      | Some meta \<Rightarrow> (m\<lparr>lm_games := AList.update code (fst (f meta)) (lm_games m)\<rparr>, snd (f meta)))"

definition live_reservation :: "u64 \<Rightarrow> lobby_reservation \<Rightarrow> bool" where
  "live_reservation now r = (case lr_expires_at_ms r of None \<Rightarrow> True | Some expires \<Rightarrow> now < expires)"

definition cleanup_expired_for :: "lobby_game_meta \<Rightarrow> u64 \<Rightarrow> lobby_game_meta \<times> bool" where
  "cleanup_expired_for meta now =
     (let kept = filter (\<lambda>(_, r). live_reservation now r) (lg_reservations meta)
      in (meta\<lparr>lg_reservations := kept\<rparr>, length (lg_reservations meta) \<noteq> length kept))"

definition cleanup_expired_reservations :: "lobby_manager \<Rightarrow> string \<Rightarrow> broker_env \<Rightarrow> lobby_manager \<times> bool" where
  "cleanup_expired_reservations m code env = with_listing m code False (\<lambda>meta. cleanup_expired_for meta (clock env 0))"

definition reserve_in ::
  "string \<Rightarrow> string \<Rightarrow> broker_env \<Rightarrow> lobby_game_meta \<Rightarrow> lobby_game_meta \<times> (lobby_reservation, lobby_error) rust_result" where
  "reserve_in code display_name env meta0 =
     (let now = clock env 0; meta = fst (cleanup_expired_for meta0 now);
          occupied = lg_current_players meta + of_nat (length (lg_reservations meta))
      in if 0 < lg_max_players meta \<and> lg_max_players meta \<le> occupied then (meta, Err (GameFull code))
         else let token = fresh_token env;
                  r = \<lparr>lr_token = token, lr_display_name = display_name, lr_expires_at_ms = Some (now + PUBLIC_SEAT_RESERVATION_MS)\<rparr>
              in (meta\<lparr>lg_reservations := AList.update token r (lg_reservations meta)\<rparr>, Ok r))"

definition reserve_seat ::
  "lobby_manager \<Rightarrow> string \<Rightarrow> string \<Rightarrow> broker_env \<Rightarrow> lobby_manager \<times> (lobby_reservation, lobby_error) rust_result" where
  "reserve_seat m code display_name env = with_listing m code (Err (GameNotFound code)) (reserve_in code display_name env)"

definition release_reservation :: "lobby_manager \<Rightarrow> string \<Rightarrow> string \<Rightarrow> lobby_manager \<times> bool" where
  "release_reservation m code token =
     with_listing m code False (\<lambda>meta. (meta\<lparr>lg_reservations := AList.delete token (lg_reservations meta)\<rparr>,
       map_of (lg_reservations meta) token \<noteq> None))"

definition has_active_reservation :: "lobby_manager \<Rightarrow> string \<Rightarrow> string \<Rightarrow> broker_env \<Rightarrow> lobby_manager \<times> bool" where
  "has_active_reservation m code token env =
     with_listing m code False (\<lambda>meta0. let meta = fst (cleanup_expired_for meta0 (clock env 0))
       in (meta, map_of (lg_reservations meta) token \<noteq> None))"

fun release_reservations :: "lobby_manager \<Rightarrow> (string \<times> string) list \<Rightarrow> lobby_manager \<times> bool" where
  "release_reservations m [] = (m, False)"
| "release_reservations m ((code, token) # rs) =
     (let (m1, b) = release_reservation m code token; (m2, c) = release_reservations m1 rs in (m2, b \<or> c))"

definition consume_in :: "string \<Rightarrow> lobby_game_meta \<Rightarrow> lobby_game_meta \<times> bool" where
  "consume_in token meta =
     (if map_of (lg_reservations meta) token = None then (meta, False)
      else (meta\<lparr>lg_reservations := AList.delete token (lg_reservations meta),
              lg_current_players := min (lg_current_players meta + 1) (lg_max_players meta)\<rparr>, True))"

definition consume_reservation :: "lobby_manager \<Rightarrow> string \<Rightarrow> string \<Rightarrow> lobby_manager \<times> bool" where
  "consume_reservation m code token = with_listing m code False (consume_in token)"

definition seated_player_count :: "lobby_manager \<Rightarrow> string \<Rightarrow> u32 option" where
  "seated_player_count m code = map_option lg_current_players (listing m code)"

definition set_current_players :: "lobby_manager \<Rightarrow> string \<Rightarrow> u32 \<Rightarrow> broker_env \<Rightarrow> lobby_manager" where
  "set_current_players m code current env =
     fst (with_listing m code () (\<lambda>meta. ((fst (cleanup_expired_for meta (clock env 0)))\<lparr>lg_current_players := current\<rparr>, ())))"

definition set_max_players :: "lobby_manager \<Rightarrow> string \<Rightarrow> u8 \<Rightarrow> lobby_manager" where
  "set_max_players m code most = fst (with_listing m code () (\<lambda>meta. (meta\<lparr>lg_max_players := ucast most\<rparr>, ())))"

definition host_build_commit :: "lobby_manager \<Rightarrow> string \<Rightarrow> string option" where
  "host_build_commit m code = map_option lg_host_build_commit (listing m code)"

definition unregister_game :: "lobby_manager \<Rightarrow> string \<Rightarrow> lobby_manager" where
  "unregister_game m code = m\<lparr>lm_games := AList.delete code (lm_games m)\<rparr>"

definition verify_password :: "lobby_manager \<Rightarrow> string \<Rightarrow> string option \<Rightarrow> (unit, lobby_error) rust_result" where
  "verify_password m code provided =
     (case listing m code of
        None \<Rightarrow> Err (GameNotFound code)
      | Some meta \<Rightarrow>
          (case (lg_password meta, provided) of
             (None, _) \<Rightarrow> Ok ()
           | (Some _, None) \<Rightarrow> Err PasswordRequired
           | (Some expected, Some given) \<Rightarrow> if expected = given then Ok () else Err WrongPassword))"

definition occupied_seats :: "lobby_game_meta \<Rightarrow> u32" where
  "occupied_seats meta = min (lg_current_players meta + of_nat (length (lg_reservations meta))) (lg_max_players meta)"

definition meta_to_lobby_game :: "string \<Rightarrow> lobby_game_meta \<Rightarrow> lobby_game" where
  "meta_to_lobby_game code meta =
     \<lparr>lv_game_code = code, lv_host_name = lg_host_name meta, lv_created_at = lg_created_at meta,
      lv_has_password = lg_has_password meta, lv_host_version = lg_host_version meta,
      lv_host_build_commit = lg_host_build_commit meta, lv_current_players = occupied_seats meta,
      lv_max_players = lg_max_players meta, lv_format = map_option fc_format (lg_format_config meta),
      lv_room_name = lg_room_name meta, lv_is_p2p = (lg_host_peer_id meta \<noteq> []),
      lv_is_sandbox = (case lg_format_config meta of None \<Rightarrow> False | Some fc \<Rightarrow> fc_allow_debug_actions fc),
      lv_is_ranked = lg_ranked meta, lv_draft_metadata = lg_draft_metadata meta\<rparr>"

definition public_game :: "lobby_manager \<Rightarrow> string \<Rightarrow> lobby_game option" where
  "public_game m code =
     (case listing m code of None \<Rightarrow> None
      | Some meta \<Rightarrow> if lg_public meta then Some (meta_to_lobby_game code meta) else None)"

definition public_games :: "lobby_manager \<Rightarrow> lobby_game list" where
  "public_games m = map (\<lambda>(code, meta). meta_to_lobby_game code meta) (filter (\<lambda>(_, meta). lg_public meta) (lm_games m))"

definition has_game :: "lobby_manager \<Rightarrow> string \<Rightarrow> bool" where
  "has_game m code = (listing m code \<noteq> None)"

definition lobby_len :: "lobby_manager \<Rightarrow> usize" where
  "lobby_len m = length (lm_games m)"

definition lobby_is_empty :: "lobby_manager \<Rightarrow> bool" where
  "lobby_is_empty m = (lm_games m = [])"

definition join_target_info_of :: "lobby_manager \<Rightarrow> string \<Rightarrow> join_target_info option" where
  "join_target_info_of m code =
     (case listing m code of None \<Rightarrow> None
      | Some meta \<Rightarrow> Some \<lparr>jt_host_peer_id = lg_host_peer_id meta, jt_max_players = lg_max_players meta,
          jt_current_players = occupied_seats meta, jt_format_config = lg_format_config meta,
          jt_match_config = lg_match_config meta, jt_is_p2p = (lg_host_peer_id meta \<noteq> []), jt_reservation_token = None,
          jt_reservation_expires_at_ms = None, jt_draft_metadata = lg_draft_metadata meta\<rparr>)"

definition timer_seconds :: "lobby_manager \<Rightarrow> string \<Rightarrow> u32 option" where
  "timer_seconds m code = (case listing m code of None \<Rightarrow> None | Some meta \<Rightarrow> lg_timer_seconds meta)"

definition expired_listings :: "lobby_manager \<Rightarrow> u64 \<Rightarrow> broker_env \<Rightarrow> lobby_registration list" where
  "expired_listings m timeout_secs env =
     (let now = clock env 0 div 1000
      in map (\<lambda>(code, meta). \<lparr>reg_game_code = code, reg_generation = lg_generation meta\<rparr>)
           (filter (\<lambda>(_, meta). timeout_secs < saturating_sub now (lg_last_seen meta)) (lm_games m)))"

definition is_current :: "lobby_manager \<Rightarrow> lobby_registration \<Rightarrow> bool" where
  "is_current m reg =
     (case listing m (reg_game_code reg) of None \<Rightarrow> False | Some meta \<Rightarrow> lg_generation meta = reg_generation reg)"

definition unregister_registration :: "lobby_manager \<Rightarrow> lobby_registration \<Rightarrow> lobby_manager \<times> bool" where
  "unregister_registration m reg =
     (if is_current m reg then (unregister_game m (reg_game_code reg), True) else (m, False))"

definition unregister_expired :: "lobby_manager \<Rightarrow> lobby_registration \<Rightarrow> lobby_manager \<times> expiry_consumption" where
  "unregister_expired m expired =
     (let (m', gone) = unregister_registration m expired
      in (m', if gone then Removed else if has_game m' (reg_game_code expired) then Superseded else AlreadyGone))"

definition liveness_refresh_due :: "lobby_manager \<Rightarrow> lobby_registration \<Rightarrow> broker_env \<Rightarrow> bool" where
  "liveness_refresh_due m reg env =
     (is_current m reg \<and>
      (case listing m (reg_game_code reg) of None \<Rightarrow> False
       | Some meta \<Rightarrow> LIVENESS_REFRESH_SECS \<le> saturating_sub (clock env 0 div 1000) (lg_last_seen meta)))"

definition refresh_liveness :: "lobby_manager \<Rightarrow> lobby_registration \<Rightarrow> broker_env \<Rightarrow> lobby_manager \<times> bool" where
  "refresh_liveness m reg env =
     (if \<not> liveness_refresh_due m reg env then (m, False)
      else (fst (with_listing m (reg_game_code reg) () (\<lambda>meta. (meta\<lparr>lg_last_seen := clock env 1 div 1000\<rparr>, ()))), True))"

subsection \<open>Reservations owned by a connection\<close>

definition conn_holds_reservation :: "(string \<times> string) list \<Rightarrow> string \<Rightarrow> string \<Rightarrow> bool" where
  "conn_holds_reservation held code token = list_ex (\<lambda>(c, t). c = code \<and> t = token) held"

datatype reservation_release = Released | ReleaseNotHeld | ReleaseNotFound

datatype reservation_consume = Consumed | ConsumeNotHeld | ConsumeNotFound

definition drop_held :: "string \<Rightarrow> string \<Rightarrow> (string \<times> string) list \<Rightarrow> (string \<times> string) list" where
  "drop_held code token held = filter (\<lambda>(c, t). c \<noteq> code \<or> t \<noteq> token) held"

definition release_owned_reservation ::
  "lobby_manager \<Rightarrow> (string \<times> string) list \<Rightarrow> string \<Rightarrow> string \<Rightarrow> lobby_manager \<times> (string \<times> string) list \<times> reservation_release" where
  "release_owned_reservation m held code token =
     (if \<not> conn_holds_reservation held code token then (m, held, ReleaseNotHeld)
      else case release_reservation m code token of
          (m', True) \<Rightarrow> (m', drop_held code token held, Released)
        | (m', False) \<Rightarrow> (m', held, ReleaseNotFound))"

definition consume_owned_reservation ::
  "lobby_manager \<Rightarrow> (string \<times> string) list \<Rightarrow> string \<Rightarrow> string \<Rightarrow> lobby_manager \<times> (string \<times> string) list \<times> reservation_consume" where
  "consume_owned_reservation m held code token =
     (if \<not> conn_holds_reservation held code token then (m, held, ConsumeNotHeld)
      else case consume_reservation m code token of
          (m', True) \<Rightarrow> (m', drop_held code token held, Consumed)
        | (m', False) \<Rightarrow> (m', held, ConsumeNotFound))"

end
