(* ===== verification/Lobby_Histories.thy ===== *)
theory Lobby_Histories
  imports Lobby_Listings
begin

text \<open>
  Histories of a lobby: registrations as identities that are never reused, hosts whose frames keep a listing alive, and
  reservations that never exceed the seats. The contracts \<open>generation_registry\<close> and \<open>aging_registry\<close>, which extends it, are interpreted on
  the operations of the lobby.
\<close>

subsection \<open>Registrations as identities\<close>

text \<open>
  The contract of a registry that numbers its registrations: the counter grows by what an action costs and never
  goes back, every identity in use is below it, and an entry with a known identity was there before. As
  long as the counter does not reach its limit, an identity that is gone never returns, and the data of an
  entry belongs to its identity.
\<close>

locale generation_registry =
  fixes step :: "'s \<Rightarrow> 'a \<Rightarrow> 's"
    and rwf :: "'s \<Rightarrow> bool"
    and ident :: "'s \<Rightarrow> 'k \<Rightarrow> nat option"
    and content :: "'s \<Rightarrow> 'k \<Rightarrow> 'd"
    and counter :: "'s \<Rightarrow> nat"
    and cost :: "'a \<Rightarrow> nat"
    and limit :: nat
  assumes step_wf: "rwf s \<Longrightarrow> counter s + cost a < limit \<Longrightarrow> rwf (step s a)"
    and ident_below: "rwf s \<Longrightarrow> ident s k = Some g \<Longrightarrow> g < counter s"
    and step_counter: "rwf s \<Longrightarrow> counter s + cost a < limit \<Longrightarrow> counter (step s a) = counter s + cost a"
    and step_ident: "rwf s \<Longrightarrow> counter s + cost a < limit \<Longrightarrow> g < counter s \<Longrightarrow> ident (step s a) k = Some g
      \<Longrightarrow> ident s k = Some g \<and> content (step s a) k = content s k"
begin

lemma run_ident:
  assumes "rwf s" and "g < counter s" and "counter s + sum_list (map cost as) < limit"
    and "ident (foldl step s as) k = Some g"
  shows "ident s k = Some g \<and> content (foldl step s as) k = content s k"
  using assms
proof (induction "as" arbitrary: s)
  case (Cons a "as")
  then have fits: "counter s + cost a < limit" by simp
  from Cons.prems step_counter [OF Cons.prems(1) fits] have "ident (step s a) k = Some g \<and> content (foldl step (step s a) as) k = content (step s a) k"
    by (intro Cons.IH step_wf fits) simp_all
  with step_ident [OF Cons.prems(1) fits Cons.prems(2)] show ?case by simp
qed simp

lemma stale_forever:
  assumes "rwf s" and "g < counter s" and "ident s k \<noteq> Some g" and "counter s + sum_list (map cost as) < limit"
  shows "ident (foldl step s as) k \<noteq> Some g"
  using run_ident [OF assms(1,2,4)] assms(3) by blast

lemma run_wf:
  "rwf s \<Longrightarrow> counter s + sum_list (map cost as) < limit \<Longrightarrow>
   rwf (foldl step s as) \<and> counter (foldl step s as) = counter s + sum_list (map cost as)"
proof (induction "as" arbitrary: s)
  case (Cons a "as")
  then have fits: "counter s + cost a < limit" by simp
  from Cons step_counter [OF Cons.prems(1) fits] step_wf [OF Cons.prems(1) fits] show ?case by simp
qed simp

end

subsection \<open>Histories of a lobby\<close>

datatype lobby_op =
    RegisterGame string register_game_request
  | CleanupReservations string
  | ReserveSeat string string
  | ReleaseReservation string string
  | HasActiveReservation string string
  | ReleaseReservations "(string \<times> string) list"
  | ConsumeReservation string string
  | SetCurrentPlayers string u32
  | SetMaxPlayers string u8
  | UnregisterGame string
  | UnregisterRegistration lobby_registration
  | UnregisterExpired lobby_registration
  | RefreshLiveness lobby_registration
  | Restart

fun lobby_step :: "lobby_manager \<Rightarrow> broker_env \<times> lobby_op \<Rightarrow> lobby_manager" where
  "lobby_step m (env, RegisterGame code req) = fst (register_game m code req env)"
| "lobby_step m (env, CleanupReservations code) = fst (cleanup_expired_reservations m code env)"
| "lobby_step m (env, ReserveSeat code name) = fst (reserve_seat m code name env)"
| "lobby_step m (env, ReleaseReservation code token) = fst (release_reservation m code token)"
| "lobby_step m (env, HasActiveReservation code token) = fst (has_active_reservation m code token env)"
| "lobby_step m (env, ReleaseReservations rs) = fst (release_reservations m rs)"
| "lobby_step m (env, ConsumeReservation code token) = fst (consume_reservation m code token)"
| "lobby_step m (env, SetCurrentPlayers code n) = set_current_players m code n env"
| "lobby_step m (env, SetMaxPlayers code n) = set_max_players m code n"
| "lobby_step m (env, UnregisterGame code) = unregister_game m code"
| "lobby_step m (env, UnregisterRegistration reg) = fst (unregister_registration m reg)"
| "lobby_step m (env, UnregisterExpired reg) = fst (unregister_expired m reg)"
| "lobby_step m (env, RefreshLiveness reg) = fst (refresh_liveness m reg env)"
| "lobby_step m (env, Restart) = restore_lobby (save_lobby m)"

definition run_lobby :: "lobby_manager \<Rightarrow> (broker_env \<times> lobby_op) list \<Rightarrow> lobby_manager" where
  "run_lobby m as = foldl lobby_step m as"

text \<open>What the registration of a listing determines; the rest moves while the listing waits.\<close>

definition registered_as :: "lobby_game_meta \<Rightarrow> lobby_game_meta" where
  "registered_as meta = meta\<lparr>lg_last_seen := 0, lg_current_players := 0, lg_max_players := 0, lg_reservations := []\<rparr>"

definition lobby_wf :: "lobby_manager \<Rightarrow> bool" where
  "lobby_wf m \<longleftrightarrow> distinct (map fst (lm_games m))
     \<and> (\<forall>code meta. listing m code = Some meta \<longrightarrow> lg_generation meta < lm_next_generation m \<and> distinct (map fst (lg_reservations meta)))"

text \<open>An update of a listing that keeps what its registration determines, its generation included.\<close>

definition keeps_registration :: "(lobby_game_meta \<Rightarrow> lobby_game_meta) \<Rightarrow> bool" where
  "keeps_registration f \<longleftrightarrow> (\<forall>meta. registered_as (f meta) = registered_as meta
     \<and> (distinct (map fst (lg_reservations meta)) \<longrightarrow> distinct (map fst (lg_reservations (f meta)))))"

definition lobby_keeps :: "lobby_manager \<Rightarrow> lobby_manager \<Rightarrow> bool" where
  "lobby_keeps m m' \<longleftrightarrow> lm_next_generation m' = lm_next_generation m
     \<and> (distinct (map fst (lm_games m)) \<longrightarrow> distinct (map fst (lm_games m')))
     \<and> (\<forall>code meta'. listing m' code = Some meta' \<longrightarrow> (\<exists>meta. listing m code = Some meta \<and> registered_as meta' = registered_as meta
          \<and> (distinct (map fst (lg_reservations meta)) \<longrightarrow> distinct (map fst (lg_reservations meta')))))"

lemma lobby_keeps_refl [simp]: "lobby_keeps m m"
  by (simp add: lobby_keeps_def)

lemma lobby_keeps_trans: "lobby_keeps m m1 \<Longrightarrow> lobby_keeps m1 m2 \<Longrightarrow> lobby_keeps m m2"
  unfolding lobby_keeps_def by (metis (no_types, lifting))

lemma with_listing_keeps:
  assumes "keeps_registration (\<lambda>meta. fst (f meta))"
  shows "lobby_keeps m (fst (with_listing m code absent f))"
  using assms
  by (auto simp: with_listing_def lobby_keeps_def keeps_registration_def update_conv' distinct_update split: option.split if_splits)

lemma unregister_keeps: "lobby_keeps m (unregister_game m code)"
  by (auto simp: unregister_game_def lobby_keeps_def delete_conv' distinct_delete split: if_splits)

lemma registered_as_update [simp]:
  "registered_as (meta\<lparr>lg_reservations := rs\<rparr>) = registered_as meta"
  "registered_as (meta\<lparr>lg_current_players := n\<rparr>) = registered_as meta"
  "registered_as (meta\<lparr>lg_max_players := n\<rparr>) = registered_as meta"
  "registered_as (meta\<lparr>lg_last_seen := t\<rparr>) = registered_as meta"
  by (simp_all add: registered_as_def)

lemma cleanup_keeps: "keeps_registration (\<lambda>meta. fst (cleanup_expired_for meta now))"
  by (auto simp: keeps_registration_def cleanup_expired_for_def Let_def intro: distinct_map_filter)

lemma cleanup_registered [simp]: "registered_as (fst (cleanup_expired_for meta now)) = registered_as meta"
  by (simp add: cleanup_expired_for_def Let_def)

lemma cleanup_distinct:
  "distinct (map fst (lg_reservations meta)) \<Longrightarrow> distinct (map fst (lg_reservations (fst (cleanup_expired_for meta now))))"
  using cleanup_keeps by (simp add: keeps_registration_def)

lemma release_keeps: "lobby_keeps m (fst (release_reservation m code token))"
  unfolding release_reservation_def by (rule with_listing_keeps) (simp add: keeps_registration_def distinct_delete)

lemma release_all_keeps: "lobby_keeps m (fst (release_reservations m rs))"
proof (induction rs arbitrary: m)
  case (Cons r rs)
  obtain code token where r: "r = (code, token)" by (cases r)
  show ?case using lobby_keeps_trans [OF release_keeps Cons.IH] by (simp add: r split_beta Let_def)
qed simp

lemma step_keeps:
  assumes "\<And>code req. snd a \<noteq> RegisterGame code req" and "snd a \<noteq> Restart"
  shows "lobby_keeps m (lobby_step m a)"
proof -
  obtain env op where a: "a = (env, op)" by (cases a)
  show ?thesis
  proof (cases op)
    case (CleanupReservations x)
    then show ?thesis by (auto simp: a cleanup_expired_reservations_def intro: with_listing_keeps cleanup_keeps)
  next
    case (ReserveSeat x y)
    have "keeps_registration (\<lambda>meta. fst (reserve_in x y env meta))"
      by (simp add: keeps_registration_def reserve_in_def Let_def cleanup_distinct distinct_update)
    with ReserveSeat show ?thesis by (simp add: a reserve_seat_def with_listing_keeps)
  next
    case (HasActiveReservation x y)
    then show ?thesis
      by (auto simp: a has_active_reservation_def Let_def keeps_registration_def cleanup_distinct intro!: with_listing_keeps)
  next
    case (ConsumeReservation x y)
    have "keeps_registration (\<lambda>meta. fst (consume_in y meta))"
      by (simp add: keeps_registration_def consume_in_def distinct_delete)
    with ConsumeReservation show ?thesis by (simp add: a consume_reservation_def with_listing_keeps)
  next
    case (SetCurrentPlayers x y)
    then show ?thesis
      by (auto simp: a set_current_players_def keeps_registration_def cleanup_distinct intro!: with_listing_keeps)
  next
    case (SetMaxPlayers x y)
    then show ?thesis by (auto simp: a set_max_players_def keeps_registration_def intro!: with_listing_keeps)
  next
    case (RefreshLiveness x)
    then show ?thesis by (auto simp: a refresh_liveness_def keeps_registration_def intro!: with_listing_keeps)
  qed (use assms in \<open>auto simp: a release_keeps release_all_keeps unregister_keeps unregister_registration_def unregister_expired_def Let_def\<close>)
qed

lemma registered_generation: "registered_as x = registered_as y \<Longrightarrow> lg_generation x = lg_generation y"
proof -
  have "lg_generation (registered_as z) = lg_generation z" for z by (simp add: registered_as_def)
  then show "registered_as x = registered_as y \<Longrightarrow> lg_generation x = lg_generation y" by metis
qed

lemma lobby_keeps_wf: "lobby_keeps m m' \<Longrightarrow> lobby_wf m \<Longrightarrow> lobby_wf m'"
  unfolding lobby_keeps_def lobby_wf_def by (metis registered_generation)

lemma foldr_max_bound: "\<forall>x\<in>set xs. x \<le> z \<Longrightarrow> foldr max xs z = (z :: 'a :: linorder)"
  by (induction xs) (simp_all add: max_absorb2)

lemma listing_restore:
  "listing (restore_lobby s) code
   = map_option (\<lambda>meta. meta\<lparr>lg_last_seen := max (lg_last_seen meta) (lg_created_at meta)\<rparr>) (map_of (sn_games s) code)"
  by (simp add: restore_lobby_def Let_def map_of_map)

lemma restore_counter:
  assumes "\<forall>(_, meta)\<in>set (sn_games s). lg_generation meta < sn_next_generation s"
  shows "lm_next_generation (restore_lobby s) = sn_next_generation s"
  using assms unfolding restore_lobby_def Let_def lobby_manager.simps
  by (intro foldr_max_bound) (fastforce intro: inc_le)

lemma wf_generations: "lobby_wf m \<Longrightarrow> \<forall>(_, meta)\<in>set (lm_games m). lg_generation meta < lm_next_generation m"
  unfolding lobby_wf_def by (auto simp: map_of_eq_Some_iff)

lemma restart_keeps:
  assumes "lobby_wf m"
  shows "lobby_keeps m (restore_lobby (save_lobby m))"
proof -
  have "lm_next_generation (restore_lobby (save_lobby m)) = lm_next_generation m"
    using restore_counter [of "save_lobby m"] wf_generations [OF assms] by (simp add: save_lobby_def)
  then show ?thesis
    using assms
    by (auto simp: lobby_keeps_def lobby_wf_def listing_restore save_lobby_def) (simp add: restore_lobby_def Let_def split_beta comp_def)
qed

lemma register_keeps_others:
  assumes "lobby_wf m" and "unat (lm_next_generation m) + 1 < 2 ^ 64"
  shows "lobby_wf (fst (register_game m code req env))"
    and "unat (lm_next_generation (fst (register_game m code req env))) = unat (lm_next_generation m) + 1"
proof -
  have lt: "lm_next_generation m < lm_next_generation m + 1"
    using assms(2) by (simp add: word_less_nat_alt unat_add_lem [THEN iffD1])
  show "unat (lm_next_generation (fst (register_game m code req env))) = unat (lm_next_generation m) + 1"
    using assms(2) by (simp add: register_game_def Let_def unat_add_lem [THEN iffD1])
  have "lg_generation meta < lm_next_generation m + 1" if "listing m c = Some meta" for c meta
    using that assms(1) lt unfolding lobby_wf_def by (blast intro: less_trans)
  with assms(1) lt show "lobby_wf (fst (register_game m code req env))"
    by (auto simp: register_game_def Let_def lobby_wf_def update_conv' distinct_update split: if_splits)
qed

abbreviation op_cost :: "broker_env \<times> lobby_op \<Rightarrow> nat" where
  "op_cost a \<equiv> (case snd a of RegisterGame _ _ \<Rightarrow> 1 | _ \<Rightarrow> 0)"

lemma step_cases:
  obtains code req where "snd a = RegisterGame code req" | "op_cost a = 0" "\<And>m. lobby_wf m \<Longrightarrow> lobby_keeps m (lobby_step m a)"
proof (cases "\<exists>code req. snd a = RegisterGame code req")
  case False
  then have "op_cost a = 0" by (cases "snd a") auto
  moreover have "lobby_keeps m (lobby_step m a)" if "lobby_wf m" for m
    using False step_keeps [of a m] restart_keeps [OF that] by (cases a) (cases "snd a = Restart"; auto)
  ultimately show thesis by (rule that(2))
qed (use that(1) in blast)

interpretation listings: generation_registry lobby_step lobby_wf
  "\<lambda>m code. map_option (\<lambda>meta. unat (lg_generation meta)) (listing m code)" "\<lambda>m code. map_option registered_as (listing m code)"
  "\<lambda>m. unat (lm_next_generation m)" op_cost "2 ^ 64"
proof (unfold_locales, goal_cases)
  case (1 m a)
  then show ?case
  proof (cases a rule: step_cases)
    case (1 code req)
    with \<open>lobby_wf m\<close> \<open>_ < 2 ^ 64\<close> show ?thesis by (cases a) (simp add: register_keeps_others(1))
  next
    case 2
    with \<open>lobby_wf m\<close> show ?thesis by (blast intro: lobby_keeps_wf)
  qed
next
  case (2 m code g)
  then show ?case by (auto simp: lobby_wf_def word_less_nat_alt)
next
  case (3 m a)
  then show ?case
  proof (cases a rule: step_cases)
    case (1 code req)
    with 3 show ?thesis by (cases a) (simp add: register_keeps_others(2))
  next
    case 2
    with 3 show ?thesis by (auto simp: lobby_keeps_def)
  qed
next
  case (4 m a g k)
  then show ?case
  proof (cases a rule: step_cases)
    case (1 code req)
    with 4 show ?thesis by (cases a) (auto simp: register_game_def Let_def update_conv' split: if_splits)
  next
    case 2
    with 4(1) have "lobby_keeps m (lobby_step m a)" by blast
    with 4(4) show ?thesis unfolding lobby_keeps_def by (fastforce dest: registered_generation)
  qed
qed

lemma registrations_run:
  assumes "lobby_wf m" and "unat (lm_next_generation m) + sum_list (map op_cost as) < 2 ^ 64"
  shows "lobby_wf (run_lobby m as)" and "unat (lm_next_generation (run_lobby m as)) = unat (lm_next_generation m) + sum_list (map op_cost as)"
  using listings.run_wf [OF assms] by (simp_all add: run_lobby_def)

lemma is_current_iff:
  "is_current m reg \<longleftrightarrow> map_option (\<lambda>meta. unat (lg_generation meta)) (listing m (reg_game_code reg)) = Some (unat (reg_generation reg))"
  by (auto simp: is_current_def word_eq_iff_unsigned split: option.split)

lemma current_is_known: "lobby_wf m \<Longrightarrow> is_current m reg \<Longrightarrow> unat (reg_generation reg) < unat (lm_next_generation m)"
  by (fastforce simp: is_current_def lobby_wf_def word_less_nat_alt split: option.splits)

lemma registered_fields:
  assumes "registered_as x = registered_as y"
  shows "lg_host_name x = lg_host_name y" "lg_password x = lg_password y" "lg_host_peer_id x = lg_host_peer_id y" "lg_created_at x = lg_created_at y"
proof -
  have "lg_host_name (registered_as z) = lg_host_name z" "lg_password (registered_as z) = lg_password z"
    "lg_host_peer_id (registered_as z) = lg_host_peer_id z" "lg_created_at (registered_as z) = lg_created_at z" for z
    by (simp_all add: registered_as_def)
  with assms show "lg_host_name x = lg_host_name y" "lg_password x = lg_password y" "lg_host_peer_id x = lg_host_peer_id y" "lg_created_at x = lg_created_at y"
    by metis+
qed

lemma stale_changes_nothing:
  assumes "\<not> is_current m reg"
  shows "lobby_step m (env, UnregisterRegistration reg) = m" "lobby_step m (env, UnregisterExpired reg) = m"
    "lobby_step m (env, RefreshLiveness reg) = m"
  using assms by (simp_all add: unregister_registration_def unregister_expired_def refresh_liveness_def liveness_refresh_due_def)

lemma stale_stays:
  "lobby_wf m \<Longrightarrow> unat (reg_generation reg) < unat (lm_next_generation m) \<Longrightarrow> \<not> is_current m reg \<Longrightarrow>
   unat (lm_next_generation m) + sum_list (map op_cost as) < 2 ^ 64 \<Longrightarrow> \<not> is_current (run_lobby m as) reg"
  unfolding is_current_iff run_lobby_def by (rule listings.stale_forever)

lemma current_data:
  "lobby_wf m \<Longrightarrow> unat (reg_generation reg) < unat (lm_next_generation m) \<Longrightarrow>
   unat (lm_next_generation m) + sum_list (map op_cost as) < 2 ^ 64 \<Longrightarrow> is_current (run_lobby m as) reg \<Longrightarrow>
   is_current m reg \<and> map_option registered_as (listing (run_lobby m as) (reg_game_code reg)) = map_option registered_as (listing m (reg_game_code reg))"
  unfolding is_current_iff run_lobby_def by (rule listings.run_ident)

text \<open>Restored snapshots are well formed, those of builds without generations included.\<close>

lemma foldr_max_ge: "x \<in> set xs \<Longrightarrow> x \<le> foldr max xs (z :: 'a :: linorder)"
  by (induction xs) (auto simp: le_max_iff_disj)

lemma restore_wf:
  assumes "distinct (map fst (sn_games s))" and "\<forall>(_, meta)\<in>set (sn_games s). distinct (map fst (lg_reservations meta)) \<and> unat (lg_generation meta) + 1 < 2 ^ 64"
  shows "lobby_wf (restore_lobby s)"
proof -
  have gens: "lg_generation meta < lm_next_generation (restore_lobby s)" if "map_of (sn_games s) code = Some meta" for code meta
  proof -
    from map_of_SomeD [OF that] have "lg_generation meta + 1 \<le> lm_next_generation (restore_lobby s)"
      unfolding restore_lobby_def Let_def lobby_manager.simps by (intro foldr_max_ge) force
    moreover from map_of_SomeD [OF that] assms(2) have "lg_generation meta < lg_generation meta + 1"
      by (auto simp: word_less_nat_alt unat_add_lem [THEN iffD1])
    ultimately show ?thesis by simp
  qed
  have "distinct (map fst (lm_games (restore_lobby s)))"
    using assms(1) by (simp add: restore_lobby_def Let_def split_beta comp_def)
  moreover have "distinct (map fst (lg_reservations meta))" if "map_of (sn_games s) code = Some meta" for code meta
    using map_of_SomeD [OF that] assms(2) by auto
  ultimately show ?thesis using gens by (auto simp: lobby_wf_def listing_restore)
qed

text \<open>C24. A registration names one listing for ever, across restarts and the reuse of codes. It is current when it is handed
  out, it names the data it was registered with as long as it is current, no later registration gets the same identity, and once
  it is not current it never is again: whatever happens, removing or refreshing it then leaves the lobby as it is. This holds from any restored
  snapshot, the ones without generations included, until \<open>2 ^ 64\<close> generations have been used.\<close>

theorem registration_identity:
  assumes "distinct (map fst (sn_games s))"
    and "\<forall>(_, meta)\<in>set (sn_games s). distinct (map fst (lg_reservations meta)) \<and> unat (lg_generation meta) + 1 < 2 ^ 64"
    and "m = run_lobby (restore_lobby s) as" and "register_game m code req env = (m1, reg)" and "m2 = run_lobby m1 bs" and "m3 = run_lobby m2 cs"
    and "unat (lm_next_generation (restore_lobby s)) + sum_list (map op_cost as) + sum_list (map op_cost bs) + sum_list (map op_cost cs) + 1 < 2 ^ 64"
  shows "is_current m1 reg
    \<and> (is_current m2 reg \<longrightarrow> (\<exists>meta. listing m2 code = Some meta \<and> lg_host_name meta = rg_host_name req \<and> lg_password meta = rg_password req
        \<and> lg_host_peer_id meta = rg_host_peer_id req \<and> lg_created_at meta = clock env 0 div 1000))
    \<and> snd (register_game m2 code' req' env') \<noteq> reg
    \<and> (\<not> is_current m2 reg \<longrightarrow> \<not> is_current m3 reg \<and> lobby_step m3 (e, UnregisterRegistration reg) = m3
        \<and> lobby_step m3 (e, UnregisterExpired reg) = m3 \<and> lobby_step m3 (e, RefreshLiveness reg) = m3)"
proof -
  have wf: "lobby_wf m" and next_m: "unat (lm_next_generation m) = unat (lm_next_generation (restore_lobby s)) + sum_list (map op_cost as)"
    using registrations_run [OF restore_wf [OF assms(1,2)], of "as"] assms(3,7) by simp_all
  have m1: "m1 = fst (register_game m code req env)" and reg: "reg = \<lparr>reg_game_code = code, reg_generation = lm_next_generation m\<rparr>"
    using assms(4) by (auto simp: register_game_def Let_def)
  have wf1: "lobby_wf m1" and next1: "unat (lm_next_generation m1) = unat (lm_next_generation m) + 1"
    using register_keeps_others [OF wf] assms(7) next_m unfolding m1 by simp_all
  have wf2: "lobby_wf m2" and next2: "unat (lm_next_generation m2) = unat (lm_next_generation m1) + sum_list (map op_cost bs)"
    using registrations_run [OF wf1, of bs] assms(5,7) next_m next1 by simp_all
  have now: "is_current m1 reg" by (simp add: m1 reg is_current_def register_game_def Let_def update_conv')
  have known1: "unat (reg_generation reg) < unat (lm_next_generation m1)" and known2: "unat (reg_generation reg) < unat (lm_next_generation m2)"
    using next1 next2 by (simp_all add: reg)
  have fits1: "unat (lm_next_generation m1) + sum_list (map op_cost bs) < 2 ^ 64"
    and fits2: "unat (lm_next_generation m2) + sum_list (map op_cost cs) < 2 ^ 64"
    using assms(7) next_m next1 next2 by linarith+
  have data: "map_option registered_as (listing m2 code) = map_option registered_as (listing m1 code)" if "is_current m2 reg"
    using current_data [OF wf1 known1 fits1, folded assms(5)] that by (simp add: reg)
  have stale: "\<not> is_current m3 reg" if "\<not> is_current m2 reg"
    unfolding assms(6) by (rule stale_stays [OF wf2 known2 that fits2])
  have "lm_next_generation m2 \<noteq> lm_next_generation m" using next1 next2 by auto
  then have "snd (register_game m2 code' req' env') \<noteq> reg" by (simp add: register_game_def Let_def reg)
  moreover have "\<exists>meta. listing m2 code = Some meta \<and> lg_host_name meta = rg_host_name req \<and> lg_password meta = rg_password req
        \<and> lg_host_peer_id meta = rg_host_peer_id req \<and> lg_created_at meta = clock env 0 div 1000" if "is_current m2 reg"
  proof -
    from data [OF that] obtain meta where meta: "listing m2 code = Some meta" "registered_as meta = registered_as (the (listing m1 code))"
      by (auto simp: m1 register_game_def Let_def update_conv')
    from registered_fields [OF meta(2)] meta(1) show ?thesis by (simp add: m1 register_game_def Let_def update_conv')
  qed
  ultimately show ?thesis using now stale stale_changes_nothing by blast
qed

definition sample_request :: "string \<Rightarrow> u32 \<Rightarrow> register_game_request" where
  "sample_request host seats_total = \<lparr>rg_host_name = host, rg_public = True, rg_password = None, rg_timer_seconds = None, rg_host_version = '''',
     rg_host_build_commit = '''', rg_current_players = 1, rg_max_players = seats_total, rg_format_config = None,
     rg_match_config = \<lparr>mc_match_type = Bo1, mc_loop_detection = LoopOff\<rparr>, rg_room_name = None, rg_host_peer_id = '''',
     rg_draft_metadata = None, rg_ranked = False\<rparr>"

definition at_time :: "u64 \<Rightarrow> string \<Rightarrow> broker_env" where
  "at_time t token = \<lparr>clock = (\<lambda>_. t), fresh_token = token\<rparr>"

lemma at_time_simps [simp]: "clock (at_time t k) i = t" "fresh_token (at_time t k) = k"
  by (simp_all add: at_time_def)

theorem registration_identity_witness:
  "let m1 = fst (register_game new_lobby ''T'' (sample_request ''ann'' 2) (at_time 0 ''t''));
       m2 = lobby_step m1 (at_time 1000 ''u'', RegisterGame ''T'' (sample_request ''bob'' 2))
   in lobby_step m2 (at_time 2000 ''v'', UnregisterExpired \<lparr>reg_game_code = ''T'', reg_generation = 0\<rparr>) = m2"
proof -
  let ?s = "\<lparr>sn_games = [], sn_next_generation = 0\<rparr>" and ?r = "\<lparr>reg_game_code = ''T'', reg_generation = 0\<rparr>"
  let ?m1 = "fst (register_game new_lobby ''T'' (sample_request ''ann'' 2) (at_time 0 ''t''))"
  let ?m2 = "lobby_step ?m1 (at_time 1000 ''u'', RegisterGame ''T'' (sample_request ''bob'' 2))"
  have new: "new_lobby = run_lobby (restore_lobby ?s) []"
    by (simp add: new_lobby_def restore_lobby_def run_lobby_def)
  have reg: "register_game new_lobby ''T'' (sample_request ''ann'' 2) (at_time 0 ''t'') = (?m1, ?r)"
    by (simp add: register_game_def Let_def new_lobby_def)
  have "\<not> is_current ?m2 ?r"
    by (simp add: is_current_def register_game_def Let_def new_lobby_def)
  with registration_identity [OF _ _ new reg, of ?m2 "[(at_time 1000 ''u'', RegisterGame ''T'' (sample_request ''bob'' 2))]" ?m2 "[]"
      "''T''" "sample_request ''cyd'' 2" "at_time 1500 ''w''" "at_time 2000 ''v''"]
  show ?thesis by (simp add: run_lobby_def Let_def restore_lobby_def)
qed

subsection \<open>Hosts that stay in touch\<close>

text \<open>A registry in which the entries of orderly actions only get younger.\<close>

locale aging_registry = generation_registry step rwf ident content counter cost limit
  for step :: "'s \<Rightarrow> 'a \<Rightarrow> 's" and rwf ident and content :: "'s \<Rightarrow> 'k \<Rightarrow> 'd" and counter cost limit +
  fixes seen :: "'s \<Rightarrow> 'k \<Rightarrow> nat" and orderly :: "'a \<Rightarrow> bool"
  assumes step_seen: "rwf s \<Longrightarrow> counter s + cost a < limit \<Longrightarrow> orderly a \<Longrightarrow> g < counter s \<Longrightarrow> ident (step s a) k = Some g
    \<Longrightarrow> seen s k \<le> seen (step s a) k"
begin

lemma run_seen:
  assumes "rwf s" and "counter s + sum_list (map cost as) < limit" and "\<forall>a\<in>set as. orderly a" and "g < counter s"
    and "ident (foldl step s as) k = Some g"
  shows "seen s k \<le> seen (foldl step s as) k"
  using assms
proof (induction "as" arbitrary: s)
  case (Cons a "as")
  then have fits: "counter s + cost a < limit" by simp
  have wf: "rwf (step s a)" and "counter (step s a) = counter s + cost a"
    using step_wf [OF Cons.prems(1) fits] step_counter [OF Cons.prems(1) fits] by simp_all
  with Cons.prems have rest: "counter (step s a) + sum_list (map cost as) < limit" "g < counter (step s a)" by simp_all
  have later: "ident (step s a) k = Some g" using run_ident [OF wf rest(2,1)] Cons.prems(5) by simp
  have "seen (step s a) k \<le> seen (foldl step (step s a) as) k"
    using Cons.prems by (intro Cons.IH [OF wf rest(1) _ rest(2)]) simp_all
  with step_seen [OF Cons.prems(1) fits _ Cons.prems(4) later] Cons.prems(3) show ?case by simp
qed simp

end

lemma listing_with_listing:
  "listing (fst (with_listing m code absent f)) k = (if k = code then map_option (\<lambda>meta. fst (f meta)) (listing m code) else listing m k)"
  by (simp add: with_listing_def update_conv' split: option.split)

lemma listing_unregister: "listing (unregister_game m code) k = (if k = code then None else listing m k)"
  by (simp add: unregister_game_def delete_conv')

lemma cleanup_last_seen [simp]: "lg_last_seen (fst (cleanup_expired_for meta now)) = lg_last_seen meta"
  by (simp add: cleanup_expired_for_def Let_def)

definition seen_at :: "lobby_manager \<Rightarrow> string \<Rightarrow> nat" where
  "seen_at m code = (case listing m code of None \<Rightarrow> 0 | Some meta \<Rightarrow> unat (lg_last_seen meta))"

lemma seen_with_listing:
  assumes "\<And>meta. lg_last_seen (fst (f meta)) = lg_last_seen meta"
  shows "seen_at (fst (with_listing m code absent f)) k = seen_at m k"
  using assms by (simp add: seen_at_def listing_with_listing split: option.split)

lemma seen_release: "seen_at (fst (release_reservation m code token)) k = seen_at m k"
  unfolding release_reservation_def by (rule seen_with_listing) simp

lemma seen_release_all: "seen_at (fst (release_reservations m rs)) k = seen_at m k"
  by (induction rs arbitrary: m) (auto simp: split_beta Let_def seen_release)

lemma seen_refresh:
  assumes "clock env 0 \<le> clock env 1"
  shows "seen_at m k \<le> seen_at (fst (refresh_liveness m reg env)) k"
proof (cases "liveness_refresh_due m reg env")
  case True
  then obtain meta where "listing m (reg_game_code reg) = Some meta" "LIVENESS_REFRESH_SECS \<le> saturating_sub (clock env 0 div 1000) (lg_last_seen meta)"
    by (auto simp: liveness_refresh_due_def split: option.splits)
  moreover from this have "lg_last_seen meta \<le> clock env 0 div 1000"
    by (auto simp: saturating_sub_def LIVENESS_REFRESH_SECS_def split: if_splits)
  moreover have "clock env 0 div 1000 \<le> clock env 1 div 1000"
    using assms by (simp add: word_le_nat_alt unat_div div_le_mono)
  ultimately show ?thesis using True
    by (auto simp: refresh_liveness_def seen_at_def listing_with_listing word_le_nat_alt)
qed (simp add: refresh_liveness_def)

lemma refresh_fresh:
  assumes "is_current m reg" and "clock env 0 \<le> clock env 1"
  shows "unat (clock env 0 div 1000) < seen_at (fst (refresh_liveness m reg env)) (reg_game_code reg) + unat LIVENESS_REFRESH_SECS"
proof (cases "liveness_refresh_due m reg env")
  case True
  have "unat (clock env 0 div 1000) \<le> unat (clock env 1 div 1000)"
    using assms(2) by (simp add: word_le_nat_alt unat_div div_le_mono)
  with True assms(1) show ?thesis
    by (auto simp: refresh_liveness_def is_current_def seen_at_def listing_with_listing LIVENESS_REFRESH_SECS_def split: option.splits)
next
  case False
  with assms(1) show ?thesis
    by (auto simp: refresh_liveness_def liveness_refresh_due_def is_current_def seen_at_def word_le_nat_alt unat_saturating_sub split: option.splits)
qed

lemma seen_unregister: "listing (unregister_game m code) k = Some meta \<Longrightarrow> seen_at (unregister_game m code) k = seen_at m k"
  by (auto simp: seen_at_def listing_unregister split: if_splits)

lemma seen_step:
  assumes "clock env 0 \<le> clock env 1" and "\<And>code req. op \<noteq> RegisterGame code req" and "listing (lobby_step m (env, op)) k \<noteq> None"
  shows "seen_at m k \<le> seen_at (lobby_step m (env, op)) k"
proof (cases op)
  case (RefreshLiveness reg)
  with seen_refresh [OF assms(1)] show ?thesis by simp
next
  case Restart
  then show ?thesis
    by (simp add: seen_at_def listing_restore save_lobby_def word_le_nat_alt [symmetric] split: option.split)
qed (use assms in \<open>auto simp: cleanup_expired_reservations_def reserve_seat_def reserve_in_def has_active_reservation_def consume_reservation_def consume_in_def
    set_current_players_def set_max_players_def seen_with_listing seen_release seen_release_all Let_def unregister_registration_def unregister_expired_def
    seen_unregister\<close>)

interpretation aging: aging_registry lobby_step lobby_wf
  "\<lambda>m code. map_option (\<lambda>meta. unat (lg_generation meta)) (listing m code)" "\<lambda>m code. map_option registered_as (listing m code)"
  "\<lambda>m. unat (lm_next_generation m)" op_cost "2 ^ 64" seen_at "\<lambda>a. clock (fst a) 0 \<le> clock (fst a) 1"
proof (unfold_locales, goal_cases)
  case (1 m a g k)
  obtain env op where a: "a = (env, op)" by (cases a)
  show ?case
  proof (cases "\<exists>code req. op = RegisterGame code req")
    case True
    then obtain code req where "op = RegisterGame code req" by blast
    with 1 show ?thesis
      by (auto simp: a seen_at_def register_game_def Let_def update_conv' split: if_splits)
  next
    case False
    with 1 show ?thesis by (auto simp: a intro!: seen_step)
  qed
qed

lemma current_seen:
  "lobby_wf m \<Longrightarrow> unat (lm_next_generation m) + sum_list (map op_cost as) < 2 ^ 64 \<Longrightarrow> \<forall>a\<in>set as. clock (fst a) 0 \<le> clock (fst a) 1 \<Longrightarrow>
   unat (reg_generation reg) < unat (lm_next_generation m) \<Longrightarrow> is_current (run_lobby m as) reg \<Longrightarrow>
   seen_at m (reg_game_code reg) \<le> seen_at (run_lobby m as) (reg_game_code reg)"
  unfolding is_current_iff run_lobby_def by (rule aging.run_seen)

text \<open>C26. A host that stays in touch is not reaped. After a frame of the current host its listing is less than a minute behind, and
  no sequence of operations that leaves it registered makes it older; so at any time within \<open>gap\<close> seconds of that frame a sweep with a
  timeout of at least a minute more does not report it. A listing that has been silent for longer than the timeout is reported, and
  consuming the report removes exactly that listing.\<close>

theorem live_host_not_reaped:
  assumes "lobby_wf m" and "is_current m reg" and "m1 = fst (refresh_liveness m reg env)" and "m2 = run_lobby m1 as"
    and "\<forall>a\<in>set ((env, RefreshLiveness reg) # as). clock (fst a) 0 \<le> clock (fst a) 1"
    and "unat (lm_next_generation m) + sum_list (map op_cost as) < 2 ^ 64"
  shows "(unat (clock now 0 div 1000) \<le> unat (clock env 0 div 1000) + gap \<and> unat LIVENESS_REFRESH_SECS + gap \<le> unat timeout
        \<longrightarrow> reg \<notin> set (expired_listings m2 timeout now))
    \<and> (is_current m2 reg \<and> seen_at m2 (reg_game_code reg) + unat timeout < unat (clock now 0 div 1000)
        \<longrightarrow> reg \<in> set (expired_listings m2 timeout now)
          \<and> (\<forall>code. listing (fst (unregister_expired m2 reg)) code = (if code = reg_game_code reg then None else listing m2 code)))"
proof -
  let ?k = "reg_game_code reg"
  have reported: "reg \<in> set (expired_listings m2 timeout now) \<longleftrightarrow>
      is_current m2 reg \<and> seen_at m2 ?k + unat timeout < unat (clock now 0 div 1000)" if "lobby_wf m2"
  proof -
    have "r \<in> set (expired_listings m2 timeout now) \<longleftrightarrow>
      (\<exists>meta. listing m2 (reg_game_code r) = Some meta \<and> lg_generation meta = reg_generation r
        \<and> unat timeout < unat (clock now 0 div 1000) - unat (lg_last_seen meta))" for r
      using that by (cases r) (force simp: expired_listings_def Let_def lobby_wf_def map_of_eq_Some_iff word_less_nat_alt unat_saturating_sub)
    then show ?thesis by (auto simp: is_current_def seen_at_def split: option.split)
  qed
  have keeps: "lobby_keeps m m1"
    using step_keeps [of "(env, RefreshLiveness reg)" m] by (simp add: assms(3))
  then have wf1: "lobby_wf m1" and same: "lm_next_generation m1 = lm_next_generation m"
    using lobby_keeps_wf assms(1) by (auto simp: lobby_keeps_def)
  have wf2: "lobby_wf m2" using registrations_run(1) [OF wf1, of "as"] assms(4,6) same by simp
  have fresh: "unat (clock env 0 div 1000) < seen_at m1 ?k + unat LIVENESS_REFRESH_SECS"
    using assms(2,5) by (auto simp: assms(3) refresh_fresh)
  have "seen_at m1 ?k \<le> seen_at m2 ?k" if "is_current m2 reg"
    using current_seen [OF wf1, of "as" reg] that assms(4,5,6) same current_is_known [OF assms(1,2)] by simp
  with fresh reported [OF wf2] have "reg \<notin> set (expired_listings m2 timeout now)"
    if "unat (clock now 0 div 1000) \<le> unat (clock env 0 div 1000) + gap" "unat LIVENESS_REFRESH_SECS + gap \<le> unat timeout"
    using that by fastforce
  moreover have "\<forall>code. listing (fst (unregister_expired m2 reg)) code = (if code = ?k then None else listing m2 code)" if "is_current m2 reg"
    using that by (simp add: unregister_expired_def unregister_registration_def listing_unregister)
  ultimately show ?thesis using reported [OF wf2] by blast
qed

theorem live_host_not_reaped_witness:
  "\<lparr>reg_game_code = ''T'', reg_generation = 0\<rparr> \<notin> set (expired_listings (run_lobby (fst (refresh_liveness
       (fst (register_game new_lobby ''T'' (sample_request ''ann'' 2) (at_time 0 ''t''))) \<lparr>reg_game_code = ''T'', reg_generation = 0\<rparr> (at_time 200000 ''u'')))
       [(at_time 210000 ''v'', ReserveSeat ''T'' ''bob'')]) 300 (at_time 400000 ''w''))"
proof -
  let ?m = "fst (register_game new_lobby ''T'' (sample_request ''ann'' 2) (at_time 0 ''t''))" and ?r = "\<lparr>reg_game_code = ''T'', reg_generation = 0\<rparr>"
  have "lobby_wf ?m" "is_current ?m ?r"
    by (simp_all add: register_game_def Let_def new_lobby_def lobby_wf_def is_current_def)
  from live_host_not_reaped [OF this refl refl, of "at_time 200000 ''u''" "[(at_time 210000 ''v'', ReserveSeat ''T'' ''bob'')]"
      "at_time 400000 ''w''" 200 300]
  show ?thesis by (simp add: at_time_def register_game_def Let_def new_lobby_def LIVENESS_REFRESH_SECS_def)
qed

subsection \<open>Reservations\<close>

text \<open>Taken seats and reservations do not exceed the seats of the game; zero seats mean no limit.\<close>

definition seats_within :: "lobby_game_meta \<Rightarrow> bool" where
  "seats_within meta \<longleftrightarrow> lg_max_players meta = 0 \<or> unat (lg_current_players meta) + length (lg_reservations meta) \<le> unat (lg_max_players meta)"

definition live_reservations :: "u64 \<Rightarrow> lobby_game_meta \<Rightarrow> (string \<times> lobby_reservation) list" where
  "live_reservations now meta = filter (\<lambda>(_, r). live_reservation now r) (lg_reservations meta)"

lemma cleanup_fields [simp]:
  "lg_reservations (fst (cleanup_expired_for meta now)) = live_reservations now meta"
  "lg_current_players (fst (cleanup_expired_for meta now)) = lg_current_players meta"
  "lg_max_players (fst (cleanup_expired_for meta now)) = lg_max_players meta"
  by (simp_all add: cleanup_expired_for_def Let_def live_reservations_def)

lemma live_reservations_length: "length (live_reservations now meta) \<le> length (lg_reservations meta)"
  by (simp add: live_reservations_def)

lemma seats_within_fewer:
  "seats_within meta \<Longrightarrow> lg_current_players meta' = lg_current_players meta \<Longrightarrow> lg_max_players meta' = lg_max_players meta \<Longrightarrow>
   length (lg_reservations meta') \<le> length (lg_reservations meta) \<Longrightarrow> seats_within meta'"
  by (auto simp: seats_within_def)

lemma length_AList_update: "length (AList.update k v al) = length al + (if k \<in> fst ` set al then 0 else 1)"
  by (induction al) auto

lemma length_AList_delete: "distinct (map fst al) \<Longrightarrow> length (AList.delete k al) = length al - (if k \<in> fst ` set al then 1 else 0)"
proof -
  assume "distinct (map fst al)"
  then have "map fst (AList.delete k al) = remove1 k (map fst al)" by (simp add: delete_keys distinct_remove1_removeAll)
  then have "length (AList.delete k al) = length (remove1 k (map fst al))" by (metis length_map)
  then show ?thesis by (simp add: length_remove1)
qed

text \<open>The sum that a reservation is checked against does not wrap while the seats are within their bound.\<close>

lemma occupied_sum:
  assumes "seats_within meta" and "0 < lg_max_players meta" and "n \<le> length (lg_reservations meta)"
  shows "unat (lg_current_players meta + of_nat n) = unat (lg_current_players meta) + n"
proof -
  have le: "unat (lg_current_players meta) + n \<le> unat (lg_max_players meta)" using assms by (auto simp: seats_within_def)
  also have "\<dots> < 2 ^ 32" by (rule order_less_le_trans [OF unsigned_less]) simp
  finally show ?thesis by (simp add: unat_word_ariths unat_of_nat)
qed

lemma reserve_accepts:
  assumes "seats_within meta"
  shows "snd (reserve_in code name env meta) =
    (if lg_max_players meta = 0 \<or> unat (lg_current_players meta) + length (live_reservations (clock env 0) meta) < unat (lg_max_players meta)
     then Ok \<lparr>lr_token = fresh_token env, lr_display_name = name, lr_expires_at_ms = Some (clock env 0 + PUBLIC_SEAT_RESERVATION_MS)\<rparr>
     else Err (GameFull code))"
proof (cases "lg_max_players meta = 0")
  case False
  then have pos: "0 < lg_max_players meta" by (simp add: word_gt_0)
  show ?thesis
    using pos False occupied_sum [OF assms pos live_reservations_length, of "clock env 0"]
    by (auto simp: reserve_in_def Let_def word_le_nat_alt)
qed (simp add: reserve_in_def Let_def)

lemma reserve_within:
  assumes "seats_within meta"
  shows "seats_within (fst (reserve_in code name env meta))"
proof -
  have "seats_within (fst (cleanup_expired_for meta (clock env 0)))"
    by (rule seats_within_fewer [OF assms]) (simp_all add: live_reservations_length)
  moreover have "seats_within ((fst (cleanup_expired_for meta (clock env 0)))\<lparr>lg_reservations := AList.update t r (live_reservations (clock env 0) meta)\<rparr>)"
    if "lg_max_players meta = 0 \<or> unat (lg_current_players meta) + length (live_reservations (clock env 0) meta) < unat (lg_max_players meta)" for t r
    using that by (auto simp: seats_within_def length_AList_update)
  ultimately show ?thesis
    using reserve_accepts [OF assms, of code name env] by (auto simp: reserve_in_def Let_def split: if_splits)
qed

lemma consume_within:
  assumes "seats_within meta" and "distinct (map fst (lg_reservations meta))"
  shows "seats_within (fst (consume_in token meta))"
    and "snd (consume_in token meta) \<longleftrightarrow> map_of (lg_reservations meta) token \<noteq> None"
    and "0 < lg_max_players meta \<Longrightarrow> unat (lg_current_players (fst (consume_in token meta))) + length (lg_reservations (fst (consume_in token meta)))
      = unat (lg_current_players meta) + length (lg_reservations meta)"
proof -
  show "snd (consume_in token meta) \<longleftrightarrow> map_of (lg_reservations meta) token \<noteq> None" by (simp add: consume_in_def)
  have same: "unat (lg_current_players (fst (consume_in token meta))) + length (lg_reservations (fst (consume_in token meta)))
      = unat (lg_current_players meta) + length (lg_reservations meta)" if "0 < lg_max_players meta"
  proof (cases "map_of (lg_reservations meta) token = None")
    case False
    then have key: "token \<in> fst ` set (lg_reservations meta)" by (simp add: map_of_eq_None_iff)
    then have one: "1 \<le> length (lg_reservations meta)" by (cases "lg_reservations meta") auto
    have "unat (lg_current_players meta + 1) = unat (lg_current_players meta) + 1"
      using occupied_sum [OF assms(1) that one] by simp
    moreover have "lg_current_players meta + 1 \<le> lg_max_players meta"
      using calculation assms(1) that one by (auto simp: seats_within_def word_le_nat_alt)
    ultimately show ?thesis using False key one by (simp add: consume_in_def length_AList_delete [OF assms(2)] min_absorb1)
  qed (simp add: consume_in_def)
  then show "0 < lg_max_players meta \<Longrightarrow> unat (lg_current_players (fst (consume_in token meta))) + length (lg_reservations (fst (consume_in token meta)))
      = unat (lg_current_players meta) + length (lg_reservations meta)" .
  have "lg_max_players (fst (consume_in token meta)) = lg_max_players meta" by (simp add: consume_in_def)
  with same assms(1) show "seats_within (fst (consume_in token meta))"
    by (cases "lg_max_players meta = 0") (simp_all add: seats_within_def word_gt_0)
qed

text \<open>What guests and the broker do with a listing between two updates by its host.\<close>

fun guest_op :: "lobby_op \<Rightarrow> bool" where
  "guest_op (CleanupReservations _) = True"
| "guest_op (ReserveSeat _ _) = True"
| "guest_op (ReleaseReservation _ _) = True"
| "guest_op (HasActiveReservation _ _) = True"
| "guest_op (ReleaseReservations _) = True"
| "guest_op (ConsumeReservation _ _) = True"
| "guest_op (RefreshLiveness _) = True"
| "guest_op Restart = True"
| "guest_op _ = False"

definition kept_listing :: "lobby_manager \<Rightarrow> string \<Rightarrow> u32 \<Rightarrow> bool" where
  "kept_listing m code seats_total \<longleftrightarrow> (\<exists>meta. listing m code = Some meta \<and> seats_within meta \<and> lg_max_players meta = seats_total)"

lemma kept_with_listing:
  assumes "kept_listing m code n"
    and "\<And>meta. listing m code = Some meta \<Longrightarrow> seats_within meta \<Longrightarrow> seats_within (fst (f meta)) \<and> lg_max_players (fst (f meta)) = lg_max_players meta"
  shows "kept_listing (fst (with_listing m code' absent f)) code n"
  using assms by (auto simp: kept_listing_def listing_with_listing)

lemma kept_release: "kept_listing m code n \<Longrightarrow> kept_listing (fst (release_reservation m code' token)) code n"
  unfolding release_reservation_def
  by (erule kept_with_listing) (auto intro: seats_within_fewer simp: length_delete_le)

lemma kept_release_all: "kept_listing m code n \<Longrightarrow> kept_listing (fst (release_reservations m rs)) code n"
  by (induction rs arbitrary: m) (auto simp: split_beta Let_def kept_release)

lemma cleanup_within: "seats_within meta \<Longrightarrow> seats_within (fst (cleanup_expired_for meta now))"
  by (erule seats_within_fewer) (simp_all add: live_reservations_length)

lemma guest_step:
  assumes "lobby_wf m" and "kept_listing m code n" and "guest_op (snd a)"
  shows "lobby_wf (lobby_step m a) \<and> kept_listing (lobby_step m a) code n"
proof (intro conjI)
  obtain env op where a: "a = (env, op)" by (cases a)
  show "lobby_wf (lobby_step m a)"
    using step_keeps [of a m] restart_keeps [OF assms(1)] lobby_keeps_wf [OF _ assms(1)] assms(3)
    by (cases op) (auto simp: a)
  have dist: "distinct (map fst (lg_reservations meta))" if "listing m code = Some meta" for meta
    using assms(1) that by (simp add: lobby_wf_def)
  show "kept_listing (lobby_step m a) code n"
  proof (cases op)
    case (ReserveSeat x y)
    have "lg_max_players (fst (reserve_in x y env meta)) = lg_max_players meta" for meta
      by (simp add: reserve_in_def Let_def)
    with ReserveSeat show ?thesis by (auto simp: a reserve_seat_def intro!: kept_with_listing [OF assms(2)] reserve_within)
  next
    case (ConsumeReservation x y)
    have "lg_max_players (fst (consume_in y meta)) = lg_max_players meta" for meta by (simp add: consume_in_def)
    with ConsumeReservation dist show ?thesis
      by (auto simp: a consume_reservation_def intro!: kept_with_listing [OF assms(2)] consume_within(1))
  next
    case (RefreshLiveness x)
    have "kept_listing (fst (with_listing m (reg_game_code x) () (\<lambda>meta. (meta\<lparr>lg_last_seen := t\<rparr>, ())))) code n" for t
      by (rule kept_with_listing [OF assms(2)]) (simp add: seats_within_def)
    with RefreshLiveness assms(2) show ?thesis by (simp add: a refresh_liveness_def)
  next
    case Restart
    with assms(2) show ?thesis by (auto simp: a kept_listing_def listing_restore save_lobby_def seats_within_def)
  qed (use assms in \<open>auto simp: a cleanup_expired_reservations_def has_active_reservation_def Let_def kept_release kept_release_all
      intro!: kept_with_listing [OF assms(2)] cleanup_within\<close>)
qed

lemma guest_run:
  assumes "lobby_wf m" and "kept_listing m code n" and "\<forall>a\<in>set as. guest_op (snd a)"
  shows "lobby_wf (run_lobby m as) \<and> kept_listing (run_lobby m as) code n"
  using assms
proof (induction "as" arbitrary: m)
  case (Cons a "as")
  from guest_step [OF Cons.prems(1,2), of a] Cons.prems(3) Cons.IH show ?case by (simp add: run_lobby_def)
qed (simp add: run_lobby_def)

lemma map_of_filter_values:
  "distinct (map fst xs) \<Longrightarrow> map_of (filter (\<lambda>(_, v). P v) xs) k = (case map_of xs k of Some v \<Rightarrow> if P v then Some v else None | None \<Rightarrow> None)"
  by (induction xs) (force simp: map_of_eq_None_iff split: option.split)+

text \<open>The answers of the lobby right after an accepted reservation.\<close>

lemma fresh_reservation:
  assumes "listing m code = Some meta" and "reserve_seat m code name env = (m1, Ok r)" and "distinct (map fst (lg_reservations meta))"
  shows "snd (has_active_reservation m1 code (lr_token r) env') \<longleftrightarrow> clock env' 0 < clock env 0 + PUBLIC_SEAT_RESERVATION_MS"
    and "snd (consume_reservation m1 code (lr_token r))"
    and "\<not> snd (consume_reservation (fst (consume_reservation m1 code (lr_token r))) code (lr_token r))"
proof -
  from assms have m1: "m1 = fst (with_listing m code (Err (GameNotFound code)) (reserve_in code name env))"
    and r: "snd (reserve_in code name env meta) = Ok r"
    by (auto simp: reserve_seat_def with_listing_def)
  let ?meta = "fst (reserve_in code name env meta)"
  have l1: "listing m1 code = Some ?meta" using assms(1) by (simp add: m1 listing_with_listing)
  have held: "lg_reservations ?meta = AList.update (lr_token r) r (live_reservations (clock env 0) meta)"
    and e: "lr_expires_at_ms r = Some (clock env 0 + PUBLIC_SEAT_RESERVATION_MS)"
    using r by (auto simp: reserve_in_def Let_def split: if_splits)
  show "snd (consume_reservation m1 code (lr_token r))"
    using l1 by (simp add: consume_reservation_def with_listing_def consume_in_def held update_conv')
  show "\<not> snd (consume_reservation (fst (consume_reservation m1 code (lr_token r))) code (lr_token r))"
    using l1 by (simp add: consume_reservation_def with_listing_def consume_in_def held update_conv' delete_conv')
  show "snd (has_active_reservation m1 code (lr_token r) env') \<longleftrightarrow> clock env' 0 < clock env 0 + PUBLIC_SEAT_RESERVATION_MS"
    using l1 e assms(3)
    by (simp add: has_active_reservation_def with_listing_def live_reservations_def held map_of_filter_values distinct_update distinct_map_filter
        update_conv' live_reservation_def Let_def)
qed

text \<open>C31. Seats are never overbooked. Whatever guests do between two updates by the host, taken seats and reservations stay within the seats of
  the game, and the advertised number is their exact sum. A reservation is granted exactly when a seat is free of players and of reservations
  that have not expired; it can be used for two minutes and turned into a seat once.\<close>

theorem seats_never_overbooked:
  assumes "lobby_wf m" and "listing m code = Some meta" and "seats_within meta" and "\<forall>a\<in>set as. guest_op (snd a)"
    and "m' = run_lobby m as"
  shows "\<exists>meta'. listing m' code = Some meta' \<and> seats_within meta' \<and> lg_max_players meta' = lg_max_players meta
    \<and> (0 < lg_max_players meta' \<longrightarrow> unat (occupied_seats meta') = unat (lg_current_players meta') + length (lg_reservations meta'))
    \<and> snd (reserve_seat m' code name env) =
       (if lg_max_players meta' = 0 \<or> unat (lg_current_players meta') + length (live_reservations (clock env 0) meta') < unat (lg_max_players meta')
        then Ok \<lparr>lr_token = fresh_token env, lr_display_name = name, lr_expires_at_ms = Some (clock env 0 + PUBLIC_SEAT_RESERVATION_MS)\<rparr>
        else Err (GameFull code))
    \<and> (\<forall>m1 r. reserve_seat m' code name env = (m1, Ok r) \<longrightarrow>
        (snd (has_active_reservation m1 code (lr_token r) env') \<longleftrightarrow> clock env' 0 < clock env 0 + PUBLIC_SEAT_RESERVATION_MS)
        \<and> snd (consume_reservation m1 code (lr_token r))
        \<and> \<not> snd (consume_reservation (fst (consume_reservation m1 code (lr_token r))) code (lr_token r)))"
proof -
  have "kept_listing m code (lg_max_players meta)" using assms(2,3) by (simp add: kept_listing_def)
  from guest_run [OF assms(1) this assms(4)] have wf: "lobby_wf m'" and "kept_listing m' code (lg_max_players meta)"
    by (simp_all add: assms(5))
  then obtain meta' where l: "listing m' code = Some meta'" and within: "seats_within meta'" and seats: "lg_max_players meta' = lg_max_players meta"
    by (auto simp: kept_listing_def)
  have dist: "distinct (map fst (lg_reservations meta'))" using wf l by (simp add: lobby_wf_def)
  have "unat (occupied_seats meta') = unat (lg_current_players meta') + length (lg_reservations meta')" if "0 < lg_max_players meta'"
    using occupied_sum [OF within that order_refl] within that by (auto simp: occupied_seats_def seats_within_def min_def word_le_nat_alt)
  moreover have "snd (reserve_seat m' code name env) = snd (reserve_in code name env meta')"
    using l by (simp add: reserve_seat_def with_listing_def)
  ultimately show ?thesis
    using l within seats reserve_accepts [OF within, of code name env] fresh_reservation [OF l _ dist] by auto
qed

theorem seats_never_overbooked_witness:
  "snd (reserve_seat (run_lobby (fst (register_game new_lobby ''T'' (sample_request ''ann'' 2) (at_time 0 ''t'')))
       [(at_time 5 ''u'', ReserveSeat ''T'' ''bob'')]) ''T'' ''cyd'' (at_time 6 ''v'')) = Err (GameFull ''T'')"
proof -
  let ?m = "fst (register_game new_lobby ''T'' (sample_request ''ann'' 2) (at_time 0 ''t''))" and ?a = "(at_time 5 ''u'', ReserveSeat ''T'' ''bob'')"
  have "lobby_wf ?m" by (simp add: register_game_def Let_def new_lobby_def lobby_wf_def)
  moreover obtain meta where meta: "listing ?m ''T'' = Some meta" "lg_current_players meta = 1" "lg_max_players meta = 2" "lg_reservations meta = []"
    by (simp add: register_game_def Let_def new_lobby_def sample_request_def)
  moreover from meta have "seats_within meta" by (simp add: seats_within_def)
  ultimately obtain meta' where
    l: "listing (run_lobby ?m [?a]) ''T'' = Some meta'" and
    answer: "snd (reserve_seat (run_lobby ?m [?a]) ''T'' ''cyd'' (at_time 6 ''v'')) =
       (if lg_max_players meta' = 0 \<or> unat (lg_current_players meta') + length (live_reservations 6 meta') < unat (lg_max_players meta')
        then Ok \<lparr>lr_token = ''v'', lr_display_name = ''cyd'', lr_expires_at_ms = Some (6 + PUBLIC_SEAT_RESERVATION_MS)\<rparr> else Err (GameFull ''T''))"
    using seats_never_overbooked [OF _ _ _ _ refl, of ?m "''T''" meta "[?a]" "''cyd''" "at_time 6 ''v''" "at_time 6 ''v''"] by auto
  from l meta(1) have "meta' = fst (reserve_in ''T'' ''bob'' (at_time 5 ''u'') meta)"
    by (simp add: run_lobby_def reserve_seat_def listing_with_listing)
  with meta have "lg_current_players meta' = 1" "lg_max_players meta' = 2" "length (live_reservations 6 meta') = 1"
    by (simp_all add: reserve_in_def Let_def live_reservations_def PUBLIC_SEAT_RESERVATION_MS_def live_reservation_def word_le_nat_alt)
  with answer show ?thesis by simp
qed

end
