(* ===== verification/Server_Takeback.thy ===== *)
theory Server_Takeback
  imports Draft_Types
begin

text \<open>
  Take-backs of the game server (\<^verbatim>\<open>src/crates/server-core/src/takeback.rs\<close>) and the handlers of a game session that move the
  authoritative state (\<^verbatim>\<open>session.rs\<close>): actions, interactions, concessions, AI play and resumed automation. A player asks
  to roll the game back to before an own action or to the start of a turn; the rollback happens once every human seat has
  approved.

  The rules engine is a parameter (\<open>engine_ops\<close>). A game state is the three fields that rollback reads, the phase of the match, which only
  statements about the engine mention, and an opaque rest \<open>'x\<close>; actions, rejections, card faces and AI caches are opaque values of the same type. A handler returns the new session and
  the state and events it broadcasts; the legal actions and costs that go with them are queries and are left out, and so is
  logging. The random session id that a rollback binds is the argument \<open>nonce\<close>.
\<close>

subsection \<open>Games and the engine\<close>

datatype match_phase = PhaseInGame | PhaseBetweenGames | PhaseCompleted

record 'x game_state =
  gs_turn_number :: u32
  gs_active_player :: player_id
  gs_game_number :: u8
  gs_match_phase :: match_phase
  gs_rest :: 'x

datatype 'x game_event = TurnStarted u32 | OtherEvent 'x

datatype 'x client_action =
    DebugCreateCard string 'x
  | DebugOther 'x
  | GrantDebugPermission player_id
  | RevokeDebugPermission player_id
  | OtherAction 'x

record 'x action_outcome =
  ao_events :: "'x game_event list"
  ao_applied :: bool

datatype ai_actions_stop =
    NoEligibleAiActor
  | ActionBudgetReached
  | StopMissingAiConfig player_id
  | StopChooseActionNone player_id
  | StopApplyFailed player_id string
  | StopSafetyCapReached usize

datatype ai_driver_failure =
    MissingAiConfig player_id
  | ChooseActionNone player_id
  | ApplyFailed player_id string
  | ActionSafetyCapReached usize

record ai_driver_fault =
  fault_id :: u64
  after_state_revision :: u64
  fault_cause :: ai_driver_failure

text \<open>The last field is not of the engine but of the standard library: the binary search of \<^verbatim>\<open>VecDeque::partition_point\<close> on the
  answers of the predicate along the deque.\<close>

record 'x engine_ops =
  op_preflight :: "'x game_state \<Rightarrow> player_id \<Rightarrow> 'x client_action \<Rightarrow> 'x option"
  op_debug_allowed :: "'x game_state \<Rightarrow> bool"
  op_zero_count :: "'x client_action \<Rightarrow> bool"
  op_preference :: "'x client_action \<Rightarrow> bool"
  op_set_names :: "string list \<Rightarrow> 'x game_state \<Rightarrow> 'x game_state"
  op_apply :: "'x game_state \<Rightarrow> player_id \<Rightarrow> 'x client_action \<Rightarrow> 'x game_state \<times> ('x + 'x action_outcome)"
  op_create_cards :: "'x game_state \<Rightarrow> player_id \<Rightarrow> 'x \<Rightarrow> 'x client_action \<Rightarrow> 'x game_state \<times> ('x + 'x action_outcome)"
  op_finalize :: "'x game_state \<Rightarrow> 'x game_state"
  op_submit :: "'x game_state \<Rightarrow> player_id \<Rightarrow> 'x \<Rightarrow> 'x game_state \<times> ('x + 'x client_action \<times> 'x action_outcome)"
  op_forfeit :: "'x game_state \<Rightarrow> player_id \<Rightarrow> 'x game_state \<times> (string + 'x game_event list)"
  op_rekey :: "'x game_state \<Rightarrow> 'x game_state"
  op_bind :: "u64 \<Rightarrow> 'x game_state \<Rightarrow> 'x game_state"
  op_ai_session :: "'x game_state \<Rightarrow> 'x"
  op_run_ai :: "'x game_state \<Rightarrow> player_id set \<Rightarrow> 'x \<Rightarrow> 'x game_state \<times> ('x game_event list \<times> 'x game_state) list \<times> ai_actions_stop"
  op_acting_players :: "'x game_state \<Rightarrow> player_id list"
  op_resume :: "'x game_state \<Rightarrow> 'x game_state \<times> 'x game_event list option"
  op_partition_point :: "bool list \<Rightarrow> usize"

subsection \<open>Sessions\<close>

definition MAX_TAKEBACK_HISTORY :: usize where
  "MAX_TAKEBACK_HISTORY = 12"

definition MAX_TURN_REWIND_HISTORY :: usize where
  "MAX_TURN_REWIND_HISTORY = 5"

datatype hosting_mode = SharedHosting | SingleUserHosting

datatype rewind_target = LastAction | TurnStart u32

record rewind_option =
  ro_turn_number :: u32
  ro_active_player :: player_id

record 'x pending_takeback =
  requested_by :: player_id
  target_state :: "'x game_state"
  approvals :: "player_id set"
  history_truncate_len :: usize

datatype takeback_outcome = TakebackPending | TakebackApproved | TakebackRejected

record 'x game_session =
  ses_fault :: "ai_driver_fault option"
  ses_next_fault_id :: u64
  ses_revision :: u64
  ses_state :: "'x game_state"
  ses_tokens :: "string list"
  ses_names :: "string list"
  ses_hosting :: hosting_mode
  ses_player_count :: u8
  ses_ai_seats :: "player_id set"
  ses_ai_session :: "'x option"
  ses_pending :: "'x pending_takeback option"
  ses_history :: "(player_id \<times> 'x game_state) list"
  ses_turns :: "'x game_state list"
  ses_game_number :: u8

datatype takeback_error =
    TakebackFaulted ai_driver_fault
  | AlreadyPending
  | NotHuman
  | NoPreviousAction
  | TurnRewindUnavailable
  | TurnGone
  | NothingPending
  | NotRequester

datatype 'x session_error =
    SessionFaulted ai_driver_fault
  | InvalidToken
  | ActionNotAllowed
  | EngineRejected 'x
  | NeedsCardDatabase
  | CardNotFound
  | ForfeitRefused string
  | ConcedeWhilePending

definition saturating_inc :: "u64 \<Rightarrow> u64" where
  "saturating_inc n = (if n = - 1 then n else n + 1)"

definition advance_state_revision :: "'x game_session \<Rightarrow> 'x game_session" where
  "advance_state_revision s = s\<lparr>ses_revision := saturating_inc (ses_revision s)\<rparr>"

definition record_ai_driver_fault :: "ai_driver_failure \<Rightarrow> 'x game_session \<Rightarrow> 'x game_session \<times> ai_driver_fault" where
  "record_ai_driver_fault cause s =
     (case ses_fault s of
        Some fault \<Rightarrow> (s, fault)
      | None \<Rightarrow>
          (let fault = \<lparr>fault_id = ses_next_fault_id s, after_state_revision = ses_revision s, fault_cause = cause\<rparr>
           in ((advance_state_revision s)\<lparr>ses_next_fault_id := saturating_inc (ses_next_fault_id s), ses_fault := Some fault\<rparr>, fault)))"

definition player_for_token :: "'x game_session \<Rightarrow> string \<Rightarrow> player_id option" where
  "player_for_token s token = map_option as_u8 (position (\<lambda>t. t \<noteq> [] \<and> t = token) (ses_tokens s))"

subsection \<open>History\<close>

definition offers_turn_rewind :: "hosting_mode \<Rightarrow> bool" where
  "offers_turn_rewind hosting = (hosting = SingleUserHosting)"

text \<open>The turn that the last announcement of a batch started.\<close>

definition last_started :: "'x game_event list \<Rightarrow> u32 option" where
  "last_started evs =
     (case List.map_filter (\<lambda>e. case e of TurnStarted n \<Rightarrow> Some n | _ \<Rightarrow> None) (rev evs) of [] \<Rightarrow> None | n # _ \<Rightarrow> Some n)"

definition push_bounded :: "usize \<Rightarrow> 'a \<Rightarrow> 'a list \<Rightarrow> 'a list" where
  "push_bounded bound x ring = (if bound \<le> length ring then drop 1 ring else ring) @ [x]"

definition record_turn_rewind_point ::
  "'x game_state list \<Rightarrow> hosting_mode \<Rightarrow> 'x game_event list \<Rightarrow> 'x game_state \<Rightarrow> 'x game_state list" where
  "record_turn_rewind_point ring hosting evs st =
     (if \<not> offers_turn_rewind hosting then ring
      else (case last_started evs of
          None \<Rightarrow> ring
        | Some started \<Rightarrow> if started \<noteq> gs_turn_number st then ring else push_bounded MAX_TURN_REWIND_HISTORY st ring))"

definition push_takeback_state :: "player_id \<Rightarrow> 'x game_state \<Rightarrow> 'x game_session \<Rightarrow> 'x game_session" where
  "push_takeback_state actor st s = s\<lparr>ses_history := push_bounded MAX_TAKEBACK_HISTORY (actor, st) (ses_history s)\<rparr>"

definition push_takeback_snapshot :: "player_id \<Rightarrow> 'x game_session \<Rightarrow> 'x game_session" where
  "push_takeback_snapshot actor s = push_takeback_state actor (ses_state s) s"

definition observe_transition :: "'x game_event list \<Rightarrow> 'x game_state \<Rightarrow> 'x game_session \<Rightarrow> 'x game_session" where
  "observe_transition evs st s =
     (let s1 = (if gs_game_number st \<noteq> ses_game_number s
                then s\<lparr>ses_game_number := gs_game_number st, ses_history := [], ses_turns := []\<rparr> else s)
      in s1\<lparr>ses_turns := record_turn_rewind_point (ses_turns s1) (ses_hosting s1) evs st\<rparr>)"

definition rewind_options :: "'x game_session \<Rightarrow> rewind_option list" where
  "rewind_options s =
     (if \<not> offers_turn_rewind (ses_hosting s) then []
      else map (\<lambda>st. \<lparr>ro_turn_number = gs_turn_number st, ro_active_player = gs_active_player st\<rparr>) (ses_turns s))"

definition human_seats_of :: "'x game_session \<Rightarrow> player_id list" where
  "human_seats_of s = filter (\<lambda>p. p \<notin> ses_ai_seats s) (map of_nat [0..<unat (ses_player_count s)])"

subsection \<open>Requests and votes\<close>

text \<open>What installing a snapshot does: the engine's capabilities are issued anew and a fresh interaction session is bound.\<close>

definition restored :: "'x engine_ops \<Rightarrow> u64 \<Rightarrow> 'x game_state \<Rightarrow> 'x game_state" where
  "restored eo nonce st = op_bind eo nonce (op_rekey eo st)"

definition apply_rollback :: "'x engine_ops \<Rightarrow> u64 \<Rightarrow> 'x pending_takeback \<Rightarrow> 'x game_session \<Rightarrow> 'x game_session" where
  "apply_rollback eo nonce pending s =
     (let st = restored eo nonce (target_state pending)
      in s\<lparr>ses_pending := None, ses_state := st,
           ses_history := take (history_truncate_len pending) (ses_history s),
           ses_turns := filter (\<lambda>snapshot. gs_turn_number snapshot \<le> gs_turn_number st) (ses_turns s),
           ses_ai_session := (case ses_ai_session s of None \<Rightarrow> None | Some _ \<Rightarrow> Some (op_ai_session eo st))\<rparr>)"

definition try_resolve_pending_takeback ::
  "'x engine_ops \<Rightarrow> u64 \<Rightarrow> 'x game_session \<Rightarrow> 'x game_session \<times> takeback_outcome option" where
  "try_resolve_pending_takeback eo nonce s =
     (case ses_pending s of
        None \<Rightarrow> (s, None)
      | Some pending \<Rightarrow>
          if list_all (\<lambda>p. p \<in> approvals pending) (human_seats_of s)
          then (apply_rollback eo nonce pending s, Some TakebackApproved) else (s, None))"

text \<open>\<^verbatim>\<open>rposition\<close> of the last entry of an actor.\<close>

fun rposition :: "('a \<Rightarrow> bool) \<Rightarrow> 'a list \<Rightarrow> nat option" where
  "rposition P [] = None"
| "rposition P (x # xs) = (case rposition P xs of Some i \<Rightarrow> Some (Suc i) | None \<Rightarrow> if P x then Some 0 else None)"

text \<open>
  \<^verbatim>\<open>partition_point\<close> is specified for deques whose elements that satisfy the predicate all come first (\<open>partition_point_ok\<close>): there it
  is the length of that prefix. For any other deque its documentation calls the result unspecified, and so it is here.
\<close>

definition partition_point :: "'x engine_ops \<Rightarrow> ('a \<Rightarrow> bool) \<Rightarrow> 'a list \<Rightarrow> nat" where
  "partition_point eo P xs = op_partition_point eo (map P xs)"

definition partition_point_ok :: "'x engine_ops \<Rightarrow> bool" where
  "partition_point_ok eo \<longleftrightarrow> (\<forall>m n. op_partition_point eo (replicate m True @ replicate n False) = m)"

definition takeback_target ::
  "'x engine_ops \<Rightarrow> 'x game_session \<Rightarrow> player_id \<Rightarrow> rewind_target \<Rightarrow> ('x game_state \<times> usize, takeback_error) rust_result" where
  "takeback_target eo s player tgt =
     (case tgt of
        LastAction \<Rightarrow>
          (case rposition (\<lambda>(actor, _). actor = player) (ses_history s) of
             None \<Rightarrow> Err NoPreviousAction
           | Some i \<Rightarrow> Ok (snd (ses_history s ! i), i))
      | TurnStart n \<Rightarrow>
          (if \<not> offers_turn_rewind (ses_hosting s) then Err TurnRewindUnavailable
           else (case List.find (\<lambda>snapshot. gs_turn_number snapshot = n) (ses_turns s) of
               None \<Rightarrow> Err TurnGone
             | Some st \<Rightarrow> Ok (st, partition_point eo (\<lambda>(_, st). gs_turn_number st < n) (ses_history s)))))"

definition or_pending :: "'x game_session \<times> takeback_outcome option \<Rightarrow> 'x game_session \<times> (takeback_outcome, takeback_error) rust_result" where
  "or_pending r = (fst r, Ok (case snd r of Some out \<Rightarrow> out | None \<Rightarrow> TakebackPending))"

definition request_takeback ::
  "'x engine_ops \<Rightarrow> u64 \<Rightarrow> 'x game_session \<Rightarrow> player_id \<Rightarrow> rewind_target \<Rightarrow> 'x game_session \<times> (takeback_outcome, takeback_error) rust_result" where
  "request_takeback eo nonce s player tgt =
     (case ses_fault s of
        Some fault \<Rightarrow> (s, Err (TakebackFaulted fault))
      | None \<Rightarrow>
          if ses_pending s \<noteq> None then (s, Err AlreadyPending)
          else if player \<notin> set (human_seats_of s) then (s, Err NotHuman)
          else (case takeback_target eo s player tgt of
              Err e \<Rightarrow> (s, Err e)
            | Panic \<Rightarrow> (s, Panic)
            | Ok (st, len) \<Rightarrow>
                or_pending (try_resolve_pending_takeback eo nonce
                  (s\<lparr>ses_pending := Some \<lparr>requested_by = player, target_state = st, approvals = {player}, history_truncate_len = len\<rparr>\<rparr>))))"

definition respond_takeback ::
  "'x engine_ops \<Rightarrow> u64 \<Rightarrow> 'x game_session \<Rightarrow> player_id \<Rightarrow> bool \<Rightarrow> 'x game_session \<times> (takeback_outcome, takeback_error) rust_result" where
  "respond_takeback eo nonce s player approve =
     (case ses_fault s of
        Some fault \<Rightarrow> (s, Err (TakebackFaulted fault))
      | None \<Rightarrow>
          (case ses_pending s of
             None \<Rightarrow> (s, Err NothingPending)
           | Some pending \<Rightarrow>
               if player \<notin> set (human_seats_of s) then (s, Err NotHuman)
               else if \<not> approve then (s\<lparr>ses_pending := None\<rparr>, Ok TakebackRejected)
               else or_pending (try_resolve_pending_takeback eo nonce
                      (s\<lparr>ses_pending := Some (pending\<lparr>approvals := insert player (approvals pending)\<rparr>)\<rparr>))))"

definition cancel_takeback :: "'x game_session \<Rightarrow> player_id \<Rightarrow> 'x game_session \<times> (unit, takeback_error) rust_result" where
  "cancel_takeback s player =
     (case ses_fault s of
        Some fault \<Rightarrow> (s, Err (TakebackFaulted fault))
      | None \<Rightarrow>
          (case ses_pending s of
             None \<Rightarrow> (s, Err NothingPending)
           | Some pending \<Rightarrow>
               if requested_by pending = player then (s\<lparr>ses_pending := None\<rparr>, Ok ()) else (s, Err NotRequester)))"

definition pending_takeback_message :: "'x game_session \<Rightarrow> (player_id \<times> string) option" where
  "pending_takeback_message s =
     (case ses_pending s of
        None \<Rightarrow> None
      | Some pending \<Rightarrow> Some (requested_by pending,
          case vec_get (ses_names s) (unat (requested_by pending)) of Some name \<Rightarrow> name | None \<Rightarrow> []))"

subsection \<open>Handlers that move the game\<close>

text \<open>The gates of \<^verbatim>\<open>handle_action_with_card_db_outcome\<close> before the engine is asked, in their order.\<close>

definition HOST_PLAYER :: player_id where
  "HOST_PLAYER = 0"

definition action_gate :: "'x engine_ops \<Rightarrow> 'x game_session \<Rightarrow> string \<Rightarrow> 'x client_action \<Rightarrow> 'x session_error + player_id" where
  "action_gate eo s token action =
     (case ses_fault s of
        Some fault \<Rightarrow> Inl (SessionFaulted fault)
      | None \<Rightarrow>
          (case player_for_token s token of
             None \<Rightarrow> Inl InvalidToken
           | Some player \<Rightarrow>
               if ses_pending s \<noteq> None then Inl ActionNotAllowed
               else (case action of
                   DebugCreateCard _ _ \<Rightarrow>
                     (case op_preflight eo (ses_state s) player action of Some e \<Rightarrow> Inl (EngineRejected e) | None \<Rightarrow> Inr player)
                 | DebugOther _ \<Rightarrow>
                     (case op_preflight eo (ses_state s) player action of Some e \<Rightarrow> Inl (EngineRejected e) | None \<Rightarrow> Inr player)
                 | GrantDebugPermission _ \<Rightarrow>
                     if \<not> op_debug_allowed eo (ses_state s) \<or> player \<noteq> HOST_PLAYER then Inl ActionNotAllowed else Inr player
                 | RevokeDebugPermission tgt \<Rightarrow>
                     if \<not> op_debug_allowed eo (ses_state s) \<or> player \<noteq> HOST_PLAYER \<or> tgt = HOST_PLAYER then Inl ActionNotAllowed else Inr player
                 | OtherAction _ \<Rightarrow> Inr player)))"

definition is_actor_scoped_preference :: "'x engine_ops \<Rightarrow> 'x client_action \<Rightarrow> bool" where
  "is_actor_scoped_preference eo action = (case action of OtherAction _ \<Rightarrow> op_preference eo action | _ \<Rightarrow> False)"

definition is_zero_count_create :: "'x engine_ops \<Rightarrow> 'x client_action \<Rightarrow> bool" where
  "is_zero_count_create eo action =
     (case action of DebugCreateCard _ _ \<Rightarrow> op_zero_count eo action | DebugOther _ \<Rightarrow> op_zero_count eo action | _ \<Rightarrow> False)"

text \<open>The face that a debug action creates, looked up before anything is changed.\<close>

definition debug_card_source :: "(string \<Rightarrow> 'x option) option \<Rightarrow> 'x client_action \<Rightarrow> 'x session_error + 'x option" where
  "debug_card_source card_db action =
     (case action of
        DebugCreateCard name _ \<Rightarrow>
          (case card_db of
             None \<Rightarrow> Inl NeedsCardDatabase
           | Some db \<Rightarrow> (case db name of None \<Rightarrow> Inl CardNotFound | Some face \<Rightarrow> Inr (Some face)))
      | _ \<Rightarrow> Inr None)"

definition engine_applies ::
  "'x engine_ops \<Rightarrow> 'x game_state \<Rightarrow> player_id \<Rightarrow> 'x option \<Rightarrow> 'x client_action \<Rightarrow> 'x game_state \<times> ('x + 'x action_outcome)" where
  "engine_applies eo st player source action =
     (case source of
        Some face \<Rightarrow>
          (case op_create_cards eo st player face action of
             (st', Inl e) \<Rightarrow> (st', Inl e)
           | (st', Inr outcome) \<Rightarrow> (op_finalize eo st', Inr outcome))
      | None \<Rightarrow> op_apply eo st player action)"

text \<open>What both handlers do with an accepted transition: record the state before it, then observe it.\<close>

definition after_transition ::
  "player_id \<Rightarrow> 'x game_state option \<Rightarrow> 'x game_event list \<Rightarrow> 'x game_session \<Rightarrow> 'x game_session" where
  "after_transition player snapshot evs s =
     (let s1 = (case snapshot of Some pre \<Rightarrow> push_takeback_state player pre s | None \<Rightarrow> s)
      in observe_transition evs (ses_state s1) s1)"

definition handle_action ::
  "'x engine_ops \<Rightarrow> (string \<Rightarrow> 'x option) option \<Rightarrow> 'x game_session \<Rightarrow> string \<Rightarrow> 'x client_action
   \<Rightarrow> 'x game_session \<times> ('x game_state \<times> 'x game_event list, 'x session_error) rust_result" where
  "handle_action eo card_db s token action =
     (case action_gate eo s token action of
        Inl e \<Rightarrow> (s, Err e)
      | Inr player \<Rightarrow>
          if is_zero_count_create eo action then (s, Ok (ses_state s, []))
          else (case debug_card_source card_db action of
              Inl e \<Rightarrow> (s, Err e)
            | Inr source \<Rightarrow>
                (let pre = ses_state s;
                     (st, answer) = engine_applies eo (op_set_names eo (ses_names s) pre) player source action
                 in case answer of
                      Inl e \<Rightarrow> (s\<lparr>ses_state := st\<rparr>, Err (EngineRejected e))
                    | Inr outcome \<Rightarrow>
                        (after_transition player
                           (if \<not> is_actor_scoped_preference eo action \<and> ao_applied outcome then Some pre else None)
                           (ao_events outcome) (s\<lparr>ses_state := st\<rparr>),
                         Ok (st, ao_events outcome)))))"

definition handle_interaction ::
  "'x engine_ops \<Rightarrow> 'x game_session \<Rightarrow> string \<Rightarrow> 'x
   \<Rightarrow> 'x game_session \<times> ('x game_state \<times> 'x game_event list, 'x session_error) rust_result" where
  "handle_interaction eo s token submission =
     (case ses_fault s of
        Some fault \<Rightarrow> (s, Err (SessionFaulted fault))
      | None \<Rightarrow>
          (case player_for_token s token of
             None \<Rightarrow> (s, Err InvalidToken)
           | Some player \<Rightarrow>
               if ses_pending s \<noteq> None then (s, Err ActionNotAllowed)
               else (let pre = ses_state s; (st, answer) = op_submit eo (op_set_names eo (ses_names s) pre) player submission
                     in case answer of
                          Inl e \<Rightarrow> (s\<lparr>ses_state := st\<rparr>, Err (EngineRejected e))
                        | Inr (action, outcome) \<Rightarrow>
                            (after_transition player
                               (if \<not> is_actor_scoped_preference eo action \<and> ao_applied outcome then Some pre else None)
                               (ao_events outcome) (s\<lparr>ses_state := st\<rparr>),
                             Ok (st, ao_events outcome)))))"

definition handle_match_concede ::
  "'x engine_ops \<Rightarrow> 'x game_session \<Rightarrow> string
   \<Rightarrow> 'x game_session \<times> (u64 \<times> 'x game_state \<times> 'x game_event list, 'x session_error) rust_result" where
  "handle_match_concede eo s token =
     (case player_for_token s token of
        None \<Rightarrow> (s, Err InvalidToken)
      | Some player \<Rightarrow>
          (case ses_fault s of
             Some fault \<Rightarrow> (s, Err (SessionFaulted fault))
           | None \<Rightarrow>
               if ses_pending s \<noteq> None then (s, Err ConcedeWhilePending)
               else (case op_forfeit eo (ses_state s) player of
                   (st, Inl why) \<Rightarrow> (s\<lparr>ses_state := st\<rparr>, Err (ForfeitRefused why))
                 | (st, Inr evs) \<Rightarrow>
                     (let s1 = advance_state_revision (s\<lparr>ses_state := st\<rparr>)
                      in (observe_transition evs st s1, Ok (ses_revision s1, st, evs))))))"

definition observe_ai :: "('x game_event list \<times> 'x game_state) list \<Rightarrow> 'x game_session \<Rightarrow> 'x game_session" where
  "observe_ai results s = foldl (\<lambda>s (evs, st). observe_transition evs st (advance_state_revision s)) s results"

definition ai_failure :: "'x engine_ops \<Rightarrow> 'x game_session \<Rightarrow> ai_actions_stop \<Rightarrow> ai_driver_failure option" where
  "ai_failure eo s stop =
     (case stop of
        NoEligibleAiActor \<Rightarrow> None
      | ActionBudgetReached \<Rightarrow> None
      | StopMissingAiConfig p \<Rightarrow> Some (MissingAiConfig p)
      | StopChooseActionNone p \<Rightarrow> Some (ChooseActionNone p)
      | StopApplyFailed p e \<Rightarrow> Some (ApplyFailed p e)
      | StopSafetyCapReached limit \<Rightarrow>
          if list_ex (\<lambda>p. p \<in> ses_ai_seats s) (op_acting_players eo (ses_state s)) then Some (ActionSafetyCapReached limit) else None)"

definition run_ai :: "'x engine_ops \<Rightarrow> 'x game_session \<Rightarrow> 'x game_session \<times> ('x game_event list \<times> 'x game_state) list \<times> ai_driver_fault option" where
  "run_ai eo s =
     (if ses_fault s \<noteq> None then (s, [], ses_fault s)
      else if ses_ai_seats s = {} \<or> ses_pending s \<noteq> None then (s, [], None)
      else (let cache = (case ses_ai_session s of Some c \<Rightarrow> c | None \<Rightarrow> op_ai_session eo (ses_state s));
                (st, results, stop) = op_run_ai eo (ses_state s) (ses_ai_seats s) cache;
                s1 = observe_ai results (s\<lparr>ses_state := st, ses_ai_session := Some cache\<rparr>)
            in case ai_failure eo s1 stop of
                 None \<Rightarrow> (s1, results, None)
               | Some failure \<Rightarrow> (let (s2, fault) = record_ai_driver_fault failure s1 in (s2, results, Some fault))))"

definition resume_restored_stack_automation :: "'x engine_ops \<Rightarrow> 'x game_session \<Rightarrow> 'x game_session \<times> u64 option" where
  "resume_restored_stack_automation eo s =
     (case op_resume eo (ses_state s) of
        (st, None) \<Rightarrow> (s\<lparr>ses_state := st\<rparr>, None)
      | (st, Some evs) \<Rightarrow>
          (let s1 = advance_state_revision (observe_transition evs st (s\<lparr>ses_state := st\<rparr>)) in (s1, Some (ses_revision s1))))"

end
