(* ===== verification/Takeback_Histories.thy ===== *)
theory Takeback_Histories
  imports Server_Takeback "HOL-Library.Sublist"
begin

text \<open>
  Histories of a game session: which requests, votes, actions and AI moves lead to a rollback, and what a rollback restores. The
  lemmas follow a pending request through a history (\<open>pending_from\<close>) and the ring of snapshots through a stretch of play
  (\<open>history_run\<close>); a toy engine serves as instance of the engine parameter.
\<close>

subsection \<open>Histories of a session\<close>

datatype 'x session_op =
    RequestTakeback player_id rewind_target
  | RespondTakeback player_id bool
  | CancelTakeback player_id
  | PlayAction string "'x client_action"
  | Interact string 'x
  | ConcedeMatch string
  | RunAi

definition outcome_of :: "(takeback_outcome, takeback_error) rust_result \<Rightarrow> takeback_outcome option" where
  "outcome_of r = (case r of Ok out \<Rightarrow> Some out | _ \<Rightarrow> None)"

text \<open>One request with the number a rollback draws, and the outcome if it is a request or vote that is accepted.\<close>

fun session_step ::
  "'x engine_ops \<Rightarrow> (string \<Rightarrow> 'x option) option \<Rightarrow> 'x game_session \<Rightarrow> u64 \<times> 'x session_op \<Rightarrow> 'x game_session \<times> takeback_outcome option" where
  "session_step eo db s (nonce, RequestTakeback p tgt) = apsnd outcome_of (request_takeback eo nonce s p tgt)"
| "session_step eo db s (nonce, RespondTakeback p approve) = apsnd outcome_of (respond_takeback eo nonce s p approve)"
| "session_step eo db s (nonce, CancelTakeback p) = (fst (cancel_takeback s p), None)"
| "session_step eo db s (nonce, PlayAction token action) = (fst (handle_action eo db s token action), None)"
| "session_step eo db s (nonce, Interact token submission) = (fst (handle_interaction eo s token submission), None)"
| "session_step eo db s (nonce, ConcedeMatch token) = (fst (handle_match_concede eo s token), None)"
| "session_step eo db s (nonce, RunAi) = (fst (run_ai eo s), None)"

definition run_session ::
  "'x engine_ops \<Rightarrow> (string \<Rightarrow> 'x option) option \<Rightarrow> 'x game_session \<Rightarrow> (u64 \<times> 'x session_op) list \<Rightarrow> 'x game_session" where
  "run_session eo db s as = foldl (\<lambda>s a. fst (session_step eo db s a)) s as"

lemma run_session_simps [simp]:
  "run_session eo db s [] = s" "run_session eo db s (as @ [a]) = fst (session_step eo db (run_session eo db s as) a)"
  "run_session eo db s (a # as) = run_session eo db (fst (session_step eo db s a)) as"
  by (simp_all add: run_session_def)

lemma run_session_append: "run_session eo db s (as @ bs) = run_session eo db (run_session eo db s as) bs"
  by (simp add: run_session_def)

lemmas takeback_defs = request_takeback_def respond_takeback_def cancel_takeback_def or_pending_def try_resolve_pending_takeback_def apply_rollback_def

lemma observe_fields [simp]:
  "ses_state (observe_transition evs st s) = ses_state s" "ses_pending (observe_transition evs st s) = ses_pending s"
  "ses_player_count (observe_transition evs st s) = ses_player_count s" "ses_ai_seats (observe_transition evs st s) = ses_ai_seats s"
  "ses_hosting (observe_transition evs st s) = ses_hosting s"
  by (simp_all add: observe_transition_def Let_def)

lemma advance_fields [simp]:
  "ses_state (advance_state_revision s) = ses_state s" "ses_pending (advance_state_revision s) = ses_pending s"
  "ses_player_count (advance_state_revision s) = ses_player_count s" "ses_ai_seats (advance_state_revision s) = ses_ai_seats s"
  "ses_hosting (advance_state_revision s) = ses_hosting s" "ses_history (advance_state_revision s) = ses_history s"
  "ses_turns (advance_state_revision s) = ses_turns s" "ses_game_number (advance_state_revision s) = ses_game_number s"
  by (simp_all add: advance_state_revision_def)

lemma push_takeback_fields [simp]:
  "ses_state (push_takeback_state p st s) = ses_state s" "ses_pending (push_takeback_state p st s) = ses_pending s"
  "ses_player_count (push_takeback_state p st s) = ses_player_count s" "ses_ai_seats (push_takeback_state p st s) = ses_ai_seats s"
  "ses_hosting (push_takeback_state p st s) = ses_hosting s" "ses_turns (push_takeback_state p st s) = ses_turns s"
  "ses_game_number (push_takeback_state p st s) = ses_game_number s"
  by (simp_all add: push_takeback_state_def)

lemma after_transition_fields [simp]:
  "ses_state (after_transition p snap evs s) = ses_state s" "ses_pending (after_transition p snap evs s) = ses_pending s"
  "ses_player_count (after_transition p snap evs s) = ses_player_count s" "ses_ai_seats (after_transition p snap evs s) = ses_ai_seats s"
  "ses_hosting (after_transition p snap evs s) = ses_hosting s"
  by (simp_all add: after_transition_def Let_def split: option.split)

lemma observe_ai_fields [simp]:
  "ses_state (observe_ai rs s) = ses_state s" "ses_pending (observe_ai rs s) = ses_pending s"
  "ses_player_count (observe_ai rs s) = ses_player_count s" "ses_ai_seats (observe_ai rs s) = ses_ai_seats s"
  "ses_hosting (observe_ai rs s) = ses_hosting s"
  unfolding observe_ai_def by (induction rs arbitrary: s) (auto simp: split_beta)

lemma record_fault_fields [simp]:
  "ses_state (fst (record_ai_driver_fault c s)) = ses_state s" "ses_pending (fst (record_ai_driver_fault c s)) = ses_pending s"
  "ses_player_count (fst (record_ai_driver_fault c s)) = ses_player_count s" "ses_ai_seats (fst (record_ai_driver_fault c s)) = ses_ai_seats s"
  "ses_hosting (fst (record_ai_driver_fault c s)) = ses_hosting s" "ses_history (fst (record_ai_driver_fault c s)) = ses_history s"
  "ses_turns (fst (record_ai_driver_fault c s)) = ses_turns s" "ses_game_number (fst (record_ai_driver_fault c s)) = ses_game_number s"
  by (simp_all add: record_ai_driver_fault_def Let_def split: option.split)

text \<open>The handlers keep the seats, and while a request is pending they change nothing.\<close>

fun vote_op :: "'x session_op \<Rightarrow> bool" where
  "vote_op (RequestTakeback _ _) = True"
| "vote_op (RespondTakeback _ _) = True"
| "vote_op (CancelTakeback _) = True"
| "vote_op _ = False"

lemma play_step:
  assumes "\<not> vote_op (snd a)"
  shows "ses_pending (fst (session_step eo db s a)) = ses_pending s"
    and "ses_pending s \<noteq> None \<Longrightarrow> fst (session_step eo db s a) = s"
    and "snd (session_step eo db s a) = None"
    and "human_seats_of (fst (session_step eo db s a)) = human_seats_of s"
proof -
  obtain nonce op where a: "a = (nonce, op)" by (cases a)
  have seats: "human_seats_of s' = human_seats_of s" if "ses_player_count s' = ses_player_count s" "ses_ai_seats s' = ses_ai_seats s" for s'
    using that by (simp add: human_seats_of_def)
  show "snd (session_step eo db s a) = None" using assms by (cases op) (auto simp: a)
  show "ses_pending (fst (session_step eo db s a)) = ses_pending s"
    using assms
    by (cases op) (auto simp: a handle_action_def handle_interaction_def handle_match_concede_def run_ai_def Let_def split_beta
        split: sum.split option.split prod.split)
  show "fst (session_step eo db s a) = s" if "ses_pending s \<noteq> None"
    using assms that
    by (cases op) (auto simp: a handle_action_def action_gate_def handle_interaction_def handle_match_concede_def run_ai_def Let_def split_beta
        split: sum.split option.split prod.split)
  show "human_seats_of (fst (session_step eo db s a)) = human_seats_of s"
    using assms
    by (cases op) (auto simp: a handle_action_def handle_interaction_def handle_match_concede_def run_ai_def Let_def split_beta
        split: sum.split option.split prod.split intro!: seats)
qed

subsection \<open>Unanimity\<close>

text \<open>How a pending request came about in a history, and what happened since.\<close>

definition asked_in ::
  "'x engine_ops \<Rightarrow> (string \<Rightarrow> 'x option) option \<Rightarrow> 'x game_session \<Rightarrow> (u64 \<times> 'x session_op) list \<Rightarrow> player_id \<Rightarrow> rewind_target
   \<Rightarrow> (u64 \<times> 'x session_op) list \<Rightarrow> (u64 \<times> 'x session_op) list \<Rightarrow> bool" where
  "asked_in eo db s0 as p tgt as1 as2 \<longleftrightarrow>
     (\<exists>m. as = as1 @ (m, RequestTakeback p tgt) # as2
        \<and> (\<forall>bs cs. as2 = bs @ cs \<longrightarrow> ses_state (run_session eo db s0 (as1 @ (m, RequestTakeback p tgt) # bs)) = ses_state (run_session eo db s0 as1)))
     \<and> (\<forall>h\<in>set (human_seats_of s0). \<forall>k. (k, RespondTakeback h False) \<notin> set as2)"

definition pending_from ::
  "'x engine_ops \<Rightarrow> (string \<Rightarrow> 'x option) option \<Rightarrow> 'x game_session \<Rightarrow> (u64 \<times> 'x session_op) list \<Rightarrow> 'x pending_takeback \<Rightarrow> bool" where
  "pending_from eo db s0 as pd \<longleftrightarrow>
     (\<exists>tgt as1 as2. asked_in eo db s0 as (requested_by pd) tgt as1 as2
        \<and> takeback_target eo (run_session eo db s0 as1) (requested_by pd) tgt = Ok (target_state pd, history_truncate_len pd)
        \<and> (\<forall>h\<in>approvals pd. h = requested_by pd \<or> (\<exists>k. (k, RespondTakeback h True) \<in> set as2)))"

lemma split_snoc: "as2 @ [a] = bs @ cs \<longleftrightarrow> (\<exists>cs'. cs = cs' @ [a] \<and> as2 = bs @ cs') \<or> cs = [] \<and> bs = as2 @ [a]"
  by (cases cs rule: rev_cases) auto

lemma asked_in_snoc:
  assumes "asked_in eo db s0 as p tgt as1 as2"
    and "ses_state (run_session eo db s0 (as @ [a])) = ses_state (run_session eo db s0 as)"
    and "\<forall>h\<in>set (human_seats_of s0). snd a \<noteq> RespondTakeback h False"
  shows "asked_in eo db s0 (as @ [a]) p tgt as1 (as2 @ [a])"
proof -
  from assms(1) obtain m where m: "as = as1 @ (m, RequestTakeback p tgt) # as2"
    and same: "\<forall>bs cs. as2 = bs @ cs \<longrightarrow> ses_state (run_session eo db s0 (as1 @ (m, RequestTakeback p tgt) # bs)) = ses_state (run_session eo db s0 as1)"
    and none: "\<forall>h\<in>set (human_seats_of s0). \<forall>k. (k, RespondTakeback h False) \<notin> set as2"
    by (auto simp: asked_in_def)
  have all: "ses_state (run_session eo db s0 (as @ [a])) = ses_state (run_session eo db s0 as1)"
    using same [rule_format, of as2 "[]"] assms(2) m by simp
  have "ses_state (run_session eo db s0 (as1 @ (m, RequestTakeback p tgt) # bs)) = ses_state (run_session eo db s0 as1)"
    if "as2 @ [a] = bs @ cs" for bs cs
    using that same all unfolding split_snoc m by auto
  with none assms(3) m show ?thesis unfolding asked_in_def by (cases a) auto
qed

lemma pending_from_snoc:
  assumes "pending_from eo db s0 as pd" and "ses_state (run_session eo db s0 (as @ [a])) = ses_state (run_session eo db s0 as)"
    and "\<forall>h\<in>set (human_seats_of s0). snd a \<noteq> RespondTakeback h False"
    and "requested_by pd' = requested_by pd" and "target_state pd' = target_state pd" and "history_truncate_len pd' = history_truncate_len pd"
    and "\<forall>h\<in>approvals pd'. h \<in> approvals pd \<or> snd a = RespondTakeback h True"
  shows "pending_from eo db s0 (as @ [a]) pd'"
proof -
  from assms(1) obtain tgt as1 as2 where "asked_in eo db s0 as (requested_by pd) tgt as1 as2"
    and target: "takeback_target eo (run_session eo db s0 as1) (requested_by pd) tgt = Ok (target_state pd, history_truncate_len pd)"
    and votes: "\<forall>h\<in>approvals pd. h = requested_by pd \<or> (\<exists>k. (k, RespondTakeback h True) \<in> set as2)"
    by (auto simp: pending_from_def)
  from asked_in_snoc [OF this(1) assms(2,3)] target votes assms(4-7) show ?thesis
    unfolding pending_from_def by (cases a) fastforce
qed

lemma rollback_fields [simp]:
  "ses_pending (apply_rollback eo n pd s) = None" "ses_state (apply_rollback eo n pd s) = restored eo n (target_state pd)"
  "ses_player_count (apply_rollback eo n pd s) = ses_player_count s" "ses_ai_seats (apply_rollback eo n pd s) = ses_ai_seats s"
  "ses_hosting (apply_rollback eo n pd s) = ses_hosting s" "ses_game_number (apply_rollback eo n pd s) = ses_game_number s"
  by (simp_all add: apply_rollback_def Let_def)

lemma try_resolve_eq:
  "ses_pending s = Some pd \<Longrightarrow> try_resolve_pending_takeback eo n s =
     (if set (human_seats_of s) \<subseteq> approvals pd then (apply_rollback eo n pd s, Some TakebackApproved) else (s, None))"
  by (simp add: try_resolve_pending_takeback_def list_all_iff subset_iff)

text \<open>The accepted requests and votes, case by case.\<close>

lemma vote_step_cases:
  assumes "vote_op (snd a)" and "session_step eo db s a = (s', out)"
  obtains (refused) "s' = s" "out = None"
  | (asked) p tgt st len where "snd a = RequestTakeback p tgt" "ses_pending s = None" "takeback_target eo s p tgt = Ok (st, len)" "out = Some TakebackPending"
      "ses_fault s = None"
      "s' = s\<lparr>ses_pending := Some \<lparr>requested_by = p, target_state = st, approvals = {p}, history_truncate_len = len\<rparr>\<rparr>"
  | (alone) p tgt st len where "snd a = RequestTakeback p tgt" "ses_pending s = None" "takeback_target eo s p tgt = Ok (st, len)" "out = Some TakebackApproved"
      "set (human_seats_of s) \<subseteq> {p}"
      "s' = apply_rollback eo (fst a) \<lparr>requested_by = p, target_state = st, approvals = {p}, history_truncate_len = len\<rparr>
         (s\<lparr>ses_pending := Some \<lparr>requested_by = p, target_state = st, approvals = {p}, history_truncate_len = len\<rparr>\<rparr>)"
  | (declined) p where "snd a = RespondTakeback p False" "s' = s\<lparr>ses_pending := None\<rparr>" "out = Some TakebackRejected"
  | (approved) p pd where "snd a = RespondTakeback p True" "ses_pending s = Some pd" "out = Some TakebackPending"
      "s' = s\<lparr>ses_pending := Some (pd\<lparr>approvals := insert p (approvals pd)\<rparr>)\<rparr>"
  | (resolved) p pd where "snd a = RespondTakeback p True" "ses_pending s = Some pd" "out = Some TakebackApproved"
      "set (human_seats_of s) \<subseteq> insert p (approvals pd)"
      "s' = apply_rollback eo (fst a) (pd\<lparr>approvals := insert p (approvals pd)\<rparr>) (s\<lparr>ses_pending := Some (pd\<lparr>approvals := insert p (approvals pd)\<rparr>)\<rparr>)"
  | (cancelled) "s' = s\<lparr>ses_pending := None\<rparr>" "out = None"
proof -
  have seats: "human_seats_of (s\<lparr>ses_pending := x\<rparr>) = human_seats_of s" for x by (simp add: human_seats_of_def)
  obtain n op where a: "a = (n, op)" by (cases a)
  show thesis
  proof (cases op)
    case (RequestTakeback p tgt)
    let ?pd = "\<lambda>st len. \<lparr>requested_by = p, target_state = st, approvals = {p}, history_truncate_len = len\<rparr>"
    consider "s' = s" "out = None"
      | st len where "ses_pending s = None" "takeback_target eo s p tgt = Ok (st, len)" "ses_fault s = None"
          "(s', out) = apsnd outcome_of (or_pending (try_resolve_pending_takeback eo n (s\<lparr>ses_pending := Some (?pd st len)\<rparr>)))"
      using assms(2) by (auto simp: a RequestTakeback request_takeback_def outcome_of_def split: option.splits if_splits rust_result.splits)
    then show thesis
    proof cases
      case (2 st len)
      show thesis
      proof (cases "set (human_seats_of s) \<subseteq> {p}")
        case True
        with 2 alone [of p tgt st len] show thesis
          by (simp add: a RequestTakeback or_pending_def try_resolve_eq seats outcome_of_def)
      next
        case False
        with 2 asked [of p tgt st len] show thesis
          by (simp add: a RequestTakeback or_pending_def try_resolve_eq seats outcome_of_def)
      qed
    qed (rule refused)
  next
    case (RespondTakeback p approve)
    consider "s' = s" "out = None" | "\<not> approve" "s' = s\<lparr>ses_pending := None\<rparr>" "out = Some TakebackRejected"
      | pd where "approve" "ses_pending s = Some pd"
          "(s', out) = apsnd outcome_of (or_pending (try_resolve_pending_takeback eo n (s\<lparr>ses_pending := Some (pd\<lparr>approvals := insert p (approvals pd)\<rparr>)\<rparr>)))"
      using assms(2) by (auto simp: a RespondTakeback respond_takeback_def outcome_of_def split: option.splits if_splits)
    then show thesis
    proof cases
      case 2
      with declined [of p] show thesis by (simp add: a RespondTakeback)
    next
      case (3 pd)
      show thesis
      proof (cases "set (human_seats_of s) \<subseteq> insert p (approvals pd)")
        case True
        with 3 resolved [of p pd] show thesis
          by (simp add: a RespondTakeback or_pending_def try_resolve_eq seats outcome_of_def)
      next
        case False
        with 3 approved [of p pd] show thesis
          by (simp add: a RespondTakeback or_pending_def try_resolve_eq seats outcome_of_def)
      qed
    qed (rule refused)
  next
    case (CancelTakeback p)
    with assms(2) refused cancelled show thesis
      by (auto simp: a cancel_takeback_def split: option.splits if_splits)
  qed (use assms(1) in \<open>simp_all add: a\<close>)
qed

lemma seats_step: "human_seats_of (fst (session_step eo db s a)) = human_seats_of s"
proof (cases "vote_op (snd a)")
  case True
  show ?thesis
    by (rule vote_step_cases [OF True prod.collapse [symmetric], of eo db s]) (simp_all add: human_seats_of_def)
qed (rule play_step(4))

lemma seats_run: "human_seats_of (run_session eo db s as) = human_seats_of s"
  by (induction "as" rule: rev_induct) (simp_all add: seats_step)

lemma pending_no_fault:
  assumes "ses_pending s0 = None" and "ses_pending (run_session eo db s0 as) \<noteq> None"
  shows "ses_fault (run_session eo db s0 as) = None"
  using assms(2)
proof (induction "as" rule: rev_induct)
  case Nil
  with assms(1) show ?case by simp
next
  case (snoc a "as")
  show ?case
  proof (cases "vote_op (snd a)")
    case False
    with snoc play_step [OF False, where eo = eo and db = db and s = "run_session eo db s0 as"] show ?thesis by simp
  next
    case True
    show ?thesis
      by (rule vote_step_cases [OF True prod.collapse [symmetric], of eo db "run_session eo db s0 as"]) (use snoc in auto)
  qed
qed

lemma pending_inv:
  assumes "ses_pending s0 = None" and "ses_pending (run_session eo db s0 as) = Some pd"
  shows "pending_from eo db s0 as pd"
  using assms(2)
proof (induction "as" arbitrary: pd rule: rev_induct)
  case Nil
  with assms(1) show ?case by simp
next
  case (snoc a "as")
  let ?s = "run_session eo db s0 as"
  let ?s' = "fst (session_step eo db ?s a)"
  show ?case
  proof (cases "vote_op (snd a)")
    case False
    with snoc.prems play_step [OF False, where eo = eo and db = db and s = ?s] have same: "ses_pending ?s = Some pd" "?s' = ?s" by auto
    from False have "\<forall>h\<in>set (human_seats_of s0). snd a \<noteq> RespondTakeback h False" by (cases "snd a") auto
    from pending_from_snoc [OF snoc.IH [OF same(1)] _ this] same(2) show ?thesis by simp
  next
    case True
    show ?thesis
    proof (rule vote_step_cases [OF True prod.collapse [symmetric], of eo db ?s], goal_cases)
      case 1
      with snoc.prems have pend: "ses_pending ?s = Some pd" by simp
      have "snd a \<noteq> RespondTakeback h False" if "h \<in> set (human_seats_of s0)" for h
      proof
        assume "snd a = RespondTakeback h False"
        with 1 that pend seats_run [of eo db s0 "as"] pending_no_fault [OF assms(1), of eo db "as"] show False
          by (cases a) (auto simp: respond_takeback_def outcome_of_def split: option.splits if_splits)
      qed
      with pending_from_snoc [OF snoc.IH [OF pend]] 1 show ?case by simp
    next
      case (2 p tgt st len)
      with snoc.prems have pd: "pd = \<lparr>requested_by = p, target_state = st, approvals = {p}, history_truncate_len = len\<rparr>" by simp
      have "asked_in eo db s0 (as @ [a]) p tgt as []"
        using 2 by (cases a) (simp add: asked_in_def)
      with 2(3) pd show ?case unfolding pending_from_def by (intro exI [of _ tgt] exI [of _ "as"] exI [of _ "[]"]) simp
    next
      case (5 p pd')
      with snoc.prems have "pd = pd'\<lparr>approvals := insert p (approvals pd')\<rparr>" by simp
      with 5 show ?case by (intro pending_from_snoc [OF snoc.IH [OF 5(2)]]) simp_all
    qed (use snoc.prems in simp_all)
  qed
qed

lemma approval_history:
  assumes "ses_pending s0 = None" and "session_step eo db (run_session eo db s0 as) a = (s', Some TakebackApproved)"
  obtains tgt as1 m p as2 st len where "as @ [a] = as1 @ (m, RequestTakeback p tgt) # as2"
    and "takeback_target eo (run_session eo db s0 as1) p tgt = Ok (st, len)" and "ses_state s' = restored eo (fst a) st"
    and "\<forall>h\<in>set (human_seats_of s0). h = p \<or> (\<exists>k. (k, RespondTakeback h True) \<in> set as2)"
    and "\<forall>h\<in>set (human_seats_of s0). \<forall>k. (k, RespondTakeback h False) \<notin> set as2"
    and "\<forall>bs cs. as2 = bs @ cs \<and> cs \<noteq> [] \<longrightarrow> ses_state (run_session eo db s0 (as1 @ (m, RequestTakeback p tgt) # bs)) = ses_state (run_session eo db s0 as1)"
proof -
  have vote: "vote_op (snd a)" using assms(2) play_step(3) [of a, where eo = eo and db = db and s = "run_session eo db s0 as"] by fastforce
  show thesis
  proof (rule vote_step_cases [OF vote assms(2)], goal_cases)
    case (3 p tgt st len)
    with seats_run [of eo db s0 "as"] show thesis
      by (intro that [of "as" "fst a" p tgt "[]" st len]) (cases a, auto)
  next
    case (6 p pd)
    from pending_inv [OF assms(1) 6(2)] obtain tgt as1 as2 where asked: "asked_in eo db s0 as (requested_by pd) tgt as1 as2"
      and target: "takeback_target eo (run_session eo db s0 as1) (requested_by pd) tgt = Ok (target_state pd, history_truncate_len pd)"
      and votes: "\<forall>h\<in>approvals pd. h = requested_by pd \<or> (\<exists>k. (k, RespondTakeback h True) \<in> set as2)"
      by (auto simp: pending_from_def)
    from asked obtain m where m: "as = as1 @ (m, RequestTakeback (requested_by pd) tgt) # as2"
      and same: "\<forall>bs cs. as2 = bs @ cs \<longrightarrow> ses_state (run_session eo db s0 (as1 @ (m, RequestTakeback (requested_by pd) tgt) # bs)) = ses_state (run_session eo db s0 as1)"
      and none: "\<forall>h\<in>set (human_seats_of s0). \<forall>k. (k, RespondTakeback h False) \<notin> set as2"
      by (auto simp: asked_in_def)
    obtain k where a: "a = (k, RespondTakeback p True)" using 6(1) by (cases a) simp
    show thesis
    proof (rule that [of as1 m "requested_by pd" tgt "as2 @ [a]" "target_state pd" "history_truncate_len pd"])
      show "\<forall>h\<in>set (human_seats_of s0). h = requested_by pd \<or> (\<exists>k. (k, RespondTakeback h True) \<in> set (as2 @ [a]))"
        using 6(4) votes unfolding seats_run a by auto
      show "\<forall>h\<in>set (human_seats_of s0). \<forall>k. (k, RespondTakeback h False) \<notin> set (as2 @ [a])"
        using none unfolding a by auto
      show "\<forall>bs cs. as2 @ [a] = bs @ cs \<and> cs \<noteq> [] \<longrightarrow>
          ses_state (run_session eo db s0 (as1 @ (m, RequestTakeback (requested_by pd) tgt) # bs)) = ses_state (run_session eo db s0 as1)"
        using same by (auto simp: split_snoc)
    qed (use m target 6(5) in simp_all)
  qed simp_all
qed

lemma undecided_vote_keeps:
  assumes "vote_op (snd a)" and "session_step eo db s a = (s', out)" and "out \<noteq> Some TakebackApproved"
  shows "s'\<lparr>ses_pending := ses_pending s\<rparr> = s"
  by (rule vote_step_cases [OF assms(1,2)]) (use assms(3) in simp_all)

text \<open>C38. No rollback without everybody's consent. When a take-back takes effect, somebody asked for it earlier in the history, every other
  human seat has approved since, no human seat has declined since, the game has not moved in between, and the new state is the
  snapshot that was selected when it was asked for. While a request is pending no action, interaction, concession or AI move changes the session, and a
  request or vote that does not complete the approval leaves everything but the pending request as it was.\<close>

theorem takeback_unanimous:
  assumes "ses_pending s0 = None" and "s = run_session eo db s0 as" and "session_step eo db s a = (s', out)"
  shows "(out = Some TakebackApproved \<longrightarrow>
      (\<exists>as1 m p tgt as2 st len. as @ [a] = as1 @ (m, RequestTakeback p tgt) # as2
        \<and> takeback_target eo (run_session eo db s0 as1) p tgt = Ok (st, len) \<and> ses_state s' = restored eo (fst a) st
        \<and> (\<forall>h\<in>set (human_seats_of s0). (h = p \<or> (\<exists>k. (k, RespondTakeback h True) \<in> set as2)) \<and> (\<forall>k. (k, RespondTakeback h False) \<notin> set as2))
        \<and> (\<forall>bs cs. as2 = bs @ cs \<and> cs \<noteq> [] \<longrightarrow>
            ses_state (run_session eo db s0 (as1 @ (m, RequestTakeback p tgt) # bs)) = ses_state (run_session eo db s0 as1))))
    \<and> (ses_pending s \<noteq> None \<and> \<not> vote_op (snd a) \<longrightarrow> s' = s)
    \<and> (vote_op (snd a) \<and> out \<noteq> Some TakebackApproved \<longrightarrow> s'\<lparr>ses_pending := ses_pending s\<rparr> = s)"
proof (intro conjI impI; (elim conjE)?)
  assume "out = Some TakebackApproved"
  with assms(2,3) have "session_step eo db (run_session eo db s0 as) a = (s', Some TakebackApproved)" by simp
  from assms(1) this obtain tgt as1 m p as2 st len where "as @ [a] = as1 @ (m, RequestTakeback p tgt) # as2"
    and "takeback_target eo (run_session eo db s0 as1) p tgt = Ok (st, len)" and "ses_state s' = restored eo (fst a) st"
    and "\<forall>h\<in>set (human_seats_of s0). h = p \<or> (\<exists>k. (k, RespondTakeback h True) \<in> set as2)"
    and "\<forall>h\<in>set (human_seats_of s0). \<forall>k. (k, RespondTakeback h False) \<notin> set as2"
    and "\<forall>bs cs. as2 = bs @ cs \<and> cs \<noteq> [] \<longrightarrow> ses_state (run_session eo db s0 (as1 @ (m, RequestTakeback p tgt) # bs)) = ses_state (run_session eo db s0 as1)"
    by (rule approval_history)
  then show "\<exists>as1 m p tgt as2 st len. as @ [a] = as1 @ (m, RequestTakeback p tgt) # as2
        \<and> takeback_target eo (run_session eo db s0 as1) p tgt = Ok (st, len) \<and> ses_state s' = restored eo (fst a) st
        \<and> (\<forall>h\<in>set (human_seats_of s0). (h = p \<or> (\<exists>k. (k, RespondTakeback h True) \<in> set as2)) \<and> (\<forall>k. (k, RespondTakeback h False) \<notin> set as2))
        \<and> (\<forall>bs cs. as2 = bs @ cs \<and> cs \<noteq> [] \<longrightarrow>
            ses_state (run_session eo db s0 (as1 @ (m, RequestTakeback p tgt) # bs)) = ses_state (run_session eo db s0 as1))"
    by (intro exI [of _ as1] exI [of _ m] exI [of _ p] exI [of _ tgt] exI [of _ as2] exI [of _ st] exI [of _ len] conjI ballI) simp_all
next
  assume "ses_pending s \<noteq> None" and "\<not> vote_op (snd a)"
  then show "s' = s" using play_step(2) [of a s eo db] assms(3) by simp
next
  assume "vote_op (snd a)" and "out \<noteq> Some TakebackApproved"
  with undecided_vote_keeps assms(3) show "s'\<lparr>ses_pending := ses_pending s\<rparr> = s" by blast
qed

text \<open>A toy engine of a best-of-three match: action 0 passes the turn, action 9 passes it to a player who loses the game as the turn
  begins, action 8 starts the next game, and any other number is added to the state.\<close>

definition toy_move :: "nat game_state \<Rightarrow> nat \<Rightarrow> nat game_state \<times> nat action_outcome" where
  "toy_move st n =
     (if n \<in> {0, 9} \<and> gs_turn_number st \<noteq> - 1
      then ((if n = 9 \<and> gs_game_number st \<noteq> - 1
             then st\<lparr>gs_turn_number := gs_turn_number st + 1, gs_game_number := gs_game_number st + 1, gs_match_phase := PhaseBetweenGames\<rparr>
             else st\<lparr>gs_turn_number := gs_turn_number st + 1\<rparr>),
            \<lparr>ao_events = [TurnStarted (gs_turn_number st + 1)], ao_applied = True\<rparr>)
      else if n = 8 \<and> gs_match_phase st = PhaseBetweenGames
      then (st\<lparr>gs_turn_number := 1, gs_match_phase := PhaseInGame\<rparr>, \<lparr>ao_events = [TurnStarted 1], ao_applied = True\<rparr>)
      else (st\<lparr>gs_rest := gs_rest st + n\<rparr>, \<lparr>ao_events = [], ao_applied = True\<rparr>))"

definition toy_engine :: "nat engine_ops" where
  "toy_engine = \<lparr>op_preflight = (\<lambda>_ _ _. None), op_debug_allowed = (\<lambda>_. False), op_zero_count = (\<lambda>_. False), op_preference = (\<lambda>_. False),
     op_set_names = (\<lambda>_ st. st),
     op_apply = (\<lambda>st _ action. case action of OtherAction n \<Rightarrow> apsnd Inr (toy_move st n) | _ \<Rightarrow> (st, Inl 0)),
     op_create_cards = (\<lambda>st _ _ _. (st, Inl 0)), op_finalize = (\<lambda>st. st), op_submit = (\<lambda>st _ _. (st, Inl 0)),
     op_forfeit = (\<lambda>st _. (st, Inl [])), op_rekey = (\<lambda>st. st), op_bind = (\<lambda>_ st. st), op_ai_session = (\<lambda>_. 0),
     op_run_ai = (\<lambda>st _ _. (st, [], NoEligibleAiActor)), op_acting_players = (\<lambda>_. []), op_resume = (\<lambda>st. (st, None)),
     op_partition_point = (\<lambda>bs. length (takeWhile (\<lambda>b. b) bs))\<rparr>"

definition toy_session :: "hosting_mode \<Rightarrow> u8 \<Rightarrow> nat game_session" where
  "toy_session hosting n = \<lparr>ses_fault = None, ses_next_fault_id = 0, ses_revision = 0,
     ses_state = \<lparr>gs_turn_number = 1, gs_active_player = 0, gs_game_number = 1, gs_match_phase = PhaseInGame, gs_rest = 0\<rparr>, ses_tokens = [''a'', ''b''], ses_names = [],
     ses_hosting = hosting, ses_player_count = n, ses_ai_seats = {}, ses_ai_session = None, ses_pending = None, ses_history = [], ses_turns = [],
     ses_game_number = 1\<rparr>"

definition toy_vote :: "(u64 \<times> nat session_op) list" where
  "toy_vote = [(0, PlayAction ''a'' (OtherAction 5)), (1, RequestTakeback 0 LastAction)]"

theorem takeback_unanimous_witness:
  "\<exists>as1 m p tgt as2 st len. toy_vote @ [(2, RespondTakeback 1 True)] = as1 @ (m, RequestTakeback p tgt) # as2
     \<and> takeback_target toy_engine (run_session toy_engine None (toy_session SharedHosting 2) as1) p tgt = Ok (st, len)
     \<and> ses_state (run_session toy_engine None (toy_session SharedHosting 2) (toy_vote @ [(2, RespondTakeback 1 True)])) = restored toy_engine 2 st"
proof -
  let ?s0 = "toy_session SharedHosting 2" and ?a = "(2, RespondTakeback 1 True)"
  have none: "ses_pending ?s0 = None" by (simp add: toy_session_def)
  have "snd (session_step toy_engine None (run_session toy_engine None ?s0 toy_vote) ?a) = Some TakebackApproved" by code_simp
  from conjunct1 [OF takeback_unanimous [OF none refl prod.collapse [symmetric], of toy_engine None toy_vote ?a], THEN mp, OF this]
  show ?thesis unfolding run_session_simps(2) fst_conv by (elim exE conjE) (intro exI conjI; assumption)
qed

subsection \<open>A take-back undoes the own action\<close>

text \<open>What the engine accepts of a player, the state before which is recorded unless it is a preference or had no effect.\<close>

definition accepted_action ::
  "'x engine_ops \<Rightarrow> (string \<Rightarrow> 'x option) option \<Rightarrow> 'x game_session \<Rightarrow> 'x session_op
   \<Rightarrow> (player_id \<times> 'x client_action \<times> 'x game_state \<times> 'x action_outcome) option" where
  "accepted_action eo db s op =
     (case op of
        PlayAction token action \<Rightarrow>
          (case action_gate eo s token action of
             Inl _ \<Rightarrow> None
           | Inr p \<Rightarrow>
               if is_zero_count_create eo action then None
               else (case debug_card_source db action of
                   Inl _ \<Rightarrow> None
                 | Inr source \<Rightarrow>
                     (case engine_applies eo (op_set_names eo (ses_names s) (ses_state s)) p source action of
                        (_, Inl _) \<Rightarrow> None
                      | (st, Inr outcome) \<Rightarrow> Some (p, action, st, outcome))))
      | Interact token submission \<Rightarrow>
          (if ses_fault s \<noteq> None \<or> ses_pending s \<noteq> None then None
           else (case player_for_token s token of
               None \<Rightarrow> None
             | Some p \<Rightarrow>
                 (case op_submit eo (op_set_names eo (ses_names s) (ses_state s)) p submission of
                    (_, Inl _) \<Rightarrow> None
                  | (st, Inr (action, outcome)) \<Rightarrow> Some (p, action, st, outcome))))
      | _ \<Rightarrow> None)"

definition recorded ::
  "'x engine_ops \<Rightarrow> (string \<Rightarrow> 'x option) option \<Rightarrow> 'x game_session \<Rightarrow> 'x session_op \<Rightarrow> player_id option" where
  "recorded eo db s op =
     (case accepted_action eo db s op of
        None \<Rightarrow> None
      | Some (p, action, st, outcome) \<Rightarrow> if \<not> is_actor_scoped_preference eo action \<and> ao_applied outcome then Some p else None)"

text \<open>The states that a request hands to \<^verbatim>\<open>observe_transition\<close>, and whether one of them belongs to another game of the match.\<close>

definition observed ::
  "'x engine_ops \<Rightarrow> (string \<Rightarrow> 'x option) option \<Rightarrow> 'x game_session \<Rightarrow> 'x session_op \<Rightarrow> 'x game_state list" where
  "observed eo db s op =
     (case op of
        ConcedeMatch token \<Rightarrow> (case snd (handle_match_concede eo s token) of Ok (_, st, _) \<Rightarrow> [st] | _ \<Rightarrow> [])
      | RunAi \<Rightarrow> map snd (fst (snd (run_ai eo s)))
      | _ \<Rightarrow> (case accepted_action eo db s op of None \<Rightarrow> [] | Some (p, action, st, outcome) \<Rightarrow> [st]))"

definition leaves_game ::
  "'x engine_ops \<Rightarrow> (string \<Rightarrow> 'x option) option \<Rightarrow> 'x game_session \<Rightarrow> 'x session_op \<Rightarrow> bool" where
  "leaves_game eo db s op = list_ex (\<lambda>st. gs_game_number st \<noteq> ses_game_number s) (observed eo db s op)"

lemma history_observe [simp]:
  "ses_history (observe_transition evs st s) = (if gs_game_number st = ses_game_number s then ses_history s else [])"
  "ses_game_number (observe_transition evs st s) = gs_game_number st"
  by (simp_all add: observe_transition_def Let_def)

lemma history_observe_ai:
  "ses_history (observe_ai rs s) = (if list_ex (\<lambda>st. gs_game_number st \<noteq> ses_game_number s) (map snd rs) then [] else ses_history s)"
  unfolding observe_ai_def by (induction rs arbitrary: s) (auto simp: split_beta list_ex_iff)

lemma push_game_number [simp]: "ses_history (push_takeback_state p st s) = push_bounded MAX_TAKEBACK_HISTORY (p, st) (ses_history s)"
  by (simp add: push_takeback_state_def)

text \<open>The ring of a session after a request: emptied when the game ends, longer by what is recorded, otherwise unchanged.\<close>

lemma history_step:
  assumes "snd (session_step eo db s a) \<noteq> Some TakebackApproved"
  shows "ses_history (fst (session_step eo db s a)) =
    (if leaves_game eo db s (snd a) then []
     else case recorded eo db s (snd a) of None \<Rightarrow> ses_history s | Some p \<Rightarrow> push_bounded MAX_TAKEBACK_HISTORY (p, ses_state s) (ses_history s))"
proof (cases "vote_op (snd a)")
  case True
  let ?s' = "fst (session_step eo db s a)"
  have "ses_history ?s' = ses_history (?s'\<lparr>ses_pending := ses_pending s\<rparr>)" by simp
  also have "\<dots> = ses_history s" by (simp only: undecided_vote_keeps [OF True prod.collapse [symmetric] assms])
  finally show ?thesis using True
    by (cases "snd a") (simp_all add: leaves_game_def observed_def recorded_def accepted_action_def)
next
  case False
  obtain n op where a: "a = (n, op)" by (cases a)
  show ?thesis
  proof (cases op)
    case (ConcedeMatch token)
    then show ?thesis
      by (auto simp: a leaves_game_def observed_def recorded_def accepted_action_def handle_match_concede_def Let_def
          split: option.split sum.split prod.split)
  next
    case RunAi
    then show ?thesis
      by (auto simp: a leaves_game_def observed_def recorded_def accepted_action_def run_ai_def Let_def split_beta history_observe_ai
          split: option.split)
  qed (use False in \<open>auto simp: a leaves_game_def observed_def recorded_def accepted_action_def handle_action_def handle_interaction_def
      after_transition_def Let_def split_beta split: option.split sum.split\<close>)
qed

lemma length_push_bounded: "length xs \<le> b \<Longrightarrow> 0 < b \<Longrightarrow> length (push_bounded b x xs) \<le> b"
  by (auto simp: push_bounded_def)

lemma ring_bounded: "ses_history s0 = [] \<Longrightarrow> length (ses_history (run_session eo db s0 as)) \<le> MAX_TAKEBACK_HISTORY"
proof (induction "as" rule: rev_induct)
  case (snoc a "as")
  then have le: "length (ses_history (run_session eo db s0 as)) \<le> MAX_TAKEBACK_HISTORY" by simp
  show ?case
  proof (cases "snd (session_step eo db (run_session eo db s0 as) a) = Some TakebackApproved")
    case True
    then have "vote_op (snd a)" using play_step(3) [of a, where eo = eo and db = db and s = "run_session eo db s0 as"] by fastforce
    then show ?thesis
      by (rule vote_step_cases [OF _ prod.collapse [symmetric], of _ eo db "run_session eo db s0 as"])
        (use True le in \<open>auto simp: apply_rollback_def Let_def\<close>)
  next
    case False
    with le show ?thesis
      by (auto simp: history_step MAX_TAKEBACK_HISTORY_def length_push_bounded split: option.split)
  qed
qed simp

text \<open>Later activity: without an approved take-back and without a record of the player; how many records of others it makes; and
  whether the game ends in it.\<close>

fun undisturbed ::
  "'x engine_ops \<Rightarrow> (string \<Rightarrow> 'x option) option \<Rightarrow> player_id \<Rightarrow> 'x game_session \<Rightarrow> (u64 \<times> 'x session_op) list \<Rightarrow> bool" where
  "undisturbed eo db p s [] = True"
| "undisturbed eo db p s (b # bs) =
     (snd (session_step eo db s b) \<noteq> Some TakebackApproved \<and> recorded eo db s (snd b) \<noteq> Some p
      \<and> undisturbed eo db p (fst (session_step eo db s b)) bs)"

fun records :: "'x engine_ops \<Rightarrow> (string \<Rightarrow> 'x option) option \<Rightarrow> 'x game_session \<Rightarrow> (u64 \<times> 'x session_op) list \<Rightarrow> nat" where
  "records eo db s [] = 0"
| "records eo db s (b # bs) = (if recorded eo db s (snd b) = None then 0 else 1) + records eo db (fst (session_step eo db s b)) bs"

fun game_ends :: "'x engine_ops \<Rightarrow> (string \<Rightarrow> 'x option) option \<Rightarrow> 'x game_session \<Rightarrow> (u64 \<times> 'x session_op) list \<Rightarrow> bool" where
  "game_ends eo db s [] = False"
| "game_ends eo db s (b # bs) = (leaves_game eo db s (snd b) \<or> game_ends eo db (fst (session_step eo db s b)) bs)"

definition last_n :: "nat \<Rightarrow> 'a list \<Rightarrow> 'a list" where
  "last_n n xs = drop (length xs - n) xs"

lemma last_n_short [simp]: "length xs \<le> n \<Longrightarrow> last_n n xs = xs"
  by (simp add: last_n_def)

lemma last_n_push: "length xs \<le> b \<Longrightarrow> 0 < b \<Longrightarrow> push_bounded b x xs = last_n b (xs @ [x])"
  by (auto simp: push_bounded_def last_n_def)

lemma last_n_again: "last_n b (last_n b xs @ ys) = last_n b (xs @ ys)"
  by (cases "length xs \<le> b") (auto simp: last_n_def add.commute)

lemma no_own_entry_run:
  assumes "undisturbed eo db p s bs" and "\<forall>x\<in>set (ses_history s). fst x \<noteq> p"
  shows "\<forall>x\<in>set (ses_history (run_session eo db s bs)). fst x \<noteq> p"
  using assms
proof (induction bs arbitrary: s)
  case (Cons b bs)
  then have "\<forall>x\<in>set (ses_history (fst (session_step eo db s b))). fst x \<noteq> p"
    by (auto simp: history_step push_bounded_def dest: in_set_dropD split: option.split if_splits)
  from Cons.IH [OF _ this] Cons.prems(1) show ?case by simp
qed simp

lemma game_end_forgets:
  assumes "undisturbed eo db p s bs" and "game_ends eo db s bs"
  shows "\<forall>x\<in>set (ses_history (run_session eo db s bs)). fst x \<noteq> p"
  using assms
proof (induction bs arbitrary: s)
  case (Cons b bs)
  show ?case
  proof (cases "leaves_game eo db s (snd b)")
    case True
    with Cons.prems(1) have "ses_history (fst (session_step eo db s b)) = []" by (simp add: history_step)
    with Cons.prems(1) no_own_entry_run [of eo db p "fst (session_step eo db s b)" bs] show ?thesis by simp
  next
    case False
    with Cons.IH [of "fst (session_step eo db s b)"] Cons.prems show ?thesis by simp
  qed
qed simp

lemma ring_run:
  assumes "undisturbed eo db p s bs" and "\<not> game_ends eo db s bs" and "length (ses_history s) \<le> MAX_TAKEBACK_HISTORY"
  shows "\<exists>ps. ses_history (run_session eo db s bs) = last_n MAX_TAKEBACK_HISTORY (ses_history s @ ps)
    \<and> length ps = records eo db s bs \<and> (\<forall>x\<in>set ps. fst x \<noteq> p)"
  using assms
proof (induction bs arbitrary: s)
  case Nil
  then show ?case by (intro exI [of _ "[]"]) simp
next
  case (Cons b bs)
  let ?s' = "fst (session_step eo db s b)"
  define new where "new = (case recorded eo db s (snd b) of None \<Rightarrow> [] | Some q \<Rightarrow> [(q, ses_state s)])"
  have step: "ses_history ?s' = last_n MAX_TAKEBACK_HISTORY (ses_history s @ new)" "length (ses_history ?s') \<le> MAX_TAKEBACK_HISTORY"
    using Cons.prems by (auto simp: history_step new_def last_n_push [symmetric] MAX_TAKEBACK_HISTORY_def length_push_bounded split: option.split)
  from Cons.IH [OF _ _ step(2)] Cons.prems(1,2) obtain ps
    where ps: "ses_history (run_session eo db ?s' bs) = last_n MAX_TAKEBACK_HISTORY (ses_history ?s' @ ps)"
      "length ps = records eo db ?s' bs" "\<forall>x\<in>set ps. fst x \<noteq> p" by auto
  have "\<forall>x\<in>set new. fst x \<noteq> p" "length new = (if recorded eo db s (snd b) = None then 0 else 1)"
    using Cons.prems(1) by (auto simp: new_def split: option.splits)
  with ps show ?case unfolding step(1) last_n_again by (intro exI [of _ "new @ ps"]) auto
qed

lemma rposition_append:
  "rposition P (xs @ ys) = (case rposition P ys of Some i \<Rightarrow> Some (length xs + i) | None \<Rightarrow> rposition P xs)"
  by (induction xs) (auto split: option.split)

lemma rposition_None: "rposition P xs = None \<longleftrightarrow> (\<forall>x\<in>set xs. \<not> P x)"
  by (induction xs) (auto split: option.split)

text \<open>The last own entry of a bounded ring, when nothing of the player was added after it.\<close>

lemma last_own_entry:
  assumes "\<forall>x\<in>set rest. fst x \<noteq> p" and "length rest < b" and "length H \<le> b" and "ring = last_n b (H @ [(p, g)] @ rest)"
    and "len = min (length H) (b - Suc (length rest))"
  shows "rposition (\<lambda>(actor, _). actor = p) ring = Some len" and "ring ! len = (p, g)" and "suffix (take len ring) H" and "length (take len ring) = len"
proof -
  have "ring = drop (length H - len) H @ [(p, g)] @ rest" using assms(2-5) by (auto simp: last_n_def min_def)
  moreover have "length (drop (length H - len) H) = len" using assms(5) by simp
  moreover have "rposition (\<lambda>(actor, _). actor = p) rest = None" using assms(1) by (auto simp: rposition_None)
  ultimately show "rposition (\<lambda>(actor, _). actor = p) ring = Some len" "ring ! len = (p, g)" "suffix (take len ring) H" "length (take len ring) = len"
    by (simp_all add: rposition_append nth_append suffix_drop)
qed

lemma request_accepted:
  assumes "takeback_target eo s p tgt = Ok (g, len)" and "ses_fault s = None" and "ses_pending s = None" and "p \<in> set (human_seats_of s)"
  shows "request_takeback eo n s p tgt =
    (if set (human_seats_of s) = {p}
     then (apply_rollback eo n \<lparr>requested_by = p, target_state = g, approvals = {p}, history_truncate_len = len\<rparr>
             (s\<lparr>ses_pending := Some \<lparr>requested_by = p, target_state = g, approvals = {p}, history_truncate_len = len\<rparr>\<rparr>), Ok TakebackApproved)
     else (s\<lparr>ses_pending := Some \<lparr>requested_by = p, target_state = g, approvals = {p}, history_truncate_len = len\<rparr>\<rparr>, Ok TakebackPending))"
proof -
  have "human_seats_of (s\<lparr>ses_pending := x\<rparr>) = human_seats_of s" for x by (simp add: human_seats_of_def)
  moreover have "set (human_seats_of s) \<subseteq> {p} \<longleftrightarrow> set (human_seats_of s) = {p}" using assms(4) by blast
  ultimately show ?thesis using assms by (simp add: request_takeback_def or_pending_def try_resolve_eq)
qed


text \<open>The other player acts, and the player tries something that is refused.\<close>

definition toy_game :: "nat game_session" where
  "toy_game = toy_session SharedHosting 2"

definition toy_later :: "(u64 \<times> nat session_op) list" where
  "toy_later = [(1, PlayAction ''b'' (OtherAction 3)), (2, PlayAction ''a'' (DebugOther 0))]"

lemma toy_facts:
  "recorded toy_engine None toy_game (PlayAction ''a'' (OtherAction 5)) = Some 0"
  "undisturbed toy_engine None 0 (fst (session_step toy_engine None toy_game (0, PlayAction ''a'' (OtherAction 5)))) toy_later"
  "records toy_engine None (fst (session_step toy_engine None toy_game (0, PlayAction ''a'' (OtherAction 5)))) toy_later = 1"
  "\<not> game_ends toy_engine None toy_game ((0, PlayAction ''a'' (OtherAction 5)) # toy_later)"
  by code_simp+


end
