(* ===== verification/Takeback_Rings.thy ===== *)
theory Takeback_Rings
  imports Takeback_Histories
begin

text \<open>
  The two rings of snapshots of a game session as an invariant. In every match they are bounded and hold snapshots of one game number. As
  long as the session is in the game of the match in which it started they are also in the order of the turns, so that the turns offered for
  rewinding are the turns that are restored (\<open>turn_rewind_sound\<close>). Between the games of a match the number of the next game is already in force while
  the turn is still the last one of the game that ended; the theory ends with what this does to the offers of the next game
  (\<open>rewind_offers_finished_game\<close>).
\<close>

subsection \<open>The engine and the rings\<close>

text \<open>
  What the engine does to turns and games. Numbers of games do not go back; a game that ends with another one to follow advances
  the number (which saturates at 255) and enters the phase between the games; within a game the turn number never goes back, and a batch that announces the turn it
  ends in started a new turn (the engine only increments turns; they are taken not to reach \<open>2 ^ 32\<close>). Nothing is said about the turn when the next game starts: it is set to 1. Rejections and restored
  capabilities leave turn, game and phase as they are, and the AI driver reports its transitions in order.
\<close>

abbreviation between_games :: "'x game_state \<Rightarrow> bool" where
  "between_games st \<equiv> gs_match_phase st = PhaseBetweenGames"

definition same_turn :: "'x game_state \<Rightarrow> 'x game_state \<Rightarrow> bool" where
  "same_turn st st' \<longleftrightarrow> gs_turn_number st' = gs_turn_number st \<and> gs_game_number st' = gs_game_number st
     \<and> gs_match_phase st' = gs_match_phase st"

definition move_ok :: "'x game_state \<Rightarrow> 'x game_event list \<Rightarrow> 'x game_state \<Rightarrow> bool" where
  "move_ok st evs st' \<longleftrightarrow> gs_game_number st \<le> gs_game_number st'
     \<and> (\<not> between_games st \<longrightarrow> between_games st' \<longrightarrow> gs_game_number st < gs_game_number st' \<or> gs_game_number st = - 1)
     \<and> (\<not> between_games st \<longrightarrow> \<not> between_games st' \<longrightarrow> gs_game_number st' = gs_game_number st \<longrightarrow>
          gs_turn_number st \<le> gs_turn_number st'
          \<and> (last_started evs = Some (gs_turn_number st') \<longrightarrow> gs_turn_number st < gs_turn_number st'))"

fun moves_ok :: "'x game_state \<Rightarrow> ('x game_event list \<times> 'x game_state) list \<Rightarrow> 'x game_state \<Rightarrow> bool" where
  "moves_ok st [] st' = same_turn st st'"
| "moves_ok st ((evs, st1) # rs) st' = (move_ok st evs st1 \<and> moves_ok st1 rs st')"

definition answer_ok :: "'x game_state \<Rightarrow> 'x game_state \<times> ('e + 'd) \<Rightarrow> ('d \<Rightarrow> 'x game_event list) \<Rightarrow> bool" where
  "answer_ok st r events_of = (case snd r of Inl _ \<Rightarrow> same_turn st (fst r) | Inr d \<Rightarrow> move_ok st (events_of d) (fst r))"

definition match_engine :: "'x engine_ops \<Rightarrow> bool" where
  "match_engine eo \<longleftrightarrow>
     (\<forall>names st. same_turn st (op_set_names eo names st))
     \<and> (\<forall>st p source action. answer_ok st (engine_applies eo st p source action) ao_events)
     \<and> (\<forall>st p submission. answer_ok st (op_submit eo st p submission) (\<lambda>d. ao_events (snd d)))
     \<and> (\<forall>st p. answer_ok st (op_forfeit eo st p) (\<lambda>evs. evs))
     \<and> (\<forall>st ai cache. case op_run_ai eo st ai cache of (st', rs, _) \<Rightarrow> moves_ok st rs st')
     \<and> (\<forall>st. same_turn st (op_rekey eo st)) \<and> (\<forall>n st. same_turn st (op_bind eo n st))"

text \<open>The rings as seen from a state of the match, in any game, and in addition in the game \<open>g0\<close> in which the session started.\<close>

definition rings_bounded :: "'x game_state \<Rightarrow> 'x game_session \<Rightarrow> bool" where
  "rings_bounded st s \<longleftrightarrow> ses_game_number s = gs_game_number st
     \<and> length (ses_history s) \<le> MAX_TAKEBACK_HISTORY \<and> length (ses_turns s) \<le> MAX_TURN_REWIND_HISTORY
     \<and> (\<forall>x\<in>set (ses_history s). gs_game_number (snd x) = gs_game_number st)
     \<and> (\<forall>x\<in>set (ses_turns s). gs_game_number x = gs_game_number st)
     \<and> (ses_hosting s = SharedHosting \<longrightarrow> ses_turns s = [])"

definition rings_ordered :: "'x game_state \<Rightarrow> 'x game_session \<Rightarrow> bool" where
  "rings_ordered st s \<longleftrightarrow> \<not> between_games st
     \<and> sorted_wrt (\<lambda>x y. gs_turn_number (snd x) \<le> gs_turn_number (snd y)) (ses_history s)
     \<and> (\<forall>x\<in>set (ses_history s). gs_turn_number (snd x) \<le> gs_turn_number st \<and> \<not> between_games (snd x))
     \<and> sorted_wrt (\<lambda>x y. gs_turn_number x < gs_turn_number y) (ses_turns s)
     \<and> (\<forall>x\<in>set (ses_turns s). gs_turn_number x \<le> gs_turn_number st \<and> \<not> between_games x)"

definition rings_at :: "u8 \<Rightarrow> 'x game_state \<Rightarrow> 'x game_session \<Rightarrow> bool" where
  "rings_at g0 st s \<longleftrightarrow> rings_bounded st s \<and> g0 \<noteq> - 1 \<and> g0 \<le> gs_game_number st \<and> (gs_game_number st = g0 \<longrightarrow> rings_ordered st s)"

lemmas rings_defs = rings_at_def rings_bounded_def rings_ordered_def

text \<open>A pending request names a snapshot of the rings and the part of the history before it.\<close>

definition pending_ok :: "'x engine_ops \<Rightarrow> 'x game_session \<Rightarrow> bool" where
  "pending_ok eo s \<longleftrightarrow> (case ses_pending s of None \<Rightarrow> True | Some pd \<Rightarrow>
     \<exists>p tgt. takeback_target eo s p tgt = Ok (target_state pd, history_truncate_len pd))"

definition rings_ok :: "'x engine_ops \<Rightarrow> u8 \<Rightarrow> 'x game_session \<Rightarrow> bool" where
  "rings_ok eo g0 s \<longleftrightarrow> rings_at g0 (ses_state s) s \<and> pending_ok eo s"

lemma rings_at_cong:
  "ses_history s' = ses_history s \<Longrightarrow> ses_turns s' = ses_turns s \<Longrightarrow> ses_game_number s' = ses_game_number s \<Longrightarrow> ses_hosting s' = ses_hosting s \<Longrightarrow>
   same_turn st st' \<Longrightarrow> rings_at g0 st s \<Longrightarrow> rings_at g0 st' s'"
  by (simp add: rings_defs same_turn_def)

lemma rings_advance [simp]: "rings_at g0 st (advance_state_revision s) = rings_at g0 st s"
  by (simp add: rings_defs)

lemma rings_fault [simp]: "rings_at g0 st (fst (record_ai_driver_fault c s)) = rings_at g0 st s"
  by (simp add: rings_defs)

lemma sorted_wrt_push_bounded:
  "sorted_wrt R xs \<Longrightarrow> \<forall>y\<in>set xs. R y x \<Longrightarrow> sorted_wrt R (push_bounded b x xs)"
  by (auto simp: push_bounded_def sorted_wrt_append intro: sorted_wrt_drop dest: in_set_dropD)

lemma set_push_bounded: "y \<in> set (push_bounded b x xs) \<Longrightarrow> y = x \<or> y \<in> set xs"
  by (auto simp: push_bounded_def dest: in_set_dropD split: if_splits)

lemma rings_push:
  assumes "rings_at g0 st s"
  shows "rings_at g0 st (push_takeback_state p st s)"
  using assms
  by (auto simp: rings_defs MAX_TAKEBACK_HISTORY_def length_push_bounded intro!: sorted_wrt_push_bounded dest!: set_push_bounded)

lemma rings_observe:
  assumes "rings_at g0 st s" and "move_ok st evs st'"
  shows "rings_at g0 st' (observe_transition evs st' s)"
proof -
  define r where "r = (if gs_game_number st' \<noteq> ses_game_number s
    then s\<lparr>ses_game_number := gs_game_number st', ses_history := [], ses_turns := []\<rparr> else s)"
  have "rings_at g0 st' r \<and> (gs_game_number st' = g0 \<and> last_started evs = Some (gs_turn_number st')
      \<longrightarrow> (\<forall>x\<in>set (ses_turns r). gs_turn_number x < gs_turn_number st'))"
  proof (cases "gs_game_number st' = gs_game_number st")
    case same: True
    show ?thesis
    proof (cases "gs_game_number st = g0")
      case True
      with assms(1) have ord: "rings_ordered st s" and g0: "g0 \<noteq> - 1" by (simp_all add: rings_at_def)
      with assms(2) same True have between: "\<not> between_games st'" "\<not> between_games st" by (auto simp: move_ok_def rings_ordered_def)
      with assms(2) same have le: "gs_turn_number st \<le> gs_turn_number st'"
        and lt: "last_started evs = Some (gs_turn_number st') \<Longrightarrow> gs_turn_number st < gs_turn_number st'" by (auto simp: move_ok_def)
      have "\<forall>x\<in>set (ses_history s). gs_turn_number (snd x) \<le> gs_turn_number st'" "\<forall>x\<in>set (ses_turns s). gs_turn_number x \<le> gs_turn_number st'"
        "last_started evs = Some (gs_turn_number st') \<Longrightarrow> \<forall>x\<in>set (ses_turns s). gs_turn_number x < gs_turn_number st'"
        using ord le lt unfolding rings_ordered_def by (meson order_trans le_less_trans)+
      with assms(1) same between ord show ?thesis by (simp add: rings_at_def rings_bounded_def rings_ordered_def r_def)
    qed (use assms(1) same in \<open>auto simp: rings_at_def rings_bounded_def r_def\<close>)
  next
    case False
    with assms(2) have "gs_game_number st < gs_game_number st'" by (simp add: move_ok_def order_less_le)
    with assms(1) have "g0 < gs_game_number st'" unfolding rings_at_def by (meson le_less_trans)
    with False assms(1) show ?thesis by (auto simp: rings_at_def rings_bounded_def r_def)
  qed
  then have keep: "rings_at g0 st' r"
    and newer: "gs_game_number st' = g0 \<Longrightarrow> last_started evs = Some (gs_turn_number st') \<Longrightarrow> \<forall>x\<in>set (ses_turns r). gs_turn_number x < gs_turn_number st'"
    by blast+
  have observed: "observe_transition evs st' s = r\<lparr>ses_turns := record_turn_rewind_point (ses_turns r) (ses_hosting r) evs st'\<rparr>"
    by (simp add: observe_transition_def Let_def r_def)
  show ?thesis
  proof (cases "last_started evs = Some (gs_turn_number st') \<and> ses_hosting r = SingleUserHosting")
    case True
    then have "record_turn_rewind_point (ses_turns r) (ses_hosting r) evs st' = push_bounded MAX_TURN_REWIND_HISTORY st' (ses_turns r)"
      by (simp add: record_turn_rewind_point_def offers_turn_rewind_def)
    moreover have "gs_game_number st' = g0 \<Longrightarrow>
        sorted_wrt (\<lambda>x y. gs_turn_number x < gs_turn_number y) (push_bounded MAX_TURN_REWIND_HISTORY st' (ses_turns r))"
      using keep newer True by (intro sorted_wrt_push_bounded) (simp_all add: rings_at_def rings_ordered_def)
    moreover have "length (push_bounded MAX_TURN_REWIND_HISTORY st' (ses_turns r)) \<le> MAX_TURN_REWIND_HISTORY"
      using keep by (intro length_push_bounded) (simp_all add: rings_at_def rings_bounded_def MAX_TURN_REWIND_HISTORY_def)
    ultimately show ?thesis using keep True by (auto simp: observed rings_defs dest!: set_push_bounded)
  next
    case False
    then have "record_turn_rewind_point (ses_turns r) (ses_hosting r) evs st' = ses_turns r"
      by (cases "ses_hosting r") (auto simp: record_turn_rewind_point_def offers_turn_rewind_def split: option.split)
    with keep show ?thesis by (simp add: observed)
  qed
qed

lemma rposition_Some: "rposition P xs = Some i \<Longrightarrow> i < length xs \<and> P (xs ! i)"
  by (induction xs arbitrary: i) (auto split: option.splits if_splits)

lemma sorted_wrt_before: "sorted_wrt R xs \<Longrightarrow> i < length xs \<Longrightarrow> \<forall>x\<in>set (take i xs). R x (xs ! i)"
  by (auto simp: in_set_conv_nth sorted_wrt_iff_nth_less)

text \<open>On a history in the order of turns the binary search finds where a turn begins.\<close>

lemma partition_point_prefix:
  assumes "partition_point_ok eo" and "\<forall>y\<in>set (dropWhile P xs). \<not> P y"
  shows "take (partition_point eo P xs) xs = filter P xs"
proof -
  have "map P (takeWhile P xs) = replicate (length (takeWhile P xs)) True"
    by (rule map_replicate_const [of True, THEN subst]) (auto dest: set_takeWhileD)
  moreover have "map P (dropWhile P xs) = replicate (length (dropWhile P xs)) False"
    using assms(2) by (intro replicate_eqI) auto
  ultimately have "map P xs = replicate (length (takeWhile P xs)) True @ replicate (length (dropWhile P xs)) False"
    by (metis map_append takeWhile_dropWhile_id)
  then have "partition_point eo P xs = length (takeWhile P xs)"
    using assms(1) by (simp add: partition_point_def partition_point_ok_def)
  moreover have "filter P xs = takeWhile P xs"
  proof -
    have "filter P xs = filter P (takeWhile P xs) @ filter P (dropWhile P xs)" by (metis filter_append takeWhile_dropWhile_id)
    moreover have "filter P (takeWhile P xs) = takeWhile P xs" by (auto simp: filter_id_conv dest: set_takeWhileD)
    moreover have "filter P (dropWhile P xs) = []" using assms(2) by (simp add: filter_empty_conv)
    ultimately show ?thesis by simp
  qed
  ultimately show ?thesis by (simp add: takeWhile_eq_take [symmetric])
qed

lemma sorted_turns_partitioned:
  assumes "sorted_wrt (\<lambda>x y. gs_turn_number (snd x) \<le> gs_turn_number (snd y)) h"
  shows "\<forall>y\<in>set (dropWhile (\<lambda>(_, st). gs_turn_number st < n) h). \<not> (case y of (_, st) \<Rightarrow> gs_turn_number st < n)"
proof
  fix y
  let ?d = "dropWhile (\<lambda>(_, st). gs_turn_number st < n) h"
  assume y: "y \<in> set ?d"
  then have "?d \<noteq> []" by (metis empty_iff list.set(1))
  then have "\<not> gs_turn_number (snd (hd ?d)) < n" using hd_dropWhile by (metis (mono_tags, lifting) split_beta)
  moreover have "gs_turn_number (snd (hd ?d)) \<le> gs_turn_number (snd y)"
    using y sorted_wrt_dropWhile [OF assms, of "\<lambda>(_, st). gs_turn_number st < n"] by (cases ?d) auto
  ultimately show "\<not> (case y of (_, st) \<Rightarrow> gs_turn_number st < n)" by (simp add: split_beta)
qed

text \<open>What a selected snapshot is, and what is left of the history before it.\<close>

lemma takeback_target_game:
  assumes "rings_at g0 st s" and "takeback_target eo s p tgt = Ok (g, len)"
  shows "gs_game_number g = gs_game_number st"
proof (cases tgt)
  case LastAction
  with assms(2) have i: "rposition (\<lambda>(actor, _). actor = p) (ses_history s) = Some len" "g = snd (ses_history s ! len)"
    by (auto simp: takeback_target_def split: option.splits)
  from rposition_Some [OF i(1)] have "ses_history s ! len \<in> set (ses_history s)" by simp
  with assms(1) i(2) show ?thesis by (simp add: rings_at_def rings_bounded_def)
next
  case (TurnStart n)
  with assms show ?thesis
    by (auto simp: takeback_target_def rings_defs find_Some_iff split: option.splits if_splits)
qed

lemma takeback_target_turn:
  "takeback_target eo s p (TurnStart n) = Ok (g, len) \<Longrightarrow>
     gs_turn_number g = n \<and> g \<in> set (ses_turns s) \<and> len = partition_point eo (\<lambda>(_, st). gs_turn_number st < n) (ses_history s)"
  by (auto simp: takeback_target_def find_Some_iff split: option.splits if_splits)

lemma takeback_target_ok:
  assumes "partition_point_ok eo" and "rings_at g0 st s" and "gs_game_number st = g0" and "takeback_target eo s p tgt = Ok (g, len)"
  shows "gs_turn_number g \<le> gs_turn_number st" and "\<not> between_games g"
    and "\<forall>x\<in>set (take len (ses_history s)). gs_turn_number (snd x) \<le> gs_turn_number g"
    and "tgt = TurnStart n \<Longrightarrow> take len (ses_history s) = filter (\<lambda>(_, st). gs_turn_number st < n) (ses_history s)"
proof -
  from assms(2,3) have ord: "rings_ordered st s" by (simp add: rings_at_def)
  have "gs_turn_number g \<le> gs_turn_number st \<and> \<not> between_games g
    \<and> (\<forall>x\<in>set (take len (ses_history s)). gs_turn_number (snd x) \<le> gs_turn_number g)
    \<and> (\<forall>n. tgt = TurnStart n \<longrightarrow> take len (ses_history s) = filter (\<lambda>(_, st). gs_turn_number st < n) (ses_history s))"
  proof (cases tgt)
    case LastAction
    with assms(4) have i: "rposition (\<lambda>(actor, _). actor = p) (ses_history s) = Some len" "g = snd (ses_history s ! len)"
      by (auto simp: takeback_target_def split: option.splits)
    from rposition_Some [OF i(1)] have len: "len < length (ses_history s)" by simp
    with ord i(2) LastAction sorted_wrt_before [of _ "ses_history s" len] show ?thesis
      by (auto simp: rings_ordered_def)
  next
    case (TurnStart n)
    note g = takeback_target_turn [OF assms(4) [unfolded TurnStart]]
    from ord have "sorted_wrt (\<lambda>x y. gs_turn_number (snd x) \<le> gs_turn_number (snd y)) (ses_history s)" by (simp add: rings_ordered_def)
    from partition_point_prefix [OF assms(1) sorted_turns_partitioned [OF this], of n] g
    have cut: "take len (ses_history s) = filter (\<lambda>(_, st). gs_turn_number st < n) (ses_history s)" by simp
    then have "\<forall>x\<in>set (take len (ses_history s)). gs_turn_number (snd x) \<le> gs_turn_number g" using g by auto
    with g cut ord TurnStart show ?thesis by (auto simp: rings_ordered_def)
  qed
  then show "gs_turn_number g \<le> gs_turn_number st" "\<not> between_games g"
    "\<forall>x\<in>set (take len (ses_history s)). gs_turn_number (snd x) \<le> gs_turn_number g"
    "tgt = TurnStart n \<Longrightarrow> take len (ses_history s) = filter (\<lambda>(_, st). gs_turn_number st < n) (ses_history s)" by blast+
qed

lemma target_cong:
  "ses_history s' = ses_history s \<Longrightarrow> ses_turns s' = ses_turns s \<Longrightarrow> ses_hosting s' = ses_hosting s \<Longrightarrow> takeback_target eo s' p tgt = takeback_target eo s p tgt"
  by (simp add: takeback_target_def split: rewind_target.split option.split)

lemma same_turn_refl [simp]: "same_turn st st"
  by (simp add: same_turn_def)

lemma restored_same_turn: "match_engine eo \<Longrightarrow> same_turn g (restored eo n g)"
  by (simp add: match_engine_def restored_def same_turn_def)

lemma rings_rollback:
  assumes "match_engine eo" and "partition_point_ok eo" and "rings_at g0 (ses_state s) s"
    and "takeback_target eo s p tgt = Ok (target_state pd, history_truncate_len pd)"
    and "ses_history s' = ses_history s" and "ses_turns s' = ses_turns s" and "ses_game_number s' = ses_game_number s" and "ses_hosting s' = ses_hosting s"
  shows "rings_at g0 (restored eo n (target_state pd)) (apply_rollback eo n pd s')"
proof -
  note same = restored_same_turn [OF assms(1), of "target_state pd" n] and game = takeback_target_game [OF assms(3,4)]
  have "length (filter P (ses_turns s)) \<le> MAX_TURN_REWIND_HISTORY" for P
    using assms(3) by (intro le_trans [OF length_filter_le]) (simp add: rings_defs)
  then have "rings_bounded (restored eo n (target_state pd)) (apply_rollback eo n pd s')"
    using assms(3,5-8) same game
    by (auto simp: rings_at_def rings_bounded_def apply_rollback_def Let_def same_turn_def dest: in_set_takeD)
  moreover have "rings_ordered (restored eo n (target_state pd)) (apply_rollback eo n pd s')" if g0: "gs_game_number (ses_state s) = g0"
  proof -
    from assms(3) g0 have "rings_ordered (ses_state s) s" by (simp add: rings_at_def)
    then show ?thesis
      using assms(5-8) takeback_target_ok(1-3) [OF assms(2,3) g0 assms(4)] same
      by (auto simp: rings_ordered_def apply_rollback_def Let_def same_turn_def sorted_wrt_take sorted_wrt_filter dest: in_set_takeD)
  qed
  ultimately show ?thesis using assms(3) same game by (auto simp: rings_at_def same_turn_def)
qed

lemma rings_after:
  assumes "rings_at g0 (ses_state s) s" and "move_ok (ses_state s) evs st" and "snap = None \<or> snap = Some (ses_state s)"
  shows "rings_at g0 st (after_transition p snap evs (s\<lparr>ses_state := st\<rparr>))"
proof -
  have r: "rings_at g0 (ses_state s) (s\<lparr>ses_state := st\<rparr>)" using rings_at_cong [OF _ _ _ _ same_turn_refl assms(1)] by simp
  from assms(3) show ?thesis
  proof
    assume "snap = None"
    with rings_observe [OF r assms(2)] show ?thesis by (simp add: after_transition_def)
  next
    assume "snap = Some (ses_state s)"
    with rings_observe [OF rings_push [OF r] assms(2)] show ?thesis by (simp add: after_transition_def Let_def)
  qed
qed

lemma rings_observe_ai: "rings_at g0 st s \<Longrightarrow> moves_ok st rs st' \<Longrightarrow> rings_at g0 st' (observe_ai rs s)"
proof (induction rs arbitrary: st s)
  case Nil
  then show ?case using rings_at_cong [OF refl refl refl refl _ Nil(1)] by (simp add: observe_ai_def)
next
  case (Cons r rs)
  obtain evs st1 where r: "r = (evs, st1)" by (cases r)
  with Cons.prems have "rings_at g0 st1 (observe_transition evs st1 (advance_state_revision s))" by (intro rings_observe [of _ st]) simp_all
  from Cons.IH [OF this] Cons.prems(2) r show ?case by (simp add: observe_ai_def)
qed

lemma move_same: "same_turn st st1 \<Longrightarrow> move_ok st1 evs st2 \<Longrightarrow> move_ok st evs st2"
  by (simp add: same_turn_def move_ok_def)

lemma same_turn_trans: "same_turn a b \<Longrightarrow> same_turn b c \<Longrightarrow> same_turn a c"
  by (simp add: same_turn_def)

lemma rings_refused: "rings_at g0 (ses_state s) s \<Longrightarrow> same_turn (ses_state s) st \<Longrightarrow> rings_at g0 st (s\<lparr>ses_state := st\<rparr>)"
  by (erule rings_at_cong [rotated 5]) simp_all

lemma rings_play:
  assumes "match_engine eo" and "rings_at g0 (ses_state s) s" and "\<not> vote_op (snd a)"
  shows "rings_at g0 (ses_state (fst (session_step eo db s a))) (fst (session_step eo db s a))"
proof -
  obtain n op where a: "a = (n, op)" by (cases a)
  have names: "same_turn (ses_state s) (op_set_names eo (ses_names s) (ses_state s))" using assms(1) by (simp add: match_engine_def)
  show ?thesis
  proof (cases op)
    case (PlayAction token action)
    let ?r = "\<lambda>p source. engine_applies eo (op_set_names eo (ses_names s) (ses_state s)) p source action"
    have ans: "answer_ok (op_set_names eo (ses_names s) (ses_state s)) (?r p source) ao_events" for p source
      using assms(1) by (simp add: match_engine_def)
    have "rings_at g0 (fst (?r p source)) (s\<lparr>ses_state := fst (?r p source)\<rparr>)" if "snd (?r p source) = Inl e" for p source e
      using ans [of p source] that names by (intro rings_refused [OF assms(2)]) (auto simp: answer_ok_def intro: same_turn_trans)
    moreover have "rings_at g0 (fst (?r p source)) (after_transition p snap (ao_events d) (s\<lparr>ses_state := fst (?r p source)\<rparr>))"
      if "snd (?r p source) = Inr d" "snap = None \<or> snap = Some (ses_state s)" for p source d snap
      using ans [of p source] that names by (intro rings_after [OF assms(2)]) (auto simp: answer_ok_def intro: move_same)
    ultimately show ?thesis
      using assms(2) by (auto simp: a PlayAction handle_action_def Let_def split_beta split: sum.split)
  next
    case (Interact token submission)
    let ?r = "\<lambda>p. op_submit eo (op_set_names eo (ses_names s) (ses_state s)) p submission"
    have ans: "answer_ok (op_set_names eo (ses_names s) (ses_state s)) (?r p) (\<lambda>d. ao_events (snd d))" for p
      using assms(1) by (simp add: match_engine_def)
    have "rings_at g0 (fst (?r p)) (s\<lparr>ses_state := fst (?r p)\<rparr>)" if "snd (?r p) = Inl e" for p e
      using ans [of p] that names by (intro rings_refused [OF assms(2)]) (auto simp: answer_ok_def intro: same_turn_trans)
    moreover have "rings_at g0 (fst (?r p)) (after_transition p snap (ao_events (snd d)) (s\<lparr>ses_state := fst (?r p)\<rparr>))"
      if "snd (?r p) = Inr d" "snap = None \<or> snap = Some (ses_state s)" for p d snap
      using ans [of p] that names by (intro rings_after [OF assms(2)]) (auto simp: answer_ok_def intro: move_same)
    ultimately show ?thesis
      using assms(2) by (auto simp: a Interact handle_interaction_def Let_def split_beta split: sum.split option.split)
  next
    case (ConcedeMatch token)
    let ?r = "\<lambda>p. op_forfeit eo (ses_state s) p"
    have ans: "answer_ok (ses_state s) (?r p) (\<lambda>evs. evs)" for p using assms(1) by (simp add: match_engine_def)
    have "rings_at g0 (fst (?r p)) (s\<lparr>ses_state := fst (?r p)\<rparr>)" if "snd (?r p) = Inl e" for p e
      using ans [of p] that by (intro rings_refused [OF assms(2)]) (simp add: answer_ok_def)
    moreover have "rings_at g0 (fst (?r p)) (observe_transition evs (fst (?r p)) (advance_state_revision (s\<lparr>ses_state := fst (?r p)\<rparr>)))"
      if "snd (?r p) = Inr evs" for p evs
      using ans [of p] that rings_at_cong [OF _ _ _ _ same_turn_refl assms(2), of "s\<lparr>ses_state := fst (?r p)\<rparr>"]
      by (intro rings_observe [of _ "ses_state s"]) (simp_all add: answer_ok_def)
    ultimately show ?thesis
      using assms(2) by (auto simp: a ConcedeMatch handle_match_concede_def Let_def split: option.split prod.split sum.split) (metis fst_conv snd_conv)+
  next
    case RunAi
    let ?r = "\<lambda>c. op_run_ai eo (ses_state s) (ses_ai_seats s) c"
    have "moves_ok (ses_state s) (fst (snd (?r c))) (fst (?r c))" for c
      using assms(1) by (auto simp: match_engine_def split_beta)
    then have "rings_at g0 (fst (?r c)) (observe_ai (fst (snd (?r c))) (s\<lparr>ses_state := fst (?r c), ses_ai_session := x\<rparr>))" for c x
      using rings_at_cong [OF _ _ _ _ same_turn_refl assms(2), of "s\<lparr>ses_state := fst (?r c), ses_ai_session := x\<rparr>"]
      by (intro rings_observe_ai) simp_all
    with assms(2) show ?thesis by (auto simp: a RunAi run_ai_def Let_def split_beta split: option.split)
  qed (use assms(3) in \<open>simp_all add: a\<close>)
qed

lemma pending_ok_cong:
  assumes "ses_history s' = ses_history s" and "ses_turns s' = ses_turns s" and "ses_hosting s' = ses_hosting s" and "ses_pending s = Some pd"
    and "ses_pending s' = Some (pd\<lparr>approvals := x\<rparr>)" and "pending_ok eo s"
  shows "pending_ok eo s'"
proof -
  from assms(4,6) obtain p tgt where "takeback_target eo s p tgt = Ok (target_state pd, history_truncate_len pd)"
    by (auto simp: pending_ok_def)
  then have "takeback_target eo s' p tgt = Ok (target_state pd, history_truncate_len pd)"
    by (simp only: target_cong [OF assms(1-3)])
  with assms(5) show ?thesis by (auto simp: pending_ok_def)
qed

lemma rings_step:
  assumes "match_engine eo" and "partition_point_ok eo" and "rings_ok eo g0 s"
  shows "rings_ok eo g0 (fst (session_step eo db s a))"
proof (cases "vote_op (snd a)")
  case False
  have "pending_ok eo (fst (session_step eo db s a))"
  proof (cases "ses_pending s")
    case None
    with play_step(1) [OF False, where eo = eo and db = db and s = s] show ?thesis by (simp add: pending_ok_def)
  next
    case (Some pd)
    with play_step(2) [OF False, where eo = eo and db = db and s = s] assms(3) show ?thesis by (simp add: rings_ok_def)
  qed
  with rings_play [OF assms(1) _ False] assms(3) show ?thesis by (simp add: rings_ok_def)
next
  case True
  have rings: "rings_at g0 (ses_state s) s" using assms(3) by (simp add: rings_ok_def)
  have same: "rings_at g0 (ses_state s) (s\<lparr>ses_pending := x\<rparr>)" for x
    by (rule rings_at_cong [OF _ _ _ _ same_turn_refl rings]) simp_all
  show ?thesis
  proof (rule vote_step_cases [OF True prod.collapse [symmetric], of eo db s], goal_cases)
    case 1
    with assms(3) show ?case by simp
  next
    case (2 p tgt st len)
    have "pending_ok eo (fst (session_step eo db s a))"
      unfolding pending_ok_def using 2 target_cong [of "fst (session_step eo db s a)" s eo p tgt] by auto
    with 2 same show ?case by (simp add: rings_ok_def)
  next
    case (3 p tgt st len)
    let ?pd = "\<lparr>requested_by = p, target_state = st, approvals = {p}, history_truncate_len = len\<rparr>"
    have "rings_at g0 (restored eo (fst a) (target_state ?pd)) (apply_rollback eo (fst a) ?pd (s\<lparr>ses_pending := Some ?pd\<rparr>))"
      by (rule rings_rollback [OF assms(1,2) rings, of p tgt]) (simp_all add: 3(3))
    with 3 show ?case by (simp add: rings_ok_def pending_ok_def)
  next
    case (4 p)
    with same show ?case by (simp add: rings_ok_def pending_ok_def)
  next
    case (5 p pd)
    have "pending_ok eo (fst (session_step eo db s a))"
      by (rule pending_ok_cong [OF _ _ _ 5(2), of _ "insert p (approvals pd)"]) (use 5 assms(3) in \<open>simp_all add: rings_ok_def\<close>)
    with 5 same show ?case by (simp add: rings_ok_def)
  next
    case (6 p pd)
    then obtain q tgt where "takeback_target eo s q tgt = Ok (target_state pd, history_truncate_len pd)"
      using assms(3) by (auto simp: rings_ok_def pending_ok_def)
    with 6 rings_rollback [OF assms(1,2) rings, of q tgt "pd\<lparr>approvals := insert p (approvals pd)\<rparr>"] show ?case
      by (simp add: rings_ok_def pending_ok_def)
  next
    case 7
    with same show ?case by (simp add: rings_ok_def pending_ok_def)
  qed
qed

lemma rings_run: "match_engine eo \<Longrightarrow> partition_point_ok eo \<Longrightarrow> rings_ok eo g0 s \<Longrightarrow> rings_ok eo g0 (run_session eo db s as)"
  by (induction "as" rule: rev_induct) (simp_all add: rings_step)

lemma find_distinct_turn:
  "sorted_wrt (\<lambda>x y. gs_turn_number x < gs_turn_number y) xs \<Longrightarrow> g \<in> set xs \<Longrightarrow> List.find (\<lambda>st. gs_turn_number st = gs_turn_number g) xs = Some g"
  by (induction xs) auto

lemma offered_turn:
  assumes "opt \<in> set (rewind_options s)"
  obtains g where "g \<in> set (ses_turns s)" and "ses_hosting s = SingleUserHosting"
    and "opt = \<lparr>ro_turn_number = gs_turn_number g, ro_active_player = gs_active_player g\<rparr>"
  using assms by (auto simp: rewind_options_def offers_turn_rewind_def split: if_splits)

text \<open>Every offer can be asked for, in every game, and stays on offer when it is taken.\<close>

lemma offer_selects:
  assumes "rings_at g0 (ses_state s) s" and "opt \<in> set (rewind_options s)"
  shows "\<exists>g len. takeback_target eo s p (TurnStart (ro_turn_number opt)) = Ok (g, len) \<and> gs_turn_number g = ro_turn_number opt
    \<and> gs_game_number g = gs_game_number (ses_state s)"
proof -
  from assms(2) obtain g where g: "g \<in> set (ses_turns s)" "ses_hosting s = SingleUserHosting" "ro_turn_number opt = gs_turn_number g"
    by (rule offered_turn) simp
  then obtain h where "List.find (\<lambda>snapshot. gs_turn_number snapshot = gs_turn_number g) (ses_turns s) = Some h"
    by (cases "List.find (\<lambda>snapshot. gs_turn_number snapshot = gs_turn_number g) (ses_turns s)") (auto simp: find_None_iff)
  with g have target: "\<exists>len. takeback_target eo s p (TurnStart (ro_turn_number opt)) = Ok (h, len)"
    by (simp add: takeback_target_def offers_turn_rewind_def)
  then obtain len where len: "takeback_target eo s p (TurnStart (ro_turn_number opt)) = Ok (h, len)" by blast
  from len takeback_target_turn [OF len] takeback_target_game [OF assms(1) len] show ?thesis by blast
qed

lemma rewound_offer_stays:
  assumes "match_engine eo" and "request_takeback eo n s p (TurnStart t) = (s', Ok TakebackApproved)"
  shows "t \<in> set (map ro_turn_number (rewind_options s'))"
proof -
  from assms(2) have step: "session_step eo db s (n, RequestTakeback p (TurnStart t)) = (s', Some TakebackApproved)" for db
    by (simp add: outcome_of_def)
  show ?thesis
  proof (rule vote_step_cases [OF _ step [of None]], goal_cases)
    case (4 q tgt g len)
    then have sel: "takeback_target eo s p (TurnStart t) = Ok (g, len)" by simp
    have single: "ses_hosting s = SingleUserHosting"
      using sel by (auto simp: takeback_target_def offers_turn_rewind_def split: if_splits)
    from takeback_target_turn [OF sel] have g: "gs_turn_number g = t" "g \<in> set (ses_turns s)" by simp_all
    have "gs_turn_number (restored eo n g) = t" using restored_same_turn [OF assms(1), of g n] g(1) by (simp add: same_turn_def)
    with g single 4(6) show ?case
      by (force simp: rewind_options_def offers_turn_rewind_def apply_rollback_def Let_def)
  qed simp_all
qed

text \<open>C36. What a session offers for rewinding is what it restores, as long as the match is in the game in which the session started (all
  of a best-of-one, the first game of a best-of-three). After any history, on an engine whose turns advance within a game, the offered turns then
  ascend strictly and are not later than the current one; a request for an offered turn selects the state that opened this turn,
  labelled with its own turn and player, and keeps of the history exactly what was recorded before the turn began. In every game at most five
  turns are offered and none on a shared server, at most twelve actions are kept, all snapshots carry the number of the current game, every offer can be asked
  for, and a turn that has been rewound to is still on offer.\<close>

theorem turn_rewind_sound:
  assumes "match_engine eo" and "partition_point_ok eo" and "ses_history s0 = []" and "ses_turns s0 = []" and "ses_pending s0 = None"
    and "ses_game_number s0 = gs_game_number (ses_state s0)" and "gs_game_number (ses_state s0) \<noteq> 255" and "\<not> between_games (ses_state s0)"
    and "s = run_session eo db s0 as"
  shows "length (rewind_options s) \<le> 5 \<and> length (ses_history s) \<le> 12 \<and> (ses_hosting s = SharedHosting \<longrightarrow> rewind_options s = [])
    \<and> (\<forall>g\<in>set (ses_turns s) \<union> snd ` set (ses_history s). gs_game_number g = gs_game_number (ses_state s))
    \<and> (\<forall>opt\<in>set (rewind_options s). \<exists>g len. takeback_target eo s p (TurnStart (ro_turn_number opt)) = Ok (g, len)
        \<and> gs_turn_number g = ro_turn_number opt)
    \<and> (\<forall>t s'. request_takeback eo n s p (TurnStart t) = (s', Ok TakebackApproved) \<longrightarrow> t \<in> set (map ro_turn_number (rewind_options s')))
    \<and> (gs_game_number (ses_state s) = gs_game_number (ses_state s0) \<longrightarrow>
        sorted_wrt (<) (map ro_turn_number (rewind_options s))
        \<and> (\<forall>opt\<in>set (rewind_options s). ro_turn_number opt \<le> gs_turn_number (ses_state s)
            \<and> (\<exists>g len. takeback_target eo s p (TurnStart (ro_turn_number opt)) = Ok (g, len) \<and> g \<in> set (ses_turns s)
                \<and> gs_turn_number g = ro_turn_number opt \<and> gs_active_player g = ro_active_player opt \<and> \<not> between_games g
                \<and> take len (ses_history s) = filter (\<lambda>(_, st). gs_turn_number st < ro_turn_number opt) (ses_history s))))"
proof -
  let ?g0 = "gs_game_number (ses_state s0)"
  have "(- 1 :: u8) = 255" by simp
  with assms(7) have "?g0 \<noteq> - 1" by (simp only: not_False_eq_True)
  then have "rings_ok eo ?g0 s0" using assms(3-8) by (simp add: rings_ok_def rings_defs pending_ok_def)
  from rings_run [OF assms(1,2) this] have rings: "rings_at ?g0 (ses_state s) s" by (simp add: rings_ok_def assms(9))
  have first: "ro_turn_number opt \<le> gs_turn_number (ses_state s) \<and> (\<exists>g len. takeback_target eo s p (TurnStart (ro_turn_number opt)) = Ok (g, len) \<and> g \<in> set (ses_turns s)
      \<and> gs_turn_number g = ro_turn_number opt \<and> gs_active_player g = ro_active_player opt \<and> \<not> between_games g
      \<and> take len (ses_history s) = filter (\<lambda>(_, st). gs_turn_number st < ro_turn_number opt) (ses_history s))" if opt: "opt \<in> set (rewind_options s)" and g0: "gs_game_number (ses_state s) = ?g0" for opt
  proof -
    from opt obtain g where g: "g \<in> set (ses_turns s)" "ses_hosting s = SingleUserHosting"
      "opt = \<lparr>ro_turn_number = gs_turn_number g, ro_active_player = gs_active_player g\<rparr>" by (rule offered_turn)
    have "sorted_wrt (\<lambda>x y. gs_turn_number x < gs_turn_number y) (ses_turns s)" using rings g0 by (simp add: rings_at_def rings_ordered_def)
    from find_distinct_turn [OF this g(1)] g(2) obtain len where target: "takeback_target eo s p (TurnStart (gs_turn_number g)) = Ok (g, len)"
      by (simp add: takeback_target_def offers_turn_rewind_def)
    from target takeback_target_ok(1,2) [OF assms(2) rings g0 target] takeback_target_ok(4) [OF assms(2) rings g0 target refl] g(1)
    show ?thesis unfolding g(3) by (intro conjI exI [of _ g] exI [of _ len]) simp_all
  qed
  have bounds: "length (rewind_options s) \<le> 5" "length (ses_history s) \<le> 12" "ses_hosting s = SharedHosting \<longrightarrow> rewind_options s = []"
    "\<forall>g\<in>set (ses_turns s) \<union> snd ` set (ses_history s). gs_game_number g = gs_game_number (ses_state s)"
    using rings by (auto simp: rewind_options_def offers_turn_rewind_def rings_at_def rings_bounded_def MAX_TURN_REWIND_HISTORY_def MAX_TAKEBACK_HISTORY_def)
  have select: "\<forall>opt\<in>set (rewind_options s). \<exists>g len. takeback_target eo s p (TurnStart (ro_turn_number opt)) = Ok (g, len)
      \<and> gs_turn_number g = ro_turn_number opt"
    using offer_selects [OF rings, where eo = eo and p = p] by blast
  have stays: "\<forall>t s'. request_takeback eo n s p (TurnStart t) = (s', Ok TakebackApproved) \<longrightarrow> t \<in> set (map ro_turn_number (rewind_options s'))"
    using rewound_offer_stays [OF assms(1)] by blast
  have order: "sorted_wrt (<) (map ro_turn_number (rewind_options s))" if "gs_game_number (ses_state s) = ?g0"
    using rings that by (auto simp: rewind_options_def offers_turn_rewind_def rings_at_def rings_ordered_def sorted_wrt_map)
  show ?thesis
    by (rule conjI [OF bounds(1) conjI [OF bounds(2) conjI [OF bounds(3) conjI [OF bounds(4) conjI [OF select conjI [OF stays impI]]]]]])
      (rule conjI [OF order ballI [OF first]])
qed

text \<open>The toy engine keeps to this, across the games of its match.\<close>

lemma less_increment: "n \<noteq> - 1 \<Longrightarrow> n < n + (1 :: 'a :: len word)"
proof -
  assume "n \<noteq> - 1"
  then have "1 + n \<noteq> 0" by (metis add.commute eq_neg_iff_add_eq_0)
  then show ?thesis by (simp add: word_less_nat_alt unatSuc add.commute [of n])
qed

lemma toy_match_engine: "match_engine toy_engine"
proof -
  have "move_ok st (ao_events (snd (toy_move st n))) (fst (toy_move st n))" for st n
    using less_increment [of "gs_turn_number st"] less_increment [of "gs_game_number st"]
    by (auto simp: toy_move_def move_ok_def last_started_def map_filter_simps intro: less_imp_le)
  then show ?thesis
    by (auto simp: match_engine_def toy_engine_def answer_ok_def same_turn_def engine_applies_def split: option.split client_action.split)
qed

lemma toy_partition_point: "partition_point_ok toy_engine"
proof -
  have "length (takeWhile (\<lambda>b. b) (replicate m True @ replicate n False)) = m" for m n
    by (induction m) (cases n; simp)+
  then show ?thesis by (simp add: partition_point_ok_def toy_engine_def)
qed

theorem turn_rewind_sound_witness:
  "let s = run_session toy_engine None (toy_session SingleUserHosting 1) [(0, PlayAction ''a'' (OtherAction 0)), (1, PlayAction ''a'' (OtherAction 3))]
   in map ro_turn_number (rewind_options s) = [2]
    \<and> (\<exists>g len. takeback_target toy_engine s 0 (TurnStart 2) = Ok (g, len) \<and> gs_turn_number g = 2
        \<and> take len (ses_history s) = filter (\<lambda>(_, st). gs_turn_number st < 2) (ses_history s))"
proof -
  let ?as = "[(0, PlayAction ''a'' (OtherAction 0)), (1, PlayAction ''a'' (OtherAction 3))]"
  let ?start = "toy_session SingleUserHosting 1"
  let ?s = "run_session toy_engine None ?start ?as"
  have options: "map ro_turn_number (rewind_options ?s) = [2]" and game: "gs_game_number (ses_state ?s) = gs_game_number (ses_state ?start)"
    by code_simp+
  then obtain opt where opt: "opt \<in> set (rewind_options ?s)" "ro_turn_number opt = 2" by auto
  have fresh: "ses_history ?start = []" "ses_turns ?start = []" "ses_pending ?start = None" "ses_game_number ?start = gs_game_number (ses_state ?start)"
    "gs_game_number (ses_state ?start) \<noteq> 255" "\<not> between_games (ses_state ?start)" by (simp_all add: toy_session_def)
  note sound = turn_rewind_sound [OF toy_match_engine toy_partition_point fresh refl, of None ?as 0 0]
  from sound [THEN conjunct2, THEN conjunct2, THEN conjunct2, THEN conjunct2, THEN conjunct2, THEN conjunct2, THEN mp, OF game, THEN conjunct2,
      THEN bspec, OF opt(1)] options
  show ?thesis unfolding Let_def opt(2) by blast
qed

text \<open>
  In the next game of a match this fails. The game ends at the opening of its second turn, which is recorded under the number of the next
  game; in the next game turn 2 is then offered twice, the history is no longer in the order that \<^verbatim>\<open>partition_point\<close> requires, and
  asking for turn 2 installs the board of the finished game.
\<close>

theorem rewind_offers_finished_game:
  "let s = run_session toy_engine None (toy_session SingleUserHosting 1)
       [(0, PlayAction ''a'' (OtherAction 9)), (1, PlayAction ''a'' (OtherAction 8)), (2, PlayAction ''a'' (OtherAction 0))]
   in gs_match_phase (ses_state s) = PhaseInGame \<and> map ro_turn_number (rewind_options s) = [2, 1, 2]
    \<and> map (\<lambda>(_, st). gs_turn_number st < 2) (ses_history s) = [False, True]
    \<and> snd (request_takeback toy_engine 3 s 0 (TurnStart 2)) = Ok TakebackApproved
    \<and> between_games (ses_state (fst (request_takeback toy_engine 3 s 0 (TurnStart 2))))"
  by code_simp

end
