(* ===== verification/Spec2Isabelle.thy ===== *)
theory Spec2Isabelle
  imports Mana_Match Mana_Emptying Mana_Orders Draft_View Seat_Reducer Tournament_Events Lobby_Histories Takeback_Rings
begin

text \<open>
  \<^bold>\<open>phase.rs: drafts, tournaments, lobbies, take-backs and mana.\<close> The repository is a rules engine for a trading card game
  with drafts, lobbies, servers and front ends around it. This development models the parts that
  carry its drafts (the crate \<^verbatim>\<open>src/crates/draft-core\<close>), its tournaments and its registry of waiting games
  (\<^verbatim>\<open>tournament.rs\<close>, \<^verbatim>\<open>lobby.rs\<close> and \<^verbatim>\<open>reservation_auth.rs\<close> of \<^verbatim>\<open>src/crates/lobby-broker/src\<close>), the take-backs of the game
  server (\<^verbatim>\<open>takeback.rs\<close> and the handlers of \<^verbatim>\<open>session.rs\<close> in \<^verbatim>\<open>src/crates/server-core/src\<close>), the pre-game seat lobby
  (\<^verbatim>\<open>src/crates/seat-reducer\<close>), and the mana of the rules engine: costs, pools, restrictions and the order of mana sources
  (\<^verbatim>\<open>src/crates/engine/src/types/mana.rs\<close>), with the emptying of pools at the end of steps (the parts of \<^verbatim>\<open>turns.rs\<close> and
  \<^verbatim>\<open>replacement.rs\<close> of \<^verbatim>\<open>src/crates/engine/src/game\<close> that carry it out).

  \<^bold>\<open>Parts and how they interact.\<close> A draft event is one record, \<^verbatim>\<open>DraftSession\<close>, changed only by the
  reducer \<^verbatim>\<open>apply\<close> of \<^verbatim>\<open>session.rs\<close>. \<^verbatim>\<open>StartDraft\<close> asks a pack source for boosters and deals them in one of
  three distributions: pick and pass, all at once (sealed), or a shared stack with piles (Winston).
  Picks go to \<^verbatim>\<open>pick_pass.rs\<close>, Winston decisions to \<^verbatim>\<open>shared_stack.rs\<close>; both end in deck building, where
  \<^verbatim>\<open>validation.rs\<close> judges decks under the concessions of the draft's sets
  (\<^verbatim>\<open>engine/src/game/deck_validation.rs\<close>). Tournament kinds go on to pairings, results and rounds.
  Hosts persist sessions and import them through \<^verbatim>\<open>validate_persisted_snapshot\<close>, and send every seat and
  spectator a projection of the session (\<^verbatim>\<open>view.rs\<close>), never the session itself. The seat lobby is a
  second reducer over the seats of a game before it starts. A tournament is a record \<^verbatim>\<open>TournamentMeta\<close> of the
  \<^verbatim>\<open>TournamentManager\<close> of the lobby broker, independent of drafts: players join with rotating credentials, the organizer
  asks for rounds (Swiss with pods of two to four, or a single-elimination bracket), results are reported,
  players drop, and a sweep expires records by age. The same broker keeps the listings of games that wait for guests: hosts
  register and refresh them, guests reserve seats for two minutes, and a sweep reaps the listings whose host has gone silent. A
  running game is a session of the server: it passes actions to the engine, keeps the states before recorded actions and at the start
  of turns in two bounded rings, and rolls back to one of them when all human seats agree. Mana costs are values: symbols, arithmetic,
  and the test whether one cost is payable whenever another is. A mana pool is a list of units with restrictions and retention
  markers. When a step ends, the turn structure updates the markers of each player, turns the unmarked units into one proposed event, passes
  it through the replacement pipeline, where step-end handlers may keep or recolour units, and applies what is left of it.

  \<^bold>\<open>Theories.\<close>
  \<^item> \<open>Prelude\<close>: results with a panic outcome, fixed-width integers, vector and string operations, and
    the interfaces of the development: \<open>turn_engine\<close> (an engine that cannot get stuck and cannot run
    forever), \<open>validating_reducer\<close> (no panic, refusals change nothing) and \<open>conserving_reducer\<close>, which
    extends it by a conserved stock.
  \<^item> \<open>Mana_Cost\<close>: colors, types, the two bit sets, cost symbols and cost arithmetic; the bit sets
    interpret a set interface, symbols round-trip, arithmetic is stated on wrapping \<^verbatim>\<open>u32\<close> values.
  \<^item> \<open>Mana_Match\<close>: \<^verbatim>\<open>is_payable_whenever\<close> and \<^verbatim>\<open>match_shard\<close>. The augmenting step interprets the contract
    \<open>matching_step\<close>; the test is exact for injective matchings and sound for payments.
  \<^item> \<open>Mana_Pool\<close>: restrictions and what they permit in a payment context, units, and the operations of a pool; spending removes
    exactly one admissible unit, and takes an unrestricted one first.
  \<^item> \<open>Mana_Emptying\<close>: phases and their groups, retention markers, step-end handlers, the replacement pipeline on the empty-pool
    event, the decisions applied, and the losses of life owed. The pipeline ends with every unit claimed that a handler accepts.
  \<^item> \<open>Rust_Ordering\<close>: \<^verbatim>\<open>Ordering\<close>, composition of comparisons and the stable sort, shared by the standings and the mana sources.
  \<^item> \<open>Mana_Orders\<close>: \<^verbatim>\<open>cmp_stable\<close> on mana-source selections and all it is composed of. The locale \<open>comparison\<close> (a total order whose
    equality is equality of values) is interpreted on restrictions and on selections.
  \<^item> \<open>Draft_Types\<close>: \<^verbatim>\<open>types.rs\<close> and \<^verbatim>\<open>pack_source.rs\<close>: kinds, the procedure table, layouts, seats, flags,
    actions, errors, the session record; passing around the pod; the multiset of cards of an event.
  \<^item> \<open>Draft_Validation\<close>: the deck validator against a declarative notion of a legal deck, and the
    concessions of booster sets.
  \<^item> \<open>Draft_Pick_Pass\<close>: both picks and the end of a pick step; legality, conservation, and the
    interpretation \<open>picks\<close> of \<open>turn_engine\<close>.
  \<^item> \<open>Draft_Shared_Stack\<close>: legality, forced decisions and turns of a Winston draft, and the
    interpretation \<open>winston\<close> of \<open>turn_engine\<close>.
  \<^item> \<open>Draft_Pairings\<close>: Swiss and single-elimination rounds, reports and their corrections.
  \<^item> \<open>Draft_Session\<close>: sessions, the import check, the start of a draft, deck submission and the
    dispatcher; the interpretation \<open>started\<close> of \<open>conserving_reducer\<close>, the status machine as an inductive
    relation, and the lemmas on dealing and snapshots.
  \<^item> \<open>Draft_Pool_View\<close>: the display groups of a pool and the pool filter (\<^verbatim>\<open>DraftPoolGroups::from_pool\<close>,
    \<^verbatim>\<open>filter_pool_listing\<close>). The contracts \<open>pool_axis\<close>, \<open>filter_axis\<close> and \<open>shown_axis\<close>, which extends both, are
    interpreted on colours, types, rarities and mana values: groups partition the pool, and filters
    are offered exactly when they find a card.
  \<^item> \<open>Draft_View\<close>: \<^verbatim>\<open>filter_for_player\<close> and \<^verbatim>\<open>filter_for_spectator\<close> with the views of the source, the shared stack, the
    seats, the standings and the pairings. The lemmas are noninterference results: a view is a function of what
    its viewer may know; picks of other seats stay hidden; the published legality is the enforced one.
  \<^item> \<open>Seat_Reducer\<close>: the lobby, its mutations and team places, and the interpretation \<open>lobby\<close> of
    \<open>validating_reducer\<close>.
  \<^item> \<open>Tournament_Credential\<close>: minting, judging and rotating the secrets of organizers and players, with
    the nonce that makes a lost answer repeatable; the constant-time comparison is equality.
  \<^item> \<open>Tournament_Rounds\<close>: the split of a round into pods, short pods and byes, the fair choice of byes, the greedy
    seating, the exchange of players that repairs rematches, and the elimination bracket.
  \<^item> \<open>Tournament_Standings\<close>: match points, the tie-breaks and the order of the standings. Floating-point
    arithmetic is a parameter (\<open>f64_ops\<close>).
  \<^item> \<open>Tournament_Manager\<close>: every operation of the manager, its errors, the invariant \<open>manager_wf\<close>, and the
    interpretation \<open>tm\<close> of \<open>validating_reducer\<close>.
  \<^item> \<open>Tournament_Events\<close>: histories of operations. \<open>meta_step\<close> is the inductive relation between successive
    records of one tournament; what it keeps (decided results, the roster, terminal states) holds for
    every history, and a Swiss event can always be completed. An elimination event cannot when all
    players of a pending pairing have dropped (\<open>dropped_finalists_stuck\<close>).
  \<^item> \<open>Lobby_Listings\<close>: the listings of waiting games, their reservations, registrations and liveness, snapshots, and the
    connection checks on reservations.
  \<^item> \<open>Lobby_Histories\<close>: sequences of lobby operations, restarts included. The locale \<open>generation_registry\<close> (entries
    identified by a counter) and its extension \<open>aging_registry\<close> are interpreted on the lobby as \<open>listings\<close> and \<open>aging\<close>: a
    registration is an identity for ever, a host that stays in touch is not reaped, and seats are not overbooked.
  \<^item> \<open>Server_Takeback\<close>: sessions, their rings, take-back requests and votes, and the handlers that move the game: actions,
    interactions, concessions, AI play and resumed automation.
  \<^item> \<open>Takeback_Histories\<close>: sequences of session operations: a rollback needs everybody's consent, and a take-back undoes
    exactly the own action. \<open>Takeback_Rings\<close>: the invariant \<open>rings_ok\<close> of the two rings, what it makes of the offered turns in the
    game in which a session starts, and how the next game of a match breaks it (\<open>rewind_offers_finished_game\<close>): the number of the game
    changes when a game ends and not when the next one starts, so boards from between the games stay in the rings.
  \<^item> This theory: the properties of whole events.

  \<^bold>\<open>State and operations.\<close> A Rust struct is a record with the same fields, an enum a datatype with the
  same variants, a reducer \<^verbatim>\<open>fn f(&mut S, ..) -> Result<D, E>\<close> a function to the new state and a
  \<open>rust_result\<close>; the third outcome, \<open>Panic\<close>, stands for an out-of-range index or a failed \<^verbatim>\<open>expect\<close>.
  Parts of a long function body are definitions of their own, named after what they do, and composed in
  the order of the source. Hash maps are maps; where the source iterates one, the order is a parameter
  (\<open>hash_iteration\<close>). Unicode lowercasing and trimming are parameters (\<open>text_ops\<close>). The clock and the random tokens of the broker are
  the parameter \<open>broker_env\<close>. For the game server the rules engine is a parameter (\<open>engine_ops\<close>): its functions map a game state, of which three
  fields (and the phase of the match) are visible, to a new state and events; the hypothesis \<open>match_engine\<close> says that the number of the game advances when a
  game of a match ends, that the turns of a game never go back while it is played,
  that an announced turn is a new one, and that refusals and restored capabilities leave the turn alone. It says nothing of the turn
  when the next game of a match starts, where it is set to 1. The binary search \<^verbatim>\<open>partition_point\<close> is a parameter too: \<open>partition_point_ok\<close> is its
  documented result on partitioned deques, and on others it is unspecified. The random number generator, pack sources and the deck resolver are code outside
  the modelled crates and are parameters, with what their documentation promises as named hypotheses
  (\<open>rng_shuffles\<close>, \<open>rng_in_range\<close>, \<open>resolver_total\<close>). At the end of a step the handlers in play, the rules of the format and the card
  effects that cost life are queries to the engine and arguments of \<open>drain_player\<close>; a player's choice among handlers is the function
  \<open>pick\<close>, and \<open>choice_in_range\<close> says that it chooses one of those offered.

  \<^bold>\<open>Bounds.\<close> No definition uses fuel: loops are structural, or terminate by a measure (the unvisited
  candidates of \<open>match_from\<close>, the pool of \<open>pair_pool_avoiding_rematches\<close>, the rematches of \<open>repair_rematches\<close>, the players
  left in \<open>fill_pod\<close>). \<^verbatim>\<open>u8\<close>, \<^verbatim>\<open>u32\<close> and \<^verbatim>\<open>u64\<close> are words and
  wrap as the release profiles do. Pods of more than 128 seats, which a local cube admits, lose a pack
  when they pass right (\<open>large_pod_loses_pack\<close>); conservation is therefore stated for up to 128 seats. Registrations of the
  lobby are unique until \<open>2 ^ 64\<close> generations are used. The rings of a session hold twelve actions and five turns.
  The replacement pipeline stops at a depth of sixteen, which an empty-pool event never reaches: every pass claims all open units of a mana
  type, and there are six.

  \<^bold>\<open>Not modelled.\<close> Serialisation attributes and wire formats; booster generation
  from card data (\<^verbatim>\<open>pack_generator.rs\<close>, \<^verbatim>\<open>cube.rs\<close>, \<^verbatim>\<open>set_pool.rs\<close>, \<^verbatim>\<open>extraction.rs\<close>); the message protocol, the server directory and the wire guards of the lobby broker, which
  only dispatch to the operations modelled here; of the game server, joining, reconnecting, persistence, state filtering and the map of sessions;
  the payment algorithm and spell grants, and everything of the rules engine beyond mana (its
  state is shared by more than a million lines of effects, triggers and layers); the oracle text parser;
  the AI; bindings and tools.
\<close>

subsection \<open>Runs of the reducer\<close>

text \<open>Every action of a history, the refused ones included.\<close>

definition play_actions ::
  "'r rng \<Rightarrow> hash_iteration \<Rightarrow> 'r pack_source option \<Rightarrow> draft_session \<Rightarrow> draft_action list \<Rightarrow> draft_session" where
  "play_actions g ho source s as = foldl (\<lambda>t a. fst (apply_action g ho source t a)) s as"

lemma play_actions_started:
  fixes g :: "'r rng"
  shows "play_actions g ho source s as = started.play TYPE('r) g ho source s as"
  by (simp add: play_actions_def started.play_def)

lemma started_from_new:
  assumes "rng_shuffles g" "rng_in_range g" and "length the_seats \<le> 128"
    and "apply_action g ho (Some src) (new_session cfg the_seats code) StartDraft = (s, Ok ds)"
    and "generate_packs src (seed_from_u64 g (cfg_rng_seed cfg)) cfg (as_u8 (length the_seats)) = (Ok all_packs, r)"
  shows "started_wf s" and "cards_in_event s = mset (concat (concat all_packs))"
proof -
  have "undealt (new_session cfg the_seats code)" using assms(3) by (intro new_session_undealt) simp
  moreover have "apply_start_draft g (new_session cfg the_seats code) (Some src) = (s, Ok ds)"
    using assms(4) by (simp add: apply_action_def)
  ultimately obtain packs r' where
    "generate_packs src (seed_from_u64 g (cfg_rng_seed cfg)) cfg (as_u8 (length the_seats)) = (Ok packs, r')"
    "cards_in_event s = mset (concat (concat packs))" "session_wf s" "status s \<noteq> Lobby" "length (seats s) = length the_seats"
    using start_draft_deals [OF _ assms(1,2)] by (metis (no_types, lifting) new_session_fields(1,2))
  with assms(3,5) show "started_wf s" "cards_in_event s = mset (concat (concat all_packs))"
    by (simp_all add: started_wf_def)
qed

subsection \<open>A sample event\<close>

text \<open>The fixture source deals two cards per booster; the sample table has two humans.\<close>

definition sample_source :: "unit pack_source" where
  "sample_source = fixture_pack_source ''TST'' 2"

definition sample_event :: "draft_kind \<Rightarrow> draft_session" where
  "sample_event k = new_session (sample_config k) sample_seats ''D''"

definition sample_packs :: "nat \<Rightarrow> draft_pack list list" where
  "sample_packs n = map (\<lambda>seat. map (\<lambda>k. map (fixture_card ''TST'' (as_u8 seat) (as_u8 k)) [0..<2]) [0..<n]) [0..<2]"

lemma generate_sample:
  "generate_packs sample_source r cfg (as_u8 (length sample_seats)) = (Ok (sample_packs (unat (cfg_pack_count cfg))), r)"
proof -
  have one: "generate_seat_packs (fixture_generate_pack ''TST'' 2) seat ks r
      = (map (\<lambda>k. map (fixture_card ''TST'' seat (as_u8 k)) [0..<2]) ks, r)" for seat ks and r :: unit
    by (induction ks) (simp_all add: fixture_generate_pack_def)
  have "generate_all_packs (fixture_generate_pack ''TST'' 2) n xs r =
      (map (\<lambda>seat. map (\<lambda>k. map (fixture_card ''TST'' (as_u8 seat) (as_u8 k)) [0..<2]) [0..<unat n]) xs, r)"
    for n xs and r :: unit
    by (induction xs) (simp_all add: one)
  then have "generate_packs sample_source r cfg 2 = (Ok (sample_packs (unat (cfg_pack_count cfg))), r)"
    by (simp only: sample_source_def fixture_pack_source_def default_generate_packs_def sample_packs_def pack_source.simps
        Let_def split_beta fst_conv snd_conv) simp
  then show ?thesis by (simp add: sample_seats_def as_u8_def)
qed

lemma sample_seats_length: "length sample_seats = 2"
  by (simp add: sample_seats_def)

lemma sample_starts:
  "snd (apply_action sample_rng id (Some sample_source) (sample_event Premier) StartDraft) = Ok [DraftStarted]"
  "snd (apply_action sample_rng id (Some sample_source) (sample_event Winston) StartDraft) = Ok [DraftStarted]"
  by code_simp+

lemma sample_startE:
  assumes "snd (apply_action sample_rng id (Some sample_source) (sample_event k) StartDraft) = Ok [DraftStarted]"
  obtains s where "apply_action sample_rng id (Some sample_source) (new_session (sample_config k) sample_seats ''D'') StartDraft = (s, Ok [DraftStarted])"
  using assms by (metis prod.collapse sample_event_def)

text \<open>
  C1. From a new session whose draft was started, no history of actions adds a card to the event or
  takes one out of it: what is in pools, open packs, unopened packs and on the shared table is, as a
  multiset, always what the pack source dealt.
\<close>

theorem draft_cards_conserved:
  assumes "rng_shuffles g" "rng_in_range g" and "length the_seats \<le> 128"
    and "apply_action g ho (Some src) (new_session cfg the_seats code) StartDraft = (s, Ok ds)"
    and "generate_packs src (seed_from_u64 g (cfg_rng_seed cfg)) cfg (as_u8 (length the_seats)) = (Ok all_packs, r)"
  shows "cards_in_event (play_actions g ho source s as) = mset (concat (concat all_packs))"
  unfolding play_actions_started started.play_stock [OF started_from_new(1) [OF assms]]
  by (rule started_from_new(2) [OF assms])

theorem draft_cards_conserved_witness:
  "\<exists>s. apply_action sample_rng id (Some sample_source) (sample_event Premier) StartDraft = (s, Ok [DraftStarted]) \<and>
     cards_in_event (play_actions sample_rng id None s [Pick 0 [''TST-0-0-1''], SetSeatConnected 1 False, Pick 1 [''TST-1-0-0'']])
       = mset (concat (concat (sample_packs 3)))"
proof -
  obtain s where s: "apply_action sample_rng id (Some sample_source) (new_session (sample_config Premier) sample_seats ''D'') StartDraft
      = (s, Ok [DraftStarted])" by (rule sample_startE [OF sample_starts(1)])
  from draft_cards_conserved [OF sample_rng_ok _ s generate_sample] show ?thesis
    using s by (simp add: sample_seats_length sample_event_def sample_config_def)
qed

text \<open>
  C2. On a started session the reducer is total and validates before it mutates: after any history the
  next action does not panic, a refused action leaves the session as it was, and the session is the one
  the accepted actions alone would have produced.
\<close>

theorem reducer_total:
  fixes g :: "'r rng"
  assumes "started_wf s" and "s' = play_actions g ho source s as"
  shows "started_wf s' \<and> snd (apply_action g ho source s' a) \<noteq> Panic \<and>
    (is_ok (snd (apply_action g ho source s' a)) \<or> fst (apply_action g ho source s' a) = s') \<and>
    (\<exists>bs. set bs \<subseteq> set as \<and> length bs \<le> length as \<and>
      run_steps (\<lambda>t b. accepted (apply_action g ho source t b)) s bs = Some s')"
proof -
  have s': "s' = started.play TYPE('r) g ho source s as" by (simp add: assms(2) play_actions_started)
  have wf: "started_wf s'" unfolding s' by (rule started.play_inv [OF assms(1)])
  have "(\<lambda>t b. if is_ok (snd (apply_action g ho source t b)) then Some (fst (apply_action g ho source t b)) else None)
      = (\<lambda>t b. accepted (apply_action g ho source t b))"
    by (simp add: fun_eq_iff accepted_def split_beta)
  then have "\<exists>bs. set bs \<subseteq> set as \<and> length bs \<le> length as \<and> run_steps (\<lambda>t b. accepted (apply_action g ho source t b)) s bs = Some s'"
    using started.replay [OF assms(1), of "as" g ho source] unfolding s' by simp
  with wf started.reduce_total [OF wf] started.reduce_refused [OF wf] show ?thesis by blast
qed

theorem reducer_total_witness:
  "started_wf sample_winston \<and> snd (apply_action sample_rng id None
     (play_actions sample_rng id None sample_winston [SharedStackDecision 0 0 Decline, Pick 7 []]) (SharedStackDecision 0 1 Take)) \<noteq> Panic"
proof -
  have "session_wf sample_winston" using sample_winston_session(1) by (auto simp: stack_session_def session_wf_def split: option.splits)
  then have "started_wf sample_winston"
    by (simp add: started_wf_def sample_winston_session(2)) (simp add: sample_winston_def sample_pod_def sample_seats_def)
  with reducer_total [OF this refl] show ?thesis by blast
qed

text \<open>
  C3. A pick-and-pass draft that is started on a full deal runs to its end: it starts, no run of
  accepted picks is longer than the number of cards dealt, from every state such a run reaches there is
  a run of picks to deck building, and there every card dealt is in a pool.
\<close>

theorem pick_draft_completes:
  assumes "proc_distribution (kind_procedure (cfg_kind cfg)) = PickAndPass"
    and "start_preflight (new_session cfg the_seats code) = Ok ()"
    and "generate_packs src (seed_from_u64 g (cfg_rng_seed cfg)) cfg (as_u8 (length the_seats)) = (Ok all_packs, r)"
    and "deals_full (new_session cfg the_seats code) all_packs" and "unique_ids (mset (concat (concat all_packs)))"
    and "0 < length the_seats" "length the_seats \<le> 128" and "0 < unat (cfg_pack_count cfg)"
  shows "\<exists>s. apply_action g ho (Some src) (new_session cfg the_seats code) StartDraft = (s, Ok [DraftStarted]) \<and>
    (\<forall>as t. run_steps pick_step s as = Some t \<longrightarrow>
       length as \<le> length (concat (concat all_packs)) \<and>
       (\<exists>bs u. run_steps pick_step t bs = Some u \<and> status u = Deckbuilding \<and> pool_cards u = mset (concat (concat all_packs))))"
proof -
  have "undealt (new_session cfg the_seats code)" using assms(7) by (intro new_session_undealt) simp
  from start_pick_and_pass [OF this, where g = g and src = src] assms obtain s where
    s: "apply_start_draft g (new_session cfg the_seats code) (Some src) = (s, Ok [DraftStarted])"
    "pick_session s" "cards_in_event s = mset (concat (concat all_packs))" "shared_stack s = None"
    unfolding new_session_fields by metis
  have "length as \<le> length (concat (concat all_packs)) \<and>
       (\<exists>bs u. run_steps pick_step t bs = Some u \<and> status u = Deckbuilding \<and> pool_cards u = mset (concat (concat all_packs)))"
    if run: "run_steps pick_step s as = Some t" for "as" t
  proof -
    have inv: "pick_session t" by (rule picks.run_inv [OF s(2) run])
    from picks.run_completes [OF inv] obtain bs u where u: "run_steps pick_step t bs = Some u" "status u \<noteq> Drafting" by blast
    have "pick_session u" by (rule picks.run_inv [OF inv u(1)])
    moreover have "cards_in_event u = mset (concat (concat all_packs))" "shared_stack u = None"
      using pick_run_cards pick_run_stack s inv run u(1) by metis+
    ultimately have "status u = Deckbuilding" "pool_cards u = mset (concat (concat all_packs))"
      using pick_draft_over [of u] u(2) by (auto simp: pick_session_def pick_live_def stack_cards_def)
    moreover have "length as \<le> length (concat (concat all_packs))"
    proof -
      have "length as \<le> cards_to_draft s" using picks.run_bounded [OF s(2) run] by linarith
      also have "\<dots> \<le> size (cards_in_event s)" by (simp add: cards_to_draft_def)
      finally show ?thesis unfolding s(3) size_mset .
    qed
    ultimately show ?thesis using u(1) by blast
  qed
  with s(1) show ?thesis by (auto simp: apply_action_def)
qed

theorem pick_draft_completes_witness:
  "\<exists>s. apply_action sample_rng id (Some sample_source) (sample_event Premier) StartDraft = (s, Ok [DraftStarted]) \<and>
     (\<exists>bs u. run_steps pick_step s bs = Some u \<and> status u = Deckbuilding \<and> pool_cards u = mset (concat (concat (sample_packs 3))))"
proof -
  have pre: "start_preflight (new_session (sample_config Premier) sample_seats ''D'') = Ok ()" by code_simp
  have full: "deals_full (new_session (sample_config Premier) sample_seats ''D'') (sample_packs 3)" by code_simp
  have "distinct (map instance_id (concat (concat (sample_packs 3))))" by code_simp
  then have ids: "unique_ids (mset (concat (concat (sample_packs 3))))"
    unfolding unique_ids_def by (metis count_mset_0_iff distinct_count_atmost_1 le_numeral_extra(4) mset_map zero_le_one)
  have gen: "generate_packs sample_source (seed_from_u64 sample_rng (cfg_rng_seed (sample_config Premier))) (sample_config Premier)
      (as_u8 (length sample_seats)) = (Ok (sample_packs 3), seed_from_u64 sample_rng (cfg_rng_seed (sample_config Premier)))"
    by (simp add: generate_sample sample_config_def)
  from pick_draft_completes [OF _ pre gen full ids, of id] obtain s where
    s: "apply_action sample_rng id (Some sample_source) (sample_event Premier) StartDraft = (s, Ok [DraftStarted])"
    and run: "\<And>as t. run_steps pick_step s as = Some t \<Longrightarrow>
       \<exists>bs u. run_steps pick_step t bs = Some u \<and> status u = Deckbuilding \<and> pool_cards u = mset (concat (concat (sample_packs 3)))"
    by (auto simp: sample_config_def sample_seats_length sample_event_def)
  with run [of "[]" s] show ?thesis by auto
qed

text \<open>
  C4. A Winston draft that was started runs to its end: no run of accepted decisions is longer than one
  pass over the piles per card dealt, and from every state such a run reaches, asking for the forced decision of the seat
  to act again and again is accepted up to the end of the draft, where every card dealt is in a pool.
\<close>

theorem winston_draft_completes:
  assumes "rng_shuffles g" "rng_in_range g" and "length the_seats < 256"
    and "proc_distribution (kind_procedure (cfg_kind cfg)) = SharedStackPiles k"
    and "apply_action g ho (Some src) (new_session cfg the_seats code) StartDraft = (s, Ok ds)"
    and "run_steps decision_step s as = Some t"
  shows "length as \<le> size (cards_in_event s) * unat k \<and>
    (\<exists>bs u. driven decision_step forced_move t bs \<and> run_steps decision_step t bs = Some u \<and> status u \<noteq> Drafting \<and> pool_cards u = cards_in_event s)"
proof -
  have "undealt (new_session cfg the_seats code)" using assms(3) by (rule new_session_undealt)
  note start = start_winston [OF this assms(1,2), of k src s ds, unfolded new_session_fields, OF assms(4)]
  have acc: "apply_start_draft g (new_session cfg the_seats code) (Some src) = (s, Ok ds)" using assms(5) by (simp add: apply_action_def)
  from start(6) [OF acc] obtain st where st: "shared_stack s = Some st" "length (piles st) = unat k" by blast
  have inv: "stack_session t" by (rule winston.run_inv [OF start(1) [OF acc] assms(6)])
  from winston.run_driven [OF inv] obtain bs u where u: "run_steps decision_step t bs = Some u" "status u \<noteq> Drafting"
    and forced: "driven decision_step forced_move t bs" by blast
  have "cards_in_event u = cards_in_event s"
    using winston_run_cards start(1) [OF acc] inv assms(6) u(1) by metis
  with winston_over [OF winston.run_inv [OF inv u(1)] u(2)] have pools: "pool_cards u = cards_in_event s" by simp
  have len: "length as \<le> size (cards_in_event s) * unat k"
    using winston.run_bounded [OF start(1) [OF acc] assms(6)] stack_potential_bound [OF start(1) [OF acc] st(1)]
    unfolding st(2) by linarith
  show ?thesis by (intro conjI exI [of _ bs] exI [of _ u]) (fact len forced u pools)+
qed

theorem winston_draft_completes_witness:
  "\<exists>s. apply_action sample_rng id (Some sample_source) (sample_event Winston) StartDraft = (s, Ok [DraftStarted]) \<and>
     (\<exists>bs u. run_steps decision_step s bs = Some u \<and> status u \<noteq> Drafting \<and> pool_cards u = cards_in_event s)"
proof -
  obtain s where s: "apply_action sample_rng id (Some sample_source) (new_session (sample_config Winston) sample_seats ''D'') StartDraft
      = (s, Ok [DraftStarted])" by (rule sample_startE [OF sample_starts(2)])
  have "length sample_seats < 256" "proc_distribution (kind_procedure (cfg_kind (sample_config Winston))) = SharedStackPiles 3"
    "run_steps decision_step s [] = Some s" by (simp_all add: sample_seats_length sample_config_def)
  from winston_draft_completes [OF sample_rng_ok this(1,2) s this(3)] s show ?thesis by (auto simp: sample_event_def)
qed

text \<open>
  C5. The status of a session only moves along the table of transitions: an action either keeps the
  status or makes one of the listed moves, a run never goes back to an earlier phase, a completed,
  paused or abandoned session stays so, and no action enters the lobby, a pause or abandonment.
\<close>

theorem session_life_cycle:
  assumes "session_reach g ho source s t"
  shows "(status (fst (apply_action g ho source t a)) = status t \<or> status_moves (status t) (status (fst (apply_action g ho source t a)))) \<and>
    status_rank (status s) \<le> status_rank (status t) \<and>
    (status s \<in> {Complete, Paused, Abandoned} \<longrightarrow> status t = status s) \<and>
    (status t \<in> {Lobby, Paused, Abandoned} \<longrightarrow> status t = status s)"
  using session_reach_status [OF assms] apply_action_status [of t g ho source a, unfolded status_step_ok_def] by blast

theorem session_life_cycle_witness:
  "status (fst (apply_action sample_rng id None sample_pod (Pick 0 [''a'']))) \<noteq> Lobby"
proof -
  have "session_reach sample_rng id None sample_pod (fst (apply_action sample_rng id None sample_pod (Pick 0 [''a''])))"
    by (intro reach_step reach_refl)
  from session_life_cycle [OF this] show ?thesis by (auto simp: sample_pod_def)
qed

text \<open>
  C11. A Winston session can be persisted and imported at any point of the draft: whatever run of
  decisions follows an accepted start, the resulting snapshot passes the import check.
\<close>

theorem winston_snapshot_restores:
  assumes "rng_shuffles g" "rng_in_range g" and "length the_seats < 256" and "unat (cfg_pod_size cfg) = length the_seats"
    and "proc_distribution (kind_procedure (cfg_kind cfg)) = SharedStackPiles k"
    and "apply_action g ho (Some src) (new_session cfg the_seats code) StartDraft = (s, Ok ds)"
    and "run_steps decision_step s as = Some t"
  shows "validate_persisted_snapshot t = Ok ()"
proof -
  let ?new = "new_session cfg the_seats code"
  have acc: "apply_start_draft g ?new (Some src) = (s, Ok ds)" using assms(6) by (simp add: apply_action_def)
  have dist: "proc_distribution (kind_procedure (draft_kind_of ?new)) = SharedStackPiles k" by (simp add: new_session_fields assms(5))
  note start = start_winston [OF new_session_undealt [OF assms(3)] assms(1,2) dist acc]
  have "snapshot_ready k s"
    using start(3-7) preflight_Ok [OF start(8)] dist assms(4) config_checks_cong [OF start(3-5)]
    by (auto simp: snapshot_ready_def new_session_fields)
  from stack_snapshot_ok [OF winston.run_inv [OF start(1) assms(7)] winston_run_snapshot [OF start(1) this assms(7)]]
  show ?thesis .
qed

theorem winston_snapshot_restores_witness:
  "\<exists>s. apply_action sample_rng id (Some sample_source) (sample_event Winston) StartDraft = (s, Ok [DraftStarted]) \<and>
     validate_persisted_snapshot s = Ok ()"
proof -
  obtain s where s: "apply_action sample_rng id (Some sample_source) (new_session (sample_config Winston) sample_seats ''D'') StartDraft
      = (s, Ok [DraftStarted])" by (rule sample_startE [OF sample_starts(2)])
  have "length sample_seats < 256" "unat (cfg_pod_size (sample_config Winston)) = length sample_seats"
    "proc_distribution (kind_procedure (cfg_kind (sample_config Winston))) = SharedStackPiles 3"
    "run_steps decision_step s [] = Some s" by (simp_all add: sample_seats_length sample_config_def)
  from winston_snapshot_restores [OF sample_rng_ok this(1-3) s this(4)] s show ?thesis by (auto simp: sample_event_def)
qed

text \<open>
  C14. A deck is accepted exactly when the session is in deck building, the seat exists, at most two
  commanders are designated and the deck is legal for the seat's pool under the concessions of the
  draft's sets; any other submission is an error that leaves the session as it was.
\<close>

theorem deck_submission_gate:
  assumes "session_wf s" and "hash_order ho" and "fits_counts main_deck" "fits_counts (map card_name (pools s ! unat seat))"
  shows "if submission_legal s seat main_deck commanders
    then is_ok (snd (apply_submit_deck ho s seat main_deck commanders))
    else \<exists>e. apply_submit_deck ho s seat main_deck commanders = (s, Err e)"
proof (cases "submission_legal s seat main_deck commanders")
  case True
  with submit_deck_decides [OF assms] show ?thesis by simp
next
  case False
  with submit_deck_decides [OF assms] submit_deck_outcome(1) [OF assms(1), of ho seat main_deck commanders]
  have "snd (apply_submit_deck ho s seat main_deck commanders) \<noteq> Panic" "fst (apply_submit_deck ho s seat main_deck commanders) = s"
    "\<not> is_ok (snd (apply_submit_deck ho s seat main_deck commanders))" by (auto simp: safe_outcome_def)
  with False show ?thesis by (cases "apply_submit_deck ho s seat main_deck commanders"; cases "snd (apply_submit_deck ho s seat main_deck commanders)") auto
qed

text \<open>The sample pod in deck building, with decks of two cards.\<close>

definition sample_building :: draft_session where
  "sample_building = sample_pod\<lparr>status := Deckbuilding, config := (sample_config Premier)\<lparr>cfg_min_deck_size := 2\<rparr>\<rparr>"

theorem deck_submission_gate_witness:
  "is_ok (snd (apply_submit_deck id sample_building 0 [''e'', ''Island''] [])) \<and>
   (\<exists>e. apply_submit_deck id sample_building 0 [''e'', ''Shock''] [] = (sample_building, Err e))"
proof -
  have wf: "session_wf sample_building" using sample_pod_wf by (simp add: session_wf_def pod_wf_def sample_building_def) (simp add: sample_pod_def)
  have ho: "hash_order id" by (simp add: hash_order_def)
  have fits: "fits_counts [''e'', ''Island'']" "fits_counts [''e'', ''Shock'']" "fits_counts (map card_name (pools sample_building ! unat (0 :: u8)))"
    by (simp_all add: fits_counts_def sample_building_def sample_pod_def)
  have "submission_legal sample_building 0 [''e'', ''Island''] []" "\<not> submission_legal sample_building 0 [''e'', ''Shock''] []" by code_simp+
  with deck_submission_gate [OF wf ho fits(1,3)] deck_submission_gate [OF wf ho fits(2,3)] show ?thesis by metis
qed

text \<open>
  An accepted deck is stored under the player of the seat and nothing else changes, except that the
  session leaves deck building exactly when every human at the table has submitted: to the pairings of
  a tournament, or to completion where the kind of draft has none.
\<close>

theorem deck_submission_effect:
  assumes "apply_submit_deck ho s seat main_deck commanders = (s', Ok ds)"
  shows "\<exists>p. seat_player_id s seat = Some p \<and>
    s' = s\<lparr>submitted_decks := (submitted_decks s)(p \<mapsto> \<lparr>sub_seat = seat, sub_main_deck = main_deck, sub_commanders = commanders\<rparr>),
           status := status s'\<rparr> \<and>
    status s' = (if \<forall>x\<in>set (seats s). \<forall>q. human_player x = Some q \<longrightarrow> submitted_decks s' q \<noteq> None
      then status_after_drafting (draft_kind_of s) else Deckbuilding)"
proof -
  obtain p where p: "seat_player_id s seat = Some p"
    "status s' = (if \<forall>x\<in>set (seats s). \<forall>q. human_player x = Some q \<longrightarrow> submitted_decks s' q \<noteq> None
      then status_after_drafting (draft_kind_of s) else Deckbuilding)"
    using submit_deck_effect [OF assms] by metis
  have "s' = s\<lparr>submitted_decks := (submitted_decks s)(p \<mapsto> \<lparr>sub_seat = seat, sub_main_deck = main_deck, sub_commanders = commanders\<rparr>),
           status := status s'\<rparr>"
    using assms p(1)
    by (auto simp: apply_submit_deck_def record_submission_def Let_def split: if_splits option.splits rust_result.splits)
  with p show ?thesis by blast
qed

text \<open>
  C34. A started sealed session passes the import check exactly when every seat opened as many cards as
  seat 0 did. Chaos layouts, which sealed admits, can deal seats differently, and such a session cannot
  be imported again.
\<close>

theorem sealed_snapshot_exact:
  assumes "undealt s" and "draft_kind_of s = cfg_kind (config s)"
    and "proc_distribution (kind_procedure (draft_kind_of s)) = AllAtOnce"
    and "unat (cfg_pod_size (config s)) = length (seats s)" "0 < length (seats s)"
    and "apply_start_draft g s (Some src) = (s', Ok ds)"
    and "generate_packs src (seed_from_u64 g (cfg_rng_seed (config s))) (config s) (as_u8 (length (seats s))) = (Ok all_packs, r)"
    and "\<forall>row\<in>set all_packs. \<forall>p\<in>set row. length p < 256"
  shows "validate_persisted_snapshot s' = Ok () \<longleftrightarrow> (\<forall>row\<in>set all_packs. length (concat row) = length (concat (hd all_packs)))"
  by (rule sealed_snapshot [OF assms])

text \<open>A Chaos sealed event whose second set has larger boosters.\<close>

definition sample_chaos :: draft_session where
  "sample_chaos =
     new_session ((sample_config Sealed)\<lparr>cfg_source := SetSource (Chaos [''TST'', ''BIG''] [replicate 6 ''TST'', replicate 6 ''BIG'']),
       cfg_set_code := ''TST+BIG''\<rparr>) sample_seats ''D''"

definition sample_chaos_packs :: "draft_pack list list" where
  "sample_chaos_packs = [replicate 6 [sample_card ''a'' None], replicate 6 [sample_card ''b'' None, sample_card ''c'' None]]"

definition sample_chaos_source :: "unit pack_source" where
  "sample_chaos_source = \<lparr>source_booster_pack_pool = None, generate_packs = \<lambda>r cfg n. (Ok sample_chaos_packs, r)\<rparr>"

theorem sealed_snapshot_exact_witness:
  "\<exists>s' ds. apply_start_draft sample_rng sample_chaos (Some sample_chaos_source) = (s', Ok ds) \<and> validate_persisted_snapshot s' \<noteq> Ok ()"
proof -
  have "is_ok (snd (apply_start_draft sample_rng sample_chaos (Some sample_chaos_source)))" by code_simp
  then obtain s' ds where e: "apply_start_draft sample_rng sample_chaos (Some sample_chaos_source) = (s', Ok ds)"
    by (metis is_ok_iff prod.collapse)
  have un: "undealt sample_chaos" unfolding sample_chaos_def by (rule new_session_undealt) (simp add: sample_seats_length)
  have kind: "draft_kind_of sample_chaos = cfg_kind (config sample_chaos)" "cfg_kind (config sample_chaos) = Sealed" "seats sample_chaos = sample_seats"
    "cfg_pod_size (config sample_chaos) = 2" by (simp_all add: sample_chaos_def new_session_fields sample_config_def)
  have "validate_persisted_snapshot s' = Ok () \<longleftrightarrow> (\<forall>row\<in>set sample_chaos_packs. length (concat row) = length (concat (hd sample_chaos_packs)))"
    by (rule sealed_snapshot_exact [OF un kind(1) _ _ _ e])
       (simp_all add: kind sample_seats_length sample_chaos_source_def, auto simp: sample_chaos_packs_def)
  moreover have "\<not> (\<forall>row\<in>set sample_chaos_packs. length (concat row) = length (concat (hd sample_chaos_packs)))" by code_simp
  ultimately show ?thesis using e by blast
qed

text \<open>
  The recorded sizes are those of seat 0. In this event seat 1 opened six boosters of two cards; its view
  splits them into six boosters of one card and a seventh of six.
\<close>

lemma sealed_chaos_boosters_missplit:
  "let s = fst (apply_start_draft sample_rng sample_chaos (Some sample_chaos_source))
   in map length (sample_chaos_packs ! 1) = [2, 2, 2, 2, 2, 2]
    \<and> map length (split_by_pack_size (viewer_pool s 1) s) = [1, 1, 1, 1, 1, 1, 6]"
  by code_simp

text \<open>
  A sealed event shows every seat its boosters as they were opened: the pool is stored flat, and where a seat's
  boosters have the sizes recorded for the session, its view cuts the pool into exactly the boosters the pack
  source generated for that seat, in order.
\<close>

theorem sealed_boosters_restored:
  assumes "length the_seats < 256" and "proc_distribution (kind_procedure (cfg_kind cfg)) = AllAtOnce"
    and "apply_action g ho (Some src) (new_session cfg the_seats code) StartDraft = (s, Ok ds)"
    and "generate_packs src (seed_from_u64 g (cfg_rng_seed cfg)) cfg (as_u8 (length the_seats)) = (Ok all_packs, r)"
    and "unat seat < length the_seats" and "map length (all_packs ! unat seat) = map length (hd all_packs)"
    and "\<forall>p\<in>set (hd all_packs). 0 < length p \<and> length p < 256"
  shows "\<exists>v. filter_for_player s seat = Some v \<and> pv_sealed_packs v = Some (all_packs ! unat seat)"
proof (rule sealed_view_packs [where s = "new_session cfg the_seats code" and g = g and src = src and r = r])
  show "undealt (new_session cfg the_seats code)" using assms(1) by (rule new_session_undealt)
qed (use assms in \<open>simp_all add: apply_action_def new_session_fields\<close>)

text \<open>
  A start that is refused leaves a lobby that can be started again: nothing but the record of the
  boosters that were opened (their sizes and the booster pool) may differ.
\<close>

theorem failed_start_changes_only_pack_records:
  assumes "apply_start_draft g s source = (s', Err e)"
  shows "\<exists>pool sizes. s' = s\<lparr>booster_pack_pool := pool, pack_sizes := sizes\<rparr>"
proof -
  have same: "\<exists>pool sizes. t = t\<lparr>booster_pack_pool := pool, pack_sizes := sizes\<rparr>" for t :: draft_session
    by (intro exI [of _ "booster_pack_pool t"] exI [of _ "pack_sizes t"]) simp
  show ?thesis
    using assms
    by (auto simp: apply_start_draft_def deal_all_at_once_def deal_shared_stack_def deal_pick_and_pass_def Let_def
        intro: same split: if_splits option.splits rust_result.splits prod.splits pack_distribution.splits)
qed

end
